(* ===== verification/Prelude.thy ===== *)
theory Prelude
  imports Main "HOL-Library.Word"
begin

text \<open>
  What every component shares: Go's byte strings and the ASCII bytes the code names, the collections
  of rewrite rules (\<open>parser_frame\<close>: what an operation leaves unchanged, \<open>codec\<close>: round trips and
  lengths of encodings), and a few facts on lists, bytes and results.

  A Go \<^verbatim>\<open>string\<close> and a \<^verbatim>\<open>[]byte\<close> are both a list of bytes, a \<^verbatim>\<open>rune\<close> (int32) is an \<open>int\<close>,
  a function that returns \<^verbatim>\<open>(T, error)\<close> returns \<open>Inl error\<close> or \<open>Inr value\<close>.
\<close>

type_synonym byte = "8 word"
type_synonym bytes = "8 word list"
type_synonym rune = int

named_theorems parser_frame \<open>what a parser operation keeps\<close>
named_theorems codec \<open>round trips and lengths of encoders\<close>

definition ascii :: "string \<Rightarrow> bytes" where
  "ascii s = map of_char s"

abbreviation cTAB :: byte where "cTAB \<equiv> 0x09"
abbreviation cLF :: byte where "cLF \<equiv> 0x0A"
abbreviation cCR :: byte where "cCR \<equiv> 0x0D"
abbreviation cSPACE :: byte where "cSPACE \<equiv> 0x20"
abbreviation cQUOTE :: byte where "cQUOTE \<equiv> 0x22"
abbreviation cPLUS :: byte where "cPLUS \<equiv> 0x2B"
abbreviation cCOMMA :: byte where "cCOMMA \<equiv> 0x2C"
abbreviation cMINUS :: byte where "cMINUS \<equiv> 0x2D"
abbreviation cDOT :: byte where "cDOT \<equiv> 0x2E"
abbreviation cSLASH :: byte where "cSLASH \<equiv> 0x2F"
abbreviation cZERO :: byte where "cZERO \<equiv> 0x30"
abbreviation cNINE :: byte where "cNINE \<equiv> 0x39"
abbreviation cCOLON :: byte where "cCOLON \<equiv> 0x3A"
abbreviation cLBRACK :: byte where "cLBRACK \<equiv> 0x5B"
abbreviation cBSLASH :: byte where "cBSLASH \<equiv> 0x5C"
abbreviation cRBRACK :: byte where "cRBRACK \<equiv> 0x5D"
abbreviation cLBRACE :: byte where "cLBRACE \<equiv> 0x7B"
abbreviation cRBRACE :: byte where "cRBRACE \<equiv> 0x7D"

text \<open>The value of a byte as an integer; comparisons of bytes are comparisons of these.\<close>

lemma byte_uint_bounds [simp]: "0 \<le> uint (b::byte)" "uint (b::byte) < 256" "uint (b::byte) \<le> 255"
  using uint_lt2p [of b] by auto

text \<open>Go's conversion \<^verbatim>\<open>byte(x)\<close>.\<close>

definition byte_of :: "int \<Rightarrow> byte" where
  "byte_of x = word_of_int x"

lemma uint_byte_of: "0 \<le> x \<Longrightarrow> x < 256 \<Longrightarrow> uint (byte_of x) = x"
  by (simp add: byte_of_def uint_word_of_int)

lemma byte_of_uint [simp]: "byte_of (uint b) = b"
  by (simp add: byte_of_def)

lemma byte_less_iff: "(a::byte) < b \<longleftrightarrow> uint a < uint b"
  by (simp add: word_less_def)

lemma byte_le_iff: "(a::byte) \<le> b \<longleftrightarrow> uint a \<le> uint b"
  by (simp add: word_le_def)

lemma byte_eq_iff: "(a::byte) = b \<longleftrightarrow> uint a = uint b"
  by (simp add: word_uint_eq_iff)

lemmas byte_uint = byte_less_iff byte_le_iff byte_eq_iff

lemma nth_drop_hd: "i < length xs \<Longrightarrow> drop i xs = xs ! i # drop (Suc i) xs"
  by (simp add: Cons_nth_drop_Suc)

lemma drop_eq_Cons_nth: "drop i xs = y # ys \<Longrightarrow> i < length xs \<and> xs ! i = y \<and> drop (Suc i) xs = ys"
  by (metis Cons_nth_drop_Suc drop_eq_Nil list.distinct(1) list.inject not_le_imp_less)

end
