(* ===== verification/Jcserr.thy ===== *)
theory Jcserr
  imports Prelude
begin

text \<open>
  The failure taxonomy of package jcserr (src/jcserr/errors.go): failure classes, their wire names and
  exit codes, the structured error and its constructors.

  A message is kept as the call that builds it: \<open>Sprintf format arguments\<close>. The text \<^verbatim>\<open>fmt\<close> renders is
  not modelled, the class and the offset are; callers switch on the class.
\<close>

datatype FailureClass =
    InvalidUTF8 | InvalidGrammar | DuplicateKey | LoneSurrogate | Noncharacter
  | NumberOverflow | NumberNegZero | NumberUnderflow | BoundExceeded | NotCanonical
  | CLIUsage | InternalIO | InternalError

fun class_name :: "FailureClass \<Rightarrow> string" where
  "class_name InvalidUTF8 = ''INVALID_UTF8''"
| "class_name InvalidGrammar = ''INVALID_GRAMMAR''"
| "class_name DuplicateKey = ''DUPLICATE_KEY''"
| "class_name LoneSurrogate = ''LONE_SURROGATE''"
| "class_name Noncharacter = ''NONCHARACTER''"
| "class_name NumberOverflow = ''NUMBER_OVERFLOW''"
| "class_name NumberNegZero = ''NUMBER_NEGZERO''"
| "class_name NumberUnderflow = ''NUMBER_UNDERFLOW''"
| "class_name BoundExceeded = ''BOUND_EXCEEDED''"
| "class_name NotCanonical = ''NOT_CANONICAL''"
| "class_name CLIUsage = ''CLI_USAGE''"
| "class_name InternalIO = ''INTERNAL_IO''"
| "class_name InternalError = ''INTERNAL_ERROR''"

fun ExitCode :: "FailureClass \<Rightarrow> int" where
  "ExitCode InternalIO = 10"
| "ExitCode InternalError = 10"
| "ExitCode _ = 2"

datatype fmt_arg = FInt int | FByte byte | FBytes bytes | FClass FailureClass | FRune rune | FText string

datatype message = Sprintf string "fmt_arg list"

abbreviation Msg :: "string \<Rightarrow> message" where
  "Msg s \<equiv> Sprintf s []"

text \<open>
  \<open>Cause\<close> is the wrapped error: another structured error, or an error value of the standard library
  or of an environment call, which is opaque.
\<close>

datatype jcserr = Error (Class: FailureClass) (Offset: int) (Message: message) (Cause: "cause option")
  and cause = JcsCause jcserr | OtherCause string

definition New :: "FailureClass \<Rightarrow> int \<Rightarrow> message \<Rightarrow> jcserr" where
  "New class offset message = Error class offset message None"

definition Wrap :: "FailureClass \<Rightarrow> int \<Rightarrow> message \<Rightarrow> cause \<Rightarrow> jcserr" where
  "Wrap class offset message cause = Error class offset message (Some cause)"

definition Unwrap :: "jcserr \<Rightarrow> cause option" where
  "Unwrap e = Cause e"

text \<open>
  \<^verbatim>\<open>Error()\<close> renders the class, the offset when it is not negative, the message and the chain of causes.
  The rendering of a message is the parameter \<open>render\<close>, that of an opaque cause its own text, and an
  integer is printed by the parameter \<open>itoa\<close>.
\<close>

fun error_string :: "(message \<Rightarrow> string) \<Rightarrow> (int \<Rightarrow> string) \<Rightarrow> jcserr \<Rightarrow> string"
  and cause_string :: "(message \<Rightarrow> string) \<Rightarrow> (int \<Rightarrow> string) \<Rightarrow> cause \<Rightarrow> string" where
  "error_string render itoa (Error c off msg cause) =
     (let base = (if off \<ge> 0
                  then ''jcserr: '' @ class_name c @ '' at byte '' @ itoa off @ '': '' @ render msg
                  else ''jcserr: '' @ class_name c @ '': '' @ render msg)
      in (case cause of None \<Rightarrow> base | Some c' \<Rightarrow> base @ '': '' @ cause_string render itoa c'))"
| "cause_string render itoa (JcsCause e) = error_string render itoa e"
| "cause_string render itoa (OtherCause s) = s"

text \<open>
  A call may also leave the normal path altogether: \<open>Abort\<close> is a run-time panic (an index out of range)
  or a loop that does not return. Theorems state that it does not happen.
\<close>

datatype fault = Fail jcserr | Abort

lemma Class_New [simp]: "Class (New c off m) = c" and Offset_New [simp]: "Offset (New c off m) = off"
  by (simp_all add: New_def)

lemma Class_Wrap [simp]: "Class (Wrap c off m x) = c" and Offset_Wrap [simp]: "Offset (Wrap c off m x) = off"
  by (simp_all add: Wrap_def)

text \<open>The classes an input can be rejected with: everything but usage, environment and internal failures.\<close>

definition input_class :: "FailureClass \<Rightarrow> bool" where
  "input_class c \<longleftrightarrow> c \<notin> {NotCanonical, CLIUsage, InternalIO, InternalError}"

lemma input_class_exit: "input_class c \<Longrightarrow> ExitCode c = 2"
  by (cases c) (auto simp: input_class_def)

lemma ExitCode_cases: "ExitCode c = (if c \<in> {InternalIO, InternalError} then 10 else 2)"
  by (cases c) auto

lemma class_name_inject: "class_name a = class_name b \<Longrightarrow> a = b"
  by (cases a; cases b) simp_all

end
