(* ===== verification/Token_Types.thy ===== *)
theory Token_Types
  imports Jcserr
begin

text \<open>
  The data of package jcstoken (src/jcstoken/token.go, lines 23 to 140): the JSON value tree, the limits
  a caller may set, and the state of the parser.

  A number is the 64 bits of its double (\<^verbatim>\<open>math.Float64bits\<close>). The counters of the parser are natural
  numbers: they only grow by one per input byte or value and so stay far below the range of Go's int.
  The limits of a parser come from \<open>resolveOption\<close> and are never negative.
\<close>

definition DefaultMaxDepth :: int where "DefaultMaxDepth = 1000"
definition DefaultMaxInputSize :: int where "DefaultMaxInputSize = 64 * 1024 * 1024"
definition DefaultMaxValues :: int where "DefaultMaxValues = 1000000"
definition DefaultMaxObjectMembers :: int where "DefaultMaxObjectMembers = 250000"
definition DefaultMaxArrayElements :: int where "DefaultMaxArrayElements = 250000"
definition DefaultMaxStringBytes :: int where "DefaultMaxStringBytes = 8 * 1024 * 1024"
definition DefaultMaxNumberChars :: int where "DefaultMaxNumberChars = 4096"

lemmas default_defs =
  DefaultMaxDepth_def DefaultMaxInputSize_def DefaultMaxValues_def DefaultMaxObjectMembers_def
  DefaultMaxArrayElements_def DefaultMaxStringBytes_def DefaultMaxNumberChars_def

text \<open>\<open>KindUnknown\<close> is any other value of the Go type \<^verbatim>\<open>Kind int\<close>, for the \<^verbatim>\<open>default\<close> branches.\<close>

datatype Kind = KindNull | KindBool | KindNumber | KindString | KindArray | KindObject | KindUnknown int

datatype Value =
    Value (VKind: Kind) (Str: bytes) (Num: "64 word") (Members: "Member list") (Elems: "Value list")
  and Member = Member (Key: bytes) (MValue: Value)

text \<open>The composite literals of the code leave the other fields at their zero values.\<close>

abbreviation NullValue :: Value where "NullValue \<equiv> Value KindNull [] 0 [] []"
abbreviation BoolValue :: "bytes \<Rightarrow> Value" where "BoolValue s \<equiv> Value KindBool s 0 [] []"
abbreviation NumberValue :: "64 word \<Rightarrow> Value" where "NumberValue f \<equiv> Value KindNumber [] f [] []"
abbreviation StringValue :: "bytes \<Rightarrow> Value" where "StringValue s \<equiv> Value KindString s 0 [] []"
abbreviation ArrayValue :: "Value list \<Rightarrow> Value" where "ArrayValue es \<equiv> Value KindArray [] 0 [] es"
abbreviation ObjectValue :: "Member list \<Rightarrow> Value" where "ObjectValue ms \<equiv> Value KindObject [] 0 ms []"

record Options =
  MaxDepth :: int
  MaxInputSize :: int
  MaxValues :: int
  MaxObjectMembers :: int
  MaxArrayElements :: int
  MaxStringBytes :: int
  MaxNumberChars :: int

definition resolveOption :: "int \<Rightarrow> int \<Rightarrow> int" where
  "resolveOption val def = (if val > 0 then val else def)"

text \<open>The seven accessors of \<^verbatim>\<open>*Options\<close>; a nil pointer is \<open>None\<close>.\<close>

definition opt_maxDepth :: "Options option \<Rightarrow> int" where
  "opt_maxDepth opts = (case opts of None \<Rightarrow> DefaultMaxDepth | Some p \<Rightarrow> resolveOption (MaxDepth p) DefaultMaxDepth)"

definition opt_maxInputSize :: "Options option \<Rightarrow> int" where
  "opt_maxInputSize opts =
     (case opts of None \<Rightarrow> DefaultMaxInputSize | Some p \<Rightarrow> resolveOption (MaxInputSize p) DefaultMaxInputSize)"

definition opt_maxValues :: "Options option \<Rightarrow> int" where
  "opt_maxValues opts = (case opts of None \<Rightarrow> DefaultMaxValues | Some p \<Rightarrow> resolveOption (MaxValues p) DefaultMaxValues)"

definition opt_maxObjectMembers :: "Options option \<Rightarrow> int" where
  "opt_maxObjectMembers opts =
     (case opts of None \<Rightarrow> DefaultMaxObjectMembers | Some p \<Rightarrow> resolveOption (MaxObjectMembers p) DefaultMaxObjectMembers)"

definition opt_maxArrayElements :: "Options option \<Rightarrow> int" where
  "opt_maxArrayElements opts =
     (case opts of None \<Rightarrow> DefaultMaxArrayElements | Some p \<Rightarrow> resolveOption (MaxArrayElements p) DefaultMaxArrayElements)"

definition opt_maxStringBytes :: "Options option \<Rightarrow> int" where
  "opt_maxStringBytes opts =
     (case opts of None \<Rightarrow> DefaultMaxStringBytes | Some p \<Rightarrow> resolveOption (MaxStringBytes p) DefaultMaxStringBytes)"

definition opt_maxNumberChars :: "Options option \<Rightarrow> int" where
  "opt_maxNumberChars opts =
     (case opts of None \<Rightarrow> DefaultMaxNumberChars | Some p \<Rightarrow> resolveOption (MaxNumberChars p) DefaultMaxNumberChars)"

lemmas opt_defs =
  opt_maxDepth_def opt_maxInputSize_def opt_maxValues_def opt_maxObjectMembers_def
  opt_maxArrayElements_def opt_maxStringBytes_def opt_maxNumberChars_def

lemma opt_pos:
  "0 < opt_maxDepth opts" "0 < opt_maxInputSize opts" "0 < opt_maxValues opts" "0 < opt_maxObjectMembers opts"
  "0 < opt_maxArrayElements opts" "0 < opt_maxStringBytes opts" "0 < opt_maxNumberChars opts"
  by (simp_all add: opt_defs default_defs resolveOption_def split: option.split)

record parser =
  data :: bytes
  pos :: nat
  depth :: nat
  valueCount :: nat
  maxDepth :: int
  maxValues :: int
  maxObjectMembers :: int
  maxArrayElements :: int
  maxStringBytes :: int
  maxNumberChars :: int

text \<open>
  What no operation of the parser changes: the input and the limits. \<open>same_env p q\<close> is the frame
  condition between the state before and after.
\<close>

definition same_env :: "parser \<Rightarrow> parser \<Rightarrow> bool" where
  "same_env p q \<longleftrightarrow> data q = data p \<and> maxDepth q = maxDepth p \<and> maxValues q = maxValues p
     \<and> maxObjectMembers q = maxObjectMembers p \<and> maxArrayElements q = maxArrayElements p
     \<and> maxStringBytes q = maxStringBytes p \<and> maxNumberChars q = maxNumberChars p"

lemma same_env_refl [simp]: "same_env p p"
  by (simp add: same_env_def)

lemma same_env_trans: "same_env p q \<Longrightarrow> same_env q r \<Longrightarrow> same_env p r"
  by (simp add: same_env_def)

lemma same_env_update [simp]:
  "same_env p (q\<lparr>pos := i\<rparr>) = same_env p q" "same_env p (q\<lparr>depth := i\<rparr>) = same_env p q"
  "same_env p (q\<lparr>valueCount := i\<rparr>) = same_env p q"
  "same_env (p\<lparr>pos := i\<rparr>) q = same_env p q" "same_env (p\<lparr>depth := i\<rparr>) q = same_env p q"
  "same_env (p\<lparr>valueCount := i\<rparr>) q = same_env p q"
  by (simp_all add: same_env_def)

lemma same_env_data: "same_env p q \<Longrightarrow> data q = data p"
  by (simp add: same_env_def)

end
