(* ===== verification/Utf.thy ===== *)
theory Utf
  imports Prelude
begin

text \<open>
  The parts of Go's \<^verbatim>\<open>unicode/utf8\<close> and \<^verbatim>\<open>unicode/utf16\<close> the program calls: decoding and encoding one rune,
  validity of a byte string, the runes of a string, UTF-16 code units.

  \<open>DecodeRune\<close> returns \<open>(RuneError, 1)\<close> on any encoding RFC 3629 does not allow (overlong forms,
  surrogates, code points beyond U+10FFFF, truncation) and \<open>(RuneError, 0)\<close> on the empty string.
\<close>

definition RuneError :: rune where "RuneError = 0xFFFD"

definition is_surrogate :: "rune \<Rightarrow> bool" where
  "is_surrogate r \<longleftrightarrow> 0xD800 \<le> r \<and> r \<le> 0xDFFF"

definition scalar :: "rune \<Rightarrow> bool" where
  "scalar r \<longleftrightarrow> 0 \<le> r \<and> r \<le> 0x10FFFF \<and> \<not> is_surrogate r"

text \<open>Size of the sequence a lead byte announces and the range of its second byte.\<close>

definition lead_info :: "byte \<Rightarrow> (nat \<times> byte \<times> byte) option" where
  "lead_info b =
     (if b < 0xC2 then None
      else if b < 0xE0 then Some (2, 0x80, 0xBF)
      else if b = 0xE0 then Some (3, 0xA0, 0xBF)
      else if b = 0xED then Some (3, 0x80, 0x9F)
      else if b < 0xF0 then Some (3, 0x80, 0xBF)
      else if b = 0xF0 then Some (4, 0x90, 0xBF)
      else if b < 0xF4 then Some (4, 0x80, 0xBF)
      else if b = 0xF4 then Some (4, 0x80, 0x8F)
      else None)"

definition cont :: "byte \<Rightarrow> bool" where
  "cont b \<longleftrightarrow> 0x80 \<le> b \<and> b \<le> 0xBF"

definition payload :: "byte \<Rightarrow> int" where
  "payload b = uint b - 0x80"

text \<open>What the first byte contributes: the bits after its length prefix.\<close>

definition lead_bits :: "nat \<Rightarrow> byte \<Rightarrow> int" where
  "lead_bits n b = uint b - (if n = 2 then 0xC0 else if n = 3 then 0xE0 else 0xF0)"

definition decode_seq :: "bytes \<Rightarrow> (rune \<times> nat) option" where
  "decode_seq s = (case s of [] \<Rightarrow> None | b0 # t \<Rightarrow>
     if b0 < 0x80 then Some (uint b0, 1)
     else (case lead_info b0 of None \<Rightarrow> None | Some (n, lo, hi) \<Rightarrow>
       let tail = take (n - 1) t in
       if length s < n \<or> \<not> (lo \<le> hd tail \<and> hd tail \<le> hi) \<or> \<not> list_all cont (tl tail) then None
       else Some (foldl (\<lambda>acc b. acc * 64 + payload b) (lead_bits n b0) tail, n)))"

definition DecodeRune :: "bytes \<Rightarrow> rune \<times> nat" where
  "DecodeRune s = (case decode_seq s of Some x \<Rightarrow> x | None \<Rightarrow> (RuneError, if s = [] then 0 else 1))"

definition EncodeRune :: "rune \<Rightarrow> bytes" where
  "EncodeRune r0 =
     (let r = (if scalar r0 then r0 else RuneError) in
      if r < 0x80 then [byte_of r]
      else if r < 0x800 then [byte_of (0xC0 + r div 64), byte_of (0x80 + r mod 64)]
      else if r < 0x10000 then
        [byte_of (0xE0 + r div 4096), byte_of (0x80 + r div 64 mod 64), byte_of (0x80 + r mod 64)]
      else [byte_of (0xF0 + r div 262144), byte_of (0x80 + r div 4096 mod 64),
            byte_of (0x80 + r div 64 mod 64), byte_of (0x80 + r mod 64)])"

lemma lead_info_size: "lead_info b = Some (n, lo, hi) \<Longrightarrow> n \<in> {2, 3, 4}"
  by (auto simp: lead_info_def split: if_splits)

lemma decode_seq_size: "decode_seq s = Some (r, n) \<Longrightarrow> 0 < n \<and> n \<le> 4 \<and> n \<le> length s"
  by (auto simp: decode_seq_def Let_def split: list.splits option.splits if_splits dest: lead_info_size)

lemma DecodeRune_size: "s \<noteq> [] \<Longrightarrow> 0 < snd (DecodeRune s) \<and> snd (DecodeRune s) \<le> length s"
  by (cases s) (auto simp: DecodeRune_def dest: decode_seq_size split: option.splits)

lemma DecodeRune_size_le4: "snd (DecodeRune s) \<le> 4"
  by (auto simp: DecodeRune_def dest: decode_seq_size split: option.splits)

lemma DecodeRune_pos [simp]: "s \<noteq> [] \<Longrightarrow> 0 < snd (DecodeRune s)"
  using DecodeRune_size by blast

text \<open>\<^verbatim>\<open>utf8.Valid\<close>, and the conversion \<^verbatim>\<open>[]rune(s)\<close>, which maps each undecodable byte to U+FFFD.\<close>

function utf8_Valid :: "bytes \<Rightarrow> bool" where
  "utf8_Valid s = (if s = [] then True
     else (let (r, n) = DecodeRune s in
       if r = RuneError \<and> n = 1 then False else utf8_Valid (drop n s)))"
  by pat_completeness auto
termination
  by (relation "measure length") (auto dest: DecodeRune_size simp: prod_eq_iff)

function runes :: "bytes \<Rightarrow> rune list" where
  "runes s = (if s = [] then [] else (let (r, n) = DecodeRune s in r # runes (drop n s)))"
  by pat_completeness auto
termination
  by (relation "measure length") (auto dest: DecodeRune_size simp: prod_eq_iff)

declare utf8_Valid.simps [simp del] runes.simps [simp del]

text \<open>\<^verbatim>\<open>utf16.IsSurrogate\<close>, \<^verbatim>\<open>utf16.DecodeRune\<close> and \<^verbatim>\<open>utf16.Encode\<close>.\<close>

definition utf16_DecodeRune :: "rune \<Rightarrow> rune \<Rightarrow> rune" where
  "utf16_DecodeRune r1 r2 =
     (if 0xD800 \<le> r1 \<and> r1 < 0xDC00 \<and> 0xDC00 \<le> r2 \<and> r2 < 0xE000
      then (r1 - 0xD800) * 1024 + (r2 - 0xDC00) + 0x10000 else RuneError)"

definition utf16_unit :: "rune \<Rightarrow> int list" where
  "utf16_unit r =
     (if (0 \<le> r \<and> r < 0xD800) \<or> (0xE000 \<le> r \<and> r < 0x10000) then [r]
      else if 0x10000 \<le> r \<and> r \<le> 0x10FFFF
        then [0xD800 + (r - 0x10000) div 1024, 0xDC00 + (r - 0x10000) mod 1024]
      else [RuneError])"

definition utf16_Encode :: "rune list \<Rightarrow> int list" where
  "utf16_Encode rs = concat (map utf16_unit rs)"

section \<open>Encoding and decoding are inverse\<close>

lemma EncodeRune_length: "length (EncodeRune r) \<in> {1, 2, 3, 4}"
  by (simp add: EncodeRune_def Let_def)

lemma EncodeRune_nonempty [simp]: "EncodeRune r \<noteq> []"
  by (simp add: EncodeRune_def Let_def)

lemma sext_split:
  fixes a p :: int
  assumes "0 \<le> p" "p < 64"
  shows "(a * 64 + p) div 64 = a" and "(a * 64 + p) mod 64 = p"
  using assms by auto

lemma div_sext:
  fixes r :: int
  shows "r div 4096 = r div 64 div 64" and "r div 262144 = r div 64 div 64 div 64"
  by (simp_all flip: zdiv_zmult2_eq)

lemma sext_join: "r div 64 * 64 + r mod 64 = (r::int)"
  by simp

lemma payload_bounds: "cont b \<Longrightarrow> 0 \<le> payload b \<and> payload b < 64"
  by (auto simp: cont_def payload_def byte_le_iff)

lemma byte_of_payload: "byte_of (0x80 + payload b) = b"
  by (simp add: payload_def)

lemma payload_byte_of: "0 \<le> p \<Longrightarrow> p < 64 \<Longrightarrow> payload (byte_of (0x80 + p)) = p"
  by (simp add: payload_def uint_byte_of)

lemma decode_encode1:
  assumes "scalar r" "r < 0x80"
  shows "decode_seq (EncodeRune r @ rest) = Some (r, 1)"
proof -
  have "uint (byte_of r) = r" using assms by (auto simp: scalar_def intro: uint_byte_of)
  with assms show ?thesis by (simp add: EncodeRune_def decode_seq_def byte_less_iff)
qed

lemma lead_info2:
  "0xC2 \<le> uint b \<Longrightarrow> uint b < 0xE0 \<Longrightarrow> lead_info b = Some (2, 0x80, 0xBF)"
  by (simp add: lead_info_def byte_less_iff)

lemma lead_info3:
  "0xE0 \<le> uint b \<Longrightarrow> uint b < 0xF0 \<Longrightarrow> lead_info b =
     Some (3, if uint b = 0xE0 then 0xA0 else 0x80, if uint b = 0xED then 0x9F else 0xBF)"
  by (auto simp add: lead_info_def byte_less_iff byte_eq_iff)

lemma lead_info4:
  "0xF0 \<le> uint b \<Longrightarrow> uint b < 0xF5 \<Longrightarrow> lead_info b =
     Some (4, if uint b = 0xF0 then 0x90 else 0x80, if uint b = 0xF4 then 0x8F else 0xBF)"
  by (auto simp add: lead_info_def byte_less_iff byte_eq_iff)

lemma lead_info_cases:
  assumes "lead_info b = Some (n, lo, hi)"
  obtains "n = 2" "0xC2 \<le> uint b" "uint b < 0xE0"
  | "n = 3" "0xE0 \<le> uint b" "uint b < 0xF0"
  | "n = 4" "0xF0 \<le> uint b" "uint b < 0xF5"
  using assms by (auto simp: lead_info_def byte_less_iff byte_eq_iff split: if_splits)

lemma cont_uint: "cont b \<longleftrightarrow> 0x80 \<le> uint b \<and> uint b \<le> 0xBF"
  by (simp add: cont_def byte_le_iff)

lemma decode_seq_eqs:
  "lead_info b0 = Some (2, lo, hi) \<Longrightarrow> \<not> b0 < 0x80 \<Longrightarrow> lo \<le> b1 \<Longrightarrow> b1 \<le> hi \<Longrightarrow>
     decode_seq (b0 # b1 # t) = Some ((uint b0 - 0xC0) * 64 + payload b1, 2)"
  "lead_info b0 = Some (3, lo, hi) \<Longrightarrow> \<not> b0 < 0x80 \<Longrightarrow> lo \<le> b1 \<Longrightarrow> b1 \<le> hi \<Longrightarrow> cont b2 \<Longrightarrow>
     decode_seq (b0 # b1 # b2 # t) = Some (((uint b0 - 0xE0) * 64 + payload b1) * 64 + payload b2, 3)"
  "lead_info b0 = Some (4, lo, hi) \<Longrightarrow> \<not> b0 < 0x80 \<Longrightarrow> lo \<le> b1 \<Longrightarrow> b1 \<le> hi \<Longrightarrow> cont b2 \<Longrightarrow> cont b3 \<Longrightarrow>
     decode_seq (b0 # b1 # b2 # b3 # t) =
       Some ((((uint b0 - 0xF0) * 64 + payload b1) * 64 + payload b2) * 64 + payload b3, 4)"
  by (simp_all add: decode_seq_def lead_bits_def)

lemma decode_encode2:
  assumes "scalar r" "0x80 \<le> r" "r < 0x800"
  shows "decode_seq (EncodeRune r @ rest) = Some (r, 2)"
proof -
  define q where "q = r div 64"
  let ?b0 = "byte_of (0xC0 + q)" and ?b1 = "byte_of (0x80 + r mod 64)"
  have q: "2 \<le> q" "q < 32" using assms(2,3) by (auto simp: q_def)
  have u0: "uint ?b0 = 0xC0 + q" using q by (intro uint_byte_of) auto
  have u1: "uint ?b1 = 0x80 + r mod 64" using pos_mod_bound [of 64 r] by (intro uint_byte_of) auto
  have "lead_info ?b0 = Some (2, 0x80, 0xBF)" using q by (intro lead_info2) (simp_all add: u0)
  moreover have "\<not> ?b0 < 0x80" "0x80 \<le> ?b1" "?b1 \<le> 0xBF"
    using q pos_mod_bound [of 64 r] by (simp_all add: byte_less_iff byte_le_iff u0 u1)
  ultimately have "decode_seq (?b0 # ?b1 # rest) = Some ((uint ?b0 - 0xC0) * 64 + payload ?b1, 2)"
    by (rule decode_seq_eqs(1))
  then have "decode_seq (?b0 # ?b1 # rest) = Some (q * 64 + r mod 64, 2)"
    by (simp add: u0 payload_byte_of)
  then show ?thesis using assms by (simp add: EncodeRune_def q_def)
qed

lemma decode_encode3:
  assumes "scalar r" "0x800 \<le> r" "r < 0x10000"
  shows "decode_seq (EncodeRune r @ rest) = Some (r, 3)"
proof -
  define q where "q = r div 64"
  define p where "p = q div 64"
  define m where "m = q mod 64"
  let ?b0 = "byte_of (0xE0 + p)" and ?b1 = "byte_of (0x80 + m)" and ?b2 = "byte_of (0x80 + r mod 64)"
  have q: "32 \<le> q" "q < 1024" using assms(2,3) by (auto simp: q_def)
  have p: "0 \<le> p" "p < 16" using q by (auto simp: p_def)
  have m: "0 \<le> m" "m < 64" by (auto simp: m_def)
  have qp: "q = p * 64 + m" by (simp add: p_def m_def)
  have u0: "uint ?b0 = 0xE0 + p" using p by (intro uint_byte_of) auto
  have u1: "uint ?b1 = 0x80 + m" using m by (intro uint_byte_of) auto
  have u2: "uint ?b2 = 0x80 + r mod 64" using pos_mod_bound [of 64 r] by (intro uint_byte_of) auto
  have sur: "q < 0x360 \<or> 0x380 \<le> q" using assms by (auto simp: scalar_def is_surrogate_def q_def)
  have li: "lead_info ?b0 = Some (3, if p = 0 then 0xA0 else 0x80, if p = 13 then 0x9F else 0xBF)"
    using lead_info3 [of ?b0] p by (simp add: u0)
  moreover have "\<not> ?b0 < 0x80" "cont ?b2" using p pos_mod_bound [of 64 r]
    by (simp_all add: byte_less_iff cont_uint u0 u2)
  moreover have "(if p = 0 then 0xA0 else 0x80) \<le> ?b1" "?b1 \<le> (if p = 13 then 0x9F else 0xBF)"
    using q qp sur m by (auto simp: byte_le_iff u1)
  ultimately have "decode_seq (?b0 # ?b1 # ?b2 # rest) =
      Some (((uint ?b0 - 0xE0) * 64 + payload ?b1) * 64 + payload ?b2, 3)"
    by (intro decode_seq_eqs(2))
  then have "decode_seq (?b0 # ?b1 # ?b2 # rest) = Some ((p * 64 + m) * 64 + r mod 64, 3)"
    using m by (simp add: u0 payload_byte_of)
  then have "decode_seq (?b0 # ?b1 # ?b2 # rest) = Some (r, 3)"
    by (simp flip: qp add: q_def)
  then show ?thesis using assms by (simp add: EncodeRune_def div_sext q_def p_def m_def)
qed

lemma decode_encode4:
  assumes "scalar r" "0x10000 \<le> r"
  shows "decode_seq (EncodeRune r @ rest) = Some (r, 4)"
proof -
  define q where "q = r div 64"
  define p where "p = q div 64"
  define k where "k = p div 64"
  define m where "m = q mod 64"
  define l where "l = p mod 64"
  let ?b0 = "byte_of (0xF0 + k)" and ?b1 = "byte_of (0x80 + l)" and ?b2 = "byte_of (0x80 + m)"
  let ?b3 = "byte_of (0x80 + r mod 64)"
  have r: "r \<le> 0x10FFFF" using assms by (simp add: scalar_def)
  have q: "1024 \<le> q" "q \<le> 17407" using assms(2) r by (auto simp: q_def)
  have p: "16 \<le> p" "p \<le> 271" using q by (auto simp: p_def)
  have k: "0 \<le> k" "k \<le> 4" using p by (auto simp: k_def)
  have ml: "0 \<le> m" "m < 64" "0 \<le> l" "l < 64" by (auto simp: m_def l_def)
  have qp: "q = p * 64 + m" and pk: "p = k * 64 + l" by (simp_all add: p_def m_def k_def l_def)
  have u0: "uint ?b0 = 0xF0 + k" using k by (intro uint_byte_of) auto
  have u1: "uint ?b1 = 0x80 + l" "uint ?b2 = 0x80 + m" using ml by (auto intro!: uint_byte_of)
  have u3: "uint ?b3 = 0x80 + r mod 64" using pos_mod_bound [of 64 r] by (intro uint_byte_of) auto
  have li: "lead_info ?b0 = Some (4, if k = 0 then 0x90 else 0x80, if k = 4 then 0x8F else 0xBF)"
    using lead_info4 [of ?b0] k by (simp add: u0)
  moreover have "\<not> ?b0 < 0x80" "cont ?b2" "cont ?b3" using k ml pos_mod_bound [of 64 r]
    by (simp_all add: byte_less_iff cont_uint u0 u1 u3)
  moreover have "(if k = 0 then 0x90 else 0x80) \<le> ?b1" "?b1 \<le> (if k = 4 then 0x8F else 0xBF)"
    using p pk ml by (auto simp: byte_le_iff u1)
  ultimately have "decode_seq (?b0 # ?b1 # ?b2 # ?b3 # rest) =
      Some ((((uint ?b0 - 0xF0) * 64 + payload ?b1) * 64 + payload ?b2) * 64 + payload ?b3, 4)"
    by (intro decode_seq_eqs(3))
  then have "decode_seq (?b0 # ?b1 # ?b2 # ?b3 # rest) = Some (((k * 64 + l) * 64 + m) * 64 + r mod 64, 4)"
    using ml by (simp add: u0 payload_byte_of)
  then have "decode_seq (?b0 # ?b1 # ?b2 # ?b3 # rest) = Some (r, 4)"
    by (simp flip: qp pk add: q_def)
  then show ?thesis using assms by (simp add: EncodeRune_def div_sext q_def p_def m_def k_def l_def)
qed

lemma EncodeRune_len:
  "scalar r \<Longrightarrow> length (EncodeRune r) = (if r < 0x80 then 1 else if r < 0x800 then 2 else if r < 0x10000 then 3 else 4)"
  by (simp add: EncodeRune_def Let_def)

lemma decode_encode:
  assumes "scalar r"
  shows "decode_seq (EncodeRune r @ rest) = Some (r, length (EncodeRune r))"
  using decode_encode1 [OF assms] decode_encode2 [OF assms] decode_encode3 [OF assms] decode_encode4 [OF assms]
  by (auto simp: EncodeRune_len [OF assms])

lemma decode_seq2:
  assumes "decode_seq (b0 # t) = Some (r, n)" "\<not> b0 < 0x80" "lead_info b0 = Some (2, lo, hi)"
  obtains b1 rest where "t = b1 # rest" "n = 2" "lo \<le> b1" "b1 \<le> hi" "r = (uint b0 - 0xC0) * 64 + payload b1"
  using assms by (cases t) (auto simp: decode_seq_def Let_def lead_bits_def split: if_splits)

lemma decode_seq3:
  assumes "decode_seq (b0 # t) = Some (r, n)" "\<not> b0 < 0x80" "lead_info b0 = Some (3, lo, hi)"
  obtains b1 b2 rest where "t = b1 # b2 # rest" "n = 3" "lo \<le> b1" "b1 \<le> hi" "cont b2"
    "r = ((uint b0 - 0xE0) * 64 + payload b1) * 64 + payload b2"
  using assms by (cases t; cases "tl t") (auto simp: decode_seq_def Let_def lead_bits_def numeral_3_eq_3 split: if_splits)

lemma decode_seq4:
  assumes "decode_seq (b0 # t) = Some (r, n)" "\<not> b0 < 0x80" "lead_info b0 = Some (4, lo, hi)"
  obtains b1 b2 b3 rest where "t = b1 # b2 # b3 # rest" "n = 4" "lo \<le> b1" "b1 \<le> hi" "cont b2" "cont b3"
    "r = (((uint b0 - 0xF0) * 64 + payload b1) * 64 + payload b2) * 64 + payload b3"
  using assms by (cases t; cases "tl t"; cases "tl (tl t)")
    (auto simp: decode_seq_def Let_def lead_bits_def numeral_3_eq_3 split: if_splits)

lemma decode_sound2:
  assumes "decode_seq (b0 # t) = Some (r, n)" "\<not> b0 < 0x80" "lead_info b0 = Some (2, lo, hi)"
  shows "scalar r \<and> take n (b0 # t) = EncodeRune r \<and> n = length (EncodeRune r)"
proof -
  obtain b1 rest where *: "t = b1 # rest" "n = 2" "lo \<le> b1" "b1 \<le> hi" "r = (uint b0 - 0xC0) * 64 + payload b1"
    using assms by (rule decode_seq2)
  have b0: "0xC2 \<le> uint b0" "uint b0 < 0xE0" using assms(3) by (auto elim: lead_info_cases)
  then have b1: "0x80 \<le> uint b1" "uint b1 \<le> 0xBF"
    using * assms(3) by (auto simp: lead_info2 byte_le_iff)
  have r: "0x80 \<le> r" "r < 0x800" using * b0 b1 by (auto simp: payload_def)
  have sc: "scalar r" using r by (simp add: scalar_def is_surrogate_def)
  have d: "r div 64 = uint b0 - 0xC0" "r mod 64 = payload b1"
    using b1 sext_split [of "payload b1" "uint b0 - 0xC0"] unfolding *(5) by (simp_all add: payload_def)
  show ?thesis using r sc *(1,2) by (simp add: EncodeRune_def d byte_of_payload)
qed

lemma decode_sound3:
  assumes "decode_seq (b0 # t) = Some (r, n)" "\<not> b0 < 0x80" "lead_info b0 = Some (3, lo, hi)"
  shows "scalar r \<and> take n (b0 # t) = EncodeRune r \<and> n = length (EncodeRune r)"
proof -
  obtain b1 b2 rest where *: "t = b1 # b2 # rest" "n = 3" "lo \<le> b1" "b1 \<le> hi" "cont b2"
    "r = ((uint b0 - 0xE0) * 64 + payload b1) * 64 + payload b2"
    using assms by (rule decode_seq3)
  have b0: "0xE0 \<le> uint b0" "uint b0 < 0xF0" using assms(3) by (auto elim: lead_info_cases)
  then have b1: "(if uint b0 = 0xE0 then 0xA0 else 0x80) \<le> uint b1" "uint b1 \<le> (if uint b0 = 0xED then 0x9F else 0xBF)"
    using *(3,4) assms(3) by (auto simp: lead_info3 byte_le_iff split: if_splits)
  then have b1': "0x80 \<le> uint b1" "uint b1 \<le> 0xBF" by (auto split: if_splits)
  have b2: "0x80 \<le> uint b2" "uint b2 \<le> 0xBF" using *(5) by (auto simp: cont_uint)
  have r: "0x800 \<le> r" "r < 0x10000" using *(6) b0 b1 b1' b2 by (auto simp: payload_def split: if_splits)
  have sur: "\<not> is_surrogate r"
    using *(6) b0 b1 b1' b2 by (auto simp: payload_def is_surrogate_def split: if_splits)
  have sc: "scalar r" using r sur by (simp add: scalar_def)
  have pb: "0 \<le> payload b1" "payload b1 < 64" "0 \<le> payload b2" "payload b2 < 64"
    using b1' b2 by (auto simp: payload_def)
  have d: "r div 64 div 64 = uint b0 - 0xE0" "r div 64 mod 64 = payload b1" "r mod 64 = payload b2"
    unfolding *(6) using pb by (simp_all only: sext_split)
  show ?thesis using r sc *(1,2) by (simp add: EncodeRune_def div_sext d byte_of_payload)
qed

lemma decode_sound4:
  assumes "decode_seq (b0 # t) = Some (r, n)" "\<not> b0 < 0x80" "lead_info b0 = Some (4, lo, hi)"
  shows "scalar r \<and> take n (b0 # t) = EncodeRune r \<and> n = length (EncodeRune r)"
proof -
  obtain b1 b2 b3 rest where *: "t = b1 # b2 # b3 # rest" "n = 4" "lo \<le> b1" "b1 \<le> hi" "cont b2" "cont b3"
    "r = (((uint b0 - 0xF0) * 64 + payload b1) * 64 + payload b2) * 64 + payload b3"
    using assms by (rule decode_seq4)
  have b0: "0xF0 \<le> uint b0" "uint b0 < 0xF5" using assms(3) by (auto elim: lead_info_cases)
  then have b1: "(if uint b0 = 0xF0 then 0x90 else 0x80) \<le> uint b1" "uint b1 \<le> (if uint b0 = 0xF4 then 0x8F else 0xBF)"
    using *(3,4) assms(3) by (auto simp: lead_info4 byte_le_iff split: if_splits)
  then have b1': "0x80 \<le> uint b1" "uint b1 \<le> 0xBF" by (auto split: if_splits)
  have b2: "0x80 \<le> uint b2" "uint b2 \<le> 0xBF" "0x80 \<le> uint b3" "uint b3 \<le> 0xBF"
    using *(5,6) by (auto simp: cont_uint)
  have r: "0x10000 \<le> r" "r \<le> 0x10FFFF" using *(7) b0 b1 b1' b2 by (auto simp: payload_def split: if_splits)
  have sc: "scalar r" using r by (simp add: scalar_def is_surrogate_def)
  have pb: "0 \<le> payload b1" "payload b1 < 64" "0 \<le> payload b2" "payload b2 < 64"
    "0 \<le> payload b3" "payload b3 < 64"
    using b1' b2 by (auto simp: payload_def)
  have d: "r div 64 div 64 div 64 = uint b0 - 0xF0" "r div 64 div 64 mod 64 = payload b1"
    "r div 64 mod 64 = payload b2" "r mod 64 = payload b3"
    unfolding *(7) using pb by (simp_all only: sext_split)
  show ?thesis using r sc *(1,2) by (simp add: EncodeRune_def div_sext d byte_of_payload)
qed

lemma decode_sound:
  assumes "decode_seq s = Some (r, n)"
  shows "scalar r \<and> take n s = EncodeRune r \<and> n = length (EncodeRune r)"
proof (cases s)
  case Nil
  with assms show ?thesis by (simp add: decode_seq_def)
next
  case (Cons b0 t)
  show ?thesis
  proof (cases "b0 < 0x80")
    case True
    with assms Cons have r: "r = uint b0" "n = 1" by (auto simp: decode_seq_def)
    with True Cons show ?thesis
      by (auto simp: EncodeRune_def scalar_def is_surrogate_def byte_less_iff)
  next
    case False
    with assms Cons obtain k lo hi where li: "lead_info b0 = Some (k, lo, hi)"
      by (auto simp: decode_seq_def split: option.splits)
    then have "k \<in> {2, 3, 4}" by (rule lead_info_size)
    then show ?thesis
      using assms False li decode_sound2 decode_sound3 decode_sound4 unfolding Cons by blast
  qed
qed


text \<open>
  The interface both encodings provide: code words are not empty and no code word begins another, so a
  concatenation of code words has one reading.
\<close>

locale prefix_code =
  fixes enc :: "'a \<Rightarrow> 'u list" and ok :: "'a \<Rightarrow> bool"
  assumes enc_nonempty: "ok x \<Longrightarrow> enc x \<noteq> []"
    and enc_prefix_free: "ok x \<Longrightarrow> ok y \<Longrightarrow> enc x @ s = enc y @ t \<Longrightarrow> x = y"
begin

lemma concat_inj:
  "list_all ok xs \<Longrightarrow> list_all ok ys \<Longrightarrow> concat (map enc xs) = concat (map enc ys) \<Longrightarrow> xs = ys"
proof (induction xs arbitrary: ys)
  case Nil
  then show ?case by (cases ys) (auto dest: enc_nonempty)
next
  case (Cons x xs)
  then obtain y ys' where ys: "ys = y # ys'" by (cases ys) (auto dest: enc_nonempty)
  with Cons.prems have "x = y" by (auto intro: enc_prefix_free)
  with Cons ys show ?case by auto
qed

lemma concat_eq_Nil: "list_all ok xs \<Longrightarrow> concat (map enc xs) = [] \<Longrightarrow> xs = []"
  using concat_inj [of xs "[]"] by simp

end

interpretation utf8: prefix_code EncodeRune scalar
proof unfold_locales
  fix x y s t assume "scalar x" "scalar y" and eq: "EncodeRune x @ s = EncodeRune y @ t"
  then have "Some (x, length (EncodeRune x)) = Some (y, length (EncodeRune y))"
    by (metis decode_encode)
  then show "x = y" by simp
qed simp

lemma utf16_unit_BMP: "scalar r \<Longrightarrow> r < 0x10000 \<Longrightarrow> utf16_unit r = [r]"
  by (auto simp: utf16_unit_def scalar_def is_surrogate_def)

lemma utf16_unit_supp: "scalar r \<Longrightarrow> 0x10000 \<le> r \<Longrightarrow>
  utf16_unit r = [0xD800 + (r - 0x10000) div 1024, 0xDC00 + (r - 0x10000) mod 1024]"
  by (auto simp: utf16_unit_def scalar_def)

lemma div_mod_1024: "a div 1024 = b div 1024 \<Longrightarrow> a mod 1024 = b mod 1024 \<Longrightarrow> a = (b::int)"
  by (metis div_mult_mod_eq)

interpretation utf16: prefix_code utf16_unit scalar
proof unfold_locales
  fix x y s t assume xy: "scalar x" "scalar y" and eq: "utf16_unit x @ s = utf16_unit y @ t"
  have hi: "\<not> scalar (0xD800 + (r - 0x10000) div 1024)" if "scalar r" "0x10000 \<le> r" for r
    using that by (auto simp: scalar_def is_surrogate_def)
  consider "x < 0x10000" "y < 0x10000" | "x < 0x10000" "0x10000 \<le> y"
    | "0x10000 \<le> x" "y < 0x10000" | "0x10000 \<le> x" "0x10000 \<le> y" by linarith
  then show "x = y"
  proof cases
    case 1
    with xy eq show ?thesis by (simp add: utf16_unit_BMP)
  next
    case 2
    with xy eq have "x = 0xD800 + (y - 0x10000) div 1024" by (simp add: utf16_unit_BMP utf16_unit_supp)
    with hi [OF xy(2) 2(2)] xy(1) show ?thesis by simp
  next
    case 3
    with xy eq have "y = 0xD800 + (x - 0x10000) div 1024" by (simp add: utf16_unit_BMP utf16_unit_supp)
    with hi [OF xy(1) 3(1)] xy(2) show ?thesis by simp
  next
    case 4
    with eq have "(x - 0x10000) div 1024 = (y - 0x10000) div 1024"
      and "(x - 0x10000) mod 1024 = (y - 0x10000) mod 1024"
      by (simp_all only: utf16_unit_supp [OF xy(1)] utf16_unit_supp [OF xy(2)] append_Cons append_Nil list.inject add_left_cancel)
    then have "x - 0x10000 = y - 0x10000" by (rule div_mod_1024)
    then show ?thesis by simp
  qed
qed (auto simp: utf16_unit_def)

lemma utf16_Encode_inj:
  "list_all scalar xs \<Longrightarrow> list_all scalar ys \<Longrightarrow> utf16_Encode xs = utf16_Encode ys \<Longrightarrow> xs = ys"
  unfolding utf16_Encode_def by (rule utf16.concat_inj)

lemma utf16_DecodeRune_unit:
  assumes "scalar r" "0x10000 \<le> r"
  shows "utf16_DecodeRune (0xD800 + (r - 0x10000) div 1024) (0xDC00 + (r - 0x10000) mod 1024) = r"
proof -
  have r: "r \<le> 0x10FFFF" using assms by (simp add: scalar_def)
  have "(r - 0x10000) mod 1024 < 1024" "0 \<le> (r - 0x10000) mod 1024" by auto
  moreover have "0 \<le> (r - 0x10000) div 1024" "(r - 0x10000) div 1024 < 1024" using assms r by auto
  moreover have "(r - 0x10000) div 1024 * 1024 + (r - 0x10000) mod 1024 = r - 0x10000" by simp
  ultimately show ?thesis by (simp add: utf16_DecodeRune_def)
qed

section \<open>Validity\<close>

lemma decode_ascii: "b < 0x80 \<Longrightarrow> decode_seq (b # s) = Some (uint b, 1)"
  by (simp add: decode_seq_def)

lemma DecodeRune_Some: "decode_seq s = Some (r, n) \<Longrightarrow> DecodeRune s = (r, n)"
  by (simp add: DecodeRune_def)

lemma EncodeRune_length1: "scalar r \<Longrightarrow> length (EncodeRune r) = 1 \<longleftrightarrow> r < 0x80"
  by (simp add: EncodeRune_len)

lemma DecodeRune_error: "s \<noteq> [] \<Longrightarrow> DecodeRune s = (RuneError, 1) \<longleftrightarrow> decode_seq s = None"
  using EncodeRune_length1 [of RuneError] decode_sound [of s RuneError 1]
  by (auto simp: DecodeRune_def RuneError_def scalar_def split: option.splits)

lemma utf8_Valid_Nil [simp]: "utf8_Valid []"
  by (simp add: utf8_Valid.simps)

lemma utf8_Valid_None: "s \<noteq> [] \<Longrightarrow> decode_seq s = None \<Longrightarrow> \<not> utf8_Valid s"
  by (subst utf8_Valid.simps) (simp add: DecodeRune_def)

lemma utf8_Valid_Some: "decode_seq s = Some (r, n) \<Longrightarrow> utf8_Valid s \<longleftrightarrow> utf8_Valid (drop n s)"
proof -
  assume d: "decode_seq s = Some (r, n)"
  then have s: "s \<noteq> []" by (auto simp: decode_seq_def)
  have "DecodeRune s \<noteq> (RuneError, 1)" using d DecodeRune_error [OF s] by simp
  then have "\<not> (r = RuneError \<and> n = 1)" using d by (simp add: DecodeRune_Some)
  then show ?thesis using d s by (subst utf8_Valid.simps) (auto simp: DecodeRune_Some)
qed

lemma utf8_Valid_decode: "utf8_Valid s \<Longrightarrow> s \<noteq> [] \<Longrightarrow> \<exists>r n. decode_seq s = Some (r, n) \<and> utf8_Valid (drop n s)"
  using utf8_Valid_None utf8_Valid_Some by (metis not_None_eq surj_pair)

lemma utf8_Valid_ascii [simp]: "b < 0x80 \<Longrightarrow> utf8_Valid (b # s) = utf8_Valid s"
  by (simp add: utf8_Valid_Some decode_ascii)

lemma utf8_Valid_Encode [codec]: "scalar r \<Longrightarrow> utf8_Valid (EncodeRune r @ s) = utf8_Valid s"
  using utf8_Valid_Some [OF decode_encode] by simp

lemma utf8_Valid_concat: "list_all scalar rs \<Longrightarrow> utf8_Valid (concat (map EncodeRune rs) @ s) = utf8_Valid s"
  by (induction rs) (auto simp: utf8_Valid_Encode)

lemma utf8_Valid_iff: "utf8_Valid s \<longleftrightarrow> (\<exists>rs. list_all scalar rs \<and> s = concat (map EncodeRune rs))"
proof
  show "utf8_Valid s \<Longrightarrow> \<exists>rs. list_all scalar rs \<and> s = concat (map EncodeRune rs)"
  proof (induction "length s" arbitrary: s rule: less_induct)
    case less
    show ?case
    proof (cases "s = []")
      case True
      then show ?thesis by (intro exI [of _ "[]"]) simp
    next
      case False
      with less.prems obtain r n where d: "decode_seq s = Some (r, n)" "utf8_Valid (drop n s)"
        using utf8_Valid_decode by blast
      have n: "0 < n" "n \<le> length s" using decode_seq_size [OF d(1)] by auto
      then obtain rs where "list_all scalar rs" "drop n s = concat (map EncodeRune rs)"
        using less.hyps [of "drop n s"] d(2) False by auto
      moreover have "scalar r" "take n s = EncodeRune r" using decode_sound [OF d(1)] by auto
      ultimately show ?thesis
        by (intro exI [of _ "r # rs"]) (simp, metis append_take_drop_id)
    qed
  qed
qed (use utf8_Valid_concat [of _ "[]"] in auto)

lemma utf8_Valid_append:
  assumes "utf8_Valid a"
  shows "utf8_Valid (a @ b) = utf8_Valid b"
proof -
  obtain rs where "list_all scalar rs" "a = concat (map EncodeRune rs)"
    using assms utf8_Valid_iff by blast
  then show ?thesis by (simp only: utf8_Valid_concat)
qed

lemma runes_Nil [simp]: "runes [] = []"
  by (simp add: runes.simps)

lemma runes_Some: "decode_seq s = Some (r, n) \<Longrightarrow> runes s = r # runes (drop n s)"
  by (subst runes.simps) (auto simp: DecodeRune_Some decode_seq_def)

lemma runes_Encode [codec]: "scalar r \<Longrightarrow> runes (EncodeRune r @ s) = r # runes s"
  using runes_Some [OF decode_encode] by simp

lemma runes_concat [codec]: "list_all scalar rs \<Longrightarrow> runes (concat (map EncodeRune rs)) = rs"
  by (induction rs) (auto simp: runes_Encode)

lemma runes_ascii: "b < 0x80 \<Longrightarrow> runes (b # s) = uint b # runes s"
  by (simp add: runes_Some decode_ascii)

lemma runes_append: "utf8_Valid a \<Longrightarrow> runes (a @ b) = runes a @ runes b"
proof -
  have "runes (concat (map EncodeRune rs) @ b) = rs @ runes b" if "list_all scalar rs" for rs
    using that by (induction rs) (auto simp: runes_Encode)
  then show "utf8_Valid a \<Longrightarrow> ?thesis" by (auto simp: utf8_Valid_iff runes_concat)
qed

lemma utf8_Valid_runes: "utf8_Valid s \<Longrightarrow> list_all scalar (runes s) \<and> concat (map EncodeRune (runes s)) = s"
  using utf8_Valid_iff runes_concat by auto

lemma runes_inj: "utf8_Valid s \<Longrightarrow> utf8_Valid t \<Longrightarrow> runes s = runes t \<Longrightarrow> s = t"
  by (metis utf8_Valid_runes)

end
