(* ===== verification/Float64.thy ===== *)
theory Float64
  imports Prelude Complex_Main
begin

text \<open>
  The IEEE 754 binary64 values the program computes with, as their 64 bits, and the parts of \<^verbatim>\<open>math\<close>
  and \<^verbatim>\<open>strconv\<close> it calls: \<^verbatim>\<open>Float64bits\<close> (the identity here), \<^verbatim>\<open>IsNaN\<close>, \<^verbatim>\<open>IsInf\<close>, the comparisons with zero,
  negation, and \<^verbatim>\<open>strconv.ParseFloat\<close> with its rounding to nearest, ties to even.
\<close>

type_synonym float64 = "64 word"

definition mantField :: "float64 \<Rightarrow> int" where "mantField f = uint f mod 2 ^ 52"
definition expField :: "float64 \<Rightarrow> int" where "expField f = uint f div 2 ^ 52 mod 2048"
definition signBit :: "float64 \<Rightarrow> bool" where "signBit f \<longleftrightarrow> 2 ^ 63 \<le> uint f"

definition IsNaN :: "float64 \<Rightarrow> bool" where "IsNaN f \<longleftrightarrow> expField f = 2047 \<and> mantField f \<noteq> 0"
definition IsInf :: "float64 \<Rightarrow> bool" where "IsInf f \<longleftrightarrow> expField f = 2047 \<and> mantField f = 0"
definition isZero :: "float64 \<Rightarrow> bool" where "isZero f \<longleftrightarrow> expField f = 0 \<and> mantField f = 0"
definition isNegative :: "float64 \<Rightarrow> bool" where "isNegative f \<longleftrightarrow> signBit f \<and> \<not> IsNaN f \<and> \<not> isZero f"
definition negate :: "float64 \<Rightarrow> float64" where "negate f = f + 0x8000000000000000"
definition finite64 :: "float64 \<Rightarrow> bool" where "finite64 f \<longleftrightarrow> expField f \<noteq> 2047"

text \<open>The value of a finite double: an integer significand times a power of two.\<close>

definition signif :: "float64 \<Rightarrow> int" where
  "signif f = (if expField f = 0 then mantField f else 2 ^ 52 + mantField f)"

definition exponent2 :: "float64 \<Rightarrow> int" where
  "exponent2 f = (if expField f = 0 then -1074 else expField f - 1075)"

definition fval :: "float64 \<Rightarrow> rat" where
  "fval f = (if signBit f then -1 else 1) * of_int (signif f) * 2 powi exponent2 f"

text \<open>
  Rounding a positive rational \<open>n / d\<close> to the nearest double, ties to even: \<open>e\<close> is the exponent of the
  binade (not below that of the subnormals), \<open>q\<close> the significand rounded down. The bits are one integer
  sum: a significand that rounds up to \<open>2 ^ 53\<close> carries into the exponent field, and a result of
  \<open>infBits\<close> or more is an overflow.
\<close>

function bitlen :: "int \<Rightarrow> int" where
  "bitlen n = (if n \<le> 0 then 0 else 1 + bitlen (n div 2))"
  by pat_completeness auto
termination
  by (relation "measure nat") auto

declare bitlen.simps [simp del]

definition floorLog2 :: "int \<Rightarrow> int \<Rightarrow> int" where
  "floorLog2 n d =
     (let k = bitlen n - bitlen d
      in if (if 0 \<le> k then 2 ^ nat k * d \<le> n else d \<le> n * 2 ^ nat (- k)) then k else k - 1)"

definition infBits :: int where "infBits = 2047 * 2 ^ 52"

definition roundBits :: "int \<Rightarrow> int \<Rightarrow> int" where
  "roundBits n d =
     (let e = max (-1074) (floorLog2 n d - 52);
          n' = (if 0 \<le> e then n else n * 2 ^ nat (- e));
          d' = (if 0 \<le> e then d * 2 ^ nat e else d);
          q = n' div d';
          m = (if d' < 2 * (n' mod d') \<or> (d' = 2 * (n' mod d') \<and> odd q) then q + 1 else q)
      in (e + 1074) * 2 ^ 52 + m)"

text \<open>
  \<^verbatim>\<open>strconv.ParseFloat(s, 64)\<close> on decimal text: an optional sign, digits with an optional point, an
  optional exponent. (\<^verbatim>\<open>ParseFloat\<close> also knows \<^verbatim>\<open>inf\<close>, \<^verbatim>\<open>nan\<close> and hexadecimal forms; the program passes only tokens
  of the JSON number grammar.)
\<close>

definition isDec :: "byte \<Rightarrow> bool" where
  "isDec b \<longleftrightarrow> cZERO \<le> b \<and> b \<le> cNINE"

definition digit_val :: "byte \<Rightarrow> int" where
  "digit_val b = uint b - 48"

definition digits_val :: "bytes \<Rightarrow> int" where
  "digits_val s = foldl (\<lambda>a b. 10 * a + digit_val b) 0 s"

definition split_sign :: "bytes \<Rightarrow> bool \<times> bytes" where
  "split_sign s = (case s of [] \<Rightarrow> (False, []) | b # t \<Rightarrow>
     if b = cMINUS then (True, t) else if b = cPLUS then (False, t) else (False, s))"

definition parse_exp :: "bytes \<Rightarrow> int option" where
  "parse_exp s = (case s of [] \<Rightarrow> Some 0 | b # t \<Rightarrow>
     if b = 0x65 \<or> b = 0x45 then
       (let (neg, u) = split_sign t in
        if u \<noteq> [] \<and> list_all isDec u then Some ((if neg then -1 else 1) * digits_val u) else None)
     else None)"

definition parse_decimal :: "bytes \<Rightarrow> (bool \<times> int \<times> int) option" where
  "parse_decimal s =
     (let (neg, s1) = split_sign s;
          ip = takeWhile isDec s1;
          s2 = dropWhile isDec s1;
          fp = (if s2 \<noteq> [] \<and> hd s2 = cDOT then takeWhile isDec (tl s2) else []);
          s3 = (if s2 \<noteq> [] \<and> hd s2 = cDOT then dropWhile isDec (tl s2) else s2)
      in if ip = [] \<and> fp = [] then None
         else map_option (\<lambda>e. (neg, digits_val (ip @ fp), e - int (length fp))) (parse_exp s3))"

definition decimalBits :: "int \<Rightarrow> int \<Rightarrow> int" where
  "decimalBits m e =
     (if m = 0 then 0 else if 0 \<le> e then roundBits (m * 10 ^ nat e) 1 else roundBits m (10 ^ nat (- e)))"

datatype num_error = ErrSyntax | ErrRange

definition ParseFloat :: "bytes \<Rightarrow> float64 \<times> num_error option" where
  "ParseFloat s = (case parse_decimal s of None \<Rightarrow> (0, Some ErrSyntax) | Some (neg, m, e) \<Rightarrow>
     let b = decimalBits m e; sign = (if neg then 2 ^ 63 else 0)
     in if b \<ge> infBits then (word_of_int (infBits + sign), Some ErrRange)
        else (word_of_int (b + sign), None))"

section \<open>The fields of a double\<close>

text \<open>The double with the magnitude bits \<open>b\<close> and the sign \<open>neg\<close>.\<close>

definition mk_float :: "bool \<Rightarrow> int \<Rightarrow> float64" where
  "mk_float neg b = word_of_int (b + (if neg then 2 ^ 63 else 0))"

lemma uint_word64: "0 \<le> x \<Longrightarrow> x < 2 ^ 64 \<Longrightarrow> uint (word_of_int x :: 64 word) = x"
  by (simp add: uint_word_of_int)

lemma uint_mk_float:
  assumes "0 \<le> b" "b \<le> infBits"
  shows "uint (mk_float neg b) = b + 2 ^ 52 * (if neg then 2048 else 0)"
proof -
  have "uint (mk_float neg b) = b + (if neg then 2 ^ 63 else 0)"
    unfolding mk_float_def by (rule uint_word64) (use assms in \<open>auto simp: infBits_def\<close>)
  then show ?thesis by simp
qed

lemma mk_float_fields:
  assumes "0 \<le> b" "b \<le> infBits"
  shows "mantField (mk_float neg b) = b mod 2 ^ 52" "expField (mk_float neg b) = b div 2 ^ 52"
    "signBit (mk_float neg b) = neg"
proof -
  note u = uint_mk_float [OF assms, of neg]
  have d: "0 \<le> b div 2 ^ 52" "b div 2 ^ 52 < 2048" using assms by (auto simp: infBits_def pos_imp_zdiv_nonneg_iff)
  show "mantField (mk_float neg b) = b mod 2 ^ 52"
    unfolding mantField_def u by (rule mod_mult_self2)
  have "expField (mk_float neg b) = (b div 2 ^ 52 + (if neg then 2048 else 0)) mod 2048"
    unfolding expField_def u by simp
  then show "expField (mk_float neg b) = b div 2 ^ 52" using d by simp
  show "signBit (mk_float neg b) = neg" using assms by (auto simp: signBit_def u infBits_def)
qed

lemma mk_float_class:
  assumes "0 \<le> b" "b < infBits"
  shows "finite64 (mk_float neg b)" "\<not> IsNaN (mk_float neg b)" "\<not> IsInf (mk_float neg b)"
    "isZero (mk_float neg b) \<longleftrightarrow> b = 0"
proof -
  have e: "b div 2 ^ 52 \<noteq> 2047" using assms by (auto simp: infBits_def)
  have "b = 2 ^ 52 * (b div 2 ^ 52) + b mod 2 ^ 52" by simp
  with e assms show "finite64 (mk_float neg b)" "\<not> IsNaN (mk_float neg b)" "\<not> IsInf (mk_float neg b)"
    "isZero (mk_float neg b) \<longleftrightarrow> b = 0"
    by (auto simp: finite64_def IsNaN_def IsInf_def isZero_def mk_float_fields)
qed

lemma mk_float_Inf: "IsInf (mk_float neg infBits)"
  by (simp add: IsInf_def mk_float_fields infBits_def)

lemma mk_float_surj: "mk_float (signBit f) (2 ^ 52 * expField f + mantField f) = f"
proof -
  define k where "k = uint f div 2 ^ 52"
  have f: "uint f = 2 ^ 52 * k + mantField f" "0 \<le> mantField f" "mantField f < 2 ^ 52"
    by (simp_all add: k_def mantField_def)
  have b: "0 \<le> uint f" "uint f < 2 ^ 64" using uint_lt2p [of f] by auto
  have k: "0 \<le> k" "k < 4096" "2048 \<le> k \<longleftrightarrow> signBit f"
    using f b by (auto simp: signBit_def)
  have "k mod 2048 = (if signBit f then k - 2048 else k)"
  proof (cases "signBit f")
    case True
    with k have "(k - 2048) mod 2048 = k - 2048" by (intro mod_pos_pos_trivial) auto
    with True show ?thesis by simp
  qed (use k in auto)
  moreover have e: "expField f = k mod 2048" by (simp only: expField_def k_def)
  ultimately have "uint f = 2 ^ 52 * expField f + mantField f + (if signBit f then 2 ^ 63 else 0)"
    unfolding e f(1) by simp
  then show ?thesis unfolding mk_float_def by (metis word_of_int_uint)
qed

lemma field_bounds: "0 \<le> mantField f" "mantField f < 2 ^ 52" "0 \<le> expField f" "expField f < 2048"
  by (simp_all add: mantField_def expField_def)

text \<open>A finite double is \<open>mk_float\<close> of its sign and its magnitude.\<close>

definition magnitude :: "float64 \<Rightarrow> int" where
  "magnitude f = 2 ^ 52 * expField f + mantField f"

lemma magnitude_bounds: "finite64 f \<Longrightarrow> 0 \<le> magnitude f \<and> magnitude f < infBits"
  using field_bounds [of f] by (auto simp: magnitude_def finite64_def infBits_def)

lemma mk_float_magnitude: "mk_float (signBit f) (magnitude f) = f"
  by (simp only: magnitude_def mk_float_surj)

section \<open>Rounding\<close>

lemma bitlen_nonneg: "0 \<le> bitlen n"
  by (induction n rule: bitlen.induct) (simp add: bitlen.simps)

lemma roundBits_nonneg:
  assumes "0 \<le> n" "0 < d"
  shows "0 \<le> roundBits n d"
proof -
  define e where "e = max (-1074) (floorLog2 n d - 52)"
  define n' where "n' = (if 0 \<le> e then n else n * 2 ^ nat (- e))"
  define d' where "d' = (if 0 \<le> e then d * 2 ^ nat e else d)"
  have "0 \<le> n'" "0 < d'" "0 \<le> e + 1074" using assms by (auto simp: n'_def d'_def e_def)
  then have "0 \<le> n' div d'" "0 \<le> (e + 1074) * 2 ^ 52" by (simp_all add: pos_imp_zdiv_nonneg_iff)
  then show ?thesis unfolding roundBits_def Let_def e_def [symmetric] n'_def [symmetric] d'_def [symmetric]
    by (simp split: if_split)
qed

lemma decimalBits_nonneg: "0 \<le> m \<Longrightarrow> 0 \<le> decimalBits m e"
  by (simp add: decimalBits_def roundBits_nonneg)

lemma ParseFloat_Some:
  "parse_decimal s = Some (neg, m, e) \<Longrightarrow> ParseFloat s =
     (if infBits \<le> decimalBits m e then (mk_float neg infBits, Some ErrRange)
      else (mk_float neg (decimalBits m e), None))"
  by (simp add: ParseFloat_def Let_def mk_float_def)

section \<open>Digit strings\<close>

lemma digits_val_Nil [simp]: "digits_val [] = 0"
  by (simp add: digits_val_def)

lemma digits_val_snoc: "digits_val (ds @ [b]) = 10 * digits_val ds + digit_val b"
  by (simp add: digits_val_def)

lemma digits_val_fold: "foldl (\<lambda>a b. 10 * a + digit_val b) x ds = x * 10 ^ length ds + digits_val ds"
  by (induction ds rule: rev_induct) (simp_all add: digits_val_def algebra_simps)

lemma digits_val_append: "digits_val (as @ bs) = digits_val as * 10 ^ length bs + digits_val bs"
proof -
  have "digits_val (as @ bs) = foldl (\<lambda>a b. 10 * a + digit_val b) (digits_val as) bs" by (simp add: digits_val_def)
  then show ?thesis by (simp only: digits_val_fold)
qed

lemma digits_val_Cons: "digits_val (b # ds) = digit_val b * 10 ^ length ds + digits_val ds"
  using digits_val_append [of "[b]" ds] by (simp add: digits_val_def)

end
