(* ===== verification/Jcsfloat.thy ===== *)
theory Jcsfloat
  imports Jcserr Float64
begin

text \<open>
  Package jcsfloat (src/jcsfloat/jcsfloat.go): ECMAScript \<^verbatim>\<open>Number::toString\<close> for doubles by the Burger-Dybvig
  free-format algorithm on exact integers.

  A \<^verbatim>\<open>big.Int\<close> is an \<open>int\<close>. \<open>digitState\<close> holds the four numbers the algorithm works on; the scratch fields of
  the Go struct only avoid allocations and the pool only recycles states, neither carries a value from one
  call to the next. The digit buffer is the list of the bytes written so far, a write past its 30 bytes is
  a panic (\<open>None\<close>).

  \<open>estimateK\<close> computes with floating point: what \<^verbatim>\<open>math.Log2\<close> returns and how the hardware rounds are the
  parameters \<open>Log2\<close> and \<open>fl\<close> of the record \<open>fmath\<close>.
\<close>

record fmath =
  Log2 :: "rat \<Rightarrow> rat"
  fl :: "rat \<Rightarrow> rat"

section \<open>ECMA-262 layout\<close>

definition isIntegerFixed :: "int \<Rightarrow> int \<Rightarrow> bool" where
  "isIntegerFixed k n \<longleftrightarrow> k \<le> n \<and> n \<le> 21"

definition isFractionFixed :: "int \<Rightarrow> bool" where
  "isFractionFixed n \<longleftrightarrow> 0 < n \<and> n \<le> 21"

definition isSmallFraction :: "int \<Rightarrow> bool" where
  "isSmallFraction n \<longleftrightarrow> -6 < n \<and> n \<le> 0"

definition appendIntegerFixed :: "bytes \<Rightarrow> bytes \<Rightarrow> int \<Rightarrow> int \<Rightarrow> bytes" where
  "appendIntegerFixed buf digits k n = buf @ digits @ replicate (nat (n - k)) cZERO"

definition appendFractionFixed :: "bytes \<Rightarrow> bytes \<Rightarrow> int \<Rightarrow> bytes" where
  "appendFractionFixed buf digits n = buf @ take (nat n) digits @ [cDOT] @ drop (nat n) digits"

definition appendSmallFraction :: "bytes \<Rightarrow> bytes \<Rightarrow> int \<Rightarrow> bytes" where
  "appendSmallFraction buf digits n = buf @ [cZERO, cDOT] @ replicate (nat (- n)) cZERO @ digits"

text \<open>The loop of \<open>appendInt\<close> fills a 20 byte array from its end; a number below \<open>10 ^ 20\<close> always fits.\<close>

function intDigits :: "int \<Rightarrow> bytes" where
  "intDigits v = (if v > 0 then intDigits (v div 10) @ [byte_of (48 + v mod 10)] else [])"
  by pat_completeness auto
termination
  by (relation "measure nat") auto

declare intDigits.simps [simp del]

definition appendInt :: "bytes \<Rightarrow> int \<Rightarrow> bytes" where
  "appendInt buf0 v0 =
     (let buf = (if v0 < 0 then buf0 @ [cMINUS] else buf0); v = (if v0 < 0 then - v0 else v0) in
      if v = 0 then buf @ [cZERO] else buf @ intDigits v)"

definition appendExponential :: "bytes \<Rightarrow> bytes \<Rightarrow> int \<Rightarrow> int \<Rightarrow> bytes" where
  "appendExponential buf0 digits k n =
     (let buf1 = buf0 @ [digits ! 0];
          buf2 = (if k > 1 then buf1 @ [cDOT] @ drop 1 digits else buf1);
          buf3 = buf2 @ [0x65];
          exp = n - 1;
          buf4 = (if exp \<ge> 0 then buf3 @ [cPLUS] else buf3)
      in appendInt buf4 exp)"

definition formatECMA :: "bool \<Rightarrow> bytes \<Rightarrow> int \<Rightarrow> bytes" where
  "formatECMA negative digits n =
     (let k = int (length digits); buf = (if negative then [cMINUS] else []) in
      if isIntegerFixed k n then appendIntegerFixed buf digits k n
      else if isFractionFixed n then appendFractionFixed buf digits n
      else if isSmallFraction n then appendSmallFraction buf digits n
      else appendExponential buf digits k n)"

section \<open>Decoding the double\<close>

definition exponentBits :: "float64 \<Rightarrow> int" where
  "exponentBits bits =
     (let hi = uint bits div 2 ^ 56 mod 256; lo = uint bits div 2 ^ 48 mod 256
      in hi mod 128 * 16 + lo div 16)"

record floatParts =
  mantissa :: int
  biasedExp :: int
  fMant :: int
  fExp :: int
  lowerBoundary :: bool
  isEven :: bool

definition decodeFloatParts :: "float64 \<Rightarrow> floatParts" where
  "decodeFloatParts bits =
     (let m = uint bits mod 2 ^ 52;
          be = exponentBits bits;
          fm = (if be \<noteq> 0 then 2 ^ 52 + m else m);
          fe = (if be \<noteq> 0 then be - 1023 - 52 else 1 - 1023 - 52)
      in \<lparr>mantissa = m, biasedExp = be, fMant = fm, fExp = fe,
          lowerBoundary = (be > 1 \<and> m = 0), isEven = (fm mod 2 = 0)\<rparr>)"

record digitState =
  st_r :: int
  st_s :: int
  mPlus :: int
  mMinus :: int

definition lshByInt :: "int \<Rightarrow> int \<Rightarrow> int" where
  "lshByInt z n = (if n \<le> 0 then z else z * 2 ^ nat n)"

definition initScaledPositiveExp :: "floatParts \<Rightarrow> digitState" where
  "initScaledPositiveExp parts =
     (if \<not> lowerBoundary parts then
        (let mp = lshByInt 1 (fExp parts) in
         \<lparr>st_r = lshByInt (fMant parts) (fExp parts + 1), st_s = 2, mPlus = mp, mMinus = mp\<rparr>)
      else
        \<lparr>st_r = lshByInt (fMant parts) (fExp parts + 2), st_s = 4,
         mPlus = lshByInt 1 (fExp parts + 1), mMinus = lshByInt 1 (fExp parts)\<rparr>)"

definition initScaledNegativeExp :: "floatParts \<Rightarrow> digitState" where
  "initScaledNegativeExp parts =
     (if \<not> lowerBoundary parts then
        \<lparr>st_r = lshByInt (fMant parts) 1, st_s = lshByInt 1 (- fExp parts + 1), mPlus = 1, mMinus = 1\<rparr>
      else
        \<lparr>st_r = lshByInt (fMant parts) 2, st_s = lshByInt 1 (- fExp parts + 2), mPlus = 2, mMinus = 1\<rparr>)"

definition initScaledState :: "floatParts \<Rightarrow> digitState" where
  "initScaledState parts = (if fExp parts \<ge> 0 then initScaledPositiveExp parts else initScaledNegativeExp parts)"

section \<open>Digit generation\<close>

text \<open>
  The powers of ten of the cache and of \<^verbatim>\<open>Exp\<close> are the same numbers; \<open>Exp\<close> with a non-positive exponent
  is 1.
\<close>

definition pow10Big :: "int \<Rightarrow> int" where
  "pow10Big n = 10 ^ nat n"

definition scaleByPower10 :: "digitState \<Rightarrow> int \<Rightarrow> digitState" where
  "scaleByPower10 st k =
     (if k > 0 then st\<lparr>st_s := st_s st * pow10Big k\<rparr>
      else if k < 0 then
        (let p = pow10Big (- k) in st\<lparr>st_r := st_r st * p, mPlus := mPlus st * p, mMinus := mMinus st * p\<rparr>)
      else st)"

definition cmpLow :: "int \<Rightarrow> int \<Rightarrow> bool \<Rightarrow> bool" where
  "cmpLow lhs rhs ev = (if ev then lhs < rhs else lhs \<le> rhs)"

definition cmpHigh :: "int \<Rightarrow> int \<Rightarrow> bool \<Rightarrow> bool" where
  "cmpHigh lhs rhs ev = (if ev then lhs \<ge> rhs else lhs > rhs)"

definition cmpRoundDown :: "int \<Rightarrow> int \<Rightarrow> bool \<Rightarrow> bool" where
  "cmpRoundDown lhs rhs ev = (if ev then lhs \<le> rhs else lhs < rhs)"

definition applyHighFixup :: "digitState \<Rightarrow> bool \<Rightarrow> int \<Rightarrow> int \<times> digitState" where
  "applyHighFixup st ev n =
     (if cmpHigh (st_r st + mPlus st) (st_s st) ev then (n + 1, st\<lparr>st_s := st_s st * 10\<rparr>) else (n, st))"

text \<open>A loop that ends only when it finds the first digit not to be zero: \<open>None\<close> if it never does.\<close>

partial_function (option) applyLowFixup :: "digitState \<Rightarrow> bool \<Rightarrow> int \<Rightarrow> (int \<times> digitState) option" where
  "applyLowFixup st ev n =
     (if \<not> cmpLow (st_r st * 10) (st_s st) ev then Some (n, st)
      else if \<not> cmpLow ((st_r st + mPlus st) * 10) (st_s st) ev then Some (n, st)
      else applyLowFixup (st\<lparr>st_r := st_r st * 10, mPlus := mPlus st * 10, mMinus := mMinus st * 10\<rparr>) ev (n - 1))"

declare applyLowFixup.simps [code]

definition scaleDigitState :: "digitState \<Rightarrow> digitState" where
  "scaleDigitState st = st\<lparr>st_r := st_r st * 10, mPlus := mPlus st * 10, mMinus := mMinus st * 10\<rparr>"

definition divideAndRemainder :: "digitState \<Rightarrow> int \<times> digitState" where
  "divideAndRemainder st = (st_r st div st_s st, st\<lparr>st_r := st_r st mod st_s st\<rparr>)"

definition terminationConditions :: "digitState \<Rightarrow> bool \<Rightarrow> bool \<times> bool" where
  "terminationConditions st ev = (cmpRoundDown (st_r st) (mMinus st) ev, cmpHigh (st_r st + mPlus st) (st_s st) ev)"

definition midpointDigit :: "int \<Rightarrow> digitState \<Rightarrow> byte" where
  "midpointDigit d st =
     (if 2 * st_r st < st_s st then byte_of (48 + d)
      else if 2 * st_r st > st_s st then byte_of (48 + d + 1)
      else if d mod 2 = 0 then byte_of (48 + d)
      else byte_of (48 + d + 1))"

definition finalDigit :: "int \<Rightarrow> bool \<Rightarrow> bool \<Rightarrow> digitState \<Rightarrow> byte" where
  "finalDigit d tc1 tc2 st =
     (if tc1 \<and> \<not> tc2 then byte_of (48 + d)
      else if \<not> tc1 \<and> tc2 then byte_of (48 + d + 1)
      else midpointDigit d st)"

definition digitBufSize :: nat where "digitBufSize = 30"

function extractLoop :: "digitState \<Rightarrow> bool \<Rightarrow> bytes \<Rightarrow> bytes option" where
  "extractLoop st0 ev digitBuf =
     (case divideAndRemainder (scaleDigitState st0) of (d, st) \<Rightarrow>
      case terminationConditions st ev of (tc1, tc2) \<Rightarrow>
        if length digitBuf \<ge> digitBufSize then None
        else if \<not> tc1 \<and> \<not> tc2 then extractLoop st ev (digitBuf @ [byte_of (48 + d)])
        else Some (digitBuf @ [finalDigit d tc1 tc2 st]))"
  by pat_completeness auto
termination
  by (relation "measure (\<lambda>(st, ev, digitBuf). digitBufSize - length digitBuf)") auto

declare extractLoop.simps [simp del]

fun carryLoop :: "nat \<Rightarrow> bytes \<Rightarrow> bytes" where
  "carryLoop 0 digitBuf = digitBuf"
| "carryLoop (Suc i) digitBuf =
     carryLoop i (if digitBuf ! Suc i > cNINE
       then digitBuf[Suc i := cZERO, i := digitBuf ! i + 1] else digitBuf)"

function stripZeros :: "bytes \<Rightarrow> bytes" where
  "stripZeros digitBuf =
     (if length digitBuf > 1 \<and> last digitBuf = cZERO then stripZeros (butlast digitBuf) else digitBuf)"
  by pat_completeness auto
termination
  by (relation "measure length") auto

declare stripZeros.simps [simp del]

definition normalizeDigitBuffer :: "bytes \<Rightarrow> int \<Rightarrow> (bytes \<times> int) option" where
  "normalizeDigitBuffer digitBuf0 n =
     (let digitBuf = carryLoop (length digitBuf0 - 1) digitBuf0 in
      if digitBuf \<noteq> [] \<and> digitBuf ! 0 > cNINE then
        (if length digitBuf + 1 > digitBufSize then None
         else Some (stripZeros (0x31 # cZERO # tl digitBuf), n + 1))
      else Some (stripZeros digitBuf, n))"

definition extractDigits :: "digitState \<Rightarrow> bool \<Rightarrow> int \<Rightarrow> (bytes \<times> int) option" where
  "extractDigits st ev n =
     (case extractLoop st ev [] of None \<Rightarrow> None | Some digitBuf \<Rightarrow> normalizeDigitBuffer digitBuf n)"

definition estimateK :: "fmath \<Rightarrow> float64 \<Rightarrow> int" where
  "estimateK M f =
     (let be = exponentBits f;
          log2f = (if be = 0 then Log2 M (fval f)
                   else fl M (of_int (be - 1023) + Log2 M (fl M (1 + fl M (of_int (uint f mod 2 ^ 52) / 2 ^ 52)))))
      in \<lceil>fl M (log2f / Log2 M 10)\<rceil>)"

definition generateDigits :: "fmath \<Rightarrow> float64 \<Rightarrow> (bytes \<times> int) option" where
  "generateDigits M f =
     (let parts = decodeFloatParts f;
          st0 = initScaledState parts;
          k = estimateK M f;
          st1 = scaleByPower10 st0 k;
          (n1, st2) = applyHighFixup st1 (isEven parts) k
      in case applyLowFixup st2 (isEven parts) n1 of None \<Rightarrow> None | Some (n2, st3) \<Rightarrow>
           extractDigits st3 (isEven parts) n2)"

definition FormatDouble :: "fmath \<Rightarrow> float64 \<Rightarrow> fault + bytes" where
  "FormatDouble M f0 =
     (if IsNaN f0 then Inl (Fail (New InvalidGrammar (-1) (Msg ''NaN is not representable in JSON'')))
      else if isZero f0 then Inr [cZERO]
      else if IsInf f0 then Inl (Fail (New InvalidGrammar (-1) (Msg ''Infinity is not representable in JSON'')))
      else (let negative = isNegative f0; f = (if negative then negate f0 else f0) in
        case generateDigits M f of None \<Rightarrow> Inl Abort
        | Some (digits, n) \<Rightarrow> Inr (formatECMA negative digits n)))"

end
