(* ===== verification/Token_Scan.thy ===== *)
theory Token_Scan
  imports Token_Types Utf Float64
begin

text \<open>
  The scanners of package jcstoken (src/jcstoken/token.go, lines 190 to 260 and 428 to 852): bytes,
  whitespace, strings with their escapes, numbers and literals.

  Each method of \<^verbatim>\<open>*parser\<close> takes the state and returns the new one beside its result. A method that
  returns an error drops the state: the code returns the error to the caller of \<^verbatim>\<open>Parse\<close> and never looks
  at the parser again. A loop over \<open>pos\<close> is a recursion measured by the bytes that are left.
\<close>

section \<open>Bytes, errors and depth\<close>

definition newError :: "parser \<Rightarrow> message \<Rightarrow> jcserr" where
  "newError p msg = New InvalidGrammar (int (pos p)) msg"

definition newErrorf :: "parser \<Rightarrow> FailureClass \<Rightarrow> message \<Rightarrow> jcserr" where
  "newErrorf p class msg = New class (int (pos p)) msg"

definition peek :: "parser \<Rightarrow> byte \<times> bool" where
  "peek p = (if pos p \<ge> length (data p) then (0, False) else (data p ! pos p, True))"

definition next_byte :: "parser \<Rightarrow> (byte \<times> bool) \<times> parser" where
  "next_byte p = (if pos p \<ge> length (data p) then ((0, False), p)
     else ((data p ! pos p, True), p\<lparr>pos := pos p + 1\<rparr>))"

definition expect :: "parser \<Rightarrow> byte \<Rightarrow> jcserr + parser" where
  "expect p b = (case next_byte p of ((c, ok), q) \<Rightarrow>
     if \<not> ok then Inl (newErrorf q InvalidGrammar (Sprintf ''unexpected end of input, expected %q'' [FByte b]))
     else if c \<noteq> b then Inl (newErrorf q InvalidGrammar (Sprintf ''expected %q, got %q'' [FByte b, FByte c]))
     else Inr q)"

function skipWhitespace :: "parser \<Rightarrow> parser" where
  "skipWhitespace p =
     (if pos p < length (data p) then
        (let b = data p ! pos p in
         if b = cSPACE \<or> b = cTAB \<or> b = cLF \<or> b = cCR then skipWhitespace (p\<lparr>pos := pos p + 1\<rparr>) else p)
      else p)"
  by pat_completeness auto
termination
  by (relation "measure (\<lambda>p. length (data p) - pos p)") auto

declare skipWhitespace.simps [simp del]

definition pushDepth :: "parser \<Rightarrow> jcserr + parser" where
  "pushDepth p0 = (let p = p0\<lparr>depth := depth p0 + 1\<rparr> in
     if int (depth p) > maxDepth p
     then Inl (newErrorf p BoundExceeded
       (Sprintf ''nesting depth %d exceeds maximum %d'' [FInt (int (depth p)), FInt (maxDepth p)]))
     else Inr p)"

definition popDepth :: "parser \<Rightarrow> parser" where
  "popDepth p = p\<lparr>depth := depth p - 1\<rparr>"

section \<open>Strings\<close>

definition IsNoncharacter :: "rune \<Rightarrow> bool" where
  "IsNoncharacter r =
     (if r \<ge> 0xFDD0 \<and> r \<le> 0xFDEF then True
      else if and r 0xFFFE = 0xFFFE \<and> r \<le> 0x10FFFF then True
      else False)"

definition validateStringRune :: "rune \<Rightarrow> nat \<Rightarrow> jcserr option" where
  "validateStringRune r sourceOffset =
     (if IsNoncharacter r then
        Some (New Noncharacter (int sourceOffset) (Sprintf ''string contains Unicode noncharacter U+%04X'' [FRune r]))
      else if r \<ge> 0xD800 \<and> r \<le> 0xDFFF then
        Some (New LoneSurrogate (int sourceOffset) (Sprintf ''string contains surrogate code point U+%04X'' [FRune r]))
      else None)"

definition hexVal :: "byte \<Rightarrow> byte \<times> bool" where
  "hexVal b =
     (if b \<ge> 0x30 \<and> b \<le> 0x39 then (b - 0x30, True)
      else if b \<ge> 0x61 \<and> b \<le> 0x66 then (b - 0x61 + 10, True)
      else if b \<ge> 0x41 \<and> b \<le> 0x46 then (b - 0x41 + 10, True)
      else (0, False))"

text \<open>The loop of \<open>readHex4\<close> over \<open>i\<close>, from the digit at \<open>i\<close> on with the value so far.\<close>

fun readHexLoop :: "parser \<Rightarrow> nat \<Rightarrow> nat list \<Rightarrow> rune \<Rightarrow> jcserr + rune" where
  "readHexLoop p sourceOffset [] val = Inr val"
| "readHexLoop p sourceOffset (i # js) val =
     (case hexVal (data p ! (pos p + i)) of (d, ok) \<Rightarrow>
        if \<not> ok then Inl (New InvalidGrammar (int sourceOffset)
          (Sprintf (''invalid hex in '' @ [CHR 0x5C] @ ''u escape: %q'') [FBytes (take 4 (drop (pos p) (data p)))]))
        else readHexLoop p sourceOffset js (or (push_bit 4 val) (uint d)))"

definition readHex4 :: "parser \<Rightarrow> nat \<Rightarrow> jcserr + rune \<times> parser" where
  "readHex4 p sourceOffset =
     (if pos p + 4 > length (data p)
      then Inl (New InvalidGrammar (int sourceOffset) (Msg (''incomplete '' @ [CHR 0x5C] @ ''u escape'')))
      else (case readHexLoop p sourceOffset [0, 1, 2, 3] 0 of
              Inl e \<Rightarrow> Inl e
            | Inr val \<Rightarrow> Inr (val, p\<lparr>pos := pos p + 4\<rparr>)))"

definition escapedRune :: "byte \<Rightarrow> rune \<times> bool" where
  "escapedRune b =
     (if b = cQUOTE then (0x22, True)
      else if b = cBSLASH then (0x5C, True)
      else if b = cSLASH then (0x2F, True)
      else if b = 0x62 then (0x08, True)
      else if b = 0x66 then (0x0C, True)
      else if b = 0x6E then (0x0A, True)
      else if b = 0x72 then (0x0D, True)
      else if b = 0x74 then (0x09, True)
      else (0, False))"

definition parseUnicodeEscape :: "parser \<Rightarrow> nat \<Rightarrow> jcserr + rune \<times> parser" where
  "parseUnicodeEscape p sourceOffset = (case readHex4 p sourceOffset of Inl e \<Rightarrow> Inl e | Inr (r1, p1) \<Rightarrow>
     if \<not> is_surrogate r1 then Inr (r1, p1)
     else if r1 \<ge> 0xDC00 then
       Inl (New LoneSurrogate (int sourceOffset) (Sprintf ''lone low surrogate U+%04X'' [FRune r1]))
     else if pos p1 + 1 \<ge> length (data p1) \<or> data p1 ! pos p1 \<noteq> cBSLASH \<or> data p1 ! (pos p1 + 1) \<noteq> 0x75 then
       Inl (New LoneSurrogate (int sourceOffset)
         (Sprintf (''lone high surrogate U+%04X (no following '' @ [CHR 0x5C] @ ''u)'') [FRune r1]))
     else (let secondEscapeOffset = pos p1; p2 = p1\<lparr>pos := pos p1 + 2\<rparr> in
       case readHex4 p2 secondEscapeOffset of Inl e \<Rightarrow> Inl e | Inr (r2, p3) \<Rightarrow>
         if r2 < 0xDC00 \<or> r2 > 0xDFFF then
           Inl (New LoneSurrogate (int secondEscapeOffset)
             (Sprintf ''high surrogate U+%04X followed by non-low-surrogate U+%04X'' [FRune r1, FRune r2]))
         else (let decoded = utf16_DecodeRune r1 r2 in
           if decoded = RuneError then
             Inl (New LoneSurrogate (int sourceOffset)
               (Sprintf ''invalid surrogate pair U+%04X U+%04X'' [FRune r1, FRune r2]))
           else Inr (decoded, p3))))"

definition parseEscape :: "parser \<Rightarrow> nat \<Rightarrow> jcserr + rune \<times> parser" where
  "parseEscape p sourceOffset =
     (if pos p \<ge> length (data p)
      then Inl (New InvalidGrammar (int sourceOffset) (Msg ''unterminated escape sequence''))
      else (let b = data p ! pos p; p1 = p\<lparr>pos := pos p + 1\<rparr> in
        if b = 0x75 then parseUnicodeEscape p1 sourceOffset
        else (case escapedRune b of (r, ok) \<Rightarrow>
          if \<not> ok then Inl (New InvalidGrammar (int sourceOffset) (Sprintf ''invalid escape character %q'' [FByte b]))
          else Inr (r, p1))))"

text \<open>
  The fast path of \<open>parseString\<close>: \<open>Inl result\<close> when the code returns from inside the loop, \<open>Inr p\<close> when
  the loop is left (a byte that needs the general path, or the end of the input).
\<close>

function parseStringFast :: "parser \<Rightarrow> nat \<Rightarrow> (jcserr + Value \<times> parser) + parser" where
  "parseStringFast p start =
     (if pos p < length (data p) then
        (let b = data p ! pos p in
         if b = cQUOTE then
           (let s = take (pos p - start) (drop start (data p)) in
            if int (length s) > maxStringBytes p
            then Inl (Inl (newErrorf p BoundExceeded
              (Sprintf ''string decoded length exceeds maximum %d bytes'' [FInt (maxStringBytes p)])))
            else Inl (Inr (StringValue s, p\<lparr>pos := pos p + 1\<rparr>)))
         else if b < 0x20 \<or> b = cBSLASH \<or> b \<ge> 0x80 then Inr p
         else parseStringFast (p\<lparr>pos := pos p + 1\<rparr>) start)
      else Inr p)"
  by pat_completeness auto
termination
  by (relation "measure (\<lambda>(p, start). length (data p) - pos p)") auto

declare parseStringFast.simps [simp del]

lemma readHexLoop_pos: "readHex4 p off = Inr (r, q) \<Longrightarrow> q = p\<lparr>pos := pos p + 4\<rparr> \<and> pos p + 4 \<le> length (data p)"
  by (auto simp: readHex4_def split: if_splits sum.splits)

lemma parseUnicodeEscape_pos:
  "parseUnicodeEscape p off = Inr (r, q) \<Longrightarrow>
     (q = p\<lparr>pos := pos p + 4\<rparr> \<or> q = p\<lparr>pos := pos p + 10\<rparr>) \<and> pos q \<le> length (data p)"
  by (auto simp: parseUnicodeEscape_def Let_def dest!: readHexLoop_pos split: if_splits sum.splits)

lemma parseEscape_pos:
  "parseEscape p off = Inr (r, q) \<Longrightarrow>
     (q = p\<lparr>pos := pos p + 1\<rparr> \<or> q = p\<lparr>pos := pos p + 5\<rparr> \<or> q = p\<lparr>pos := pos p + 11\<rparr>) \<and> pos q \<le> length (data p)"
  by (auto simp: parseEscape_def Let_def dest!: parseUnicodeEscape_pos split: if_splits prod.splits)

lemma parseEscape_advances [parser_frame]:
  "parseEscape p off = Inr (r, q) \<Longrightarrow> data q = data p \<and> pos p < pos q \<and> pos q \<le> length (data p)
     \<and> depth q = depth p \<and> valueCount q = valueCount p \<and> same_env p q"
  by (auto dest!: parseEscape_pos)

text \<open>The general path: the loop of \<open>parseString\<close> with the bytes decoded so far.\<close>

function parseStringLoop :: "parser \<Rightarrow> bytes \<Rightarrow> jcserr + Value \<times> parser" where
  "parseStringLoop p buf =
     (if pos p \<ge> length (data p) then Inl (newError p (Msg ''unterminated string''))
      else (let b = data p ! pos p in
        if b = cQUOTE then Inr (StringValue buf, p\<lparr>pos := pos p + 1\<rparr>)
        else if b = cBSLASH then
          (let escapeStart = pos p in
           case parseEscape (p\<lparr>pos := pos p + 1\<rparr>) escapeStart of Inl e \<Rightarrow> Inl e | Inr (r, q) \<Rightarrow>
             (case validateStringRune r escapeStart of Some e \<Rightarrow> Inl e | None \<Rightarrow>
               (let tmp = EncodeRune r in
                if int (length buf + length tmp) > maxStringBytes q
                then Inl (newErrorf q BoundExceeded
                  (Sprintf ''string decoded length exceeds maximum %d bytes'' [FInt (maxStringBytes q)]))
                else parseStringLoop q (buf @ tmp))))
        else if b < 0x20 then
          Inl (newErrorf p InvalidGrammar (Sprintf ''unescaped control character 0x%02X in string'' [FByte b]))
        else
          (let sourceOffset = pos p in
           case DecodeRune (drop (pos p) (data p)) of (r, n) \<Rightarrow>
             if r = RuneError \<and> n \<le> 1 then
               Inl (newErrorf p InvalidUTF8 (Sprintf ''invalid UTF-8 byte 0x%02X in string'' [FByte b]))
             else (case validateStringRune r sourceOffset of Some e \<Rightarrow> Inl e | None \<Rightarrow>
               if int (length buf + n) > maxStringBytes p
               then Inl (newErrorf p BoundExceeded
                 (Sprintf ''string decoded length exceeds maximum %d bytes'' [FInt (maxStringBytes p)]))
               else parseStringLoop (p\<lparr>pos := pos p + n\<rparr>) (buf @ take n (drop (pos p) (data p)))))))"
  by pat_completeness auto
termination
proof (relation "measure (\<lambda>(p, buf). length (data p) - pos p)", goal_cases)
  case 1
  then show ?case by simp
next
  case 2
  then show ?case by (auto dest!: parseEscape_advances)
next
  case (3 p)
  then have "drop (pos p) (data p) \<noteq> []" by simp
  then have "0 < snd (DecodeRune (drop (pos p) (data p)))" by (rule DecodeRune_pos)
  with 3 show ?case by (cases "DecodeRune (drop (pos p) (data p))") auto
qed

declare parseStringLoop.simps [simp del]

definition parseString :: "parser \<Rightarrow> jcserr + Value \<times> parser" where
  "parseString p0 = (case expect p0 cQUOTE of Inl e \<Rightarrow> Inl e | Inr p \<Rightarrow>
     (let start = pos p in
      case parseStringFast p start of
        Inl result \<Rightarrow> result
      | Inr q \<Rightarrow> parseStringLoop q (take (pos q - start) (drop start (data q)))))"

section \<open>Numbers\<close>

definition isDigit :: "byte \<Rightarrow> bool" where
  "isDigit b \<longleftrightarrow> b \<ge> cZERO \<and> b \<le> cNINE"

definition numberTooLong :: "parser \<Rightarrow> nat \<Rightarrow> jcserr" where
  "numberTooLong p numStart = New BoundExceeded (int numStart)
     (Sprintf ''number token length %d exceeds maximum %d'' [FInt (int (pos p - numStart)), FInt (maxNumberChars p)])"

text \<open>The digit loop that the integer, fraction and exponent scanners share, with its length check.\<close>

function scanDigits :: "parser \<Rightarrow> nat \<Rightarrow> jcserr + parser" where
  "scanDigits p numStart =
     (if pos p < length (data p) \<and> isDigit (data p ! pos p) then
        (let q = p\<lparr>pos := pos p + 1\<rparr> in
         if int (pos q) - int numStart > maxNumberChars q then Inl (numberTooLong q numStart)
         else scanDigits q numStart)
      else Inr p)"
  by pat_completeness auto
termination
  by (relation "measure (\<lambda>(p, numStart). length (data p) - pos p)") auto

declare scanDigits.simps [simp del]

definition scanZeroIntegerPart :: "parser \<Rightarrow> jcserr + parser" where
  "scanZeroIntegerPart p0 = (let p = p0\<lparr>pos := pos p0 + 1\<rparr> in
     if pos p < length (data p) \<and> isDigit (data p ! pos p)
     then Inl (newError p (Msg ''leading zero in number'')) else Inr p)"

definition scanNonZeroIntegerDigits :: "parser \<Rightarrow> nat \<Rightarrow> jcserr + parser" where
  "scanNonZeroIntegerDigits p numStart = scanDigits p numStart"

definition scanIntegerPart :: "parser \<Rightarrow> nat \<Rightarrow> jcserr + parser" where
  "scanIntegerPart p numStart =
     (if pos p \<ge> length (data p) then Inl (newError p (Msg ''unexpected end of input in number''))
      else if data p ! pos p = cZERO then scanZeroIntegerPart p
      else if data p ! pos p < 0x31 \<or> data p ! pos p > cNINE then
        Inl (newErrorf p InvalidGrammar (Sprintf ''invalid number character %q'' [FByte (data p ! pos p)]))
      else scanNonZeroIntegerDigits p numStart)"

definition scanFractionPart :: "parser \<Rightarrow> nat \<Rightarrow> jcserr + parser" where
  "scanFractionPart p0 numStart =
     (if pos p0 \<ge> length (data p0) \<or> data p0 ! pos p0 \<noteq> cDOT then Inr p0
      else (let p = p0\<lparr>pos := pos p0 + 1\<rparr> in
        if pos p \<ge> length (data p) \<or> \<not> isDigit (data p ! pos p)
        then Inl (newError p (Msg ''expected digit after decimal point''))
        else scanDigits p numStart))"

definition scanExponentPart :: "parser \<Rightarrow> nat \<Rightarrow> jcserr + parser" where
  "scanExponentPart p0 numStart =
     (if pos p0 \<ge> length (data p0) \<or> (data p0 ! pos p0 \<noteq> 0x65 \<and> data p0 ! pos p0 \<noteq> 0x45) then Inr p0
      else (let p1 = p0\<lparr>pos := pos p0 + 1\<rparr>;
                p = (if pos p1 < length (data p1) \<and> (data p1 ! pos p1 = cPLUS \<or> data p1 ! pos p1 = cMINUS)
                     then p1\<lparr>pos := pos p1 + 1\<rparr> else p1) in
        if pos p \<ge> length (data p) \<or> \<not> isDigit (data p ! pos p)
        then Inl (newError p (Msg ''expected digit in exponent''))
        else scanDigits p numStart))"

definition tokenRepresentsZero :: "bytes \<Rightarrow> bool" where
  "tokenRepresentsZero raw =
     (let body = (if raw \<noteq> [] \<and> hd raw = cMINUS then tl raw else raw);
          significand = takeWhile (\<lambda>c. c \<noteq> 0x65 \<and> c \<noteq> 0x45) body
      in \<not> list_ex (\<lambda>c. c \<ge> 0x31 \<and> c \<le> cNINE) significand)"

definition errorsIsRange :: "num_error option \<Rightarrow> bool" where
  "errorsIsRange err = (case err of None \<Rightarrow> False | Some e \<Rightarrow> e = ErrRange)"

definition buildNumberValue :: "nat \<Rightarrow> bytes \<Rightarrow> jcserr + Value" where
  "buildNumberValue start raw = (case ParseFloat raw of (f, err) \<Rightarrow>
     if err \<noteq> None \<and> \<not> errorsIsRange err
     then Inl (New InvalidGrammar (int start) (Sprintf ''invalid number: %v'' [FText ''strconv: invalid syntax'']))
     else if IsNaN f \<or> IsInf f
     then Inl (New NumberOverflow (int start) (Msg ''number overflows IEEE 754 double''))
     else if (raw \<noteq> [] \<and> hd raw = cMINUS) \<and> tokenRepresentsZero raw
     then Inl (New NumberNegZero (int start) (Msg ''negative zero token is not allowed''))
     else if isZero f \<and> \<not> tokenRepresentsZero raw
     then Inl (New NumberUnderflow (int start) (Msg ''non-zero number underflows to IEEE 754 zero''))
     else Inr (NumberValue f))"

definition parseNumber :: "parser \<Rightarrow> jcserr + Value \<times> parser" where
  "parseNumber p =
     (let start = pos p;
          p1 = (if pos p < length (data p) \<and> data p ! pos p = cMINUS then p\<lparr>pos := pos p + 1\<rparr> else p)
      in case scanIntegerPart p1 start of Inl e \<Rightarrow> Inl e | Inr p2 \<Rightarrow>
        (case scanFractionPart p2 start of Inl e \<Rightarrow> Inl e | Inr p3 \<Rightarrow>
          (case scanExponentPart p3 start of Inl e \<Rightarrow> Inl e | Inr p4 \<Rightarrow>
            if int (pos p4) - int start > maxNumberChars p4 then Inl (numberTooLong p4 start)
            else (let raw = take (pos p4 - start) (drop start (data p4)) in
              case buildNumberValue start raw of Inl e \<Rightarrow> Inl e | Inr v \<Rightarrow> Inr (v, p4)))))"

section \<open>Literals\<close>

definition hasLiteral :: "parser \<Rightarrow> bytes \<Rightarrow> bool" where
  "hasLiteral p s \<longleftrightarrow> pos p + length s \<le> length (data p) \<and> take (length s) (drop (pos p) (data p)) = s"

definition parseBool :: "parser \<Rightarrow> jcserr + Value \<times> parser" where
  "parseBool p =
     (if hasLiteral p (ascii ''true'') then Inr (BoolValue (ascii ''true''), p\<lparr>pos := pos p + 4\<rparr>)
      else if hasLiteral p (ascii ''false'') then Inr (BoolValue (ascii ''false''), p\<lparr>pos := pos p + 5\<rparr>)
      else Inl (newError p (Msg ''invalid literal'')))"

definition parseNull :: "parser \<Rightarrow> jcserr + Value \<times> parser" where
  "parseNull p =
     (if hasLiteral p (ascii ''null'') then Inr (NullValue, p\<lparr>pos := pos p + 4\<rparr>)
      else Inl (newError p (Msg ''invalid literal'')))"

end
