(* ===== verification/Token_Parse.thy ===== *)
theory Token_Parse
  imports Token_Scan
begin

text \<open>
  The parser of package jcstoken (src/jcstoken/token.go, lines 145 to 188 and 262 to 420): values,
  objects and arrays, and the entry points \<open>Parse\<close> and \<open>ParseWithOptions\<close>.

  \<open>parseMembers\<close> and \<open>parseElems\<close> are the \<^verbatim>\<open>for\<close> loops of \<open>parseObject\<close> and \<open>parseArray\<close>, with the members or
  elements appended so far. \<^verbatim>\<open>defer p.popDepth()\<close> runs when \<open>parseObject\<close> and \<open>parseArray\<close> return.
\<close>

section \<open>What the scanners keep\<close>

text \<open>
  \<open>advances p q\<close>: the input, the limits, the depth and the value count are as before, and \<open>pos\<close> has moved
  forward within the input.
\<close>

definition advances :: "parser \<Rightarrow> parser \<Rightarrow> bool" where
  "advances p q \<longleftrightarrow> same_env p q \<and> depth q = depth p \<and> valueCount q = valueCount p \<and> pos p \<le> pos q
     \<and> (pos p \<le> length (data p) \<longrightarrow> pos q \<le> length (data p))"

lemma advances_refl [simp]: "advances p p"
  by (simp add: advances_def)

lemma advances_trans: "advances p q \<Longrightarrow> advances q r \<Longrightarrow> advances p r"
  by (auto simp: advances_def dest: same_env_data intro: same_env_trans)

lemma advances_pos: "advances p q \<Longrightarrow> pos p \<le> pos q"
  by (simp add: advances_def)

lemma advances_step: "pos p < length (data p) \<Longrightarrow> advances p (p\<lparr>pos := pos p + 1\<rparr>)"
  by (simp add: advances_def)

lemma expect_Inr: "expect p b = Inr q \<Longrightarrow> q = p\<lparr>pos := pos p + 1\<rparr> \<and> pos p < length (data p) \<and> data p ! pos p = b"
  by (auto simp: expect_def next_byte_def split: if_splits)

lemma expect_advances: "expect p b = Inr q \<Longrightarrow> advances p q \<and> pos p < pos q"
  by (auto dest!: expect_Inr simp: advances_def)

lemma advances_Suc:
  "advances (p\<lparr>pos := Suc (pos p)\<rparr>) q \<Longrightarrow> pos p < length (data p) \<Longrightarrow> advances p q \<and> pos p < pos q"
  by (auto simp: advances_def)

lemma skipWhitespace_advances: "advances p (skipWhitespace p)"
proof (induction p rule: skipWhitespace.induct)
  case (1 p)
  then show ?case by (auto simp: Let_def skipWhitespace.simps [of p] dest: advances_Suc)
qed

lemma parseStringFast_Inl: "parseStringFast p start = Inl (Inr (v, q)) \<Longrightarrow> advances p q \<and> pos p < pos q"
proof (induction p start rule: parseStringFast.induct)
  case (1 p start)
  show ?case
  proof (cases "pos p < length (data p)")
    case True
    with 1 show ?thesis
      by (auto simp: Let_def parseStringFast.simps [of p start] advances_step [simplified] split: if_splits
          dest: advances_Suc)
  qed (use 1 in \<open>simp add: parseStringFast.simps [of p start]\<close>)
qed

lemma parseStringFast_Inr: "parseStringFast p start = Inr q \<Longrightarrow> advances p q"
proof (induction p start rule: parseStringFast.induct)
  case (1 p start)
  show ?case
  proof (cases "pos p < length (data p)")
    case True
    with 1 show ?thesis
      by (auto simp: Let_def parseStringFast.simps [of p start] split: if_splits dest: advances_Suc)
  qed (use 1 in \<open>simp add: parseStringFast.simps [of p start]\<close>)
qed

text \<open>
  Induction over a run of the general path that ends with a string: the closing quote, one escape, or one
  rune of the input, each with what the code has checked there.
\<close>

lemma DecodeRune_ok: "s \<noteq> [] \<Longrightarrow> DecodeRune s = (r, n) \<Longrightarrow> \<not> (r = RuneError \<and> n \<le> 1) \<Longrightarrow> decode_seq s = Some (r, n)"
  by (auto simp: DecodeRune_def split: option.splits)

lemma DecodeRune_bad: "decode_seq s = Some (r, n) \<Longrightarrow> \<not> (r = RuneError \<and> n \<le> 1)"
  using decode_sound [of s r n] EncodeRune_length1 [of RuneError] by (auto simp: RuneError_def le_Suc_eq)

lemma parseStringLoop_induct [consumes 1, case_names quote escape plain]:
  assumes "parseStringLoop p buf = Inr (v, q)"
    and quote: "\<And>p buf. pos p < length (data p) \<Longrightarrow> data p ! pos p = cQUOTE \<Longrightarrow>
      P p buf (StringValue buf) (p\<lparr>pos := Suc (pos p)\<rparr>)"
    and escape: "\<And>p buf r p' v q. pos p < length (data p) \<Longrightarrow> data p ! pos p = cBSLASH \<Longrightarrow>
      parseEscape (p\<lparr>pos := Suc (pos p)\<rparr>) (pos p) = Inr (r, p') \<Longrightarrow> validateStringRune r (pos p) = None \<Longrightarrow>
      int (length buf + length (EncodeRune r)) \<le> maxStringBytes p' \<Longrightarrow>
      parseStringLoop p' (buf @ EncodeRune r) = Inr (v, q) \<Longrightarrow> P p' (buf @ EncodeRune r) v q \<Longrightarrow> P p buf v q"
    and plain: "\<And>p buf r n v q. pos p < length (data p) \<Longrightarrow> data p ! pos p \<noteq> cQUOTE \<Longrightarrow>
      data p ! pos p \<noteq> cBSLASH \<Longrightarrow> \<not> data p ! pos p < 0x20 \<Longrightarrow>
      decode_seq (drop (pos p) (data p)) = Some (r, n) \<Longrightarrow> validateStringRune r (pos p) = None \<Longrightarrow>
      int (length buf + n) \<le> maxStringBytes p \<Longrightarrow>
      parseStringLoop (p\<lparr>pos := pos p + n\<rparr>) (buf @ take n (drop (pos p) (data p))) = Inr (v, q) \<Longrightarrow>
      P (p\<lparr>pos := pos p + n\<rparr>) (buf @ take n (drop (pos p) (data p))) v q \<Longrightarrow> P p buf v q"
  shows "P p buf v q"
  using assms(1)
proof (induction p buf rule: parseStringLoop.induct)
  case (1 p buf)
  have inside: "pos p < length (data p)"
    using 1(3) by (cases "pos p < length (data p)") (simp_all add: parseStringLoop.simps [of p buf])
  consider (q) "data p ! pos p = cQUOTE" | (e) "data p ! pos p = cBSLASH"
    | (n) "data p ! pos p \<noteq> cQUOTE" "data p ! pos p \<noteq> cBSLASH" by blast
  then show ?case
  proof cases
    case q
    with inside 1(3) have "v = StringValue buf" "q = p\<lparr>pos := Suc (pos p)\<rparr>"
      by (simp_all add: parseStringLoop.simps [of p buf])
    with quote inside q show ?thesis by simp
  next
    case e
    with inside 1(3) obtain r p' where *: "parseEscape (p\<lparr>pos := pos p + 1\<rparr>) (pos p) = Inr (r, p')"
        "validateStringRune r (pos p) = None" "\<not> maxStringBytes p' < int (length buf + length (EncodeRune r))"
        "parseStringLoop p' (buf @ EncodeRune r) = Inr (v, q)"
      by (auto simp: Let_def parseStringLoop.simps [of p buf] split: sum.splits option.splits if_splits)
    have "P p' (buf @ EncodeRune r) v q"
      by (rule 1(1) [OF _ refl _ e refl *(1) refl *(2) refl *(3,4)]) (use inside e in simp_all)
    with escape inside e * show ?thesis by simp
  next
    case n
    obtain r k where d: "DecodeRune (drop (pos p) (data p)) = (r, k)" by fastforce
    have *: "\<not> data p ! pos p < 0x20" "\<not> (r = RuneError \<and> k \<le> 1)" "validateStringRune r (pos p) = None"
        "\<not> maxStringBytes p < int (length buf + k)"
        "parseStringLoop (p\<lparr>pos := pos p + k\<rparr>) (buf @ take k (drop (pos p) (data p))) = Inr (v, q)"
      using n inside 1(3) d
      by (auto simp: Let_def parseStringLoop.simps [of p buf] split: option.splits if_splits)
    have "P (p\<lparr>pos := pos p + k\<rparr>) (buf @ take k (drop (pos p) (data p))) v q"
      by (rule 1(2) [OF _ refl n *(1) refl d [symmetric] *(2,3,4,5)]) (use inside in simp)
    moreover have "decode_seq (drop (pos p) (data p)) = Some (r, k)"
      using DecodeRune_ok [OF _ d *(2)] inside by simp
    ultimately show ?thesis using plain inside n * by simp
  qed
qed

lemma parseStringLoop_advances: "parseStringLoop p buf = Inr (v, q) \<Longrightarrow> advances p q \<and> pos p < pos q"
proof (induction rule: parseStringLoop_induct)
  case (escape p buf r p' v q)
  from parseEscape_advances [OF escape(3)] escape(7) show ?case by (auto simp: advances_def same_env_def)
next
  case (plain p buf r n v q)
  from decode_seq_size [OF plain(5)] plain(1,9) show ?case by (auto simp: advances_def)
qed (simp add: advances_def)

lemma parseString_advances: "parseString p = Inr (v, q) \<Longrightarrow> advances p q \<and> pos p < pos q"
  by (auto simp: parseString_def Let_def split: sum.splits
      dest!: expect_advances parseStringFast_Inl parseStringFast_Inr parseStringLoop_advances
      dest: advances_pos intro: advances_trans)

lemma scanDigits_advances: "scanDigits p n = Inr q \<Longrightarrow> advances p q"
proof (induction p n rule: scanDigits.induct)
  case (1 p n)
  then show ?case
    by (auto simp: Let_def scanDigits.simps [of p n] split: if_splits dest: advances_Suc)
qed

lemma scanDigits_moves:
  "scanDigits p n = Inr q \<Longrightarrow> pos p < length (data p) \<Longrightarrow> isDigit (data p ! pos p) \<Longrightarrow> advances p q \<and> pos p < pos q"
  by (auto simp: Let_def scanDigits.simps [of p n] split: if_splits dest!: scanDigits_advances dest: advances_Suc)

lemma scanIntegerPart_moves:
  assumes "scanIntegerPart p n = Inr q"
  shows "advances p q \<and> pos p < pos q"
proof -
  have "pos p < length (data p)" using assms by (simp add: scanIntegerPart_def split: if_splits)
  moreover have "isDigit (data p ! pos p)" if "data p ! pos p \<noteq> cZERO"
    using assms that by (auto simp: scanIntegerPart_def isDigit_def byte_uint split: if_splits)
  ultimately show ?thesis
    using assms scanDigits_moves [of p n q] advances_step [of p]
    by (auto simp: scanIntegerPart_def scanZeroIntegerPart_def scanNonZeroIntegerDigits_def Let_def split: if_splits)
qed

lemma scanFractionPart_advances: "scanFractionPart p n = Inr q \<Longrightarrow> advances p q"
  by (auto simp: scanFractionPart_def Let_def split: if_splits dest!: scanDigits_advances advances_Suc)

lemma scanExponentPart_advances: "scanExponentPart p n = Inr q \<Longrightarrow> advances p q"
  by (auto simp: scanExponentPart_def Let_def advances_def same_env_def split: if_splits dest!: scanDigits_advances)

lemma parseNumber_advances:
  assumes "parseNumber p = Inr (v, q)"
  shows "advances p q \<and> pos p < pos q"
proof -
  obtain p1 p2 p3 where "p1 = p \<or> p1 = p\<lparr>pos := Suc (pos p)\<rparr> \<and> pos p < length (data p)"
    "scanIntegerPart p1 (pos p) = Inr p2" "scanFractionPart p2 (pos p) = Inr p3" "scanExponentPart p3 (pos p) = Inr q"
    using assms by (auto simp: parseNumber_def Let_def split: sum.splits if_splits)
  then have "advances p1 q \<and> pos p1 < pos q"
    by (meson advances_pos advances_trans order_less_le_trans scanExponentPart_advances
        scanFractionPart_advances scanIntegerPart_moves)
  with \<open>p1 = p \<or> _\<close> show ?thesis by (auto dest: advances_Suc)
qed

lemma parseBool_advances: "parseBool p = Inr (v, q) \<Longrightarrow> advances p q \<and> pos p < pos q"
  by (auto simp: parseBool_def hasLiteral_def ascii_def advances_def split: if_splits)

lemma parseNull_advances: "parseNull p = Inr (v, q) \<Longrightarrow> advances p q \<and> pos p < pos q"
  by (auto simp: parseNull_def hasLiteral_def ascii_def advances_def split: if_splits)

section \<open>Values, objects and arrays\<close>

function parseValue :: "parser \<Rightarrow> jcserr + Value \<times> parser"
  and parseObject :: "parser \<Rightarrow> jcserr + Value \<times> parser"
  and parseMembers :: "parser \<Rightarrow> Member list \<Rightarrow> (bytes \<rightharpoonup> nat) \<Rightarrow> jcserr + Value \<times> parser"
  and parseArray :: "parser \<Rightarrow> jcserr + Value \<times> parser"
  and parseElems :: "parser \<Rightarrow> Value list \<Rightarrow> jcserr + Value \<times> parser" where
  "parseValue p0 =
     (let p = p0\<lparr>valueCount := valueCount p0 + 1\<rparr> in
      if int (valueCount p) > maxValues p
      then Inl (newErrorf p BoundExceeded
        (Sprintf ''value count %d exceeds maximum %d'' [FInt (int (valueCount p)), FInt (maxValues p)]))
      else (case peek p of (c, ok) \<Rightarrow>
        if \<not> ok then Inl (newError p (Msg ''unexpected end of input''))
        else if c = cLBRACE then parseObject p
        else if c = cLBRACK then parseArray p
        else if c = cQUOTE then parseString p
        else if c = 0x74 \<or> c = 0x66 then parseBool p
        else if c = 0x6E then parseNull p
        else parseNumber p))"
| "parseObject p0 = (case pushDepth p0 of Inl e \<Rightarrow> Inl e | Inr p1 \<Rightarrow>
     (case expect p1 cLBRACE of Inl e \<Rightarrow> Inl e | Inr p2 \<Rightarrow>
       (let p = skipWhitespace p2 in
        case peek p of (c, ok) \<Rightarrow>
          if \<not> ok then Inl (newError p (Msg ''unexpected end of input in object''))
          else if c = cRBRACE then Inr (ObjectValue [], popDepth (p\<lparr>pos := pos p + 1\<rparr>))
          else (case parseMembers p [] (\<lambda>_. None) of Inl e \<Rightarrow> Inl e | Inr (v, q) \<Rightarrow> Inr (v, popDepth q)))))"
| "parseMembers p0 ms seen =
     (let p1 = skipWhitespace p0; keyStart = pos p1 in
      case parseString p1 of Inl e \<Rightarrow> Inl e | Inr (keyVal, p2) \<Rightarrow>
        (let key = Str keyVal in
         case seen key of
           Some firstOff \<Rightarrow> Inl (New DuplicateKey (int keyStart)
             (Sprintf ''duplicate object key %q (first at byte %d)'' [FBytes key, FInt (int firstOff)]))
         | None \<Rightarrow>
           (case expect (skipWhitespace p2) cCOLON of Inl e \<Rightarrow> Inl e | Inr p3 \<Rightarrow>
             (case parseValue (skipWhitespace p3) of Inl e \<Rightarrow> Inl e | Inr (val, p4) \<Rightarrow>
               if int (length ms) \<ge> maxObjectMembers p4
               then Inl (newErrorf p4 BoundExceeded
                 (Sprintf ''object member count exceeds maximum %d'' [FInt (maxObjectMembers p4)]))
               else (let ms' = ms @ [Member key val]; p = skipWhitespace p4 in
                 case peek p of (c, ok) \<Rightarrow>
                   if \<not> ok then Inl (newError p (Msg ''unexpected end of input in object''))
                   else if c = cRBRACE then Inr (ObjectValue ms', p\<lparr>pos := pos p + 1\<rparr>)
                   else if c = cCOMMA then parseMembers (p\<lparr>pos := pos p + 1\<rparr>) ms' (seen(key \<mapsto> keyStart))
                   else Inl (newErrorf p InvalidGrammar
                     (Sprintf ''expected ',' or '}' in object, got %q'' [FByte c])))))))"
| "parseArray p0 = (case pushDepth p0 of Inl e \<Rightarrow> Inl e | Inr p1 \<Rightarrow>
     (case expect p1 cLBRACK of Inl e \<Rightarrow> Inl e | Inr p2 \<Rightarrow>
       (let p = skipWhitespace p2 in
        case peek p of (c, ok) \<Rightarrow>
          if \<not> ok then Inl (newError p (Msg ''unexpected end of input in array''))
          else if c = cRBRACK then Inr (ArrayValue [], popDepth (p\<lparr>pos := pos p + 1\<rparr>))
          else (case parseElems p [] of Inl e \<Rightarrow> Inl e | Inr (v, q) \<Rightarrow> Inr (v, popDepth q)))))"
| "parseElems p0 es =
     (case parseValue (skipWhitespace p0) of Inl e \<Rightarrow> Inl e | Inr (elem, p1) \<Rightarrow>
        if int (length es) \<ge> maxArrayElements p1
        then Inl (newErrorf p1 BoundExceeded
          (Sprintf ''array element count exceeds maximum %d'' [FInt (maxArrayElements p1)]))
        else (let es' = es @ [elem]; p = skipWhitespace p1 in
          case peek p of (c, ok) \<Rightarrow>
            if \<not> ok then Inl (newError p (Msg ''unexpected end of input in array''))
            else if c = cRBRACK then Inr (ArrayValue es', p\<lparr>pos := pos p + 1\<rparr>)
            else if c = cCOMMA then parseElems (p\<lparr>pos := pos p + 1\<rparr>) es'
            else Inl (newErrorf p InvalidGrammar
              (Sprintf ''expected ',' or ']' in array, got %q'' [FByte c]))))"
  by pat_completeness auto

text \<open>
  Termination needs that a value that was parsed has consumed input, which is a fact about the functions
  being defined: it is proved first by induction over their domain.
\<close>

definition moves :: "parser \<Rightarrow> parser \<Rightarrow> bool" where
  "moves p q \<longleftrightarrow> same_env p q \<and> depth q = depth p \<and> valueCount p \<le> valueCount q \<and> pos p < pos q
     \<and> pos q \<le> length (data p)"

lemma advances_moves: "advances p q \<Longrightarrow> pos p < pos q \<Longrightarrow> pos p \<le> length (data p) \<Longrightarrow> moves p q"
  by (auto simp: advances_def moves_def)

lemma moves_advances: "moves p q \<Longrightarrow> advances q r \<Longrightarrow> moves p r"
  by (auto simp: advances_def moves_def same_env_def)

lemma advances_moves_trans: "advances p q \<Longrightarrow> moves q r \<Longrightarrow> moves p r"
  by (auto simp: advances_def moves_def same_env_def)

lemma moves_trans: "moves p q \<Longrightarrow> moves q r \<Longrightarrow> moves p r"
  by (auto simp: moves_def same_env_def)

lemma moves_data: "moves p q \<Longrightarrow> data q = data p \<and> pos p < pos q \<and> pos q \<le> length (data p)"
  by (auto simp: moves_def same_env_def)

lemma peek_ok: "peek p = (c, True) \<longleftrightarrow> pos p < length (data p) \<and> c = data p ! pos p"
  by (auto simp: peek_def)

lemma peek_ok_sym: "(c, True) = peek p \<longleftrightarrow> pos p < length (data p) \<and> c = data p ! pos p"
  by (auto simp: peek_def)

lemma peek_True: "(c, ok) = peek p \<Longrightarrow> ok \<Longrightarrow> pos p < length (data p) \<and> c = data p ! pos p"
  by (auto simp: peek_def split: if_splits)

lemma expect_moves: "expect p b = Inr q \<Longrightarrow> moves p q"
  by (auto dest!: expect_Inr simp: moves_def)

lemma skip_step_moves:
  "pos (skipWhitespace p) < length (data (skipWhitespace p)) \<Longrightarrow>
     moves p ((skipWhitespace p)\<lparr>pos := Suc (pos (skipWhitespace p))\<rparr>)"
  using skipWhitespace_advances [of p] by (auto simp: advances_def moves_def same_env_def)

lemma skip_in_data: "pos p \<le> length (data p) \<Longrightarrow> pos (skipWhitespace p) \<le> length (data (skipWhitespace p))"
  using skipWhitespace_advances [of p] by (auto simp: advances_def same_env_def)

lemma pushDepth_Inr: "pushDepth p = Inr q \<Longrightarrow> q = p\<lparr>depth := Suc (depth p)\<rparr> \<and> int (Suc (depth p)) \<le> maxDepth p"
  by (auto simp: pushDepth_def Let_def split: if_splits)

lemma popDepth_moves: "moves (p\<lparr>depth := Suc (depth p)\<rparr>) q \<Longrightarrow> moves p (popDepth q)"
  by (auto simp: moves_def popDepth_def same_env_def)

lemma moves_count: "moves (p\<lparr>valueCount := Suc (valueCount p)\<rparr>) q \<Longrightarrow> moves p q"
  by (auto simp: moves_def same_env_def)

lemma parseString_moves: "parseString p = Inr (v, q) \<Longrightarrow> moves p q"
  using parseString_advances [of p v q]
  by (auto simp: parseString_def intro: advances_moves dest!: expect_Inr split: sum.splits)

lemma leaf_moves:
  "peek p = (c, True) \<Longrightarrow> parseString p = Inr (v, q) \<Longrightarrow> moves p q"
  "peek p = (c, True) \<Longrightarrow> parseBool p = Inr (v, q) \<Longrightarrow> moves p q"
  "peek p = (c, True) \<Longrightarrow> parseNull p = Inr (v, q) \<Longrightarrow> moves p q"
  "peek p = (c, True) \<Longrightarrow> parseNumber p = Inr (v, q) \<Longrightarrow> moves p q"
  using advances_moves parseString_advances parseBool_advances parseNull_advances parseNumber_advances
  by (fastforce simp: peek_ok)+

text \<open>The opening byte of a container with its closing byte or contents, and what follows one of its items.\<close>

lemma container_moves:
  assumes "pushDepth p0 = Inr p1" "expect p1 c0 = Inr p2" "peek (skipWhitespace p2) = (c, True)"
    "q = (skipWhitespace p2)\<lparr>pos := Suc (pos (skipWhitespace p2))\<rparr> \<or> moves (skipWhitespace p2) q"
  shows "moves p0 (popDepth q)"
proof -
  have "moves p1 p2" "advances p2 (skipWhitespace p2)" using assms(2) by (auto intro: expect_moves skipWhitespace_advances)
  then have "moves p1 q"
    using assms(3,4) skip_step_moves [of p2] by (auto simp: peek_ok intro: moves_trans moves_advances)
  then show ?thesis using assms(1) by (auto dest!: pushDepth_Inr intro: popDepth_moves)
qed

lemma separator_moves:
  assumes "moves p0 p4" "peek (skipWhitespace p4) = (c, True)"
    "q = (skipWhitespace p4)\<lparr>pos := Suc (pos (skipWhitespace p4))\<rparr>
     \<or> moves ((skipWhitespace p4)\<lparr>pos := Suc (pos (skipWhitespace p4))\<rparr>) q"
  shows "moves p0 q"
proof -
  have "moves p0 ((skipWhitespace p4)\<lparr>pos := Suc (pos (skipWhitespace p4))\<rparr>)"
    using assms(1,2) skip_step_moves [of p4] by (auto simp: peek_ok intro: moves_trans)
  then show ?thesis using assms(3) by (auto intro: moves_trans)
qed

text \<open>
  One unfolding of each of the five functions that succeeded, read off on their domain: what it parsed, and
  which of the others it called last.
\<close>

lemma parseValue_unfold:
  assumes dom: "parseValue_parseObject_parseMembers_parseArray_parseElems_dom (Inl (Inl p0))" and eq: "parseValue p0 = Inr (v, q)"
  obtains c where "\<not> maxValues (p0\<lparr>valueCount := valueCount p0 + 1\<rparr>) < int (valueCount (p0\<lparr>valueCount := valueCount p0 + 1\<rparr>))"
    "peek (p0\<lparr>valueCount := valueCount p0 + 1\<rparr>) = (c, True)"
    "c = cLBRACE \<and> parseObject (p0\<lparr>valueCount := valueCount p0 + 1\<rparr>) = Inr (v, q)
     \<or> c \<noteq> cLBRACE \<and> c = cLBRACK \<and> parseArray (p0\<lparr>valueCount := valueCount p0 + 1\<rparr>) = Inr (v, q)
     \<or> moves (p0\<lparr>valueCount := valueCount p0 + 1\<rparr>) q"
proof -
  let ?p = "p0\<lparr>valueCount := valueCount p0 + 1\<rparr>"
  obtain c b where p: "peek ?p = (c, b)" by fastforce
  from eq have ok: "\<not> maxValues ?p < int (valueCount ?p)"
    by (cases "maxValues ?p < int (valueCount ?p)") (simp_all add: parseValue.psimps [OF dom])
  from eq ok p have b by (cases b) (simp_all add: parseValue.psimps [OF dom])
  with p have pk: "peek ?p = (c, True)" by simp
  have "parseString ?p = Inr (v, q) \<or> parseBool ?p = Inr (v, q) \<or> parseNull ?p = Inr (v, q) \<or> parseNumber ?p = Inr (v, q)"
    if "c \<noteq> cLBRACE" "c \<noteq> cLBRACK"
    using eq ok pk that by (simp add: parseValue.psimps [OF dom] Let_def split: if_splits)
  with leaf_moves [OF pk] have "moves ?p q" if "c \<noteq> cLBRACE" "c \<noteq> cLBRACK" using that by blast
  moreover have "parseObject ?p = Inr (v, q)" if "c = cLBRACE"
    using eq ok pk that by (simp add: parseValue.psimps [OF dom])
  moreover have "parseArray ?p = Inr (v, q)" if "c \<noteq> cLBRACE" "c = cLBRACK"
    using eq ok pk that by (simp add: parseValue.psimps [OF dom])
  ultimately show thesis using that [OF ok pk] by blast
qed

lemma parseObject_unfold:
  assumes dom: "parseValue_parseObject_parseMembers_parseArray_parseElems_dom (Inl (Inr p0))" and eq: "parseObject p0 = Inr (v, q)"
  obtains p1 p2 c q' where "pushDepth p0 = Inr p1" "expect p1 cLBRACE = Inr p2" "peek (skipWhitespace p2) = (c, True)"
    "q = popDepth q'" "q' = (skipWhitespace p2)\<lparr>pos := Suc (pos (skipWhitespace p2))\<rparr>
     \<or> c \<noteq> cRBRACE \<and> parseMembers (skipWhitespace p2) [] (\<lambda>_. None) = Inr (v, q')"
proof -
  from eq obtain p1 p2 where p1: "pushDepth p0 = Inr p1" and p2: "expect p1 cLBRACE = Inr p2"
    by (auto simp: parseObject.psimps [OF dom] split: sum.splits)
  obtain c ok where "peek (skipWhitespace p2) = (c, ok)" by fastforce
  with eq p1 p2 have pk: "peek (skipWhitespace p2) = (c, True)"
    by (auto simp: parseObject.psimps [OF dom] Let_def split: if_splits)
  show thesis
    using eq p1 p2 pk that [OF p1 p2 pk] by (auto simp: parseObject.psimps [OF dom] Let_def split: if_splits sum.splits)
qed

lemma parseMembers_unfold:
  assumes dom: "parseValue_parseObject_parseMembers_parseArray_parseElems_dom (Inr (Inl (p0, ms, seen)))" and eq: "parseMembers p0 ms seen = Inr (v, q)"
  obtains k p2 p3 val p4 c where "parseString (skipWhitespace p0) = Inr (k, p2)" "seen (Str k) = None"
    "expect (skipWhitespace p2) cCOLON = Inr p3" "parseValue (skipWhitespace p3) = Inr (val, p4)"
    "\<not> maxObjectMembers p4 \<le> int (length ms)" "peek (skipWhitespace p4) = (c, True)"
    "q = (skipWhitespace p4)\<lparr>pos := Suc (pos (skipWhitespace p4))\<rparr>
     \<or> c \<noteq> cRBRACE \<and> c = cCOMMA \<and> parseMembers ((skipWhitespace p4)\<lparr>pos := Suc (pos (skipWhitespace p4))\<rparr>)
          (ms @ [Member (Str k) val]) (seen(Str k \<mapsto> pos (skipWhitespace p0))) = Inr (v, q)"
proof -
  obtain k p2 where k: "parseString (skipWhitespace p0) = Inr (k, p2)" and new: "seen (Str k) = None"
    using eq by (auto simp: parseMembers.psimps [OF dom] Let_def split: sum.splits option.splits)
  then obtain p3 where p3: "expect (skipWhitespace p2) cCOLON = Inr p3"
    using eq by (auto simp: parseMembers.psimps [OF dom] Let_def split: sum.splits)
  then obtain val p4 where v: "parseValue (skipWhitespace p3) = Inr (val, p4)"
    and max: "\<not> maxObjectMembers p4 \<le> int (length ms)"
    using eq k new by (auto simp: parseMembers.psimps [OF dom] Let_def split: sum.splits if_splits)
  obtain c ok where "peek (skipWhitespace p4) = (c, ok)" by fastforce
  with eq k new p3 v max have pk: "peek (skipWhitespace p4) = (c, True)"
    by (auto simp: parseMembers.psimps [OF dom] Let_def split: if_splits)
  show thesis
    using eq k new p3 v max pk that [OF k new p3 v max pk] by (auto simp: parseMembers.psimps [OF dom] Let_def split: if_splits)
qed

lemma parseArray_unfold:
  assumes dom: "parseValue_parseObject_parseMembers_parseArray_parseElems_dom (Inr (Inr (Inl p0)))" and eq: "parseArray p0 = Inr (v, q)"
  obtains p1 p2 c q' where "pushDepth p0 = Inr p1" "expect p1 cLBRACK = Inr p2" "peek (skipWhitespace p2) = (c, True)"
    "q = popDepth q'" "q' = (skipWhitespace p2)\<lparr>pos := Suc (pos (skipWhitespace p2))\<rparr>
     \<or> c \<noteq> cRBRACK \<and> parseElems (skipWhitespace p2) [] = Inr (v, q')"
proof -
  from eq obtain p1 p2 where p1: "pushDepth p0 = Inr p1" and p2: "expect p1 cLBRACK = Inr p2"
    by (auto simp: parseArray.psimps [OF dom] split: sum.splits)
  obtain c ok where "peek (skipWhitespace p2) = (c, ok)" by fastforce
  with eq p1 p2 have pk: "peek (skipWhitespace p2) = (c, True)"
    by (auto simp: parseArray.psimps [OF dom] Let_def split: if_splits)
  show thesis
    using eq p1 p2 pk that [OF p1 p2 pk] by (auto simp: parseArray.psimps [OF dom] Let_def split: if_splits sum.splits)
qed

lemma parseElems_unfold:
  assumes dom: "parseValue_parseObject_parseMembers_parseArray_parseElems_dom (Inr (Inr (Inr (p0, es))))" and eq: "parseElems p0 es = Inr (v, q)"
  obtains e p4 c where "parseValue (skipWhitespace p0) = Inr (e, p4)" "\<not> maxArrayElements p4 \<le> int (length es)"
    "peek (skipWhitespace p4) = (c, True)"
    "q = (skipWhitespace p4)\<lparr>pos := Suc (pos (skipWhitespace p4))\<rparr>
     \<or> c \<noteq> cRBRACK \<and> c = cCOMMA \<and>
       parseElems ((skipWhitespace p4)\<lparr>pos := Suc (pos (skipWhitespace p4))\<rparr>) (es @ [e]) = Inr (v, q)"
proof -
  from eq obtain e p4 where v: "parseValue (skipWhitespace p0) = Inr (e, p4)"
    and max: "\<not> maxArrayElements p4 \<le> int (length es)"
    by (auto simp: parseElems.psimps [OF dom] Let_def split: sum.splits if_splits)
  obtain c ok where "peek (skipWhitespace p4) = (c, ok)" by fastforce
  with eq v max have pk: "peek (skipWhitespace p4) = (c, True)"
    by (auto simp: parseElems.psimps [OF dom] Let_def split: if_splits)
  show thesis
    using eq v max pk that [OF v max pk] by (auto simp: parseElems.psimps [OF dom] Let_def split: if_splits)
qed

lemma parse_moves_partial:
  shows "parseValue_parseObject_parseMembers_parseArray_parseElems_dom (Inl (Inl p)) \<Longrightarrow>
      \<forall>v q. parseValue p = Inr (v, q) \<longrightarrow> moves p q"
    and "parseValue_parseObject_parseMembers_parseArray_parseElems_dom (Inl (Inr p)) \<Longrightarrow>
      \<forall>v q. parseObject p = Inr (v, q) \<longrightarrow> moves p q"
    and "parseValue_parseObject_parseMembers_parseArray_parseElems_dom (Inr (Inl (p, ms, seen))) \<Longrightarrow>
      \<forall>v q. parseMembers p ms seen = Inr (v, q) \<longrightarrow> moves p q"
    and "parseValue_parseObject_parseMembers_parseArray_parseElems_dom (Inr (Inr (Inl p))) \<Longrightarrow>
      \<forall>v q. parseArray p = Inr (v, q) \<longrightarrow> moves p q"
    and "parseValue_parseObject_parseMembers_parseArray_parseElems_dom (Inr (Inr (Inr (p, es)))) \<Longrightarrow>
      \<forall>v q. parseElems p es = Inr (v, q) \<longrightarrow> moves p q"
proof (induction rule: parseValue_parseObject_parseMembers_parseArray_parseElems.pinduct)
  case (1 p0)
  let ?p = "p0\<lparr>valueCount := valueCount p0 + 1\<rparr>"
  have "moves p0 q" if eq: "parseValue p0 = Inr (v, q)" for v q
  proof (rule parseValue_unfold [OF 1(1) eq])
    fix c
    assume ok: "\<not> maxValues ?p < int (valueCount ?p)" and pk: "peek ?p = (c, True)"
      and r: "c = cLBRACE \<and> parseObject ?p = Inr (v, q) \<or> c \<noteq> cLBRACE \<and> c = cLBRACK \<and> parseArray ?p = Inr (v, q) \<or> moves ?p q"
    from r 1(2,3) [OF refl ok pk [symmetric]] have "moves ?p q" by auto
    then show "moves p0 q" using moves_count [of p0 q] by simp
  qed
  then show ?case by blast
next
  case (2 p0)
  have "moves p0 q" if eq: "parseObject p0 = Inr (v, q)" for v q
  proof (rule parseObject_unfold [OF 2(1) eq])
    fix p1 p2 c q'
    assume p: "pushDepth p0 = Inr p1" "expect p1 cLBRACE = Inr p2" "peek (skipWhitespace p2) = (c, True)"
      and q: "q = popDepth q'" "q' = (skipWhitespace p2)\<lparr>pos := Suc (pos (skipWhitespace p2))\<rparr>
        \<or> c \<noteq> cRBRACE \<and> parseMembers (skipWhitespace p2) [] (\<lambda>_. None) = Inr (v, q')"
    from q(2) 2(2) [OF p(1,2) refl p(3) [symmetric]] show "moves p0 q"
      unfolding q(1) by (intro container_moves [OF p]) auto
  qed
  then show ?case by blast
next
  case (3 p0 ms seen)
  have "moves p0 q" if eq: "parseMembers p0 ms seen = Inr (v, q)" for v q
  proof (rule parseMembers_unfold [OF 3(1) eq])
    fix k p2 p3 val p4 c
    assume k: "parseString (skipWhitespace p0) = Inr (k, p2)" "seen (Str k) = None"
      "expect (skipWhitespace p2) cCOLON = Inr p3" "parseValue (skipWhitespace p3) = Inr (val, p4)"
      "\<not> maxObjectMembers p4 \<le> int (length ms)" "peek (skipWhitespace p4) = (c, True)"
      and q: "q = (skipWhitespace p4)\<lparr>pos := Suc (pos (skipWhitespace p4))\<rparr>
       \<or> c \<noteq> cRBRACE \<and> c = cCOMMA \<and> parseMembers ((skipWhitespace p4)\<lparr>pos := Suc (pos (skipWhitespace p4))\<rparr>)
            (ms @ [Member (Str k) val]) (seen(Str k \<mapsto> pos (skipWhitespace p0))) = Inr (v, q)"
    have "moves (skipWhitespace p3) p4" using 3(2) [OF refl refl k(1) refl refl k(2,3)] k(4) by blast
    then have "moves p0 p4"
      using parseString_moves [OF k(1)] expect_moves [OF k(3)] skipWhitespace_advances
      by (meson advances_moves_trans moves_advances moves_trans)
    moreover have "q = (skipWhitespace p4)\<lparr>pos := Suc (pos (skipWhitespace p4))\<rparr>
        \<or> moves ((skipWhitespace p4)\<lparr>pos := Suc (pos (skipWhitespace p4))\<rparr>) q"
      using q 3(3) [OF refl refl k(1) refl refl k(2-4) refl k(5) refl refl k(6) [symmetric]]
      by (auto simp del: fun_upd_apply)
    ultimately show "moves p0 q" by (rule separator_moves [OF _ k(6)])
  qed
  then show ?case by blast
next
  case (4 p0)
  have "moves p0 q" if eq: "parseArray p0 = Inr (v, q)" for v q
  proof (rule parseArray_unfold [OF 4(1) eq])
    fix p1 p2 c q'
    assume p: "pushDepth p0 = Inr p1" "expect p1 cLBRACK = Inr p2" "peek (skipWhitespace p2) = (c, True)"
      and q: "q = popDepth q'" "q' = (skipWhitespace p2)\<lparr>pos := Suc (pos (skipWhitespace p2))\<rparr>
        \<or> c \<noteq> cRBRACK \<and> parseElems (skipWhitespace p2) [] = Inr (v, q')"
    from q(2) 4(2) [OF p(1,2) refl p(3) [symmetric]] show "moves p0 q"
      unfolding q(1) by (intro container_moves [OF p]) auto
  qed
  then show ?case by blast
next
  case (5 p0 es)
  have "moves p0 q" if eq: "parseElems p0 es = Inr (v, q)" for v q
  proof (rule parseElems_unfold [OF 5(1) eq])
    fix e p4 c
    assume k: "parseValue (skipWhitespace p0) = Inr (e, p4)" "\<not> maxArrayElements p4 \<le> int (length es)"
      "peek (skipWhitespace p4) = (c, True)"
      and q: "q = (skipWhitespace p4)\<lparr>pos := Suc (pos (skipWhitespace p4))\<rparr>
       \<or> c \<noteq> cRBRACK \<and> c = cCOMMA \<and>
         parseElems ((skipWhitespace p4)\<lparr>pos := Suc (pos (skipWhitespace p4))\<rparr>) (es @ [e]) = Inr (v, q)"
    have "moves p0 p4" using 5(2) k(1) skipWhitespace_advances by (meson advances_moves_trans)
    with q 5(3) [OF k(1) refl k(2) refl refl k(3) [symmetric]] show "moves p0 q"
      by (auto intro: separator_moves [OF _ k(3)])
  qed
  then show ?case by blast
qed

text \<open>What is left to read, weighted so that a call at the same position decreases too.\<close>

definition parse_measure :: "(parser + parser) + (parser \<times> Member list \<times> (bytes \<rightharpoonup> nat)) + parser + (parser \<times> Value list) \<Rightarrow> nat" where
  "parse_measure x = (let left = (\<lambda>p. 4 * (length (data p) - pos p)) in
     case x of Inl (Inl p) \<Rightarrow> left p + 2 | Inl (Inr p) \<Rightarrow> left p + 1 | Inr (Inl (p, _)) \<Rightarrow> left p
     | Inr (Inr (Inl p)) \<Rightarrow> left p + 1 | Inr (Inr (Inr (p, _))) \<Rightarrow> left p + 3)"

lemma parse_measure_simps [simp]:
  "parse_measure (Inl (Inl p)) = 4 * (length (data p) - pos p) + 2"
  "parse_measure (Inl (Inr p)) = 4 * (length (data p) - pos p) + 1"
  "parse_measure (Inr (Inl (p, ms, seen))) = 4 * (length (data p) - pos p)"
  "parse_measure (Inr (Inr (Inl p))) = 4 * (length (data p) - pos p) + 1"
  "parse_measure (Inr (Inr (Inr (p, es)))) = 4 * (length (data p) - pos p) + 3"
  by (simp_all add: parse_measure_def)

lemma moves_less: "moves p q \<Longrightarrow> 4 * (length (data q) - pos q) + 3 < 4 * (length (data p) - pos p)"
  by (auto dest!: moves_data)

lemma advances_le: "advances p q \<Longrightarrow> 4 * (length (data q) - pos q) \<le> 4 * (length (data p) - pos p)"
  by (auto simp: advances_def same_env_def)

lemma members_decrease:
  assumes "parseString (skipWhitespace p0) = Inr (k, p1)" "expect (skipWhitespace p1) cCOLON = Inr p2"
  shows "moves p0 (skipWhitespace p2)"
  using parseString_moves [OF assms(1)] expect_moves [OF assms(2)] skipWhitespace_advances
  by (meson advances_moves_trans moves_advances moves_trans)

lemma parse_total: "All parseValue_parseObject_parseMembers_parseArray_parseElems_dom"
proof (rule "parseValue_parseObject_parseMembers_parseArray_parseElems.termination" [of "measure parse_measure"],
    goal_cases)
  case (4 p0 b ba x xa y)
  then have "moves b x"
    using expect_moves [of b cLBRACE ba] skipWhitespace_advances [of ba] by (auto intro: moves_advances)
  with 4 show ?case using moves_less [of b x] by (auto dest!: pushDepth_Inr)
next
  case (5 p0 ms seen x xa b xb y xc ba)
  then have "moves p0 (skipWhitespace ba)" using members_decrease [of p0 xb y ba] by simp
  then show ?case using moves_less [of p0 "skipWhitespace ba"] by simp
next
  case (6 p0 ms seen x xa b xb y xc ba bb xd ya xe xf xg yb)
  then have "parseString (skipWhitespace p0) = Inr (xb, y)" "parseValue (skipWhitespace ba) = Inr (xd, ya)" by simp_all
  then have "moves p0 (skipWhitespace ba)" "moves (skipWhitespace ba) ya"
    using 6 members_decrease [of p0 xb y ba] parse_moves_partial(1) [of "skipWhitespace ba"] by blast+
  moreover have "moves ya (xf\<lparr>pos := Suc (pos xf)\<rparr>)"
    using 6 skip_step_moves [of ya] by (simp add: peek_ok_sym)
  ultimately have "moves p0 (xf\<lparr>pos := Suc (pos xf)\<rparr>)" by (blast intro: moves_trans)
  then show ?case using moves_less [of p0 "xf\<lparr>pos := Suc (pos xf)\<rparr>"] by simp
next
  case (7 p0 b ba x xa y)
  then have "moves b x"
    using expect_moves [of b cLBRACK ba] skipWhitespace_advances [of ba] by (auto intro: moves_advances)
  with 7 show ?case using moves_less [of b x] by (auto dest!: pushDepth_Inr)
next
  case (8 p0 es)
  then show ?case using advances_le [OF skipWhitespace_advances [of p0]] by simp
next
  case (9 p0 es b x y xa xb xc ya)
  then have "parseValue (skipWhitespace p0) = Inr (x, y)" by simp
  then have "moves (skipWhitespace p0) y" using 9 parse_moves_partial(1) [of "skipWhitespace p0"] by blast
  moreover have "moves y (xb\<lparr>pos := Suc (pos xb)\<rparr>)"
    using 9 skip_step_moves [of y] by (simp add: peek_ok_sym)
  ultimately have "moves p0 (xb\<lparr>pos := Suc (pos xb)\<rparr>)"
    using skipWhitespace_advances by (blast intro: moves_trans advances_moves_trans)
  then show ?case using moves_less [of p0 "xb\<lparr>pos := Suc (pos xb)\<rparr>"] by simp
qed simp_all

lemma parseValue_moves: "parseValue p = Inr (v, q) \<Longrightarrow> moves p q"
  using parse_moves_partial(1) [OF spec [OF parse_total]] by simp

termination parseValue
  by (rule parse_total)

declare parseValue.simps [simp del] parseObject.simps [simp del] parseMembers.simps [simp del]
  parseArray.simps [simp del] parseElems.simps [simp del]

section \<open>Entry points\<close>

function firstInvalidUTF8From :: "bytes \<Rightarrow> nat \<Rightarrow> nat" where
  "firstInvalidUTF8From d i =
     (if i < length d then
        (case DecodeRune (drop i d) of (r, n) \<Rightarrow>
           if n = 1 \<and> d ! i \<ge> 0x80 then i else firstInvalidUTF8From d (i + n))
      else 0)"
  by pat_completeness auto
termination
proof (relation "measure (\<lambda>(d, i). length d - i)", goal_cases)
  case (2 d i)
  then have "drop i d \<noteq> []" by simp
  then have "0 < snd (DecodeRune (drop i d))" by (rule DecodeRune_pos)
  with 2 show ?case by (cases "DecodeRune (drop i d)") auto
qed simp

declare firstInvalidUTF8From.simps [simp del]

definition firstInvalidUTF8Offset :: "bytes \<Rightarrow> nat" where
  "firstInvalidUTF8Offset d = firstInvalidUTF8From d 0"

definition new_parser :: "bytes \<Rightarrow> Options option \<Rightarrow> parser" where
  "new_parser d opts =
     \<lparr>data = d, pos = 0, depth = 0, valueCount = 0, maxDepth = opt_maxDepth opts,
      maxValues = opt_maxValues opts, maxObjectMembers = opt_maxObjectMembers opts,
      maxArrayElements = opt_maxArrayElements opts, maxStringBytes = opt_maxStringBytes opts,
      maxNumberChars = opt_maxNumberChars opts\<rparr>"

definition ParseWithOptions :: "bytes \<Rightarrow> Options option \<Rightarrow> jcserr + Value" where
  "ParseWithOptions d opts =
     (let maxInput = opt_maxInputSize opts in
      if int (length d) > maxInput
      then Inl (New BoundExceeded 0
        (Sprintf ''input size %d exceeds maximum %d'' [FInt (int (length d)), FInt maxInput]))
      else if \<not> utf8_Valid d
      then Inl (New InvalidUTF8 (int (firstInvalidUTF8Offset d)) (Msg ''input is not valid UTF-8''))
      else (case parseValue (skipWhitespace (new_parser d opts)) of Inl e \<Rightarrow> Inl e | Inr (v, p0) \<Rightarrow>
        (let p = skipWhitespace p0 in
         if pos p \<noteq> length (data p) then Inl (newError p (Msg ''trailing content after JSON value''))
         else Inr v)))"

definition Parse :: "bytes \<Rightarrow> jcserr + Value" where
  "Parse d = ParseWithOptions d None"

end
