(* ===== verification/Jcs_Serialize.thy ===== *)
theory Jcs_Serialize
  imports Jcs_Order Jcsfloat Token_Parse
begin

text \<open>
  Package jcs (src/jcs/serialize.go): validation of a value tree against the limits and its canonical
  serialization. Every function that appends to a buffer takes the buffer and returns the longer one.
\<close>

section \<open>Strings\<close>

definition hexDigit :: "byte \<Rightarrow> byte" where
  "hexDigit b = (if b < 10 then cZERO + b else 0x61 + (b - 10))"

definition appendEscapedByte :: "bytes \<Rightarrow> byte \<Rightarrow> bytes \<times> bool" where
  "appendEscapedByte buf b =
     (if b = cQUOTE then (buf @ [cBSLASH, cQUOTE], True)
      else if b = cBSLASH then (buf @ [cBSLASH, cBSLASH], True)
      else if b = 0x08 then (buf @ [cBSLASH, 0x62], True)
      else if b = cTAB then (buf @ [cBSLASH, 0x74], True)
      else if b = cLF then (buf @ [cBSLASH, 0x6E], True)
      else if b = 0x0C then (buf @ [cBSLASH, 0x66], True)
      else if b = cCR then (buf @ [cBSLASH, 0x72], True)
      else if b < 0x20 then
        (buf @ [cBSLASH, 0x75, cZERO, cZERO, hexDigit (drop_bit 4 b), hexDigit (and b 0x0F)], True)
      else (buf, False))"

definition utf8SeqLen :: "byte \<Rightarrow> nat" where
  "utf8SeqLen b = (if b < 0x80 then 1 else if b < 0xE0 then 2 else if b < 0xF0 then 3 else 4)"

definition byteSpanForCopy :: "bytes \<Rightarrow> nat \<Rightarrow> nat" where
  "byteSpanForCopy s i =
     (let b = s ! i in
      if b < 0x80 then 1
      else (let n = utf8SeqLen b in if i + n > length s then length s - i else n))"

lemma byteSpanForCopy_pos: "i < length s \<Longrightarrow> 0 < byteSpanForCopy s i \<and> i + byteSpanForCopy s i \<le> length s"
  by (auto simp: byteSpanForCopy_def utf8SeqLen_def Let_def)

function serializeStringLoop :: "bytes \<Rightarrow> bytes \<Rightarrow> nat \<Rightarrow> bytes" where
  "serializeStringLoop buf s i =
     (if i < length s then
        (case appendEscapedByte buf (s ! i) of (nxt, consumed) \<Rightarrow>
           if consumed then serializeStringLoop nxt s (i + 1)
           else (let n = byteSpanForCopy s i in
             serializeStringLoop (buf @ take n (drop i s)) s (i + n)))
      else buf)"
  by pat_completeness auto
termination
proof (relation "measure (\<lambda>(buf, s, i). length s - i)", goal_cases)
  case (3 buf s i)
  then show ?case using byteSpanForCopy_pos [of i s] by auto
qed auto

declare serializeStringLoop.simps [simp del]

definition serializeString :: "bytes \<Rightarrow> bytes \<Rightarrow> bytes" where
  "serializeString buf s = serializeStringLoop (buf @ [cQUOTE]) s 0 @ [cQUOTE]"

section \<open>Values\<close>

definition serializeNumber :: "fmath \<Rightarrow> bytes \<Rightarrow> float64 \<Rightarrow> fault + bytes" where
  "serializeNumber M buf f = (case FormatDouble M f of
     Inl (Fail err) \<Rightarrow> Inl (Fail (Wrap (Class err) (-1) (Msg ''jcs: number serialization error'') (JcsCause err)))
   | Inl Abort \<Rightarrow> Inl Abort
   | Inr t \<Rightarrow> Inr (buf @ t))"

lemma size_list_mset: "mset xs = mset ys \<Longrightarrow> size_list f xs = size_list f ys"
proof -
  have "size_list f xs = sum_mset (image_mset (\<lambda>x. f x + 1) (mset xs))" for xs
    by (induction xs) auto
  then show "mset xs = mset ys \<Longrightarrow> ?thesis" by simp
qed

lemma size_sortMembers [simp]: "size_list size (sortMembers ms) = size_list size ms"
  by (rule size_list_mset) simp

text \<open>
  \<open>first\<close> says whether no element has been written yet: the code's test is \<^verbatim>\<open>i > 0\<close> for the index of the
  loop.
\<close>

function serializeValue :: "fmath \<Rightarrow> bytes \<Rightarrow> Value \<Rightarrow> fault + bytes"
  and serializeElems :: "fmath \<Rightarrow> bytes \<Rightarrow> bool \<Rightarrow> Value list \<Rightarrow> fault + bytes"
  and serializeMembers :: "fmath \<Rightarrow> bytes \<Rightarrow> bool \<Rightarrow> Member list \<Rightarrow> fault + bytes" where
  "serializeValue M buf (Value k str num ms es) = (case k of
     KindNull \<Rightarrow> Inr (buf @ ascii ''null'')
   | KindBool \<Rightarrow> Inr (buf @ str)
   | KindNumber \<Rightarrow> serializeNumber M buf num
   | KindString \<Rightarrow> Inr (serializeString buf str)
   | KindArray \<Rightarrow> (case serializeElems M (buf @ [cLBRACK]) True es of
       Inl e \<Rightarrow> Inl e | Inr b \<Rightarrow> Inr (b @ [cRBRACK]))
   | KindObject \<Rightarrow> (case serializeMembers M (buf @ [cLBRACE]) True (sortMembers ms) of
       Inl e \<Rightarrow> Inl e | Inr b \<Rightarrow> Inr (b @ [cRBRACE]))
   | KindUnknown i \<Rightarrow> Inl (Fail (New InternalError (-1) (Sprintf ''jcs: unknown value kind %d'' [FInt i]))))"
| "serializeElems M buf first [] = Inr buf"
| "serializeElems M buf first (v # vs) =
     (case serializeValue M (if first then buf else buf @ [cCOMMA]) v of
        Inl e \<Rightarrow> Inl e | Inr b \<Rightarrow> serializeElems M b False vs)"
| "serializeMembers M buf first [] = Inr buf"
| "serializeMembers M buf first (Member k v # ms) =
     (let buf1 = (if first then buf else buf @ [cCOMMA]);
          buf2 = serializeString buf1 k @ [cCOLON]
      in case serializeValue M buf2 v of
           Inl e \<Rightarrow> Inl e | Inr b \<Rightarrow> serializeMembers M b False ms)"
  by pat_completeness auto
termination
  by (relation "measure (\<lambda>x. case x of Inl (M, buf, v) \<Rightarrow> size v
     | Inr (Inl (M, buf, first, vs)) \<Rightarrow> size_list size vs
     | Inr (Inr (M, buf, first, ms)) \<Rightarrow> size_list size ms)") auto

section \<open>Validation\<close>

record serializeLimits =
  lim_maxDepth :: int
  lim_maxValues :: int
  lim_maxObjectMembers :: int
  lim_maxArrayElements :: int
  lim_maxStringBytes :: int

definition resolveSerializeLimit :: "int \<Rightarrow> int \<Rightarrow> int" where
  "resolveSerializeLimit val def = (if val > 0 then val else def)"

definition resolveSerializeLimits :: "Options option \<Rightarrow> serializeLimits" where
  "resolveSerializeLimits opts = (case opts of
     None \<Rightarrow> \<lparr>lim_maxDepth = DefaultMaxDepth, lim_maxValues = DefaultMaxValues,
       lim_maxObjectMembers = DefaultMaxObjectMembers, lim_maxArrayElements = DefaultMaxArrayElements,
       lim_maxStringBytes = DefaultMaxStringBytes\<rparr>
   | Some p \<Rightarrow> \<lparr>lim_maxDepth = resolveSerializeLimit (MaxDepth p) DefaultMaxDepth,
       lim_maxValues = resolveSerializeLimit (MaxValues p) DefaultMaxValues,
       lim_maxObjectMembers = resolveSerializeLimit (MaxObjectMembers p) DefaultMaxObjectMembers,
       lim_maxArrayElements = resolveSerializeLimit (MaxArrayElements p) DefaultMaxArrayElements,
       lim_maxStringBytes = resolveSerializeLimit (MaxStringBytes p) DefaultMaxStringBytes\<rparr>)"

fun validateRunes :: "rune list \<Rightarrow> jcserr option" where
  "validateRunes [] = None"
| "validateRunes (c # cs) =
     (if IsNoncharacter c then
        Some (New Noncharacter (-1) (Sprintf ''jcs: string contains noncharacter U+%04X'' [FRune c]))
      else if c \<ge> 0xD800 \<and> c \<le> 0xDFFF then
        Some (New LoneSurrogate (-1) (Sprintf ''jcs: string contains surrogate code point U+%04X'' [FRune c]))
      else validateRunes cs)"

definition validateString :: "bytes \<Rightarrow> int \<Rightarrow> jcserr option" where
  "validateString str maxBytes =
     (if \<not> utf8_Valid str then Some (New InvalidUTF8 (-1) (Msg ''jcs: string is not valid UTF-8''))
      else if int (length str) > maxBytes then
        Some (New BoundExceeded (-1) (Sprintf ''jcs: string length exceeds maximum %d bytes'' [FInt maxBytes]))
      else validateRunes (runes str))"

text \<open>The state of the walk is the number of values seen so far.\<close>

fun validateValueTree :: "Value \<Rightarrow> int \<Rightarrow> nat \<Rightarrow> serializeLimits \<Rightarrow> jcserr + nat"
  and validateElems :: "Value list \<Rightarrow> int \<Rightarrow> nat \<Rightarrow> serializeLimits \<Rightarrow> jcserr + nat"
  and validateMembers :: "Member list \<Rightarrow> bytes list \<Rightarrow> int \<Rightarrow> nat \<Rightarrow> serializeLimits \<Rightarrow> jcserr + nat" where
  "validateValueTree (Value k str num ms es) dep st0 limits =
     (let st = st0 + 1 in
      if int st > lim_maxValues limits then
        Inl (New BoundExceeded (-1) (Sprintf ''jcs: value count exceeds maximum %d'' [FInt (lim_maxValues limits)]))
      else if dep > lim_maxDepth limits then
        Inl (New BoundExceeded (-1)
          (Sprintf ''jcs: value nesting depth exceeds maximum %d'' [FInt (lim_maxDepth limits)]))
      else (case k of
        KindNull \<Rightarrow> Inr st
      | KindBool \<Rightarrow> (if str \<noteq> ascii ''true'' \<and> str \<noteq> ascii ''false''
          then Inl (New InvalidGrammar (-1) (Sprintf ''jcs: invalid boolean payload %q'' [FBytes str])) else Inr st)
      | KindNumber \<Rightarrow> (if IsNaN num \<or> IsInf num
          then Inl (New InvalidGrammar (-1) (Msg ''jcs: number is not finite'')) else Inr st)
      | KindString \<Rightarrow> (case validateString str (lim_maxStringBytes limits) of Some e \<Rightarrow> Inl e | None \<Rightarrow> Inr st)
      | KindArray \<Rightarrow> (if int (length es) > lim_maxArrayElements limits
          then Inl (New BoundExceeded (-1)
            (Sprintf ''jcs: array element count exceeds maximum %d'' [FInt (lim_maxArrayElements limits)]))
          else validateElems es (dep + 1) st limits)
      | KindObject \<Rightarrow> (if int (length ms) > lim_maxObjectMembers limits
          then Inl (New BoundExceeded (-1)
            (Sprintf ''jcs: object member count exceeds maximum %d'' [FInt (lim_maxObjectMembers limits)]))
          else validateMembers ms [] (dep + 1) st limits)
      | KindUnknown i \<Rightarrow>
          Inl (New InternalError (-1) (Sprintf ''jcs: unknown value kind %d'' [FInt i]))))"
| "validateElems [] dep st limits = Inr st"
| "validateElems (v # vs) dep st limits = (case validateValueTree v dep st limits of
     Inl e \<Rightarrow> Inl e | Inr st' \<Rightarrow> validateElems vs dep st' limits)"
| "validateMembers [] seen dep st limits = Inr st"
| "validateMembers (Member key v # ms) seen dep st limits =
     (case validateString key (lim_maxStringBytes limits) of
        Some e \<Rightarrow> Inl (Wrap (Class e) (Offset e) (Msg ''jcs: invalid object key'') (JcsCause e))
      | None \<Rightarrow>
        if key \<in> set seen
        then Inl (New DuplicateKey (-1) (Sprintf ''jcs: duplicate object key %q'' [FBytes key]))
        else (case validateValueTree v dep st limits of
          Inl e \<Rightarrow> Inl e | Inr st' \<Rightarrow> validateMembers ms (key # seen) dep st' limits))"

section \<open>Entry points\<close>

definition serializeInto :: "fmath \<Rightarrow> bytes \<Rightarrow> Value option \<Rightarrow> Options option \<Rightarrow> fault + bytes" where
  "serializeInto M buf v opts = (case v of
     None \<Rightarrow> Inl (Fail (New InternalError (-1) (Msg ''jcs: nil value'')))
   | Some w \<Rightarrow> (case validateValueTree w 0 0 (resolveSerializeLimits opts) of
       Inl e \<Rightarrow> Inl (Fail e)
     | Inr _ \<Rightarrow> serializeValue M buf w))"

definition Serialize :: "fmath \<Rightarrow> Value option \<Rightarrow> fault + bytes" where
  "Serialize M v = serializeInto M [] v None"

definition SerializeWithOptions :: "fmath \<Rightarrow> Value option \<Rightarrow> Options option \<Rightarrow> fault + bytes" where
  "SerializeWithOptions M v opts = serializeInto M [] v opts"

definition Canonicalize :: "fmath \<Rightarrow> bytes \<Rightarrow> fault + bytes" where
  "Canonicalize M input = (case Parse input of Inl e \<Rightarrow> Inl (Fail e) | Inr v \<Rightarrow> serializeInto M [] (Some v) None)"

definition CanonicalizeWithOptions :: "fmath \<Rightarrow> bytes \<Rightarrow> Options option \<Rightarrow> fault + bytes" where
  "CanonicalizeWithOptions M input opts =
     (case ParseWithOptions input opts of Inl e \<Rightarrow> Inl (Fail e) | Inr v \<Rightarrow> serializeInto M [] (Some v) opts)"

end
