(* ===== verification/Token_Facts.thy ===== *)
theory Token_Facts
  imports Token_Parse
begin

text \<open>
  Reasoning principles for the parser: what a successful call of each function has done, and an
  induction over successful parses whose cases are those of the code.
\<close>

text \<open>Entering an object or an array: the checks at its opening byte and the state after it.\<close>

definition enter :: "parser \<Rightarrow> byte \<Rightarrow> parser \<Rightarrow> bool" where
  "enter p b p' \<longleftrightarrow> pos p < length (data p) \<and> data p ! pos p = b
     \<and> int (Suc (valueCount p)) \<le> maxValues p \<and> int (Suc (depth p)) \<le> maxDepth p
     \<and> p' = skipWhitespace (p\<lparr>valueCount := Suc (valueCount p), depth := Suc (depth p), pos := Suc (pos p)\<rparr>)"

definition at_byte :: "parser \<Rightarrow> byte \<Rightarrow> bool" where
  "at_byte p b \<longleftrightarrow> pos p < length (data p) \<and> data p ! pos p = b"

definition skip1 :: "parser \<Rightarrow> parser" where
  "skip1 p = p\<lparr>pos := Suc (pos p)\<rparr>"

definition counted :: "parser \<Rightarrow> parser" where
  "counted p = p\<lparr>valueCount := Suc (valueCount p)\<rparr>"

lemma parser_fields_skip1 [simp]:
  "data (skip1 p) = data p" "depth (skip1 p) = depth p" "valueCount (skip1 p) = valueCount p"
  "pos (skip1 p) = Suc (pos p)" "same_env q (skip1 p) = same_env q p" "same_env (skip1 p) q = same_env p q"
  "maxDepth (skip1 p) = maxDepth p" "maxValues (skip1 p) = maxValues p"
  by (simp_all add: skip1_def)

lemma parser_fields_counted [simp]:
  "data (counted p) = data p" "depth (counted p) = depth p" "valueCount (counted p) = Suc (valueCount p)"
  "pos (counted p) = pos p" "same_env q (counted p) = same_env q p" "same_env (counted p) q = same_env p q"
  "maxDepth (counted p) = maxDepth p" "maxValues (counted p) = maxValues p"
  by (simp_all add: counted_def)

lemma parseValue_Inr:
  assumes "parseValue p = Inr (v, q)"
  obtains (obj) "int (Suc (valueCount p)) \<le> maxValues p" "at_byte p cLBRACE" "parseObject (counted p) = Inr (v, q)"
  | (arr) "int (Suc (valueCount p)) \<le> maxValues p" "at_byte p cLBRACK" "parseArray (counted p) = Inr (v, q)"
  | (str) "int (Suc (valueCount p)) \<le> maxValues p" "at_byte p cQUOTE" "parseString (counted p) = Inr (v, q)"
  | (bool) "int (Suc (valueCount p)) \<le> maxValues p" "at_byte p 0x74 \<or> at_byte p 0x66" "parseBool (counted p) = Inr (v, q)"
  | (null) "int (Suc (valueCount p)) \<le> maxValues p" "at_byte p 0x6E" "parseNull (counted p) = Inr (v, q)"
  | (num) "int (Suc (valueCount p)) \<le> maxValues p" "pos p < length (data p)"
      "data p ! pos p \<notin> {cLBRACE, cLBRACK, cQUOTE, 0x74, 0x66, 0x6E}" "parseNumber (counted p) = Inr (v, q)"
proof -
  let ?p = "counted p"
  obtain c b where pk: "peek ?p = (c, b)" by fastforce
  from assms have ok: "int (Suc (valueCount p)) \<le> maxValues p"
    by (cases "maxValues p < int (Suc (valueCount p))") (simp_all add: parseValue.simps [of p] Let_def)
  with assms pk have b by (cases b) (simp_all add: parseValue.simps [of p] counted_def)
  with pk have c: "pos p < length (data p)" "c = data p ! pos p" by (auto simp: peek_ok)
  from \<open>b\<close> pk assms ok have *: "(if c = cLBRACE then parseObject ?p else if c = cLBRACK then parseArray ?p
      else if c = cQUOTE then parseString ?p else if c = 0x74 \<or> c = 0x66 then parseBool ?p
      else if c = 0x6E then parseNull ?p else parseNumber ?p) = Inr (v, q)"
    by (simp add: parseValue.simps [of p] counted_def Let_def cong: if_cong)
  consider "c = cLBRACE" | "c = cLBRACK" | "c = cQUOTE" | "c = 0x74 \<or> c = 0x66" | "c = 0x6E"
    | "c \<notin> {cLBRACE, cLBRACK, cQUOTE, 0x74, 0x66, 0x6E}" by blast
  then show thesis
    using * c ok that by cases (auto simp: at_byte_def)
qed

lemma parseObject_Inr:
  assumes "parseObject (counted p) = Inr (v, q)" "int (Suc (valueCount p)) \<le> maxValues p"
  obtains (empty) p' where "enter p cLBRACE p'" "at_byte p' cRBRACE" "v = ObjectValue []" "q = popDepth (skip1 p')"
  | (members) p' q' where "enter p cLBRACE p'" "parseMembers p' [] (\<lambda>_. None) = Inr (v, q')" "q = popDepth q'"
proof -
  from assms obtain p1 p2 where p1: "pushDepth (counted p) = Inr p1" and p2: "expect p1 cLBRACE = Inr p2"
    by (auto simp: parseObject.simps [of "counted p"] split: sum.splits)
  let ?p = "skipWhitespace p2"
  have en: "enter p cLBRACE ?p"
    using pushDepth_Inr [OF p1] expect_Inr [OF p2] assms(2) by (simp add: enter_def counted_def)
  obtain c b where pk: "peek ?p = (c, b)" by fastforce
  with assms p1 p2 have b by (cases b) (simp_all add: parseObject.simps [of "counted p"] Let_def)
  with pk have c: "pos ?p < length (data ?p)" "c = data ?p ! pos ?p" by (auto simp: peek_ok)
  show thesis
    using assms(1) p1 p2 pk \<open>b\<close> c en
    by (cases "c = cRBRACE")
      (auto simp: parseObject.simps [of "counted p"] Let_def at_byte_def skip1_def split: sum.splits intro: that)
qed

lemma parseArray_Inr:
  assumes "parseArray (counted p) = Inr (v, q)" "int (Suc (valueCount p)) \<le> maxValues p"
  obtains (empty) p' where "enter p cLBRACK p'" "at_byte p' cRBRACK" "v = ArrayValue []" "q = popDepth (skip1 p')"
  | (elems) p' q' where "enter p cLBRACK p'" "parseElems p' [] = Inr (v, q')" "q = popDepth q'"
proof -
  from assms obtain p1 p2 where p1: "pushDepth (counted p) = Inr p1" and p2: "expect p1 cLBRACK = Inr p2"
    by (auto simp: parseArray.simps [of "counted p"] split: sum.splits)
  let ?p = "skipWhitespace p2"
  have en: "enter p cLBRACK ?p"
    using pushDepth_Inr [OF p1] expect_Inr [OF p2] assms(2) by (simp add: enter_def counted_def)
  obtain c b where pk: "peek ?p = (c, b)" by fastforce
  with assms p1 p2 have b by (cases b) (simp_all add: parseArray.simps [of "counted p"] Let_def)
  with pk have c: "pos ?p < length (data ?p)" "c = data ?p ! pos ?p" by (auto simp: peek_ok)
  show thesis
    using assms(1) p1 p2 pk \<open>b\<close> c en
    by (cases "c = cRBRACK")
      (auto simp: parseArray.simps [of "counted p"] Let_def at_byte_def skip1_def split: sum.splits intro: that)
qed

text \<open>One turn of the member loop up to the byte after the value: \<open>p'\<close> is the state at that byte.\<close>

definition one_member :: "parser \<Rightarrow> Member list \<Rightarrow> (bytes \<rightharpoonup> nat) \<Rightarrow> bytes \<Rightarrow> parser \<Rightarrow> Value \<Rightarrow> parser \<Rightarrow> parser \<Rightarrow> bool" where
  "one_member p ms seen k pv v qv p' \<longleftrightarrow> (\<exists>kv p2 p3. parseString (skipWhitespace p) = Inr (kv, p2) \<and> k = Str kv
     \<and> seen k = None \<and> expect (skipWhitespace p2) cCOLON = Inr p3 \<and> pv = skipWhitespace p3
     \<and> parseValue pv = Inr (v, qv) \<and> int (length ms) < maxObjectMembers qv \<and> p' = skipWhitespace qv)"

definition one_elem :: "parser \<Rightarrow> Value list \<Rightarrow> Value \<Rightarrow> parser \<Rightarrow> parser \<Rightarrow> bool" where
  "one_elem p es v qv p' \<longleftrightarrow> parseValue (skipWhitespace p) = Inr (v, qv) \<and> int (length es) < maxArrayElements qv
     \<and> p' = skipWhitespace qv"

lemma parseMembers_Inr:
  assumes "parseMembers p ms seen = Inr (v, q)"
  obtains (last) k pv val qv p' where "one_member p ms seen k pv val qv p'" "at_byte p' cRBRACE"
      "v = ObjectValue (ms @ [Member k val])" "q = skip1 p'"
  | (more) k pv val qv p' where "one_member p ms seen k pv val qv p'" "at_byte p' cCOMMA"
      "parseMembers (skip1 p') (ms @ [Member k val]) (seen(k \<mapsto> pos (skipWhitespace p))) = Inr (v, q)"
proof -
  let ?p1 = "skipWhitespace p"
  from assms obtain kv p2 where k: "parseString ?p1 = Inr (kv, p2)" and new: "seen (Str kv) = None"
    by (auto simp: parseMembers.simps [of p] Let_def split: sum.splits option.splits)
  with assms obtain p3 where p3: "expect (skipWhitespace p2) cCOLON = Inr p3"
    by (auto simp: parseMembers.simps [of p] Let_def split: sum.splits)
  with assms k new obtain val p4 where v: "parseValue (skipWhitespace p3) = Inr (val, p4)"
    and mx: "\<not> maxObjectMembers p4 \<le> int (length ms)"
    by (auto simp: parseMembers.simps [of p] Let_def split: sum.splits if_splits)
  let ?p = "skipWhitespace p4"
  have one: "one_member p ms seen (Str kv) (skipWhitespace p3) val p4 ?p"
    using k new p3 v mx by (auto simp: one_member_def)
  obtain c b where pk: "peek ?p = (c, b)" by fastforce
  with assms k new p3 v mx have b by (cases b) (simp_all add: parseMembers.simps [of p] Let_def)
  with pk have c: "pos ?p < length (data ?p)" "c = data ?p ! pos ?p" by (auto simp: peek_ok)
  have "c = cRBRACE \<or> c = cCOMMA"
    using assms k new p3 v mx pk \<open>b\<close> by (simp add: parseMembers.simps [of p] Let_def split: if_splits)
  then show thesis
  proof
    assume "c = cRBRACE"
    with assms k new p3 v mx pk \<open>b\<close> one c show thesis
      by (intro last) (auto simp: parseMembers.simps [of p] Let_def at_byte_def skip1_def)
  next
    assume "c = cCOMMA"
    with assms k new p3 v mx pk \<open>b\<close> one c show thesis
      by (intro more) (auto simp: parseMembers.simps [of p] Let_def at_byte_def skip1_def)
  qed
qed

lemma parseElems_Inr:
  assumes "parseElems p es = Inr (v, q)"
  obtains (last) val qv p' where "one_elem p es val qv p'" "at_byte p' cRBRACK" "v = ArrayValue (es @ [val])" "q = skip1 p'"
  | (more) val qv p' where "one_elem p es val qv p'" "at_byte p' cCOMMA" "parseElems (skip1 p') (es @ [val]) = Inr (v, q)"
proof -
  from assms obtain val p4 where v: "parseValue (skipWhitespace p) = Inr (val, p4)"
    and mx: "\<not> maxArrayElements p4 \<le> int (length es)"
    by (auto simp: parseElems.simps [of p] Let_def split: sum.splits if_splits)
  let ?p = "skipWhitespace p4"
  have one: "one_elem p es val p4 ?p" using v mx by (auto simp: one_elem_def)
  obtain c b where pk: "peek ?p = (c, b)" by fastforce
  with assms v mx have b by (cases b) (simp_all add: parseElems.simps [of p] Let_def)
  with pk have c: "pos ?p < length (data ?p)" "c = data ?p ! pos ?p" by (auto simp: peek_ok)
  have "c = cRBRACK \<or> c = cCOMMA"
    using assms v mx pk \<open>b\<close> by (simp add: parseElems.simps [of p] Let_def split: if_splits)
  then show thesis
  proof
    assume "c = cRBRACK"
    with assms v mx pk \<open>b\<close> one c show thesis
      by (intro last) (auto simp: parseElems.simps [of p] Let_def at_byte_def skip1_def)
  next
    assume "c = cCOMMA"
    with assms v mx pk \<open>b\<close> one c show thesis
      by (intro more) (auto simp: parseElems.simps [of p] Let_def at_byte_def skip1_def)
  qed
qed

text \<open>
  A successful run, as relations: \<open>value_run p v q\<close> when \<open>parseValue\<close> reads \<open>v\<close> from the state \<open>p\<close> and stops in
  \<open>q\<close>, \<open>members_run\<close> and \<open>elems_run\<close> for the loops. Facts about what was parsed are rule inductions
  over these.
\<close>

definition room :: "parser \<Rightarrow> bool" where
  "room p \<longleftrightarrow> int (Suc (valueCount p)) \<le> maxValues p"

inductive value_run :: "parser \<Rightarrow> Value \<Rightarrow> parser \<Rightarrow> bool"
  and members_run :: "parser \<Rightarrow> Member list \<Rightarrow> (bytes \<rightharpoonup> nat) \<Rightarrow> Value \<Rightarrow> parser \<Rightarrow> bool"
  and elems_run :: "parser \<Rightarrow> Value list \<Rightarrow> Value \<Rightarrow> parser \<Rightarrow> bool" where
  run_obj0: "enter p cLBRACE p' \<Longrightarrow> at_byte p' cRBRACE \<Longrightarrow> value_run p (ObjectValue []) (popDepth (skip1 p'))"
| run_obj: "enter p cLBRACE p' \<Longrightarrow> members_run p' [] (\<lambda>_. None) v q \<Longrightarrow> value_run p v (popDepth q)"
| run_arr0: "enter p cLBRACK p' \<Longrightarrow> at_byte p' cRBRACK \<Longrightarrow> value_run p (ArrayValue []) (popDepth (skip1 p'))"
| run_arr: "enter p cLBRACK p' \<Longrightarrow> elems_run p' [] v q \<Longrightarrow> value_run p v (popDepth q)"
| run_str: "room p \<Longrightarrow> at_byte p cQUOTE \<Longrightarrow> parseString (counted p) = Inr (v, q) \<Longrightarrow> value_run p v q"
| run_bool: "room p \<Longrightarrow> pos p < length (data p) \<Longrightarrow> parseBool (counted p) = Inr (v, q) \<Longrightarrow> value_run p v q"
| run_null: "room p \<Longrightarrow> at_byte p 0x6E \<Longrightarrow> parseNull (counted p) = Inr (v, q) \<Longrightarrow> value_run p v q"
| run_num: "room p \<Longrightarrow> pos p < length (data p) \<Longrightarrow> parseNumber (counted p) = Inr (v, q) \<Longrightarrow> value_run p v q"
| run_last_member: "parseString (skipWhitespace p) = Inr (kv, p2) \<Longrightarrow> seen (Str kv) = None \<Longrightarrow>
    expect (skipWhitespace p2) cCOLON = Inr p3 \<Longrightarrow> value_run (skipWhitespace p3) v p4 \<Longrightarrow>
    int (length ms) < maxObjectMembers p4 \<Longrightarrow> at_byte (skipWhitespace p4) cRBRACE \<Longrightarrow>
    members_run p ms seen (ObjectValue (ms @ [Member (Str kv) v])) (skip1 (skipWhitespace p4))"
| run_member: "parseString (skipWhitespace p) = Inr (kv, p2) \<Longrightarrow> seen (Str kv) = None \<Longrightarrow>
    expect (skipWhitespace p2) cCOLON = Inr p3 \<Longrightarrow> value_run (skipWhitespace p3) v p4 \<Longrightarrow>
    int (length ms) < maxObjectMembers p4 \<Longrightarrow> at_byte (skipWhitespace p4) cCOMMA \<Longrightarrow>
    members_run (skip1 (skipWhitespace p4)) (ms @ [Member (Str kv) v])
      (seen(Str kv \<mapsto> pos (skipWhitespace p))) w q \<Longrightarrow> members_run p ms seen w q"
| run_last_elem: "value_run (skipWhitespace p) v p4 \<Longrightarrow> int (length es) < maxArrayElements p4 \<Longrightarrow>
    at_byte (skipWhitespace p4) cRBRACK \<Longrightarrow> elems_run p es (ArrayValue (es @ [v])) (skip1 (skipWhitespace p4))"
| run_elem: "value_run (skipWhitespace p) v p4 \<Longrightarrow> int (length es) < maxArrayElements p4 \<Longrightarrow>
    at_byte (skipWhitespace p4) cCOMMA \<Longrightarrow> elems_run (skip1 (skipWhitespace p4)) (es @ [v]) w q \<Longrightarrow>
    elems_run p es w q"

abbreviation unread :: "parser \<Rightarrow> nat" where
  "unread p \<equiv> length (data p) - pos p"

lemma unread_moves: "moves p q \<Longrightarrow> unread q < unread p"
  by (auto dest!: moves_data)

lemma unread_skip: "unread (skipWhitespace p) \<le> unread p"
  using advances_le [OF skipWhitespace_advances [of p]] by simp

lemma enter_moves: "enter p b p' \<Longrightarrow> unread p' < unread p"
  using unread_skip [of "p\<lparr>valueCount := Suc (valueCount p), depth := Suc (depth p), pos := Suc (pos p)\<rparr>"]
  by (auto simp: enter_def)

lemma at_byte_skip1_unread: "at_byte p b \<Longrightarrow> unread (skip1 p) < unread p"
  by (auto simp: at_byte_def)

lemma members_complete:
  assumes eq: "parseMembers p ms seen = Inr (v, q)"
    and V: "\<And>p' v q. unread p' < unread p \<Longrightarrow> parseValue p' = Inr (v, q) \<Longrightarrow> value_run p' v q"
    and M: "\<And>p' ms' seen'. unread p' < unread p \<Longrightarrow> parseMembers p' ms' seen' = Inr (v, q) \<Longrightarrow> members_run p' ms' seen' v q"
  shows "members_run p ms seen v q"
proof -
  have member: "\<exists>kv p2 p3. parseString (skipWhitespace p) = Inr (kv, p2) \<and> k = Str kv \<and> seen k = None \<and>
      expect (skipWhitespace p2) cCOLON = Inr p3 \<and> int (length ms) < maxObjectMembers qv \<and> p' = skipWhitespace qv \<and>
      value_run (skipWhitespace p3) val qv \<and> unread p' < unread p"
    if one: "one_member p ms seen k pv val qv p'" for k pv val qv p'
  proof -
    from one obtain kv p2 p3 where k: "parseString (skipWhitespace p) = Inr (kv, p2)" "k = Str kv" "seen k = None"
      "expect (skipWhitespace p2) cCOLON = Inr p3" "pv = skipWhitespace p3" "parseValue pv = Inr (val, qv)"
      "int (length ms) < maxObjectMembers qv" "p' = skipWhitespace qv" by (auto simp: one_member_def)
    have "unread (skipWhitespace p3) < unread p" by (rule unread_moves [OF members_decrease [OF k(1,4)]])
    with k V unread_moves [OF parseValue_moves [OF k(6)]] unread_skip [of qv] show ?thesis by auto
  qed
  from eq show ?thesis
  proof (cases rule: parseMembers_Inr)
    case (last k pv val qv p')
    with member [OF last(1)] show ?thesis by (auto intro: run_last_member)
  next
    case (more k pv val qv p')
    have "unread (skip1 p') < unread p" using member [OF more(1)] at_byte_skip1_unread [OF more(2)] by auto
    with M more have "members_run (skip1 p') (ms @ [Member k val]) (seen(k \<mapsto> pos (skipWhitespace p))) v q" by simp
    with member [OF more(1)] more show ?thesis by (auto intro: run_member)
  qed
qed

lemma elems_complete:
  assumes eq: "parseElems p es = Inr (v, q)"
    and V: "\<And>p' v q. unread p' \<le> unread p \<Longrightarrow> parseValue p' = Inr (v, q) \<Longrightarrow> value_run p' v q"
    and E: "\<And>p' es'. unread p' < unread p \<Longrightarrow> parseElems p' es' = Inr (v, q) \<Longrightarrow> elems_run p' es' v q"
  shows "elems_run p es v q"
  using eq
proof (cases rule: parseElems_Inr)
  case (last val qv p')
  then have "value_run (skipWhitespace p) val qv" using V unread_skip [of p] by (simp add: one_elem_def)
  with last show ?thesis by (auto simp: one_elem_def intro: run_last_elem)
next
  case (more val qv p')
  then have v: "value_run (skipWhitespace p) val qv" and qv: "parseValue (skipWhitespace p) = Inr (val, qv)"
      "p' = skipWhitespace qv"
    using V unread_skip [of p] by (simp_all add: one_elem_def)
  have "unread (skip1 p') < unread p"
    using at_byte_skip1_unread [OF more(2)] unread_skip [of qv] unread_skip [of p]
      unread_moves [OF parseValue_moves [OF qv(1)]] qv by simp
  with E more have "elems_run (skip1 p') (es @ [val]) v q" by simp
  with v more show ?thesis by (auto simp: one_elem_def intro: run_elem)
qed

lemma run_complete:
  "(\<forall>p v q. n = 2 * unread p \<longrightarrow> parseValue p = Inr (v, q) \<longrightarrow> value_run p v q)
   \<and> (\<forall>p ms seen v q. n = Suc (2 * unread p) \<longrightarrow> parseMembers p ms seen = Inr (v, q) \<longrightarrow> members_run p ms seen v q)
   \<and> (\<forall>p es v q. n = Suc (2 * unread p) \<longrightarrow> parseElems p es = Inr (v, q) \<longrightarrow> elems_run p es v q)"
proof (induction n rule: less_induct)
  case (less n)
  have V: "value_run p v q" if "2 * unread p < n" "parseValue p = Inr (v, q)" for p v q
    using less that by blast
  have M: "members_run p ms seen v q" if "Suc (2 * unread p) < n" "parseMembers p ms seen = Inr (v, q)" for p ms seen v q
    using less that by blast
  have E: "elems_run p es v q" if "Suc (2 * unread p) < n" "parseElems p es = Inr (v, q)" for p es v q
    using less that by blast
  have 1: "value_run p v q" if n: "n = 2 * unread p" and eq: "parseValue p = Inr (v, q)" for p v q
    using eq
  proof (cases rule: parseValue_Inr)
    case obj
    from obj(3,1) show ?thesis
    proof (cases rule: parseObject_Inr)
      case (members p' q')
      with M [of p'] enter_moves n show ?thesis by (force intro: run_obj)
    qed (auto intro: run_obj0)
  next
    case arr
    from arr(3,1) show ?thesis
    proof (cases rule: parseArray_Inr)
      case (elems p' q')
      with E [of p'] enter_moves n show ?thesis by (force intro: run_arr)
    qed (auto intro: run_arr0)
  qed (auto simp: room_def at_byte_def intro: run_str run_bool run_null run_num)
  have 2: "members_run p ms seen v q" if "n = Suc (2 * unread p)" "parseMembers p ms seen = Inr (v, q)" for p ms seen v q
    using that(1) by (intro members_complete [OF that(2)] V M) auto
  have 3: "elems_run p es v q" if "n = Suc (2 * unread p)" "parseElems p es = Inr (v, q)" for p es v q
    using that(1) by (intro elems_complete [OF that(2)] V E) auto
  show ?case using 1 2 3 by blast
qed

lemma parseValue_run: "parseValue p = Inr (v, q) \<Longrightarrow> value_run p v q"
  using run_complete [of "2 * unread p"] by simp

end
