(* ===== verification/Token_Grammar.thy ===== *)
theory Token_Grammar
  imports Token_Facts
begin

text \<open>
  The JSON grammar of RFC 8259 as relations between a text and what it denotes, with the restrictions the
  program adds (no noncharacters, no surrogates, no negative zero, no overflow, distinct keys). The
  grammar has no parser state: it is the specification the scanners are compared with.
\<close>

section \<open>Positions\<close>

text \<open>The input that is left, and a state moved forward.\<close>

definition rest :: "parser \<Rightarrow> bytes" where
  "rest p = drop (pos p) (data p)"

definition adv :: "nat \<Rightarrow> parser \<Rightarrow> parser" where
  "adv n p = p\<lparr>pos := pos p + n\<rparr>"

lemma adv_fields [simp]:
  "data (adv n p) = data p" "depth (adv n p) = depth p" "valueCount (adv n p) = valueCount p"
  "pos (adv n p) = pos p + n" "maxStringBytes (adv n p) = maxStringBytes p"
  "maxNumberChars (adv n p) = maxNumberChars p" "maxDepth (adv n p) = maxDepth p"
  "maxValues (adv n p) = maxValues p" "maxObjectMembers (adv n p) = maxObjectMembers p"
  "maxArrayElements (adv n p) = maxArrayElements p"
  "same_env p (adv n q) = same_env p q" "same_env (adv n p) q = same_env p q"
  by (simp_all add: adv_def)

lemma adv_0 [simp]: "adv 0 p = p"
  by (simp add: adv_def)

lemma adv_adv [simp]: "adv n (adv m p) = adv (m + n) p"
  by (simp add: adv_def add.assoc)

lemma adv_1: "p\<lparr>pos := Suc (pos p)\<rparr> = adv 1 p" "p\<lparr>pos := Suc (Suc (pos p))\<rparr> = adv 2 p" "skip1 p = adv 1 p" "p\<lparr>pos := pos p + n\<rparr> = adv n p"
  by (simp_all add: adv_def skip1_def)

lemma rest_adv [simp]: "rest (adv n p) = drop n (rest p)"
  by (simp add: rest_def add.commute)

lemma rest_Nil: "rest p = [] \<longleftrightarrow> length (data p) \<le> pos p"
  by (simp add: rest_def)

lemma rest_NilD: "rest p = [] \<Longrightarrow> length (data p) \<le> pos p"
  by (simp add: rest_def)

lemma rest_Cons: "rest p = b # t \<Longrightarrow> pos p < length (data p) \<and> data p ! pos p = b"
  by (auto simp: rest_def dest: drop_eq_Cons_nth)

lemma inside_rest: "pos p < length (data p) \<longleftrightarrow> rest p \<noteq> []"
  by (auto simp: rest_def)

lemma nth_rest: "rest p \<noteq> [] \<Longrightarrow> data p ! pos p = hd (rest p)"
  by (simp add: rest_def hd_drop_conv_nth)

lemma at_byte_rest: "at_byte p b \<longleftrightarrow> (\<exists>t. rest p = b # t)"
  by (cases "rest p") (auto simp: at_byte_def inside_rest nth_rest)

lemma length_rest: "length (rest p) = length (data p) - pos p"
  by (simp add: rest_def)

text \<open>A state that moved over a known text: the text is what lay between.\<close>

definition reads :: "parser \<Rightarrow> bytes \<Rightarrow> parser \<Rightarrow> bool" where
  "reads p t q \<longleftrightarrow> rest p = t @ rest q \<and> q = adv (length t) p"

lemma reads_Nil [simp]: "reads p [] q \<longleftrightarrow> q = p"
  by (auto simp: reads_def)

lemma reads_trans: "reads p t q \<Longrightarrow> reads q u r \<Longrightarrow> reads p (t @ u) r"
  unfolding reads_def by (metis adv_adv append.assoc length_append)

lemma reads_I: "rest p = t @ u \<Longrightarrow> reads p t (adv (length t) p)"
  by (simp add: reads_def)

lemma reads_rest: "reads p t q \<Longrightarrow> rest p = t @ rest q"
  unfolding reads_def by (rule conjunct1)

lemma reads_take: "reads p t q \<Longrightarrow> t = take (length t) (rest p) \<and> q = adv (length t) p"
  unfolding reads_def by (metis append_eq_conv_conj)

lemma reads_iff: "reads p t q \<longleftrightarrow> (\<exists>u. rest p = t @ u) \<and> q = adv (length t) p"
  using reads_I reads_rest reads_take by metis

lemma reads_skip1: "at_byte p b \<Longrightarrow> reads p [b] (skip1 p)"
  by (auto simp: at_byte_rest reads_def adv_1)

lemma expect_reads: "expect p b = Inr q \<longleftrightarrow> reads p [b] q"
proof (cases "rest p")
  case (Cons c t)
  from rest_Cons [OF this] Cons show ?thesis by (auto simp: expect_def next_byte_def reads_def adv_1)
qed (auto simp: expect_def next_byte_def reads_def dest: rest_NilD)

section \<open>White space\<close>

definition isWS :: "byte \<Rightarrow> bool" where
  "isWS b \<longleftrightarrow> b = cSPACE \<or> b = cTAB \<or> b = cLF \<or> b = cCR"

definition ws :: "bytes \<Rightarrow> bool" where
  "ws t \<longleftrightarrow> list_all isWS t"

lemma ws_Nil [simp]: "ws []"
  by (simp add: ws_def)

lemma skipWhitespace_eq: "skipWhitespace p = adv (length (takeWhile isWS (rest p))) p"
proof (induction p rule: skipWhitespace.induct)
  case (1 p)
  show ?case
  proof (cases "rest p")
    case Nil
    then show ?thesis by (simp add: skipWhitespace.simps [of p]) (simp add: rest_Nil)
  next
    case (Cons b t)
    from rest_Cons [OF Cons] have b: "pos p < length (data p)" "data p ! pos p = b" by auto
    show ?thesis
    proof (cases "isWS b")
      case True
      then have ws: "b = cSPACE \<or> b = cTAB \<or> b = cLF \<or> b = cCR" by (simp add: isWS_def)
      with b 1 have "skipWhitespace (p\<lparr>pos := pos p + 1\<rparr>) =
          adv (length (takeWhile isWS (rest (p\<lparr>pos := pos p + 1\<rparr>)))) (p\<lparr>pos := pos p + 1\<rparr>)"
        by simp
      with b ws True Cons show ?thesis
        by (subst skipWhitespace.simps) (simp add: Let_def adv_1)
    qed (use b Cons in \<open>simp add: skipWhitespace.simps [of p] isWS_def Let_def\<close>)
  qed
qed

lemma skip_reads: "\<exists>w. ws w \<and> reads p w (skipWhitespace p) \<and> (rest (skipWhitespace p) = [] \<or> \<not> isWS (hd (rest (skipWhitespace p))))"
proof -
  let ?w = "takeWhile isWS (rest p)"
  have "reads p ?w (skipWhitespace p)"
    unfolding skipWhitespace_eq by (rule reads_I [of _ _ "dropWhile isWS (rest p)"]) simp
  moreover have "ws ?w" by (auto simp: ws_def list_all_iff dest: set_takeWhileD)
  moreover have "rest (skipWhitespace p) = dropWhile isWS (rest p)"
    by (simp add: skipWhitespace_eq dropWhile_eq_drop)
  ultimately show ?thesis using hd_dropWhile [of isWS "rest p"] by metis
qed

lemma skip_over:
  assumes "rest p = w @ u" "ws w" "u = [] \<or> \<not> isWS (hd u)"
  shows "skipWhitespace p = adv (length w) p"
proof -
  have "takeWhile isWS (w @ u) = w"
    using assms(2,3) by (cases u) (auto simp: ws_def list_all_iff takeWhile_append)
  then show ?thesis by (simp add: skipWhitespace_eq assms(1))
qed

end
