(* ===== verification/Token_Strings.thy ===== *)
theory Token_Strings
  imports Token_Grammar
begin

text \<open>
  JSON strings: the grammar of a string body with what it decodes to, and the proof that \<open>parseString\<close>
  accepts exactly the bodies of the grammar whose decoded length is within the limit.
\<close>

section \<open>Escapes\<close>

definition hex_digit :: "byte \<Rightarrow> int option" where
  "hex_digit b =
     (if 48 \<le> uint b \<and> uint b \<le> 57 then Some (uint b - 48)
      else if 97 \<le> uint b \<and> uint b \<le> 102 then Some (uint b - 87)
      else if 65 \<le> uint b \<and> uint b \<le> 70 then Some (uint b - 55)
      else None)"

definition hex4 :: "bytes \<Rightarrow> rune option" where
  "hex4 h = (case map hex_digit h of
     [Some a, Some b, Some c, Some d] \<Rightarrow> Some (((a * 16 + b) * 16 + c) * 16 + d) | _ \<Rightarrow> None)"

definition simple_escapes :: "(byte \<times> rune) list" where
  "simple_escapes = [(cQUOTE, 0x22), (cBSLASH, 0x5C), (cSLASH, 0x2F), (0x62, 0x08), (0x66, 0x0C), (0x6E, 0x0A),
     (0x72, 0x0D), (0x74, 0x09)]"

inductive jescape :: "bytes \<Rightarrow> rune \<Rightarrow> bool" where
  esc_simple: "map_of simple_escapes c = Some r \<Longrightarrow> jescape [c] r"
| esc_bmp: "hex4 h = Some r \<Longrightarrow> \<not> is_surrogate r \<Longrightarrow> jescape (0x75 # h) r"
| esc_pair: "hex4 h = Some r1 \<Longrightarrow> hex4 h' = Some r2 \<Longrightarrow> 0xD800 \<le> r1 \<Longrightarrow> r1 < 0xDC00 \<Longrightarrow> 0xDC00 \<le> r2 \<Longrightarrow>
    r2 \<le> 0xDFFF \<Longrightarrow> jescape (0x75 # h @ cBSLASH # 0x75 # h') (0x10000 + (r1 - 0xD800) * 1024 + (r2 - 0xDC00))"

lemma hexVal_digit: "hexVal b = (case hex_digit b of Some d \<Rightarrow> (byte_of d, True) | None \<Rightarrow> (0, False))"
proof -
  have b: "b - 0x30 = byte_of (uint b - 48)" "b - 0x61 + 10 = byte_of (uint b - 87)"
    "b - 0x41 + 10 = byte_of (uint b - 55)"
    by (simp_all add: byte_of_def)
  show ?thesis unfolding hexVal_def hex_digit_def by (simp add: b byte_le_iff)
qed

lemma hex_digit_bounds: "hex_digit b = Some d \<Longrightarrow> 0 \<le> d \<and> d < 16"
  by (auto simp: hex_digit_def split: if_splits)

lemma or_shift4: "0 \<le> x \<Longrightarrow> x < 16 \<Longrightarrow> or (push_bit 4 v) x = v * 16 + (x::int)"
proof -
  assume x: "0 \<le> x" "x < 16"
  then have "take_bit 4 x = x" by (simp add: take_bit_int_eq_self)
  then have "bit x n \<Longrightarrow> n < 4" for n by (metis bit_take_bit_iff)
  then have "\<not> bit (push_bit 4 v) n \<or> \<not> bit x n" for n by (metis bit_push_bit_iff_int not_le)
  then have "push_bit 4 v + x = or (push_bit 4 v) x" by (rule disjunctive_add)
  then show ?thesis by (simp add: push_bit_eq_mult)
qed

lemma hexLoop_step:
  "readHexLoop p off (i # js) v = (case hex_digit (data p ! (pos p + i)) of
     None \<Rightarrow> Inl (New InvalidGrammar (int off)
       (Sprintf (''invalid hex in '' @ [CHR 0x5C] @ ''u escape: %q'') [FBytes (take 4 (drop (pos p) (data p)))]))
   | Some d \<Rightarrow> readHexLoop p off js (v * 16 + d))"
  by (auto simp: hexVal_digit or_shift4 uint_byte_of dest: hex_digit_bounds split: option.splits)

lemma nth_rest_i: "i < length (rest p) \<Longrightarrow> data p ! (pos p + i) = rest p ! i"
  by (simp add: rest_def)

lemma list4: "4 \<le> length xs \<Longrightarrow> \<exists>a b c d u. xs = [a, b, c, d] @ u"
  by (cases xs; cases "tl xs"; cases "tl (tl xs)"; cases "tl (tl (tl xs))") auto

lemma hex4_length: "hex4 h = Some r \<Longrightarrow> length h = 4"
  by (auto simp: hex4_def split: list.splits option.splits)

lemma hex4_bounds: "hex4 h = Some r \<Longrightarrow> 0 \<le> r \<and> r < 65536"
  by (auto simp: hex4_def split: list.splits option.splits dest!: hex_digit_bounds)

lemma readHex4_Inr: "readHex4 p off = Inr (r, q) \<longleftrightarrow> (\<exists>h. hex4 h = Some r \<and> reads p h q)"
proof (cases "4 \<le> length (rest p)")
  case True
  then obtain a b c d u where r: "rest p = [a, b, c, d] @ u" using list4 by blast
  have nth: "data p ! pos p = a" "data p ! (pos p + Suc 0) = b" "data p ! (pos p + 2) = c" "data p ! (pos p + 3) = d"
    using nth_rest_i [of 0 p] nth_rest_i [of 1 p] nth_rest_i [of 2 p] nth_rest_i [of 3 p] r by simp_all
  have len: "\<not> length (data p) < pos p + 4" using True by (simp add: length_rest)
  have 1: "readHex4 p off = Inr (r, q) \<longleftrightarrow> hex4 [a, b, c, d] = Some r \<and> q = adv 4 p"
    using nth len
    by (auto simp: readHex4_def hexLoop_step hex4_def adv_1 simp del: readHexLoop.simps(2) split: option.splits)
  show ?thesis
  proof
    assume "readHex4 p off = Inr (r, q)"
    with 1 have "hex4 [a, b, c, d] = Some r" "reads p [a, b, c, d] q" by (simp_all add: reads_iff r)
    then show "\<exists>h. hex4 h = Some r \<and> reads p h q" by blast
  next
    assume "\<exists>h. hex4 h = Some r \<and> reads p h q"
    then obtain h where h: "hex4 h = Some r" "h = take (length h) (rest p)" "q = adv (length h) p"
      using reads_take by blast
    moreover have "length h = 4" by (rule hex4_length [OF h(1)])
    ultimately have "hex4 (take 4 (rest p)) = Some r" "q = adv 4 p" by metis+
    then show "readHex4 p off = Inr (r, q)" unfolding 1 by (simp add: r)
  qed
next
  case False
  then have "length (data p) < pos p + 4 \<or> data p = []" by (auto simp: length_rest)
  with False show ?thesis
    by (auto simp: readHex4_def length_rest reads_def dest!: hex4_length arg_cong [where f = length])
qed

lemma jescape_scalar: "jescape t r \<Longrightarrow> scalar r"
proof (induction rule: jescape.induct)
  case (esc_simple c r)
  then show ?case by (auto simp: simple_escapes_def scalar_def is_surrogate_def split: if_splits)
qed (auto simp: scalar_def is_surrogate_def dest!: hex4_bounds)

lemma utf16_pair:
  "0xD800 \<le> r1 \<Longrightarrow> r1 < 0xDC00 \<Longrightarrow> 0xDC00 \<le> r2 \<Longrightarrow> r2 \<le> 0xDFFF \<Longrightarrow>
     utf16_DecodeRune r1 r2 = 0x10000 + (r1 - 0xD800) * 1024 + (r2 - 0xDC00)
     \<and> utf16_DecodeRune r1 r2 \<noteq> RuneError"
  by (auto simp: utf16_DecodeRune_def RuneError_def)

lemma two_bytes_rest:
  "\<not> (pos p + 1 \<ge> length (data p) \<or> data p ! pos p \<noteq> a \<or> data p ! (pos p + 1) \<noteq> b) \<longleftrightarrow> reads p [a, b] (adv 2 p)"
proof (cases "2 \<le> length (rest p)")
  case True
  then obtain c d u where r: "rest p = c # d # u" by (cases "rest p"; cases "tl (rest p)") auto
  then have "data p ! pos p = c" "data p ! (pos p + 1) = d"
    using nth_rest_i [of 0 p] nth_rest_i [of 1 p] by simp_all
  moreover have "\<not> length (data p) \<le> pos p + 1" using True by (simp add: length_rest)
  ultimately show ?thesis using r by (auto simp: reads_iff)
qed (auto simp: reads_iff length_rest dest!: arg_cong [where f = length])

lemma parseUnicodeEscape_sound:
  assumes eq: "parseUnicodeEscape p off = Inr (r, q)"
  shows "\<exists>t. jescape (0x75 # t) r \<and> reads p t q"
proof -
  from eq obtain r1 p1 where 0: "readHex4 p off = Inr (r1, p1)"
    by (cases "readHex4 p off") (auto simp: parseUnicodeEscape_def)
  then obtain h where 1: "readHex4 p off = Inr (r1, p1)" "hex4 h = Some r1" "reads p h p1"
    by (auto simp: readHex4_Inr)
  show "\<exists>t. jescape (0x75 # t) r \<and> reads p t q"
  proof (cases "is_surrogate r1")
    case False
    with eq 1 show ?thesis by (auto simp: parseUnicodeEscape_def intro: esc_bmp)
  next
    case True
    with eq 1 have hi: "r1 < 0xDC00" "0xD800 \<le> r1"
      by (auto simp: parseUnicodeEscape_def is_surrogate_def split: if_splits)
    with eq 1 True have "\<not> (pos p1 + 1 \<ge> length (data p1) \<or> data p1 ! pos p1 \<noteq> cBSLASH \<or> data p1 ! (pos p1 + 1) \<noteq> 0x75)"
      by (auto simp: parseUnicodeEscape_def split: if_splits)
    then have 2: "reads p1 [cBSLASH, 0x75] (adv 2 p1)" by (simp only: two_bytes_rest)
    from eq 1 True hi obtain r2 where 3: "readHex4 (adv 2 p1) (pos p1) = Inr (r2, q)" "0xDC00 \<le> r2" "r2 \<le> 0xDFFF"
        "r = utf16_DecodeRune r1 r2"
      by (auto simp: parseUnicodeEscape_def adv_1 Let_def split: if_splits sum.splits)
    then obtain h' where h': "hex4 h' = Some r2" "reads (adv 2 p1) h' q" by (auto simp: readHex4_Inr)
    have "jescape (0x75 # h @ cBSLASH # 0x75 # h') r"
      using esc_pair [OF 1(2) h'(1)] 3 hi utf16_pair [of r1 r2] by simp
    moreover have "reads p (h @ cBSLASH # 0x75 # h') q"
      using reads_trans [OF 1(3) reads_trans [OF 2 h'(2)]] by simp
    ultimately show ?thesis by blast
  qed
qed

lemma parseUnicodeEscape_complete:
  assumes "jescape (0x75 # t) r" "reads p t q"
  shows "parseUnicodeEscape p off = Inr (r, q)"
  using assms(1)
proof (cases rule: jescape.cases)
  case esc_simple
  then show ?thesis by (simp add: simple_escapes_def split: if_splits)
next
  case esc_bmp
  with assms(2) have "readHex4 p off = Inr (r, q)" by (auto simp: readHex4_Inr)
  with esc_bmp show ?thesis by (simp add: parseUnicodeEscape_def)
next
  case (esc_pair h r1 h' r2)
  let ?p1 = "adv (length h) p"
  from assms(2) esc_pair obtain u where u: "rest p = h @ cBSLASH # 0x75 # h' @ u" and
    q: "q = adv (length h + 2 + length h') p" by (auto simp: reads_iff)
  have 1: "readHex4 p off = Inr (r1, ?p1)" using esc_pair(3) u by (auto simp: readHex4_Inr reads_iff)
  have 2: "reads ?p1 [cBSLASH, 0x75] (adv 2 ?p1)" using u by (simp add: reads_iff)
  have 3: "readHex4 (adv 2 ?p1) o' = Inr (r2, q)" for o'
  proof -
    have "reads (adv 2 ?p1) h' q" using u q by (simp add: reads_iff)
    with esc_pair(4) show ?thesis by (auto simp: readHex4_Inr)
  qed
  have nb: "\<not> (pos ?p1 + 1 \<ge> length (data ?p1) \<or> data ?p1 ! pos ?p1 \<noteq> cBSLASH \<or> data ?p1 ! (pos ?p1 + 1) \<noteq> 0x75)"
    unfolding two_bytes_rest by (rule 2)
  have "is_surrogate r1" "\<not> r1 \<ge> 0xDC00" using esc_pair by (simp_all add: is_surrogate_def)
  with 1 nb 3 esc_pair utf16_pair [of r1 r2] show ?thesis
    by (simp add: parseUnicodeEscape_def adv_1 Let_def del: adv_fields)
qed

lemma parseUnicodeEscape_Inr:
  "parseUnicodeEscape p off = Inr (r, q) \<longleftrightarrow> (\<exists>t. jescape (0x75 # t) r \<and> reads p t q)"
  using parseUnicodeEscape_sound parseUnicodeEscape_complete by blast

lemma escapedRune_table:
  "escapedRune b = (case map_of simple_escapes b of Some r \<Rightarrow> (r, True) | None \<Rightarrow> (0, False))"
  by (simp add: escapedRune_def simple_escapes_def)

lemma parseEscape_Inr: "parseEscape p off = Inr (r, q) \<longleftrightarrow> (\<exists>t. jescape t r \<and> reads p t q)"
proof (cases "rest p")
  case Nil
  have "\<not> jescape [] r" by (auto elim: jescape.cases)
  with Nil show ?thesis by (auto simp: parseEscape_def reads_iff dest: rest_NilD)
next
  case (Cons b u)
  from rest_Cons [OF Cons] have b: "pos p < length (data p)" "data p ! pos p = b" by auto
  have step: "reads p (b # t) q \<longleftrightarrow> reads (adv 1 p) t q" for t
    using Cons by (auto simp: reads_iff)
  have hd: "t \<noteq> [] \<and> hd t = b" if "jescape t r" "reads p t q" for t
    using that Cons by (auto elim: jescape.cases simp: reads_iff)
  have "(\<exists>t. jescape t r \<and> reads p t q) \<longleftrightarrow> (\<exists>t. jescape (b # t) r \<and> reads (adv 1 p) t q)"
    using hd step by (metis list.collapse)
  also have "\<dots> \<longleftrightarrow> parseEscape p off = Inr (r, q)"
  proof (cases "b = 0x75")
    case True
    with b show ?thesis by (simp add: parseEscape_def parseUnicodeEscape_Inr adv_1)
  next
    case False
    then have "jescape (b # t) r \<longleftrightarrow> t = [] \<and> map_of simple_escapes b = Some r" for t
      by (auto elim: jescape.cases intro: esc_simple)
    with False b show ?thesis
      by (auto simp: parseEscape_def escapedRune_table adv_1 split: option.splits)
  qed
  finally show ?thesis by simp
qed

section \<open>Noncharacters\<close>

definition noncharacter :: "rune \<Rightarrow> bool" where
  "noncharacter r \<longleftrightarrow> (0xFDD0 \<le> r \<and> r \<le> 0xFDEF) \<or> r mod 0x10000 \<in> {0xFFFE, 0xFFFF}"

lemma and_push_mask: "and r (push_bit k (mask n)) = push_bit k (take_bit n (drop_bit k (r::int)))"
  by (rule bit_eqI) (auto simp: bit_simps)

lemma IsNoncharacter_iff: "0 \<le> r \<Longrightarrow> r \<le> 0x10FFFF \<Longrightarrow> IsNoncharacter r \<longleftrightarrow> noncharacter r"
proof -
  have "(0xFFFE::int) = push_bit 1 (mask 15)" by (simp add: mask_eq_exp_minus_1)
  then have "and r 0xFFFE = push_bit 1 (take_bit 15 (drop_bit 1 r))"
    by (simp only: and_push_mask)
  also have "\<dots> = 2 * (r div 2 mod 32768)"
    by (simp add: push_bit_eq_mult take_bit_eq_mod drop_bit_eq_div)
  finally have "and r 0xFFFE = 2 * (r div 2 mod 32768)" .
  moreover have "r mod 65536 = 2 * (r div 2 mod 32768) + r mod 2"
    using zmod_zmult2_eq [of 32768 r 2] by simp
  moreover have "r mod 2 = 0 \<or> r mod 2 = 1" by auto
  ultimately show "0 \<le> r \<Longrightarrow> r \<le> 0x10FFFF \<Longrightarrow> ?thesis"
    by (auto simp: IsNoncharacter_def noncharacter_def)
qed

definition char_ok :: "rune \<Rightarrow> bool" where
  "char_ok r \<longleftrightarrow> scalar r \<and> \<not> noncharacter r"

lemma validateStringRune_None: "scalar r \<Longrightarrow> validateStringRune r off = None \<longleftrightarrow> char_ok r"
  by (auto simp: validateStringRune_def char_ok_def IsNoncharacter_iff scalar_def is_surrogate_def)

section \<open>String bodies\<close>

text \<open>\<open>jchars t s\<close>: the text \<open>t\<close> between two quotes denotes the string \<open>s\<close>.\<close>

inductive jchars :: "bytes \<Rightarrow> bytes \<Rightarrow> bool" where
  jc_nil: "jchars [] []"
| jc_plain: "char_ok r \<Longrightarrow> 0x20 \<le> r \<Longrightarrow> r \<noteq> 0x22 \<Longrightarrow> r \<noteq> 0x5C \<Longrightarrow> jchars t s \<Longrightarrow>
    jchars (EncodeRune r @ t) (EncodeRune r @ s)"
| jc_esc: "jescape e r \<Longrightarrow> char_ok r \<Longrightarrow> jchars t s \<Longrightarrow> jchars (cBSLASH # e @ t) (EncodeRune r @ s)"

definition string_ok :: "bytes \<Rightarrow> bool" where
  "string_ok s \<longleftrightarrow> utf8_Valid s \<and> list_all (\<lambda>r. \<not> noncharacter r) (runes s)"

lemma string_ok_Nil [simp]: "string_ok []"
  by (simp add: string_ok_def)

lemma string_ok_Encode: "char_ok r \<Longrightarrow> string_ok (EncodeRune r @ s) \<longleftrightarrow> string_ok s"
  by (auto simp: string_ok_def char_ok_def codec)

lemma jchars_ok: "jchars t s \<Longrightarrow> string_ok s"
  by (induction rule: jchars.induct) (auto simp: string_ok_Encode)

lemma decode_rest: "decode_seq s = Some (r, n) \<Longrightarrow> scalar r \<and> (\<exists>u. s = EncodeRune r @ u) \<and> n = length (EncodeRune r)"
  using decode_sound [of s r n] by (metis append_take_drop_id)

lemma EncodeRune_first:
  assumes "scalar r" "EncodeRune r @ t = b # u"
  shows "if b < 0x80 then uint b = r else 0x80 \<le> r"
proof -
  have d: "decode_seq (b # u) = Some (r, length (EncodeRune r))"
    using decode_encode [OF assms(1), of t] assms(2) by simp
  show ?thesis
  proof (cases "b < 0x80")
    case False
    then have "0x80 \<le> r"
    proof (rule_tac ccontr)
      assume "\<not> 0x80 \<le> r"
      then have "EncodeRune r = [byte_of r]" "uint (byte_of r) = r"
        using assms(1) by (auto simp: EncodeRune_def scalar_def uint_byte_of)
      with False assms(2) \<open>\<not> 0x80 \<le> r\<close> show False by (auto simp: byte_less_iff)
    qed
    with False show ?thesis by simp
  qed (use d in \<open>simp add: decode_ascii\<close>)
qed

lemma parseStringLoop_sound:
  assumes "parseStringLoop p buf = Inr (v, q)"
  shows "\<exists>t s. jchars t s \<and> reads p (t @ [cQUOTE]) q \<and> v = StringValue (buf @ s)
     \<and> (s \<noteq> [] \<longrightarrow> int (length (buf @ s)) \<le> maxStringBytes p)"
  using assms
proof (induction rule: parseStringLoop_induct)
  case (quote p buf)
  then have "reads p [cQUOTE] (adv 1 p)"
    by (cases "rest p") (auto simp: reads_iff inside_rest nth_rest)
  then show ?case by (intro exI [of _ "[]"]) (auto intro: jc_nil simp: adv_1)
next
  case (escape p buf r p' v q)
  then obtain t s where IH: "jchars t s" "reads p' (t @ [cQUOTE]) q" "v = StringValue ((buf @ EncodeRune r) @ s)"
      "s \<noteq> [] \<longrightarrow> int (length ((buf @ EncodeRune r) @ s)) \<le> maxStringBytes p'" by blast
  from escape(3) obtain e where e: "jescape e r" "reads (adv 1 p) e p'" by (auto simp: adv_1 parseEscape_Inr)
  have "char_ok r" using escape(4) validateStringRune_None jescape_scalar [OF e(1)] by blast
  then have "jchars (cBSLASH # e @ t) (EncodeRune r @ s)" by (rule jc_esc [OF e(1) _ IH(1)])
  moreover have "reads p ([cBSLASH] @ e @ t @ [cQUOTE]) q"
    using reads_skip1 [of p cBSLASH] escape(1,2) e(2) IH(2)
    by (intro reads_trans [of p "[cBSLASH]" "adv 1 p"] reads_trans [of "adv 1 p" e p'])
      (simp_all add: at_byte_def adv_1)
  moreover have "maxStringBytes p' = maxStringBytes p" using e(2) by (simp add: reads_iff)
  ultimately show ?case using IH(3,4) escape(5)
    by (intro exI [of _ "cBSLASH # e @ t"] exI [of _ "EncodeRune r @ s"]) (cases "s = []"; simp)
next
  case (plain p buf r n v q)
  then obtain t s where IH: "jchars t s" "reads (adv n p) (t @ [cQUOTE]) q"
      "v = StringValue ((buf @ take n (rest p)) @ s)"
      "s \<noteq> [] \<longrightarrow> int (length ((buf @ take n (rest p)) @ s)) \<le> maxStringBytes p"
    by (auto simp: adv_1 rest_def [symmetric])
  from decode_rest [OF plain(5) [folded rest_def]] obtain u where
    r: "scalar r" "rest p = EncodeRune r @ u" "n = length (EncodeRune r)" by blast
  obtain b u' where b: "rest p = b # u'" using plain(1) by (cases "rest p") (auto simp: inside_rest)
  with plain(2,3,4) rest_Cons have "b \<noteq> cQUOTE" "b \<noteq> cBSLASH" "\<not> b < 0x20" by auto
  with EncodeRune_first [OF r(1), of u b u'] r(2) b have range: "0x20 \<le> r" "r \<noteq> 0x22" "r \<noteq> 0x5C"
    by (auto simp: byte_less_iff byte_eq_iff split: if_splits)
  have "char_ok r" using plain(6) validateStringRune_None [OF r(1)] by blast
  then have "jchars (EncodeRune r @ t) (EncodeRune r @ s)" by (rule jc_plain [OF _ range IH(1)])
  moreover have "reads p (EncodeRune r @ t @ [cQUOTE]) q"
    using reads_trans [OF reads_I [OF r(2)]] IH(2) r(3) by blast
  ultimately show ?case using IH(3,4) plain(7) r
    by (intro exI [of _ "EncodeRune r @ t"] exI [of _ "EncodeRune r @ s"]) (cases "s = []"; simp)
qed

lemma parseStringLoop_complete:
  assumes "jchars t s" "rest p = t @ cQUOTE # u" "int (length (buf @ s)) \<le> maxStringBytes p"
  shows "parseStringLoop p buf = Inr (StringValue (buf @ s), adv (length t + 1) p)"
  using assms
proof (induction arbitrary: p buf rule: jchars.induct)
  case jc_nil
  with rest_Cons [of p] show ?case by (simp add: parseStringLoop.simps [of p buf] adv_1)
next
  case (jc_plain r t s)
  obtain b w where bw: "EncodeRune r @ t @ cQUOTE # u = b # w" by (cases "EncodeRune r") auto
  with jc_plain(7) have b: "rest p = b # w" "EncodeRune r @ t @ cQUOTE # u = b # w" by simp_all
  have sc: "scalar r" using jc_plain(1) by (simp add: char_ok_def)
  from EncodeRune_first [OF sc b(2)] jc_plain(2,3,4) have nb: "b \<noteq> cQUOTE" "b \<noteq> cBSLASH" "\<not> b < 0x20"
    by (auto simp: byte_less_iff byte_eq_iff split: if_splits)
  let ?n = "length (EncodeRune r)"
  have d: "decode_seq (rest p) = Some (r, ?n)" using decode_encode [OF sc] jc_plain(7) by simp
  have "\<not> (r = RuneError \<and> ?n \<le> 1)" by (rule DecodeRune_bad [OF d])
  moreover have "validateStringRune r (pos p) = None" using validateStringRune_None [OF sc] jc_plain(1) by simp
  moreover have "parseStringLoop (adv ?n p) (buf @ EncodeRune r) =
      Inr (StringValue (buf @ EncodeRune r @ s), adv (length t + 1) (adv ?n p))"
    using jc_plain(6) [of "adv ?n p" "buf @ EncodeRune r"] jc_plain(7,8) by simp
  moreover have "take ?n (rest p) = EncodeRune r" using jc_plain(7) by simp
  ultimately show ?case
    using rest_Cons [OF b(1)] nb d jc_plain(8)
    by (subst parseStringLoop.simps) (simp add: Let_def adv_1 rest_def [symmetric] DecodeRune_Some)
next
  case (jc_esc e r t s)
  from rest_Cons [OF jc_esc(5) [simplified]] have b: "pos p < length (data p)" "data p ! pos p = cBSLASH" by auto
  let ?p = "adv (Suc (length e)) p"
  have "reads (adv 1 p) e ?p" using jc_esc(5) by (simp add: reads_iff)
  then have 1: "parseEscape (adv 1 p) (pos p) = Inr (r, ?p)" using jc_esc(1) parseEscape_Inr by blast
  moreover have "validateStringRune r (pos p) = None"
    using validateStringRune_None [OF jescape_scalar [OF jc_esc(1)]] jc_esc(2) by simp
  moreover have "parseStringLoop ?p (buf @ EncodeRune r) =
      Inr (StringValue (buf @ EncodeRune r @ s), adv (length t + 1) ?p)"
    using jc_esc(4) [of ?p "buf @ EncodeRune r"] jc_esc(5,6) by simp
  ultimately show ?case
    using b jc_esc(6) by (subst parseStringLoop.simps) (simp add: Let_def adv_1)
qed

section \<open>The fast path\<close>

definition plain_ascii :: "byte \<Rightarrow> bool" where
  "plain_ascii b \<longleftrightarrow> b \<noteq> cQUOTE \<and> b \<noteq> cBSLASH \<and> \<not> b < 0x20 \<and> b < 0x80"

lemma ascii_char_ok: "(b::byte) < 0x80 \<Longrightarrow> char_ok (uint b)"
proof -
  assume "b < 0x80"
  then have "uint b < 128" by (simp add: byte_less_iff)
  then show ?thesis by (auto simp: char_ok_def scalar_def is_surrogate_def noncharacter_def)
qed

lemma loop_plain_ascii:
  assumes "rest p = b # w" "plain_ascii b"
  shows "parseStringLoop p buf =
     (if int (length buf + 1) > maxStringBytes p
      then Inl (newErrorf p BoundExceeded
        (Sprintf ''string decoded length exceeds maximum %d bytes'' [FInt (maxStringBytes p)]))
      else parseStringLoop (adv 1 p) (buf @ [b]))"
proof -
  have b: "b < 0x80" "b \<noteq> cQUOTE" "b \<noteq> cBSLASH" "\<not> b < 0x20" using assms(2) by (simp_all add: plain_ascii_def)
  have "validateStringRune (uint b) (pos p) = None"
    using ascii_char_ok [OF b(1)] validateStringRune_None [of "uint b"] by (simp add: char_ok_def)
  moreover have "DecodeRune (drop (pos p) (data p)) = (uint b, 1)"
    using DecodeRune_Some [OF decode_ascii [OF b(1), of w]] assms(1) by (simp add: rest_def)
  moreover have "\<not> uint b = RuneError" using b(1) by (auto simp: RuneError_def byte_less_iff)
  moreover have "take (Suc 0) (drop (pos p) (data p)) = [b]" using assms(1) by (simp add: rest_def)
  ultimately show ?thesis
    using rest_Cons [OF assms(1)] b by (subst parseStringLoop.simps) (simp add: Let_def adv_1)
qed

lemma jchars_empty: "jchars t s \<Longrightarrow> s = [] \<Longrightarrow> t = []"
  by (induction rule: jchars.induct) auto

lemma loop_fits:
  assumes "parseStringLoop p buf = Inr r" "rest p \<noteq> [] \<longrightarrow> hd (rest p) \<noteq> cQUOTE"
  shows "int (length buf) \<le> maxStringBytes p"
proof -
  obtain v q where "r = (v, q)" by fastforce
  with parseStringLoop_sound assms(1) obtain t s where
    t: "jchars t s" "reads p (t @ [cQUOTE]) q" "s \<noteq> [] \<longrightarrow> int (length (buf @ s)) \<le> maxStringBytes p" by blast
  then have "s \<noteq> []" using assms(2) jchars_empty [OF t(1)] by (auto simp: reads_iff)
  with t(3) show ?thesis by simp
qed

lemma slice_Suc:
  "start \<le> i \<Longrightarrow> i < length d \<Longrightarrow> take (Suc i - start) (drop start d) = take (i - start) (drop start d) @ [d ! i]"
  by (simp add: Suc_diff_le take_Suc_conv_app_nth)

lemma parseStringFast_equiv:
  assumes "start \<le> pos p"
  shows "(case parseStringFast p start of Inl res \<Rightarrow> res = Inr r
      | Inr q \<Rightarrow> parseStringLoop q (take (pos q - start) (drop start (data q))) = Inr r)
    \<longleftrightarrow> parseStringLoop p (take (pos p - start) (drop start (data p))) = Inr r
      \<and> int (length (take (pos p - start) (drop start (data p)))) \<le> maxStringBytes p"
  using assms
proof (induction p start rule: parseStringFast.induct)
  case (1 p start)
  let ?buf = "take (pos p - start) (drop start (data p))"
  show ?case
  proof (cases "rest p")
    case Nil
    with loop_fits [of p ?buf r] show ?thesis by (subst parseStringFast.simps) (auto dest: rest_NilD)
  next
    case (Cons b w)
    from rest_Cons [OF Cons] have b: "pos p < length (data p)" "data p ! pos p = b" by auto
    consider (quote) "b = cQUOTE" | (leave) "b \<noteq> cQUOTE" "b < 0x20 \<or> b = cBSLASH \<or> b \<ge> 0x80" | (go) "plain_ascii b"
      by (meson plain_ascii_def not_less)
    then show ?thesis
    proof cases
      case quote
      with b have "parseStringLoop p ?buf = Inr (StringValue ?buf, adv 1 p)"
        by (simp add: parseStringLoop.simps [of p] adv_1)
      with b quote show ?thesis by (subst parseStringFast.simps) (auto simp: adv_1)
    next
      case leave
      with b have "parseStringFast p start = Inr p" by (subst parseStringFast.simps) (auto simp: Let_def)
      with loop_fits [of p ?buf r] leave Cons show ?thesis by auto
    next
      case go
      then have nb: "b \<noteq> cQUOTE" "\<not> (b < 0x20 \<or> b = cBSLASH \<or> b \<ge> 0x80)" by (auto simp: plain_ascii_def)
      have sl: "take (Suc (pos p) - start) (drop start (data p)) = ?buf @ [b]"
        using slice_Suc [of start "pos p" "data p"] 1(2) b by simp
      have len: "length ?buf = pos p - start" using b by simp
      have "parseStringFast p start = parseStringFast (adv 1 p) start"
        using b nb by (subst parseStringFast.simps) (simp add: adv_1)
      with 1(1) [OF b(1) refl] nb b 1(2) sl len show ?thesis
        by (simp add: loop_plain_ascii [OF Cons go] adv_1)
    qed
  qed
qed

text \<open>The scanner of strings is the grammar, with the limit on the decoded length.\<close>

lemma parseString_iff:
  "parseString p = Inr (v, q) \<longleftrightarrow> (\<exists>t s. jchars t s \<and> reads p (cQUOTE # t @ [cQUOTE]) q \<and> v = StringValue s
     \<and> int (length s) \<le> maxStringBytes p)"
proof (cases "expect p cQUOTE")
  case (Inl e)
  then have "\<not> reads p (cQUOTE # t @ [cQUOTE]) q" for t
    using expect_reads [of p cQUOTE "adv 1 p"] by (auto simp: reads_iff)
  with Inl show ?thesis by (auto simp: parseString_def)
next
  case (Inr p1)
  then have p1: "reads p [cQUOTE] p1" by (simp add: expect_reads)
  then have mx: "maxStringBytes p1 = maxStringBytes p" by (simp add: reads_iff)
  have split: "reads p (cQUOTE # t) q \<longleftrightarrow> reads p1 t q" for t
    using p1 by (auto simp: reads_iff)
  have "parseString p = Inr (v, q) \<longleftrightarrow> parseStringLoop p1 [] = Inr (v, q) \<and> 0 \<le> maxStringBytes p"
    using Inr parseStringFast_equiv [of "pos p1" p1 "(v, q)"] mx
    by (simp add: parseString_def Let_def split: sum.splits)
  also have "\<dots> \<longleftrightarrow> (\<exists>t s. jchars t s \<and> reads p1 (t @ [cQUOTE]) q \<and> v = StringValue s
      \<and> int (length s) \<le> maxStringBytes p)" (is "?L \<longleftrightarrow> ?R")
  proof
    assume L: ?L
    with parseStringLoop_sound [of p1 "[]" v q] obtain t s where
      "jchars t s" "reads p1 (t @ [cQUOTE]) q" "v = StringValue s" "s \<noteq> [] \<longrightarrow> int (length s) \<le> maxStringBytes p1"
      by auto
    with L mx show ?R by (intro exI [of _ t] exI [of _ s]) (cases "s = []"; simp)
  next
    assume ?R
    then obtain t s u where *: "jchars t s" "rest p1 = t @ cQUOTE # u" "q = adv (length t + 1) p1" "v = StringValue s"
      "int (length s) \<le> maxStringBytes p1" using mx by (auto simp: reads_iff)
    with parseStringLoop_complete [of t s p1 u "[]"] mx show ?L by simp
  qed
  finally show ?thesis by (simp add: split)
qed

end
