(* ===== verification/Token_Numbers.thy ===== *)
theory Token_Numbers
  imports Token_Grammar
begin

text \<open>
  JSON numbers: the grammar of a token, the double it denotes, and the proof that \<open>parseNumber\<close> accepts
  exactly the tokens that denote one.
\<close>

section \<open>The grammar of number tokens\<close>

definition digits1 :: "bytes \<Rightarrow> bool" where
  "digits1 ds \<longleftrightarrow> ds \<noteq> [] \<and> list_all isDigit ds"

definition int_part :: "bytes \<Rightarrow> bool" where
  "int_part ip \<longleftrightarrow> ip = [cZERO] \<or> (digits1 ip \<and> hd ip \<noteq> cZERO)"

definition frac_part :: "bytes \<Rightarrow> bool" where
  "frac_part fp \<longleftrightarrow> fp = [] \<or> (\<exists>ds. fp = cDOT # ds \<and> digits1 ds)"

definition exp_part :: "bytes \<Rightarrow> bool" where
  "exp_part ep \<longleftrightarrow> ep = [] \<or> (\<exists>e s ds. ep = e # s @ ds \<and> e \<in> {0x65, 0x45} \<and> s \<in> {[], [cPLUS], [cMINUS]} \<and> digits1 ds)"

definition sign_part :: "bytes \<Rightarrow> bool" where
  "sign_part sg \<longleftrightarrow> sg \<in> {[], [cMINUS]}"

definition json_number :: "bytes \<Rightarrow> bool" where
  "json_number t \<longleftrightarrow> (\<exists>sg ip fp ep. t = sg @ ip @ fp @ ep \<and> sign_part sg \<and> int_part ip \<and> frac_part fp \<and> exp_part ep)"

text \<open>What may not follow a token: a byte that would continue it.\<close>

definition no_digit :: "bytes \<Rightarrow> bool" where
  "no_digit u \<longleftrightarrow> u = [] \<or> \<not> isDigit (hd u)"

definition number_stop :: "bytes \<Rightarrow> bool" where
  "number_stop u \<longleftrightarrow> u = [] \<or> (\<not> isDigit (hd u) \<and> hd u \<notin> {cDOT, 0x65, 0x45})"

lemma isDigit_neq: "isDigit b \<Longrightarrow> b \<noteq> cDOT \<and> b \<noteq> 0x65 \<and> b \<noteq> 0x45 \<and> b \<noteq> cMINUS \<and> b \<noteq> cPLUS"
  by (auto simp: isDigit_def)

lemma not_digit [simp]: "\<not> isDigit cDOT" "\<not> isDigit 0x65" "\<not> isDigit 0x45" "\<not> isDigit cMINUS" "\<not> isDigit cPLUS"
  using isDigit_neq by blast+

lemma isDigit_zero [simp]: "isDigit cZERO"
  by (simp add: isDigit_def)

lemma takeWhile_digits: "list_all isDigit ds \<Longrightarrow> no_digit u \<Longrightarrow> takeWhile isDigit (ds @ u) = ds"
  by (cases u) (auto simp: takeWhile_append list_all_iff no_digit_def)

section \<open>The scanners\<close>

lemma scanDigits_Inr:
  "scanDigits p n = Inr q \<longleftrightarrow> q = adv (length (takeWhile isDigit (rest p))) p
     \<and> (takeWhile isDigit (rest p) = [] \<or> int (pos q) - int n \<le> maxNumberChars p)"
proof (induction p n rule: scanDigits.induct)
  case (1 p n)
  show ?case
  proof (cases "rest p")
    case Nil
    then show ?thesis by (subst scanDigits.simps) (auto dest: rest_NilD)
  next
    case (Cons b w)
    from rest_Cons [OF Cons] have b: "pos p < length (data p)" "data p ! pos p = b" by auto
    show ?thesis
    proof (cases "isDigit b")
      case False
      with b Cons show ?thesis by (subst scanDigits.simps) auto
    next
      case True
      show ?thesis
      proof (cases "int (pos (adv 1 p)) - int n > maxNumberChars p")
        case True
        with b Cons \<open>isDigit b\<close> show ?thesis by (subst scanDigits.simps) (auto simp: Let_def adv_1)
      next
        case False
        with b \<open>isDigit b\<close> have eq: "scanDigits p n = scanDigits (adv 1 p) n"
          by (subst scanDigits.simps) (simp add: Let_def adv_1)
        have IH: "scanDigits (adv 1 p) n = Inr q \<longleftrightarrow> q = adv (length (takeWhile isDigit (rest (adv 1 p)))) (adv 1 p)
            \<and> (takeWhile isDigit (rest (adv 1 p)) = [] \<or> int (pos q) - int n \<le> maxNumberChars (adv 1 p))"
          using 1(1) b \<open>isDigit b\<close> False by (simp add: adv_1)
        show ?thesis unfolding eq IH using Cons \<open>isDigit b\<close> False by auto
      qed
    qed
  qed
qed

lemma scanDigits_sound:
  assumes "scanDigits p n = Inr q" "rest p = b # w" "isDigit b"
  shows "\<exists>ds. digits1 ds \<and> reads p ds q"
proof -
  let ?ds = "takeWhile isDigit (rest p)"
  have "reads p ?ds q"
    using assms(1) reads_I [of p ?ds "dropWhile isDigit (rest p)"] by (simp add: scanDigits_Inr)
  moreover have "digits1 ?ds"
    using assms(2,3) by (auto simp: digits1_def list_all_iff dest: set_takeWhileD)
  ultimately show ?thesis by blast
qed

lemma scanDigits_complete:
  assumes "rest p = ds @ u" "digits1 ds" "no_digit u" "int (pos p + length ds) - int n \<le> maxNumberChars p"
  shows "scanDigits p n = Inr (adv (length ds) p)"
  using assms takeWhile_digits [of ds u] by (simp add: scanDigits_Inr digits1_def)

lemma rest_cases: obtains "rest p = []" "length (data p) \<le> pos p"
  | b w where "rest p = b # w" "pos p < length (data p)" "data p ! pos p = b"
  by (cases "rest p") (auto dest: rest_NilD rest_Cons)

lemma head_not_digit: "no_digit (rest p) \<Longrightarrow> \<not> (pos p < length (data p) \<and> isDigit (data p ! pos p))"
  by (cases p rule: rest_cases) (auto simp: no_digit_def)

lemma head_digit: "\<not> (pos p \<ge> length (data p) \<or> \<not> isDigit (data p ! pos p)) \<Longrightarrow> \<exists>b w. rest p = b # w \<and> isDigit b"
  by (cases p rule: rest_cases) auto

lemma digit_range: "\<not> (b < 0x31 \<or> b > cNINE) \<Longrightarrow> isDigit b \<and> b \<noteq> cZERO"
  "isDigit b \<Longrightarrow> b \<noteq> cZERO \<Longrightarrow> \<not> (b < 0x31 \<or> b > cNINE)"
  by (auto simp: isDigit_def byte_uint)

lemma scanIntegerPart_sound:
  assumes "scanIntegerPart p n = Inr q"
  shows "\<exists>ip. int_part ip \<and> reads p ip q"
proof (cases p rule: rest_cases)
  case (2 b w)
  show ?thesis
  proof (cases "b = cZERO")
    case True
    with assms 2 have "q = adv 1 p"
      by (auto simp: scanIntegerPart_def scanZeroIntegerPart_def Let_def adv_1 split: if_splits)
    with 2 True have "reads p [cZERO] q" by (simp add: reads_iff)
    then show ?thesis by (auto simp: int_part_def)
  next
    case False
    with assms 2 have b: "\<not> (b < 0x31 \<or> b > cNINE)" and s: "scanDigits p n = Inr q"
      by (auto simp: scanIntegerPart_def scanNonZeroIntegerDigits_def split: if_splits)
    from scanDigits_sound [OF s 2(1)] digit_range(1) [OF b] obtain ds where ds: "digits1 ds" "reads p ds q" by blast
    then have "hd ds = b" using 2(1) by (cases ds) (auto simp: digits1_def reads_iff)
    with ds False show ?thesis by (auto simp: int_part_def)
  qed
qed (use assms in \<open>simp add: scanIntegerPart_def\<close>)

lemma scanIntegerPart_complete:
  assumes "rest p = ip @ u" "int_part ip" "no_digit u" "int (pos p + length ip) - int n \<le> maxNumberChars p"
  shows "scanIntegerPart p n = Inr (adv (length ip) p)"
proof (cases "ip = [cZERO]")
  case True
  with assms rest_Cons [of p cZERO u] have p: "pos p < length (data p)" "data p ! pos p = cZERO" by auto
  have "\<not> (pos (adv 1 p) < length (data p) \<and> isDigit (data p ! pos (adv 1 p)))"
    using head_not_digit [of "adv 1 p"] assms(1,3) True by simp
  with p True show ?thesis by (auto simp: scanIntegerPart_def scanZeroIntegerPart_def Let_def adv_1)
next
  case False
  with assms(2) have ds: "digits1 ip" "hd ip \<noteq> cZERO" by (auto simp: int_part_def)
  then obtain b w where b: "ip = b # w" by (cases ip) (auto simp: digits1_def)
  with assms(1) rest_Cons [of p b "w @ u"] have p: "pos p < length (data p)" "data p ! pos p = b" by auto
  have "isDigit b" "b \<noteq> cZERO" using ds b by (auto simp: digits1_def)
  with digit_range(2) have "\<not> (b < 0x31 \<or> b > cNINE)" by blast
  with p \<open>b \<noteq> cZERO\<close> scanDigits_complete [OF assms(1) ds(1) assms(3,4)] show ?thesis
    by (simp add: scanIntegerPart_def scanNonZeroIntegerDigits_def)
qed

lemma scanFractionPart_sound:
  assumes "scanFractionPart p n = Inr q"
  shows "\<exists>fp. frac_part fp \<and> reads p fp q"
proof (cases "rest p \<noteq> [] \<and> hd (rest p) = cDOT")
  case True
  then obtain w where r: "rest p = cDOT # w" by (cases "rest p") auto
  from rest_Cons [OF r] assms have s: "scanDigits (adv 1 p) n = Inr q" and
    d: "\<not> (pos (adv 1 p) \<ge> length (data p) \<or> \<not> isDigit (data p ! pos (adv 1 p)))"
    by (auto simp: scanFractionPart_def Let_def adv_1 split: if_splits)
  from head_digit [of "adv 1 p"] d obtain b w' where b: "rest (adv 1 p) = b # w'" "isDigit b" by auto
  from scanDigits_sound [OF s b] obtain ds where ds: "digits1 ds" "reads (adv 1 p) ds q" by blast
  have "reads p [cDOT] (adv 1 p)" using r by (simp add: reads_iff)
  with ds have "reads p (cDOT # ds) q" using reads_trans [of p "[cDOT]"] by simp
  with ds show ?thesis by (auto simp: frac_part_def)
next
  case False
  with assms have "q = p" by (cases p rule: rest_cases) (auto simp: scanFractionPart_def)
  then show ?thesis by (auto simp: frac_part_def)
qed

lemma scanFractionPart_complete:
  assumes "rest p = fp @ u" "frac_part fp" "no_digit u" "fp = [] \<longrightarrow> u = [] \<or> hd u \<noteq> cDOT"
    "int (pos p + length fp) - int n \<le> maxNumberChars p"
  shows "scanFractionPart p n = Inr (adv (length fp) p)"
proof (cases fp)
  case Nil
  with assms(1,4) show ?thesis by (cases p rule: rest_cases) (auto simp: scanFractionPart_def)
next
  case (Cons b ds)
  with assms(2) have b: "b = cDOT" "digits1 ds" by (auto simp: frac_part_def)
  have p: "pos p < length (data p)" "data p ! pos p = cDOT" using rest_Cons [of p] assms(1) Cons b by auto
  obtain c w where c: "ds = c # w" "isDigit c" using b(2) by (cases ds) (auto simp: digits1_def)
  have "rest (adv 1 p) = ds @ u" using assms(1) Cons by simp
  moreover from this c have "pos (adv 1 p) < length (data p)" "data p ! pos (adv 1 p) = c"
    using rest_Cons [of "adv 1 p" c "w @ u"] by auto
  moreover have "scanDigits (adv 1 p) n = Inr (adv (length ds) (adv 1 p))"
    by (rule scanDigits_complete [OF calculation(1) b(2) assms(3)]) (use assms(5) Cons in simp)
  ultimately show ?thesis using p c Cons by (simp add: scanFractionPart_def Let_def adv_1)
qed

text \<open>The optional sign of the exponent.\<close>

definition skip_exp_sign :: "parser \<Rightarrow> parser" where
  "skip_exp_sign p = (if pos p < length (data p) \<and> (data p ! pos p = cPLUS \<or> data p ! pos p = cMINUS)
     then p\<lparr>pos := pos p + 1\<rparr> else p)"

lemma skip_exp_sign_sound: "\<exists>s. s \<in> {[], [cPLUS], [cMINUS]} \<and> reads p s (skip_exp_sign p)"
  by (cases p rule: rest_cases) (auto simp: skip_exp_sign_def adv_1 reads_iff)

lemma skip_exp_sign_complete:
  assumes "rest p = s @ b # w" "s \<in> {[], [cPLUS], [cMINUS]}" "isDigit b"
  shows "skip_exp_sign p = adv (length s) p"
proof (cases "s = []")
  case True
  with assms(1,3) rest_Cons [of p b w] show ?thesis by (auto simp: skip_exp_sign_def)
next
  case False
  then obtain c where "s = [c]" "c = cPLUS \<or> c = cMINUS" using assms(2) by auto
  with assms(1) rest_Cons [of p c "b # w"] show ?thesis by (auto simp: skip_exp_sign_def adv_1)
qed

lemma scanExponentPart_alt:
  "scanExponentPart p0 n =
     (if rest p0 = [] \<or> hd (rest p0) \<notin> {0x65, 0x45} then Inr p0
      else (let p = skip_exp_sign (adv 1 p0) in
        if pos p \<ge> length (data p) \<or> \<not> isDigit (data p ! pos p)
        then Inl (newError p (Msg ''expected digit in exponent''))
        else scanDigits p n))"
  by (cases p0 rule: rest_cases) (auto simp: scanExponentPart_def skip_exp_sign_def adv_1 Let_def)

lemma scanExponentPart_sound:
  assumes "scanExponentPart p n = Inr q"
  shows "\<exists>ep. exp_part ep \<and> reads p ep q"
proof (cases "rest p = [] \<or> hd (rest p) \<notin> {0x65, 0x45}")
  case True
  with assms have "q = p" by (auto simp: scanExponentPart_alt)
  then show ?thesis by (auto simp: exp_part_def)
next
  case False
  then obtain e w where r: "rest p = e # w" "e \<in> {0x65, 0x45}" by (cases "rest p") auto
  let ?p = "skip_exp_sign (adv 1 p)"
  have d: "\<not> (pos ?p \<ge> length (data ?p) \<or> \<not> isDigit (data ?p ! pos ?p))" and s: "scanDigits ?p n = Inr q"
    using assms False by (auto simp: scanExponentPart_alt Let_def split: if_splits)
  from head_digit [OF d] obtain b w' where b: "rest ?p = b # w'" "isDigit b" by blast
  from scanDigits_sound [OF s b] obtain ds where ds: "digits1 ds" "reads ?p ds q" by blast
  from skip_exp_sign_sound obtain sg where sg: "sg \<in> {[], [cPLUS], [cMINUS]}" "reads (adv 1 p) sg ?p" by blast
  have "reads p [e] (adv 1 p)" using r by (simp add: reads_iff)
  from reads_trans [OF this reads_trans [OF sg(2) ds(2)]] have "reads p (e # sg @ ds) q" by simp
  moreover have "exp_part (e # sg @ ds)" unfolding exp_part_def using r(2) sg(1) ds(1) by blast
  ultimately show ?thesis by blast
qed

lemma scanExponentPart_complete:
  assumes "rest p = ep @ u" "exp_part ep" "no_digit u" "ep = [] \<longrightarrow> u = [] \<or> hd u \<notin> {0x65, 0x45}"
    "int (pos p + length ep) - int n \<le> maxNumberChars p"
  shows "scanExponentPart p n = Inr (adv (length ep) p)"
proof (cases "ep = []")
  case True
  with assms(1,4) show ?thesis by (auto simp: scanExponentPart_alt)
next
  case False
  with assms(2) obtain e s ds where ep: "ep = e # s @ ds" "e \<in> {0x65, 0x45}" "s \<in> {[], [cPLUS], [cMINUS]}" "digits1 ds"
    by (auto simp: exp_part_def)
  obtain c w where c: "ds = c # w" "isDigit c" using ep(4) by (cases ds) (auto simp: digits1_def)
  have "skip_exp_sign (adv 1 p) = adv (length s) (adv 1 p)"
    by (rule skip_exp_sign_complete [of _ _ c "w @ u", OF _ ep(3) c(2)]) (simp add: assms(1) ep(1) c)
  moreover have rp: "rest (adv (1 + length s) p) = ds @ u" using assms(1) ep(1) by simp
  moreover have "pos (adv (1 + length s) p) < length (data p)" "data p ! pos (adv (1 + length s) p) = c"
    using rest_Cons [of "adv (1 + length s) p" c "w @ u"] rp c by auto
  moreover have "scanDigits (adv (1 + length s) p) n = Inr (adv (length ds) (adv (1 + length s) p))"
    by (rule scanDigits_complete [OF rp ep(4) assms(3)]) (use assms(5) ep(1) in simp)
  ultimately show ?thesis using assms(1) ep(1,2) c(2) by (simp add: scanExponentPart_alt Let_def)
qed

section \<open>The denotation of a token\<close>

text \<open>
  The double a token denotes: the nearest one to its decimal value, finite, not zero unless the value is,
  and without the sign if the value is zero.
\<close>

definition jnum :: "bytes \<Rightarrow> float64 \<Rightarrow> bool" where
  "jnum t f \<longleftrightarrow> json_number t \<and> (\<exists>neg m e. parse_decimal t = Some (neg, m, e) \<and> decimalBits m e < infBits
     \<and> (m = 0 \<longrightarrow> \<not> neg) \<and> (m \<noteq> 0 \<longrightarrow> decimalBits m e \<noteq> 0)
     \<and> f = mk_float neg (decimalBits m e))"

lemma isDec_isDigit: "isDec = isDigit"
  by (auto simp: isDec_def isDigit_def fun_eq_iff)

lemma digit_val_bounds: "isDigit b \<Longrightarrow> 0 \<le> digit_val b \<and> digit_val b \<le> 9"
  by (auto simp: isDigit_def digit_val_def byte_uint)

lemma digit_val_0: "isDigit b \<Longrightarrow> digit_val b = 0 \<longleftrightarrow> b = cZERO"
  by (simp add: digit_val_def byte_eq_iff)

lemma digits_val_nonneg: "list_all isDigit ds \<Longrightarrow> 0 \<le> digits_val ds"
  by (induction ds rule: rev_induct) (auto simp: digits_val_snoc dest: digit_val_bounds)

lemma digits_val_0: "list_all isDigit ds \<Longrightarrow> digits_val ds = 0 \<longleftrightarrow> list_all (\<lambda>b. b = cZERO) ds"
proof (induction ds rule: rev_induct)
  case (snoc b ds)
  then have "0 \<le> digits_val ds" "0 \<le> digit_val b" "isDigit b" by (auto simp: digits_val_nonneg digit_val_bounds)
  with snoc digit_val_0 [of b] show ?case by (auto simp: digits_val_snoc)
qed simp

lemma parse_exp_part:
  assumes "exp_part ep"
  shows "\<exists>e. parse_exp ep = Some e"
  using assms by (auto simp: exp_part_def parse_exp_def split_sign_def digits1_def isDec_isDigit split: list.splits)

lemma parse_decimal_number:
  assumes "sign_part sg" "int_part ip" "frac_part fp" "exp_part ep"
  shows "parse_decimal (sg @ ip @ fp @ ep) = map_option (\<lambda>e. (sg \<noteq> [], digits_val (ip @ tl fp), e - int (length (tl fp))))
    (parse_exp ep)"
proof -
  have ip: "list_all isDigit ip" "ip \<noteq> []" using assms(2) by (auto simp: int_part_def digits1_def)
  then obtain b w where b: "ip = b # w" "b \<noteq> cMINUS" "b \<noteq> cPLUS"
    using isDigit_neq by (cases ip) auto
  have sg: "split_sign (sg @ ip @ fp @ ep) = (sg \<noteq> [], ip @ fp @ ep)"
    using assms(1) b by (auto simp: sign_part_def split_sign_def)
  have ep: "no_digit ep" "ep = [] \<or> hd ep \<noteq> cDOT" using assms(4) by (auto simp: exp_part_def no_digit_def)
  have fe: "no_digit (fp @ ep)" using assms(3) ep by (auto simp: frac_part_def no_digit_def)
  have tw: "takeWhile isDigit (ip @ fp @ ep) = ip" "dropWhile isDigit (ip @ fp @ ep) = fp @ ep"
    using takeWhile_digits [OF ip(1) fe] takeWhile_dropWhile_id [of isDigit "ip @ fp @ ep"] by simp_all
  show ?thesis
  proof (cases "fp = []")
    case True
    with sg tw ep ip show ?thesis by (auto simp: parse_decimal_def isDec_isDigit Let_def)
  next
    case False
    with assms(3) obtain ds where ds: "fp = cDOT # ds" "list_all isDigit ds" by (auto simp: frac_part_def digits1_def)
    have "takeWhile isDigit (ds @ ep) = ds" "dropWhile isDigit (ds @ ep) = ep"
      using takeWhile_digits [OF ds(2) ep(1)] takeWhile_dropWhile_id [of isDigit "ds @ ep"] by simp_all
    with ds sg tw ip show ?thesis by (auto simp: parse_decimal_def isDec_isDigit Let_def)
  qed
qed

lemma isNonzero_digit: "isDigit c \<Longrightarrow> (c \<ge> 0x31 \<and> c \<le> cNINE) \<longleftrightarrow> c \<noteq> cZERO"
  by (auto simp: isDigit_def byte_uint)

lemma tokenRepresentsZero_iff:
  assumes "sign_part sg" "int_part ip" "frac_part fp" "exp_part ep"
  shows "tokenRepresentsZero (sg @ ip @ fp @ ep) \<longleftrightarrow> digits_val (ip @ tl fp) = 0"
    "(sg @ ip @ fp @ ep \<noteq> [] \<and> hd (sg @ ip @ fp @ ep) = cMINUS) \<longleftrightarrow> sg \<noteq> []"
proof -
  have ip: "list_all isDigit ip" "ip \<noteq> []" using assms(2) by (auto simp: int_part_def digits1_def)
  then have h: "hd ip \<noteq> cMINUS" using isDigit_neq by (cases ip) auto
  then show sg: "(sg @ ip @ fp @ ep \<noteq> [] \<and> hd (sg @ ip @ fp @ ep) = cMINUS) \<longleftrightarrow> sg \<noteq> []"
    using assms(1) ip(2) by (auto simp: sign_part_def)
  have fp: "list_all isDigit (tl fp)" "fp = [] \<or> hd fp = cDOT" using assms(3) by (auto simp: frac_part_def digits1_def)
  let ?P = "\<lambda>c. c \<noteq> (0x65::byte) \<and> c \<noteq> 0x45"
  have "list_all ?P (ip @ fp)"
    using ip(1) fp isDigit_neq by (cases fp) (auto simp: list_all_iff)
  moreover have "ep = [] \<or> \<not> ?P (hd ep)" using assms(4) by (auto simp: exp_part_def)
  ultimately have tw: "takeWhile ?P ((ip @ fp) @ ep) = ip @ fp"
    by (subst takeWhile_append2) (cases ep; auto simp: list_all_iff)+
  have body: "(if sg @ ip @ fp @ ep \<noteq> [] \<and> hd (sg @ ip @ fp @ ep) = cMINUS then tl (sg @ ip @ fp @ ep) else sg @ ip @ fp @ ep)
      = (ip @ fp) @ ep"
    unfolding sg using assms(1) by (auto simp: sign_part_def)
  have "tokenRepresentsZero (sg @ ip @ fp @ ep) \<longleftrightarrow> \<not> list_ex (\<lambda>c. c \<ge> 0x31 \<and> c \<le> cNINE) (ip @ fp)"
    unfolding tokenRepresentsZero_def body Let_def tw ..
  also have "\<dots> \<longleftrightarrow> \<not> list_ex (\<lambda>c. c \<ge> 0x31 \<and> c \<le> cNINE) (ip @ tl fp)"
    using fp(2) by (cases fp) auto
  also have "\<dots> \<longleftrightarrow> list_all (\<lambda>c. c = cZERO) (ip @ tl fp)"
    using ip(1) fp(1) isNonzero_digit by (auto simp: list_ex_iff list_all_iff)
  also have "\<dots> \<longleftrightarrow> digits_val (ip @ tl fp) = 0"
    using ip(1) fp(1) by (subst digits_val_0) auto
  finally show "tokenRepresentsZero (sg @ ip @ fp @ ep) \<longleftrightarrow> digits_val (ip @ tl fp) = 0" .
qed

lemma buildNumberValue_iff:
  assumes "json_number t"
  shows "buildNumberValue start t = Inr v \<longleftrightarrow> (\<exists>f. jnum t f \<and> v = NumberValue f)"
proof -
  from assms obtain sg ip fp ep where t: "t = sg @ ip @ fp @ ep" and
    parts: "sign_part sg" "int_part ip" "frac_part fp" "exp_part ep" by (auto simp: json_number_def)
  from parse_exp_part [OF parts(4)] obtain e where e: "parse_exp ep = Some e" by blast
  let ?m = "digits_val (ip @ tl fp)" and ?e = "e - int (length (tl fp))"
  have pd: "parse_decimal t = Some (sg \<noteq> [], ?m, ?e)" using parse_decimal_number [OF parts] e t by simp
  have "list_all isDigit (ip @ tl fp)" using parts(2,3) by (auto simp: int_part_def frac_part_def digits1_def)
  then have "0 \<le> ?m" by (rule digits_val_nonneg)
  then have b: "0 \<le> decimalBits ?m ?e" by (rule decimalBits_nonneg)
  note z = tokenRepresentsZero_iff [OF parts, folded t]
  show ?thesis
  proof (cases "decimalBits ?m ?e < infBits")
    case False
    with pd have "ParseFloat t = (mk_float (sg \<noteq> []) infBits, Some ErrRange)" by (simp add: ParseFloat_Some)
    then have "buildNumberValue start t \<noteq> Inr v" by (simp add: buildNumberValue_def errorsIsRange_def mk_float_Inf)
    with False pd show ?thesis by (auto simp: jnum_def)
  next
    case True
    let ?f = "mk_float (sg \<noteq> []) (decimalBits ?m ?e)"
    from True pd have pf: "ParseFloat t = (?f, None)" by (simp add: ParseFloat_Some)
    have "decimalBits ?m ?e = 0" if "?m = 0" using that by (simp add: decimalBits_def)
    then show ?thesis
      using pf z pd True assms mk_float_class [OF b True, of "sg \<noteq> []"]
      by (auto simp: buildNumberValue_def jnum_def)
  qed
qed

section \<open>The scanner of numbers\<close>

lemma reads_slice: "reads p t q \<Longrightarrow> take (pos q - pos p) (drop (pos p) (data q)) = t \<and> pos q = pos p + length t"
  by (auto simp: reads_iff rest_def)

lemma optional_minus: "\<exists>sg. sign_part sg \<and>
    reads p sg (if pos p < length (data p) \<and> data p ! pos p = cMINUS then p\<lparr>pos := pos p + 1\<rparr> else p)"
  by (cases p rule: rest_cases) (auto simp: sign_part_def adv_1 reads_iff)

lemma parseNumber_sound:
  assumes "parseNumber p = Inr (v, q)"
  shows "\<exists>t f. jnum t f \<and> reads p t q \<and> int (length t) \<le> maxNumberChars p \<and> v = NumberValue f"
proof -
  let ?p1 = "if pos p < length (data p) \<and> data p ! pos p = cMINUS then p\<lparr>pos := pos p + 1\<rparr> else p"
  from assms obtain p2 p3 where s: "scanIntegerPart ?p1 (pos p) = Inr p2" "scanFractionPart p2 (pos p) = Inr p3"
      "scanExponentPart p3 (pos p) = Inr q" "\<not> int (pos q) - int (pos p) > maxNumberChars q"
      "buildNumberValue (pos p) (take (pos q - pos p) (drop (pos p) (data q))) = Inr v"
    by (auto simp: parseNumber_def Let_def split: sum.splits if_split_asm)
  from optional_minus obtain sg where sg: "sign_part sg" "reads p sg ?p1" by blast
  from scanIntegerPart_sound [OF s(1)] scanFractionPart_sound [OF s(2)] scanExponentPart_sound [OF s(3)]
  obtain ip fp ep where parts: "int_part ip" "reads ?p1 ip p2" "frac_part fp" "reads p2 fp p3"
    "exp_part ep" "reads p3 ep q" by blast
  let ?t = "sg @ ip @ fp @ ep"
  have r: "reads p ?t q" using sg parts by (blast intro: reads_trans)
  have j: "json_number ?t" using sg parts by (auto simp: json_number_def)
  have "buildNumberValue (pos p) ?t = Inr v" using s(5) by (simp only: conjunct1 [OF reads_slice [OF r]])
  then obtain f where "jnum ?t f" "v = NumberValue f" using buildNumberValue_iff [OF j] by blast
  moreover have "int (length ?t) \<le> maxNumberChars p" using s(4) reads_slice [OF r] r by (auto simp: reads_iff)
  ultimately show ?thesis using r by blast
qed

lemma parseNumber_complete:
  assumes "jnum t f" "rest p = t @ u" "number_stop u" "int (length t) \<le> maxNumberChars p"
  shows "parseNumber p = Inr (NumberValue f, adv (length t) p)"
proof -
  from assms(1) obtain sg ip fp ep where t: "t = sg @ ip @ fp @ ep" and
    parts: "sign_part sg" "int_part ip" "frac_part fp" "exp_part ep" and j: "json_number t"
    unfolding jnum_def by (metis json_number_def)
  have "\<exists>b w. ip = b # w \<and> isDigit b" using parts(2) by (cases ip) (auto simp: int_part_def digits1_def)
  then have ip: "ip \<noteq> []" "hd ip \<noteq> cMINUS" by (auto dest: isDigit_neq)
  let ?p1 = "if pos p < length (data p) \<and> data p ! pos p = cMINUS then p\<lparr>pos := pos p + 1\<rparr> else p"
  let ?p2 = "adv (length (sg @ ip)) p" and ?p3 = "adv (length (sg @ ip @ fp)) p"
  have p1: "?p1 = adv (length sg) p"
  proof (cases "sg = []")
    case True
    with assms(2) t ip rest_Cons [of p "hd ip" "tl ip @ fp @ ep @ u"] show ?thesis by auto
  next
    case False
    then have "sg = [cMINUS]" using parts(1) by (simp add: sign_part_def)
    with assms(2) t rest_Cons [of p cMINUS "ip @ fp @ ep @ u"] show ?thesis by (simp add: adv_1)
  qed
  have u: "no_digit u" "u = [] \<or> hd u \<notin> {cDOT, 0x65, 0x45}" using assms(3) by (auto simp: number_stop_def no_digit_def)
  have eu: "no_digit (ep @ u)" "ep @ u = [] \<or> hd (ep @ u) \<noteq> cDOT"
    using parts(4) u by (auto simp: exp_part_def no_digit_def)
  have feu: "no_digit (fp @ ep @ u)" using parts(3) eu by (auto simp: frac_part_def no_digit_def)
  have s1: "scanIntegerPart (adv (length sg) p) (pos p) = Inr ?p2"
    using scanIntegerPart_complete [of "adv (length sg) p" ip "fp @ ep @ u" "pos p"] assms(2,4) t parts(2) feu by simp
  have s2: "scanFractionPart ?p2 (pos p) = Inr ?p3"
    using scanFractionPart_complete [of ?p2 fp "ep @ u" "pos p"] assms(2,4) t parts(3) eu by simp
  have s3: "scanExponentPart ?p3 (pos p) = Inr (adv (length t) p)"
    using scanExponentPart_complete [of ?p3 ep u "pos p"] assms(2,4) t parts(4) u by auto
  have "reads p t (adv (length t) p)" by (rule reads_I [OF assms(2)])
  from reads_slice [OF this] have raw: "take (length t) (drop (pos p) (data p)) = t" by simp
  have "buildNumberValue (pos p) t = Inr (NumberValue f)" using buildNumberValue_iff [OF j] assms(1) by blast
  with s1 s2 s3 raw assms(4) p1 show ?thesis
    by (simp add: parseNumber_def Let_def)
qed

lemma jnum_fun: "jnum t f \<Longrightarrow> jnum t g \<Longrightarrow> f = g"
  by (auto simp: jnum_def)

text \<open>What a number token denotes is finite and is not the negative zero.\<close>

definition number_ok :: "float64 \<Rightarrow> bool" where
  "number_ok f \<longleftrightarrow> finite64 f \<and> \<not> (isZero f \<and> signBit f)"

lemma parse_decimal_nonneg:
  assumes "json_number t" "parse_decimal t = Some (neg, m, e)"
  shows "0 \<le> m"
proof -
  from assms(1) obtain sg ip fp ep where t: "t = sg @ ip @ fp @ ep" and
    parts: "sign_part sg" "int_part ip" "frac_part fp" "exp_part ep" by (auto simp: json_number_def)
  have "list_all isDigit (ip @ tl fp)" using parts(2,3) by (auto simp: int_part_def frac_part_def digits1_def)
  then show ?thesis using parse_decimal_number [OF parts] assms(2) t by (auto intro: digits_val_nonneg)
qed

lemma jnum_ok:
  assumes "jnum t f"
  shows "number_ok f"
proof -
  from assms obtain neg m e where j: "json_number t" "parse_decimal t = Some (neg, m, e)" "decimalBits m e < infBits"
    "m = 0 \<longrightarrow> \<not> neg" "m \<noteq> 0 \<longrightarrow> decimalBits m e \<noteq> 0" "f = mk_float neg (decimalBits m e)" by (auto simp: jnum_def)
  then have b: "0 \<le> decimalBits m e" by (intro decimalBits_nonneg parse_decimal_nonneg)
  with j mk_float_class [OF b j(3), of neg] mk_float_fields(3) [of "decimalBits m e" neg] show ?thesis
    by (auto simp: number_ok_def)
qed

end
