(* ===== verification/Token_Values.thy ===== *)
theory Token_Values
  imports Token_Strings Token_Numbers
begin

text \<open>
  JSON values: the grammar of values with what a text denotes, the measures of a value the limits speak of,
  and the proof that \<open>parseValue\<close> reads exactly the texts of the grammar.
\<close>

section \<open>The grammar of values\<close>

text \<open>\<open>N\<close> is the limit on the length of a number token, the only limit that is on the text of a value.\<close>

inductive jvalue :: "int \<Rightarrow> bytes \<Rightarrow> Value \<Rightarrow> bool"
  and jmembers :: "int \<Rightarrow> bytes \<Rightarrow> Member list \<Rightarrow> bool"
  and jelems :: "int \<Rightarrow> bytes \<Rightarrow> Value list \<Rightarrow> bool"
  for N :: int where
  jv_null: "jvalue N (ascii ''null'') NullValue"
| jv_bool: "b \<in> {ascii ''true'', ascii ''false''} \<Longrightarrow> jvalue N b (BoolValue b)"
| jv_num: "jnum t f \<Longrightarrow> int (length t) \<le> N \<Longrightarrow> jvalue N t (NumberValue f)"
| jv_str: "jchars t s \<Longrightarrow> jvalue N (cQUOTE # t @ [cQUOTE]) (StringValue s)"
| jv_arr0: "ws w \<Longrightarrow> jvalue N (cLBRACK # w @ [cRBRACK]) (ArrayValue [])"
| jv_arr: "jelems N t es \<Longrightarrow> jvalue N (cLBRACK # t @ [cRBRACK]) (ArrayValue es)"
| jv_obj0: "ws w \<Longrightarrow> jvalue N (cLBRACE # w @ [cRBRACE]) (ObjectValue [])"
| jv_obj: "jmembers N t ms \<Longrightarrow> distinct (map Key ms) \<Longrightarrow> jvalue N (cLBRACE # t @ [cRBRACE]) (ObjectValue ms)"
| je_one: "ws w \<Longrightarrow> jvalue N t v \<Longrightarrow> ws w' \<Longrightarrow> jelems N (w @ t @ w') [v]"
| je_more: "ws w \<Longrightarrow> jvalue N t v \<Longrightarrow> ws w' \<Longrightarrow> jelems N u vs \<Longrightarrow> jelems N (w @ t @ w' @ cCOMMA # u) (v # vs)"
| jm_one: "ws w \<Longrightarrow> jchars k s \<Longrightarrow> ws wk \<Longrightarrow> ws wc \<Longrightarrow> jvalue N t v \<Longrightarrow> ws w' \<Longrightarrow>
    jmembers N (w @ (cQUOTE # k @ [cQUOTE]) @ wk @ cCOLON # wc @ t @ w') [Member s v]"
| jm_more: "ws w \<Longrightarrow> jchars k s \<Longrightarrow> ws wk \<Longrightarrow> ws wc \<Longrightarrow> jvalue N t v \<Longrightarrow> ws w' \<Longrightarrow> jmembers N u ms \<Longrightarrow>
    jmembers N (w @ (cQUOTE # k @ [cQUOTE]) @ wk @ cCOLON # wc @ t @ w' @ cCOMMA # u) (Member s v # ms)"

text \<open>A document is a value between white space.\<close>

definition jtext :: "int \<Rightarrow> bytes \<Rightarrow> Value \<Rightarrow> bool" where
  "jtext N d v \<longleftrightarrow> (\<exists>w t w'. d = w @ t @ w' \<and> ws w \<and> jvalue N t v \<and> ws w')"

lemma ws_append [simp]: "ws (a @ b) \<longleftrightarrow> ws a \<and> ws b"
  by (simp add: ws_def)

lemma jmembers_ws: "ws w \<Longrightarrow> jmembers N t ms \<Longrightarrow> jmembers N (w @ t) ms"
proof -
  assume w: "ws w" and "jmembers N t ms"
  from this(2) show ?thesis
  proof cases
    case (jm_one w0 k s wk wc t v w')
    then show ?thesis using jvalue_jmembers_jelems.jm_one [of "w @ w0" k s wk wc N t v w'] w by simp
  next
    case (jm_more w0 k s wk wc t v w' u ms)
    then show ?thesis using jvalue_jmembers_jelems.jm_more [of "w @ w0" k s wk wc N t v w' u ms] w by simp
  qed
qed

lemma jelems_ws: "ws w \<Longrightarrow> jelems N t es \<Longrightarrow> jelems N (w @ t) es"
proof -
  assume w: "ws w" and "jelems N t es"
  from this(2) show ?thesis
  proof cases
    case (je_one w0 t v w')
    then show ?thesis using jvalue_jmembers_jelems.je_one [of "w @ w0" N t v w'] w by simp
  next
    case (je_more w0 t v w' u vs)
    then show ?thesis using jvalue_jmembers_jelems.je_more [of "w @ w0" N t v w' u vs] w by simp
  qed
qed

section \<open>Measures of a value\<close>

fun vcount :: "Value \<Rightarrow> nat" and mcount :: "Member \<Rightarrow> nat" where
  "vcount (Value k s n ms es) = Suc (sum_list (map mcount ms) + sum_list (map vcount es))"
| "mcount (Member k v) = vcount v"

definition container :: "Kind \<Rightarrow> bool" where
  "container k \<longleftrightarrow> k = KindArray \<or> k = KindObject"

fun vdepth :: "Value \<Rightarrow> nat" and mdepth :: "Member \<Rightarrow> nat" where
  "vdepth (Value k s n ms es) =
     (if container k then Suc (foldr max (map mdepth ms) (foldr max (map vdepth es) 0)) else 0)"
| "mdepth (Member k v) = vdepth v"

text \<open>Strings and keys of at most \<open>S\<close> bytes, objects of at most \<open>M\<close> members, arrays of at most \<open>E\<close> elements.\<close>

fun fits :: "int \<Rightarrow> int \<Rightarrow> int \<Rightarrow> Value \<Rightarrow> bool" and mfits :: "int \<Rightarrow> int \<Rightarrow> int \<Rightarrow> Member \<Rightarrow> bool" where
  "fits S M E (Value k s n ms es) \<longleftrightarrow> (k = KindString \<longrightarrow> int (length s) \<le> S)
     \<and> (k = KindObject \<longrightarrow> int (length ms) \<le> M) \<and> (k = KindArray \<longrightarrow> int (length es) \<le> E)
     \<and> list_all (mfits S M E) ms \<and> list_all (fits S M E) es"
| "mfits S M E (Member k v) \<longleftrightarrow> int (length k) \<le> S \<and> fits S M E v"

lemma foldr_max_le: "foldr max xs (a::nat) \<le> n \<longleftrightarrow> a \<le> n \<and> (\<forall>x\<in>set xs. x \<le> n)"
  by (induction xs) auto

text \<open>What a state must leave room for so that a value can be read.\<close>

definition room_for :: "parser \<Rightarrow> Value \<Rightarrow> bool" where
  "room_for p v \<longleftrightarrow> int (valueCount p + vcount v) \<le> maxValues p \<and> (vdepth v = 0 \<or> int (depth p + vdepth v) \<le> maxDepth p)
     \<and> fits (maxStringBytes p) (max 0 (maxObjectMembers p)) (max 0 (maxArrayElements p)) v"

definition room_for_elems :: "parser \<Rightarrow> Value list \<Rightarrow> bool" where
  "room_for_elems p vs \<longleftrightarrow> int (valueCount p + sum_list (map vcount vs)) \<le> maxValues p
     \<and> list_all (\<lambda>v. vdepth v = 0 \<or> int (depth p + vdepth v) \<le> maxDepth p) vs
     \<and> list_all (fits (maxStringBytes p) (max 0 (maxObjectMembers p)) (max 0 (maxArrayElements p))) vs"

definition room_for_members :: "parser \<Rightarrow> Member list \<Rightarrow> bool" where
  "room_for_members p ms \<longleftrightarrow> int (valueCount p + sum_list (map mcount ms)) \<le> maxValues p
     \<and> list_all (\<lambda>m. mdepth m = 0 \<or> int (depth p + mdepth m) \<le> maxDepth p) ms
     \<and> list_all (mfits (maxStringBytes p) (max 0 (maxObjectMembers p)) (max 0 (maxArrayElements p))) ms"

section \<open>Moving over a value\<close>

definition mv :: "nat \<Rightarrow> nat \<Rightarrow> nat \<Rightarrow> parser \<Rightarrow> parser" where
  "mv a b c p = p\<lparr>pos := pos p + a, valueCount := valueCount p + b, depth := depth p + c\<rparr>"

lemma mv_fields [simp]:
  "data (mv a b c p) = data p" "pos (mv a b c p) = pos p + a" "valueCount (mv a b c p) = valueCount p + b"
  "depth (mv a b c p) = depth p + c" "maxStringBytes (mv a b c p) = maxStringBytes p"
  "maxNumberChars (mv a b c p) = maxNumberChars p" "maxDepth (mv a b c p) = maxDepth p"
  "maxValues (mv a b c p) = maxValues p" "maxObjectMembers (mv a b c p) = maxObjectMembers p"
  "maxArrayElements (mv a b c p) = maxArrayElements p" "rest (mv a b c p) = drop a (rest p)"
  by (simp_all add: mv_def rest_def add.commute)

lemma mv_set_pos [simp]: "(mv a b c p)\<lparr>pos := Suc (pos p + a)\<rparr> = mv (Suc a) b c p"
  by (simp add: mv_def)

lemma mv_mv [simp]: "mv a b c (mv a' b' c' p) = mv (a' + a) (b' + b) (c' + c) p"
  by (simp add: mv_def add.assoc)

lemma mv_0 [simp]: "mv 0 0 0 p = p"
  by (simp add: mv_def)

lemma adv_mv: "adv n p = mv n 0 0 p"
  by (simp add: adv_def mv_def)

lemma counted_mv: "counted p = mv 0 1 0 p"
  by (simp add: counted_def mv_def)

lemma popDepth_mv [simp]: "popDepth (mv a b (Suc c) p) = mv a b c p"
  by (simp add: mv_def popDepth_def)

lemma enter_mv:
  "enter p b p' \<longleftrightarrow> at_byte p b \<and> room p \<and> int (Suc (depth p)) \<le> maxDepth p \<and> p' = skipWhitespace (mv 1 1 1 p)"
proof -
  have "p\<lparr>valueCount := Suc (valueCount p), depth := Suc (depth p), pos := Suc (pos p)\<rparr> = mv 1 1 1 p"
    by (cases p) (simp add: mv_def)
  then show ?thesis by (simp only: enter_def) (auto simp: at_byte_def room_def)
qed

text \<open>\<open>goes p t n q\<close>: from \<open>p\<close> over the text \<open>t\<close>, counting \<open>n\<close> values, to \<open>q\<close>.\<close>

definition goes :: "parser \<Rightarrow> bytes \<Rightarrow> nat \<Rightarrow> parser \<Rightarrow> bool" where
  "goes p t n q \<longleftrightarrow> (\<exists>u. rest p = t @ u) \<and> q = mv (length t) n 0 p"

lemma goes_trans: "goes p t n q \<Longrightarrow> goes q u m r \<Longrightarrow> goes p (t @ u) (n + m) r"
  by (auto simp: goes_def)

lemma reads_goes: "reads p t q \<longleftrightarrow> goes p t 0 q"
  by (simp add: reads_iff goes_def adv_mv)

lemma goes_counted: "goes (counted p) t n q \<longleftrightarrow> goes p t (Suc n) q"
  by (auto simp: goes_def counted_mv)

lemma goes_skip1: "at_byte p b \<Longrightarrow> goes p [b] 0 (skip1 p)"
  using reads_skip1 reads_goes by blast

lemma goes_skip: "\<exists>w. ws w \<and> goes p w 0 (skipWhitespace p)"
  using skip_reads [of p] reads_goes by blast

lemma goes_enter: "at_byte p b \<Longrightarrow> goes (mv 1 1 1 p) t n q \<Longrightarrow> goes p (b # t) (Suc n) (popDepth q)"
  by (auto simp: goes_def at_byte_rest)

lemma goes_env:
  "goes p t n q \<Longrightarrow> data q = data p \<and> depth q = depth p \<and> valueCount q = valueCount p + n \<and> maxDepth q = maxDepth p
     \<and> maxValues q = maxValues p \<and> maxStringBytes q = maxStringBytes p \<and> maxNumberChars q = maxNumberChars p
     \<and> maxObjectMembers q = maxObjectMembers p \<and> maxArrayElements q = maxArrayElements p"
  by (auto simp: goes_def)

lemma hasLiteral_rest:
  assumes "s \<noteq> []"
  shows "hasLiteral p s \<longleftrightarrow> (\<exists>u. rest p = s @ u)"
proof -
  have 1: "take (length s) (rest p) = s \<longleftrightarrow> (\<exists>u. rest p = s @ u)" by (metis append_eq_conv_conj append_take_drop_id)
  have "length s \<le> length (rest p)" if "take (length s) (rest p) = s"
    using that by (metis length_take min.cobounded1)
  then have "pos p + length s \<le> length (data p)" if "take (length s) (rest p) = s"
    using that assms \<open>take (length s) (rest p) = s \<Longrightarrow> _\<close> by (cases s) (auto simp: length_rest)
  with 1 show ?thesis by (auto simp: hasLiteral_def rest_def)
qed

lemma ascii_nonempty [simp]: "ascii s = [] \<longleftrightarrow> s = []" and length_ascii [simp]: "length (ascii s) = length s"
  by (simp_all add: ascii_def)

lemma literal_lengths: "adv 4 p = mv (length (ascii ''true'')) 0 0 p" "adv 5 p = mv (length (ascii ''false'')) 0 0 p"
  "adv 4 p = mv (length (ascii ''null'')) 0 0 p"
  by (simp_all add: adv_mv eval_nat_numeral)

lemma parseBool_goes: "parseBool p = Inr (v, q) \<longleftrightarrow>
    (\<exists>b\<in>{ascii ''true'', ascii ''false''}. v = BoolValue b \<and> goes p b 0 q)"
proof -
  have 1: "hasLiteral p (ascii ''true'') \<longleftrightarrow> (\<exists>u. rest p = ascii ''true'' @ u)"
    "hasLiteral p (ascii ''false'') \<longleftrightarrow> (\<exists>u. rest p = ascii ''false'' @ u)"
    by (rule hasLiteral_rest, simp)+
  have 2: "(\<exists>u. rest p = ascii ''true'' @ u) \<Longrightarrow> \<not> (\<exists>w. rest p = ascii ''false'' @ w)" by (auto simp: ascii_def)
  show ?thesis
    unfolding parseBool_def adv_1 literal_lengths(1,2) 1 goes_def using 2 by auto
qed

lemma parseNull_goes: "parseNull p = Inr (v, q) \<longleftrightarrow> v = NullValue \<and> goes p (ascii ''null'') 0 q"
proof -
  have "hasLiteral p (ascii ''null'') \<longleftrightarrow> (\<exists>u. rest p = ascii ''null'' @ u)" by (rule hasLiteral_rest) simp
  then show ?thesis unfolding parseNull_def adv_1 literal_lengths(3) goes_def by auto
qed

section \<open>What was read is a text of the grammar\<close>

definition reads_value :: "parser \<Rightarrow> Value \<Rightarrow> parser \<Rightarrow> bool" where
  "reads_value p v q \<longleftrightarrow> (\<exists>t. jvalue (maxNumberChars p) t v \<and> goes p t (vcount v) q \<and> room_for p v)"

definition reads_members :: "parser \<Rightarrow> Member list \<Rightarrow> (bytes \<rightharpoonup> nat) \<Rightarrow> Value \<Rightarrow> parser \<Rightarrow> bool" where
  "reads_members p ms seen w q \<longleftrightarrow> (\<exists>t ms'. jmembers (maxNumberChars p) t ms' \<and> w = ObjectValue (ms @ ms')
     \<and> goes p (t @ [cRBRACE]) (sum_list (map mcount ms')) q \<and> room_for_members p ms'
     \<and> (\<forall>m\<in>set ms'. seen (Key m) = None) \<and> distinct (map Key ms') \<and> int (length (ms @ ms')) \<le> maxObjectMembers p)"

definition reads_elems :: "parser \<Rightarrow> Value list \<Rightarrow> Value \<Rightarrow> parser \<Rightarrow> bool" where
  "reads_elems p es w q \<longleftrightarrow> (\<exists>t es'. jelems (maxNumberChars p) t es' \<and> w = ArrayValue (es @ es')
     \<and> goes p (t @ [cRBRACK]) (sum_list (map vcount es')) q \<and> room_for_elems p es'
     \<and> int (length (es @ es')) \<le> maxArrayElements p)"

lemma sum_list_le_count: "x \<in> set xs \<Longrightarrow> f x \<le> sum_list (map f xs :: nat list)"
  by (induction xs) auto

lemma depth_members: "foldr max (map mdepth ms) 0 \<le> (n::nat) \<longleftrightarrow> (\<forall>m\<in>set ms. mdepth m \<le> n)"
  by (simp add: foldr_max_le)

lemma room_for_object:
  assumes "room_for_members (mv a 1 1 p) ms" "int (length ms) \<le> max 0 (maxObjectMembers p)" "int (Suc (depth p)) \<le> maxDepth p"
  shows "room_for p (ObjectValue ms)"
proof -
  have "mdepth m = 0 \<or> int (Suc (depth p) + mdepth m) \<le> maxDepth p" if "m \<in> set ms" for m
    using assms(1) that by (auto simp: room_for_members_def list_all_iff)
  then have "mdepth m \<le> nat (maxDepth p - int (Suc (depth p)))" if "m \<in> set ms" for m using that by force
  then have "foldr max (map mdepth ms) 0 \<le> nat (maxDepth p - int (Suc (depth p)))" by (simp add: depth_members)
  with assms show ?thesis by (auto simp: room_for_def room_for_members_def container_def)
qed

lemma room_for_array:
  assumes "room_for_elems (mv a 1 1 p) es" "int (length es) \<le> max 0 (maxArrayElements p)" "int (Suc (depth p)) \<le> maxDepth p"
  shows "room_for p (ArrayValue es)"
proof -
  have "vdepth m = 0 \<or> int (Suc (depth p) + vdepth m) \<le> maxDepth p" if "m \<in> set es" for m
    using assms(1) that by (auto simp: room_for_elems_def list_all_iff)
  then have "vdepth m \<le> nat (maxDepth p - int (Suc (depth p)))" if "m \<in> set es" for m using that by force
  then have "foldr max (map vdepth es) 0 \<le> nat (maxDepth p - int (Suc (depth p)))" by (simp add: foldr_max_le)
  with assms show ?thesis by (auto simp: room_for_def room_for_elems_def container_def)
qed

lemma goes_expect: "expect p b = Inr q \<Longrightarrow> goes p [b] 0 q"
  by (simp add: expect_reads reads_goes)

lemma enter_sound:
  assumes "enter p b p'" "goes p' t n q"
  shows "\<exists>w. ws w \<and> goes p (b # w @ t) (Suc n) (popDepth q) \<and> goes (mv 1 1 1 p) w 0 p'"
proof -
  from assms(1) have b: "at_byte p b" "p' = skipWhitespace (mv 1 1 1 p)" by (auto simp: enter_mv)
  from goes_skip obtain w where w: "ws w" "goes (mv 1 1 1 p) w 0 p'" using b(2) by blast
  from goes_trans [OF w(2) assms(2)] have "goes (mv 1 1 1 p) (w @ t) n q" by simp
  from goes_enter [OF b(1) this] w show ?thesis by auto
qed

lemma leaf_sound:
  assumes "room p" "jvalue (maxNumberChars p) t v" "vdepth v = 0" "vcount v = 1"
    "fits (maxStringBytes p) (max 0 (maxObjectMembers p)) (max 0 (maxArrayElements p)) v" "goes (counted p) t 0 q"
  shows "reads_value p v q"
  using assms by (auto simp: reads_value_def goes_counted room_for_def room_def intro!: exI [of _ t])

text \<open>One member, from the white space before its key to the byte after the white space behind its value.\<close>

lemma member_sound:
  assumes k: "parseString (skipWhitespace p) = Inr (kv, p2)" and c: "expect (skipWhitespace p2) cCOLON = Inr p3"
    and v: "reads_value (skipWhitespace p3) v p4" and b: "at_byte (skipWhitespace p4) b"
  obtains w ks s wk wc t w' where "ws w" "jchars ks s" "ws wk" "ws wc" "jvalue (maxNumberChars p) t v" "ws w'" "kv = StringValue s"
    "goes p (w @ (cQUOTE # ks @ [cQUOTE]) @ wk @ cCOLON # wc @ t @ w' @ [b]) (vcount v) (skip1 (skipWhitespace p4))"
    "int (length s) \<le> maxStringBytes p" "room_for p v"
proof -
  obtain w where w: "ws w" "goes p w 0 (skipWhitespace p)" using goes_skip by blast
  obtain ks s where ks: "jchars ks s" "goes (skipWhitespace p) (cQUOTE # ks @ [cQUOTE]) 0 p2" "kv = StringValue s"
    "int (length s) \<le> maxStringBytes (skipWhitespace p)" using k by (auto simp: parseString_iff reads_goes)
  obtain wk where wk: "ws wk" "goes p2 wk 0 (skipWhitespace p2)" using goes_skip by blast
  have cl: "goes (skipWhitespace p2) [cCOLON] 0 p3" by (rule goes_expect [OF c])
  obtain wc where wc: "ws wc" "goes p3 wc 0 (skipWhitespace p3)" using goes_skip by blast
  obtain t where t: "jvalue (maxNumberChars (skipWhitespace p3)) t v" "goes (skipWhitespace p3) t (vcount v) p4"
    "room_for (skipWhitespace p3) v" using v by (auto simp: reads_value_def)
  obtain w' where w': "ws w'" "goes p4 w' 0 (skipWhitespace p4)" using goes_skip by blast
  note pre = goes_trans [OF w(2) goes_trans [OF ks(2) goes_trans [OF wk(2) goes_trans [OF cl wc(2)]]]]
  note post = goes_trans [OF t(2) goes_trans [OF w'(2) goes_skip1 [OF b]]]
  have env: "maxNumberChars (skipWhitespace p3) = maxNumberChars p" "maxStringBytes (skipWhitespace p) = maxStringBytes p"
    "room_for (skipWhitespace p3) v = room_for p v"
    using goes_env [OF pre] goes_env [OF w(2)] by (simp_all add: room_for_def)
  show thesis
    by (rule that [OF w(1) ks(1) wk(1) wc(1) _ w'(1) ks(3)])
      (use t ks(4) env goes_trans [OF pre post] in simp_all)
qed

lemma elem_sound:
  assumes v: "reads_value (skipWhitespace p) v p4" and b: "at_byte (skipWhitespace p4) b"
  obtains w t w' where "ws w" "jvalue (maxNumberChars p) t v" "ws w'"
    "goes p (w @ t @ w' @ [b]) (vcount v) (skip1 (skipWhitespace p4))" "room_for p v"
proof -
  obtain w where w: "ws w" "goes p w 0 (skipWhitespace p)" using goes_skip by blast
  obtain t where t: "jvalue (maxNumberChars (skipWhitespace p)) t v" "goes (skipWhitespace p) t (vcount v) p4"
    "room_for (skipWhitespace p) v" using v by (auto simp: reads_value_def)
  obtain w' where w': "ws w'" "goes p4 w' 0 (skipWhitespace p4)" using goes_skip by blast
  note all = goes_trans [OF w(2) goes_trans [OF t(2) goes_trans [OF w'(2) goes_skip1 [OF b]]]]
  show thesis
    by (rule that [OF w(1) _ w'(1)]) (use t all goes_env [OF w(2)] in \<open>simp_all add: room_for_def\<close>)
qed

lemma members_sound_last:
  assumes "parseString (skipWhitespace p) = Inr (kv, p2)" "seen (Str kv) = None"
    "expect (skipWhitespace p2) cCOLON = Inr p3" "reads_value (skipWhitespace p3) v p4"
    "int (length ms) < maxObjectMembers p4" "at_byte (skipWhitespace p4) cRBRACE"
  shows "reads_members p ms seen (ObjectValue (ms @ [Member (Str kv) v])) (skip1 (skipWhitespace p4))"
proof -
  from member_sound [OF assms(1,3,4,6)] obtain w ks s wk wc t w' where
    m: "ws w" "jchars ks s" "ws wk" "ws wc" "jvalue (maxNumberChars p) t v" "ws w'" "kv = StringValue s"
    and g: "goes p (w @ (cQUOTE # ks @ [cQUOTE]) @ wk @ cCOLON # wc @ t @ w' @ [cRBRACE]) (vcount v) (skip1 (skipWhitespace p4))"
    and l: "int (length s) \<le> maxStringBytes p" "room_for p v" by metis
  have "maxObjectMembers p4 = maxObjectMembers p" using goes_env [OF g] goes_skip [of p4] goes_env
    by (metis parser_fields_skip1(6) same_env_def same_env_refl)
  moreover have "room_for_members p [Member s v]" using l by (simp add: room_for_def room_for_members_def)
  ultimately show ?thesis
    unfolding reads_members_def
    by (intro exI [of _ "w @ (cQUOTE # ks @ [cQUOTE]) @ wk @ cCOLON # wc @ t @ w'"] exI [of _ "[Member s v]"])
      (use m g assms(2,5) in \<open>auto intro: jm_one [of _ _ _ _ _ _ _ _ _, simplified]\<close>)
qed

lemma members_sound_more:
  assumes "parseString (skipWhitespace p) = Inr (kv, p2)" "seen (Str kv) = None"
    "expect (skipWhitespace p2) cCOLON = Inr p3" "reads_value (skipWhitespace p3) v p4"
    "at_byte (skipWhitespace p4) cCOMMA"
    "reads_members (skip1 (skipWhitespace p4)) (ms @ [Member (Str kv) v]) (seen(Str kv \<mapsto> i)) x q"
  shows "reads_members p ms seen x q"
proof -
  from member_sound [OF assms(1,3,4,5)] obtain w ks s wk wc t w' where
    m: "ws w" "jchars ks s" "ws wk" "ws wc" "jvalue (maxNumberChars p) t v" "ws w'" "kv = StringValue s"
    and g: "goes p (w @ (cQUOTE # ks @ [cQUOTE]) @ wk @ cCOLON # wc @ t @ w' @ [cCOMMA]) (vcount v) (skip1 (skipWhitespace p4))"
    and l: "int (length s) \<le> maxStringBytes p" "room_for p v" by metis
  let ?p = "skip1 (skipWhitespace p4)"
  from assms(6) obtain u ms' where u: "jmembers (maxNumberChars ?p) u ms'" "x = ObjectValue ((ms @ [Member (Str kv) v]) @ ms')"
    "goes ?p (u @ [cRBRACE]) (sum_list (map mcount ms')) q" "room_for_members ?p ms'"
    "\<forall>m\<in>set ms'. (seen(Str kv \<mapsto> i)) (Key m) = None" "distinct (map Key ms')"
    "int (length ((ms @ [Member (Str kv) v]) @ ms')) \<le> maxObjectMembers ?p" unfolding reads_members_def by blast
  note env = goes_env [OF g]
  have keys: "\<forall>m\<in>set ms'. seen (Key m) = None \<and> Key m \<noteq> s" using u(5) m(7) by (auto split: if_splits)
  have "room_for_members p (Member s v # ms')"
    using u(4) l env by (auto simp: room_for_members_def room_for_def)
  moreover have "jmembers (maxNumberChars p) (w @ (cQUOTE # ks @ [cQUOTE]) @ wk @ cCOLON # wc @ t @ w' @ cCOMMA # u) (Member s v # ms')"
    using m u(1) env by (intro jm_more) simp_all
  ultimately show ?thesis
    unfolding reads_members_def
    by (intro exI [of _ "w @ (cQUOTE # ks @ [cQUOTE]) @ wk @ cCOLON # wc @ t @ w' @ cCOMMA # u"] exI [of _ "Member s v # ms'"])
      (use m u assms(2) keys env goes_trans [OF g u(3)] in auto)
qed

lemma elems_sound_last:
  assumes "reads_value (skipWhitespace p) v p4" "int (length es) < maxArrayElements p4"
    "at_byte (skipWhitespace p4) cRBRACK"
  shows "reads_elems p es (ArrayValue (es @ [v])) (skip1 (skipWhitespace p4))"
proof -
  from elem_sound [OF assms(1,3)] obtain w t w' where
    m: "ws w" "jvalue (maxNumberChars p) t v" "ws w'"
    and g: "goes p (w @ t @ w' @ [cRBRACK]) (vcount v) (skip1 (skipWhitespace p4))" and l: "room_for p v" by metis
  have "maxArrayElements p4 = maxArrayElements p" using goes_env [OF g] goes_skip [of p4] goes_env
    by (metis parser_fields_skip1(6) same_env_def same_env_refl)
  moreover have "room_for_elems p [v]" using l by (simp add: room_for_def room_for_elems_def)
  ultimately show ?thesis
    unfolding reads_elems_def
    by (intro exI [of _ "w @ t @ w'"] exI [of _ "[v]"]) (use m g assms(2) in \<open>auto intro: je_one\<close>)
qed

lemma elems_sound_more:
  assumes "reads_value (skipWhitespace p) v p4" "at_byte (skipWhitespace p4) cCOMMA"
    "reads_elems (skip1 (skipWhitespace p4)) (es @ [v]) x q"
  shows "reads_elems p es x q"
proof -
  from elem_sound [OF assms(1,2)] obtain w t w' where
    m: "ws w" "jvalue (maxNumberChars p) t v" "ws w'"
    and g: "goes p (w @ t @ w' @ [cCOMMA]) (vcount v) (skip1 (skipWhitespace p4))" and l: "room_for p v" by metis
  let ?p = "skip1 (skipWhitespace p4)"
  from assms(3) obtain u es' where u: "jelems (maxNumberChars ?p) u es'" "x = ArrayValue ((es @ [v]) @ es')"
    "goes ?p (u @ [cRBRACK]) (sum_list (map vcount es')) q" "room_for_elems ?p es'"
    "int (length ((es @ [v]) @ es')) \<le> maxArrayElements ?p" unfolding reads_elems_def by blast
  note env = goes_env [OF g]
  have "room_for_elems p (v # es')" using u(4) l env by (auto simp: room_for_elems_def room_for_def)
  moreover have "jelems (maxNumberChars p) (w @ t @ w' @ cCOMMA # u) (v # es')"
    using m u(1) env by (intro je_more) simp_all
  ultimately show ?thesis
    unfolding reads_elems_def
    by (intro exI [of _ "w @ t @ w' @ cCOMMA # u"] exI [of _ "v # es'"])
      (use m u env goes_trans [OF g u(3)] in auto)
qed

lemma run_sound:
  "value_run p v q \<Longrightarrow> reads_value p v q"
  "members_run p ms seen w q' \<Longrightarrow> reads_members p ms seen w q'"
  "elems_run p es x q'' \<Longrightarrow> reads_elems p es x q''"
proof (induction rule: value_run_members_run_elems_run.inducts)
  case (run_obj0 p p')
  from enter_sound [OF run_obj0(1) goes_skip1 [OF run_obj0(2)]] obtain w where
    "ws w" "goes p (cLBRACE # w @ [cRBRACE]) 1 (popDepth (skip1 p'))" by auto
  moreover have "room_for p (ObjectValue [])" using run_obj0(1)
    by (intro room_for_object [of 1]) (auto simp: enter_def room_for_members_def)
  ultimately show ?case unfolding reads_value_def by (auto intro!: exI jv_obj0)
next
  case (run_obj p p' v q)
  then obtain t ms where t: "jmembers (maxNumberChars p') t ms" "v = ObjectValue ms"
    "goes p' (t @ [cRBRACE]) (sum_list (map mcount ms)) q" "room_for_members p' ms" "distinct (map Key ms)"
    "int (length ms) \<le> maxObjectMembers p'" by (auto simp: reads_members_def)
  from enter_sound [OF run_obj(1) t(3)] obtain w where w: "ws w" "goes (mv 1 1 1 p) w 0 p'"
    "goes p (cLBRACE # (w @ t) @ [cRBRACE]) (vcount v) (popDepth q)" using t(2) by auto
  note env = goes_env [OF w(2)]
  have "jvalue (maxNumberChars p) (cLBRACE # (w @ t) @ [cRBRACE]) v"
    unfolding t(2) using t(1,5) env w(1) by (intro jv_obj jmembers_ws) simp_all
  moreover have "room_for p v" unfolding t(2)
    using t(4,6) env run_obj(1) by (intro room_for_object [of 1]) (auto simp: enter_def room_for_members_def)
  ultimately show ?case using w(3) unfolding reads_value_def by blast
next
  case (run_arr0 p p')
  from enter_sound [OF run_arr0(1) goes_skip1 [OF run_arr0(2)]] obtain w where
    "ws w" "goes p (cLBRACK # w @ [cRBRACK]) 1 (popDepth (skip1 p'))" by auto
  moreover have "room_for p (ArrayValue [])" using run_arr0(1)
    by (intro room_for_array [of 1]) (auto simp: enter_def room_for_elems_def)
  ultimately show ?case unfolding reads_value_def by (auto intro!: exI jv_arr0)
next
  case (run_arr p p' v q)
  then obtain t es where t: "jelems (maxNumberChars p') t es" "v = ArrayValue es"
    "goes p' (t @ [cRBRACK]) (sum_list (map vcount es)) q" "room_for_elems p' es"
    "int (length es) \<le> maxArrayElements p'" by (auto simp: reads_elems_def)
  from enter_sound [OF run_arr(1) t(3)] obtain w where w: "ws w" "goes (mv 1 1 1 p) w 0 p'"
    "goes p (cLBRACK # (w @ t) @ [cRBRACK]) (vcount v) (popDepth q)" using t(2) by auto
  note env = goes_env [OF w(2)]
  have "jvalue (maxNumberChars p) (cLBRACK # (w @ t) @ [cRBRACK]) v"
    unfolding t(2) using t(1) env w(1) by (intro jv_arr jelems_ws) simp_all
  moreover have "room_for p v" unfolding t(2)
    using t(4,5) env run_arr(1) by (intro room_for_array [of 1]) (auto simp: enter_def room_for_elems_def)
  ultimately show ?case using w(3) unfolding reads_value_def by blast
next
  case (run_str p v q)
  then obtain t s where "jchars t s" "goes (counted p) (cQUOTE # t @ [cQUOTE]) 0 q" "v = StringValue s"
    "int (length s) \<le> maxStringBytes p" by (auto simp: parseString_iff reads_goes counted_def)
  with run_str(1) show ?case by (intro leaf_sound) (auto intro: jv_str simp: container_def)
next
  case (run_bool p v q)
  then obtain b where "b \<in> {ascii ''true'', ascii ''false''}" "v = BoolValue b" "goes (counted p) b 0 q"
    by (auto simp: parseBool_goes)
  with run_bool(1) show ?case by (intro leaf_sound) (auto intro: jv_bool simp: container_def)
next
  case (run_null p v q)
  then show ?case by (intro leaf_sound) (auto intro: jv_null simp: parseNull_goes container_def)
next
  case (run_num p v q)
  then obtain t f where "jnum t f" "goes (counted p) t 0 q" "v = NumberValue f" "int (length t) \<le> maxNumberChars p"
    using parseNumber_sound [of "counted p" v q] by (auto simp: reads_goes counted_def)
  with run_num(1) show ?case by (intro leaf_sound) (auto intro: jv_num simp: container_def)
qed (blast intro: members_sound_last members_sound_more elems_sound_last elems_sound_more)+

section \<open>Every text of the grammar is read\<close>

definition stop :: "bytes \<Rightarrow> bool" where
  "stop u \<longleftrightarrow> u = [] \<or> isWS (hd u) \<or> hd u \<in> {cCOMMA, cRBRACE, cRBRACK}"

lemma stop_number: "stop u \<Longrightarrow> number_stop u"
  by (auto simp: stop_def number_stop_def isWS_def isDigit_def byte_uint)

lemma stop_ws: "ws w \<Longrightarrow> b \<in> {cCOMMA, cRBRACE, cRBRACK} \<Longrightarrow> stop (w @ b # u)"
  by (cases w) (auto simp: stop_def ws_def)

lemma isWS_punct [simp]: "\<not> isWS cCOMMA" "\<not> isWS cRBRACE" "\<not> isWS cRBRACK" "\<not> isWS cQUOTE" "\<not> isWS cCOLON"
    "\<not> isWS cLBRACE" "\<not> isWS cLBRACK"
  by (simp_all add: isWS_def)

lemma json_number_first: "json_number t \<Longrightarrow> \<exists>b w. t = b # w \<and> (b = cMINUS \<or> isDigit b)"
proof -
  assume "json_number t"
  then obtain sg ip fp ep where t: "t = sg @ ip @ fp @ ep" "sign_part sg" "int_part ip" by (auto simp: json_number_def)
  have "\<exists>b w. ip = b # w \<and> isDigit b" using t(3) by (cases ip) (auto simp: int_part_def digits1_def)
  then obtain b w where "ip = b # w" "isDigit b" by blast
  with t show ?thesis by (auto simp: sign_part_def)
qed

lemma digit_or_minus:
  assumes "b = cMINUS \<or> isDigit b"
  shows "\<not> isWS b" "b \<notin> {cLBRACE, cLBRACK, cQUOTE, 0x74, 0x66, 0x6E}" "b \<noteq> cRBRACK"
  using assms by (auto simp: isWS_def isDigit_def byte_uint)

lemma jvalue_first: "jvalue N t v \<Longrightarrow> \<exists>b w. t = b # w \<and> \<not> isWS b \<and> b \<noteq> cRBRACK"
proof (erule jvalue.cases)
  fix t' f assume "t = t'" "jnum t' f"
  with json_number_first [of t'] digit_or_minus show ?thesis by (auto simp: jnum_def)
qed (auto simp: ascii_def isWS_def)

lemma skip_mv:
  assumes "rest p = w @ u" "ws w" "u \<noteq> [] \<longrightarrow> \<not> isWS (hd u)"
  shows "skipWhitespace p = mv (length w) 0 0 p"
  using skip_over [OF assms(1,2)] assms(3) by (auto simp: adv_mv)

lemma peek_rest: "rest p = b # u \<Longrightarrow> peek p = (b, True)"
  by (simp add: peek_ok rest_Cons)

lemma expect_rest: "rest p = b # u \<Longrightarrow> expect p b = Inr (mv 1 0 0 p)"
  by (simp add: expect_reads reads_iff adv_mv)

lemma pos_mv: "p\<lparr>pos := Suc (pos p)\<rparr> = mv 1 0 0 p" "p\<lparr>valueCount := Suc (valueCount p)\<rparr> = mv 0 1 0 p"
  by (simp_all add: mv_def)

text \<open>The dispatch of \<open>parseValue\<close>.\<close>

lemma parseValue_dispatch:
  assumes "rest p = b # u" "room p"
  shows "parseValue p = (let q = mv 0 1 0 p in
     if b = cLBRACE then parseObject q else if b = cLBRACK then parseArray q else if b = cQUOTE then parseString q
     else if b = 0x74 \<or> b = 0x66 then parseBool q else if b = 0x6E then parseNull q else parseNumber q)"
proof -
  have "peek (mv 0 1 0 p) = (b, True)" using assms(1) by (intro peek_rest) simp
  moreover have "\<not> maxValues p < int (Suc (valueCount p))" using assms(2) by (simp add: room_def)
  ultimately show ?thesis
    by (subst parseValue.simps) (simp add: pos_mv Let_def)
qed

lemma room_for_room: "room_for p v \<Longrightarrow> room p"
  by (cases v) (auto simp: room_for_def room_def)

lemma object_enter:
  assumes "rest p = cLBRACE # w @ b # u" "ws w" "\<not> isWS b" "int (Suc (depth p)) \<le> maxDepth p" "room p"
  shows "parseValue p = (let q = mv (1 + length w) 1 1 p in
     if b = cRBRACE then Inr (ObjectValue [], mv (2 + length w) 1 0 p)
     else (case parseMembers q [] (\<lambda>_. None) of Inl e \<Rightarrow> Inl e | Inr (v, q') \<Rightarrow> Inr (v, popDepth q')))"
proof -
  have push: "pushDepth (mv 0 1 0 p) = Inr (mv 0 1 1 p)"
    using assms(4) by (simp add: pushDepth_def mv_def)
  have ex: "expect (mv 0 1 1 p) cLBRACE = Inr (mv 1 1 1 p)"
    using expect_rest [of "mv 0 1 1 p" cLBRACE "w @ b # u"] assms(1) by simp
  have sk: "skipWhitespace (mv 1 1 1 p) = mv (1 + length w) 1 1 p"
    using skip_mv [of "mv 1 1 1 p" w "b # u"] assms(1,2,3) by simp
  have pk: "peek (mv (1 + length w) 1 1 p) = (b, True)"
    by (rule peek_rest [of _ _ u]) (simp add: assms(1))
  have st: "popDepth ((mv (1 + length w) 1 1 p)\<lparr>pos := pos (mv (1 + length w) 1 1 p) + 1\<rparr>) = mv (2 + length w) 1 0 p"
    by (simp add: mv_def popDepth_def)
  show ?thesis
    unfolding parseValue_dispatch [OF assms(1,5)]
    by (subst parseObject.simps) (use push ex sk pk st in \<open>simp add: pos_mv Let_def\<close>)
qed

lemma array_enter:
  assumes "rest p = cLBRACK # w @ b # u" "ws w" "\<not> isWS b" "int (Suc (depth p)) \<le> maxDepth p" "room p"
  shows "parseValue p = (let q = mv (1 + length w) 1 1 p in
     if b = cRBRACK then Inr (ArrayValue [], mv (2 + length w) 1 0 p)
     else (case parseElems q [] of Inl e \<Rightarrow> Inl e | Inr (v, q') \<Rightarrow> Inr (v, popDepth q')))"
proof -
  have push: "pushDepth (mv 0 1 0 p) = Inr (mv 0 1 1 p)"
    using assms(4) by (simp add: pushDepth_def mv_def)
  have ex: "expect (mv 0 1 1 p) cLBRACK = Inr (mv 1 1 1 p)"
    using expect_rest [of "mv 0 1 1 p" cLBRACK "w @ b # u"] assms(1) by simp
  have sk: "skipWhitespace (mv 1 1 1 p) = mv (1 + length w) 1 1 p"
    using skip_mv [of "mv 1 1 1 p" w "b # u"] assms(1,2,3) by simp
  have pk: "peek (mv (1 + length w) 1 1 p) = (b, True)"
    by (rule peek_rest [of _ _ u]) (simp add: assms(1))
  have st: "popDepth ((mv (1 + length w) 1 1 p)\<lparr>pos := pos (mv (1 + length w) 1 1 p) + 1\<rparr>) = mv (2 + length w) 1 0 p"
    by (simp add: mv_def popDepth_def)
  show ?thesis
    unfolding parseValue_dispatch [OF assms(1,5)]
    by (subst parseArray.simps) (use push ex sk pk st in \<open>simp add: pos_mv Let_def\<close>)
qed

text \<open>One turn of each loop: what follows the value decides.\<close>

lemma elems_turn:
  assumes "rest p = w @ t @ w' @ b # u" "ws w" "ws w'" "\<not> isWS b" "jvalue N t v"
    "parseValue (mv (length w) 0 0 p) = Inr (v, mv (length w + length t) n 0 p)"
    "int (length es) < maxArrayElements p"
  shows "parseElems p es = (let l = Suc (length (w @ t @ w')) in
     if b = cRBRACK then Inr (ArrayValue (es @ [v]), mv l n 0 p)
     else if b = cCOMMA then parseElems (mv l n 0 p) (es @ [v])
     else Inl (newErrorf (mv (length (w @ t @ w')) n 0 p) InvalidGrammar
       (Sprintf ''expected ',' or ']' in array, got %q'' [FByte b])))"
proof -
  obtain c t' where t: "t = c # t'" "\<not> isWS c" using jvalue_first [OF assms(5)] by blast
  have sk: "skipWhitespace p = mv (length w) 0 0 p"
    by (rule skip_mv [OF assms(1,2)]) (simp add: t)
  let ?q = "mv (length w + length t) n 0 p"
  have sk': "skipWhitespace ?q = mv (length (w @ t @ w')) n 0 p"
    using skip_mv [of ?q w' "b # u"] assms(1,3,4) by (simp add: add.assoc)
  have pk: "peek (mv (length (w @ t @ w')) n 0 p) = (b, True)"
    by (rule peek_rest [of _ _ u]) (simp add: assms(1))
  have st: "(mv (length (w @ t @ w')) n 0 p)\<lparr>pos := pos (mv (length (w @ t @ w')) n 0 p) + 1\<rparr>
      = mv (Suc (length (w @ t @ w'))) n 0 p"
    by (simp add: mv_def)
  show ?thesis
    by (subst parseElems.simps) (use assms(6,7) sk sk' pk st in \<open>simp add: Let_def\<close>)
qed

lemma members_turn:
  assumes "rest p = w @ (cQUOTE # k @ [cQUOTE]) @ wk @ cCOLON # wc @ t @ w' @ b # u" "ws w" "ws wk" "ws wc" "ws w'"
    "\<not> isWS b" "jchars k s" "int (length s) \<le> maxStringBytes p" "seen s = None" "jvalue N t v"
    "a = length w + length k + length wk + length wc + 3"
    "parseValue (mv a 0 0 p) = Inr (v, mv (a + length t) n 0 p)"
    "int (length ms) < maxObjectMembers p"
  shows "parseMembers p ms seen = (let l = Suc (a + length t + length w') in
     if b = cRBRACE then Inr (ObjectValue (ms @ [Member s v]), mv l n 0 p)
     else if b = cCOMMA then parseMembers (mv l n 0 p) (ms @ [Member s v]) (seen(s \<mapsto> pos p + length w))
     else Inl (newErrorf (mv (a + length t + length w') n 0 p) InvalidGrammar
       (Sprintf ''expected ',' or '}' in object, got %q'' [FByte b])))"
proof -
  obtain c t' where t: "t = c # t'" "\<not> isWS c" using jvalue_first [OF assms(10)] by blast
  have sk: "skipWhitespace p = mv (length w) 0 0 p"
    by (rule skip_mv [OF assms(1,2)]) simp
  let ?p2 = "mv (length w + length k + 2) 0 0 p"
  have "reads (mv (length w) 0 0 p) (cQUOTE # k @ [cQUOTE]) ?p2"
    using assms(1) by (simp add: reads_iff adv_mv)
  then have key: "parseString (mv (length w) 0 0 p) = Inr (StringValue s, ?p2)"
    unfolding parseString_iff using assms(7,8) by auto
  have sk2: "skipWhitespace ?p2 = mv (length w + length k + length wk + 2) 0 0 p"
    using skip_mv [of ?p2 wk "cCOLON # wc @ t @ w' @ b # u"] assms(1,3) by simp
  have ex: "expect (mv (length w + length k + length wk + 2) 0 0 p) cCOLON =
      Inr (mv (length w + length k + length wk + 3) 0 0 p)"
    using expect_rest [of "mv (length w + length k + length wk + 2) 0 0 p" cCOLON "wc @ t @ w' @ b # u"] assms(1)
    by (simp add: eval_nat_numeral)
  have sk3: "skipWhitespace (mv (length w + length k + length wk + 3) 0 0 p) = mv a 0 0 p"
    using skip_mv [of "mv (length w + length k + length wk + 3) 0 0 p" wc "t @ w' @ b # u"] assms(1,4,11) t
    by (simp add: eval_nat_numeral add_ac)
  let ?q = "mv (a + length t) n 0 p" and ?r = "mv (a + length t + length w') n 0 p"
  have r: "rest (mv a 0 0 p) = t @ w' @ b # u" using assms(1,11) by (simp add: eval_nat_numeral)
  have "rest ?q = drop (length t) (rest (mv a 0 0 p))" "rest ?r = drop (length t + length w') (rest (mv a 0 0 p))"
    by (simp_all add: add_ac)
  with r have rq: "rest ?q = w' @ b # u" "rest ?r = b # u" by simp_all
  have sk4: "skipWhitespace ?q = ?r"
    using skip_mv [OF rq(1) assms(5)] assms(6) by simp
  have pk: "peek ?r = (b, True)" by (rule peek_rest [OF rq(2)])
  have st: "?r\<lparr>pos := pos ?r + 1\<rparr> = mv (Suc (a + length t + length w')) n 0 p" by (simp add: mv_def)
  have ps: "pos (mv (length w) 0 0 p) = pos p + length w" by simp
  show ?thesis
    by (subst parseMembers.simps) (use assms(9,12,13) sk key sk2 ex sk3 sk4 pk st ps in \<open>simp add: Let_def del: mv_fields(2)\<close>)
qed

lemma skip_idem: "skipWhitespace (skipWhitespace p) = skipWhitespace p"
  using skip_mv [of "skipWhitespace p" "[]" "rest (skipWhitespace p)"] skip_reads [of p] by auto

lemma parseMembers_skip: "parseMembers (skipWhitespace p) ms seen = parseMembers p ms seen"
  by (simp add: parseMembers.simps [of p] parseMembers.simps [of "skipWhitespace p"] skip_idem)

lemma parseElems_skip: "parseElems (skipWhitespace p) es = parseElems p es"
  by (simp add: parseElems.simps [of p] parseElems.simps [of "skipWhitespace p"] skip_idem)

lemma jmembers_first: "jmembers N t ms \<Longrightarrow> \<exists>w u. t = w @ cQUOTE # u \<and> ws w"
  by (erule jmembers.cases) auto

lemma jelems_first: "jelems N t es \<Longrightarrow> \<exists>w b u. t = w @ b # u \<and> ws w \<and> \<not> isWS b \<and> b \<noteq> cRBRACK"
proof (erule jelems.cases)
  fix w ta v w'
  assume t: "t = w @ ta @ w'" "ws w" "jvalue N ta v"
  from jvalue_first [OF t(3)] obtain b x where "ta = b # x" "\<not> isWS b" "b \<noteq> cRBRACK" by blast
  with t show ?thesis by (intro exI [of _ w] exI [of _ b] exI [of _ "x @ w'"]) simp
next
  fix w ta v w' u vs
  assume t: "t = w @ ta @ w' @ cCOMMA # u" "ws w" "jvalue N ta v"
  from jvalue_first [OF t(3)] obtain b x where "ta = b # x" "\<not> isWS b" "b \<noteq> cRBRACK" by blast
  with t show ?thesis by (intro exI [of _ w] exI [of _ b] exI [of _ "x @ w' @ cCOMMA # u"]) simp
qed

lemma room_for_objectD:
  assumes "room_for p (ObjectValue ms)"
  shows "room_for_members (mv a 1 1 p) ms" "int (length ms) \<le> max 0 (maxObjectMembers p)"
    "int (Suc (depth p)) \<le> maxDepth p" "room p"
proof -
  have d: "int (depth p + Suc (foldr max (map mdepth ms) 0)) \<le> maxDepth p"
    using assms by (auto simp: room_for_def container_def)
  moreover have "mdepth m \<le> foldr max (map mdepth ms) 0" if "m \<in> set ms" for m
    using that depth_members [of ms "foldr max (map mdepth ms) 0"] by simp
  ultimately have "\<forall>m\<in>set ms. int (Suc (depth p) + mdepth m) \<le> maxDepth p" by force
  with assms d show "room_for_members (mv a 1 1 p) ms" "int (length ms) \<le> max 0 (maxObjectMembers p)"
    "int (Suc (depth p)) \<le> maxDepth p" "room p"
    by (auto simp: room_for_def room_for_members_def list_all_iff room_def)
qed

lemma room_for_arrayD:
  assumes "room_for p (ArrayValue es)"
  shows "room_for_elems (mv a 1 1 p) es" "int (length es) \<le> max 0 (maxArrayElements p)"
    "int (Suc (depth p)) \<le> maxDepth p" "room p"
proof -
  have d: "int (depth p + Suc (foldr max (map vdepth es) 0)) \<le> maxDepth p"
    using assms by (auto simp: room_for_def container_def)
  moreover have "vdepth m \<le> foldr max (map vdepth es) 0" if "m \<in> set es" for m
    using that foldr_max_le [of "map vdepth es" 0 "foldr max (map vdepth es) 0"] by simp
  ultimately have "\<forall>m\<in>set es. int (Suc (depth p) + vdepth m) \<le> maxDepth p" by force
  with assms d show "room_for_elems (mv a 1 1 p) es" "int (length es) \<le> max 0 (maxArrayElements p)"
    "int (Suc (depth p)) \<le> maxDepth p" "room p"
    by (auto simp: room_for_def room_for_elems_def list_all_iff room_def)
qed

lemma room_for_elem: "room_for_elems p (v # vs) \<longleftrightarrow> room_for p v \<and> room_for_elems (mv a (vcount v) 0 p) vs"
  if "room_for_elems p (v # vs) \<or> (room_for p v \<and> room_for_elems (mv a (vcount v) 0 p) vs)"
  using that by (auto simp: room_for_elems_def room_for_def)

lemma room_for_member:
  "room_for_members p (Member s v # ms) \<Longrightarrow>
     int (length s) \<le> maxStringBytes p \<and> room_for p v \<and> room_for_members (mv a (vcount v) 0 p) ms"
  by (auto simp: room_for_members_def room_for_def)

definition value_complete :: "int \<Rightarrow> bytes \<Rightarrow> Value \<Rightarrow> bool" where
  "value_complete N t v \<longleftrightarrow> (\<forall>p u. rest p = t @ u \<longrightarrow> stop u \<longrightarrow> room_for p v \<longrightarrow> N \<le> maxNumberChars p \<longrightarrow>
     parseValue p = Inr (v, mv (length t) (vcount v) 0 p))"

definition members_complete :: "int \<Rightarrow> bytes \<Rightarrow> Member list \<Rightarrow> bool" where
  "members_complete N t ms' \<longleftrightarrow> (\<forall>p u ms seen. rest p = t @ cRBRACE # u \<longrightarrow> room_for_members p ms' \<longrightarrow>
     N \<le> maxNumberChars p \<longrightarrow> int (length (ms @ ms')) \<le> maxObjectMembers p \<longrightarrow> (\<forall>m\<in>set ms'. seen (Key m) = None) \<longrightarrow>
     distinct (map Key ms') \<longrightarrow>
     parseMembers p ms seen = Inr (ObjectValue (ms @ ms'), mv (Suc (length t)) (sum_list (map mcount ms')) 0 p))"

definition elems_complete :: "int \<Rightarrow> bytes \<Rightarrow> Value list \<Rightarrow> bool" where
  "elems_complete N t es' \<longleftrightarrow> (\<forall>p u es. rest p = t @ cRBRACK # u \<longrightarrow> room_for_elems p es' \<longrightarrow>
     N \<le> maxNumberChars p \<longrightarrow> int (length (es @ es')) \<le> maxArrayElements p \<longrightarrow>
     parseElems p es = Inr (ArrayValue (es @ es'), mv (Suc (length t)) (sum_list (map vcount es')) 0 p))"

lemma leaf_complete:
  assumes "rest p = t @ u" "room_for p v" "t = b # w"
  shows "rest p = b # w @ u" "room p" "goes (mv 0 1 0 p) t 0 (mv (length t) 1 0 p)"
  using assms room_for_room by (auto simp: goes_def)

lemma array_complete:
  assumes t: "jelems N t es" and IH: "elems_complete N t es"
  shows "value_complete N (cLBRACK # t @ [cRBRACK]) (ArrayValue es)"
  unfolding value_complete_def
proof (intro allI impI)
  fix p u
  assume r: "rest p = (cLBRACK # t @ [cRBRACK]) @ u" and room: "room_for p (ArrayValue es)" and N: "N \<le> maxNumberChars p"
  obtain w b t' where w: "t = w @ b # t'" "ws w" "\<not> isWS b" "b \<noteq> cRBRACK" using jelems_first [OF t] by blast
  have "es \<noteq> []" using t by (auto elim: jelems.cases)
  note rm = room_for_arrayD [OF room]
  have sk: "skipWhitespace (mv 1 1 1 p) = mv (1 + length w) 1 1 p"
    using skip_mv [of "mv 1 1 1 p" w "b # t' @ cRBRACK # u"] r w by simp
  have "parseElems (mv 1 1 1 p) [] = Inr (ArrayValue ([] @ es), mv (Suc (length t)) (sum_list (map vcount es)) 0 (mv 1 1 1 p))"
    using IH [unfolded elems_complete_def, rule_format, of "mv 1 1 1 p" u "[]"] r N rm(2) rm(1) [of 1] \<open>es \<noteq> []\<close>
    by (cases es) simp_all
  moreover have "parseElems (mv (1 + length w) 1 1 p) [] = parseElems (mv 1 1 1 p) []"
    using parseElems_skip [of "mv 1 1 1 p" "[]"] unfolding sk .
  ultimately have "parseElems (mv (1 + length w) 1 1 p) [] =
      Inr (ArrayValue es, mv (Suc (length t)) (sum_list (map vcount es)) 0 (mv 1 1 1 p))"
    by simp
  then show "parseValue p = Inr (ArrayValue es, mv (length (cLBRACK # t @ [cRBRACK])) (vcount (ArrayValue es)) 0 p)"
    using array_enter [of p w b "t' @ cRBRACK # u"] r w rm(3,4) by simp
qed

lemma object_complete:
  assumes t: "jmembers N t ms" and dis: "distinct (map Key ms)" and IH: "members_complete N t ms"
  shows "value_complete N (cLBRACE # t @ [cRBRACE]) (ObjectValue ms)"
  unfolding value_complete_def
proof (intro allI impI)
  fix p u
  assume r: "rest p = (cLBRACE # t @ [cRBRACE]) @ u" and room: "room_for p (ObjectValue ms)" and N: "N \<le> maxNumberChars p"
  obtain w t' where w: "t = w @ cQUOTE # t'" "ws w" using jmembers_first [OF t] by blast
  have "ms \<noteq> []" using t by (auto elim: jmembers.cases)
  note rm = room_for_objectD [OF room]
  have sk: "skipWhitespace (mv 1 1 1 p) = mv (1 + length w) 1 1 p"
    using skip_mv [of "mv 1 1 1 p" w "cQUOTE # t' @ cRBRACE # u"] r w by simp
  have "parseMembers (mv 1 1 1 p) [] (\<lambda>_. None) =
      Inr (ObjectValue ([] @ ms), mv (Suc (length t)) (sum_list (map mcount ms)) 0 (mv 1 1 1 p))"
    using IH [unfolded members_complete_def, rule_format, of "mv 1 1 1 p" u "[]" "\<lambda>_. None"] r N rm(2) rm(1) [of 1]
      \<open>ms \<noteq> []\<close> dis
    by (cases ms) simp_all
  moreover have "parseMembers (mv (1 + length w) 1 1 p) [] (\<lambda>_. None) = parseMembers (mv 1 1 1 p) [] (\<lambda>_. None)"
    using parseMembers_skip [of "mv 1 1 1 p" "[]" "\<lambda>_. None"] unfolding sk .
  ultimately have "parseMembers (mv (1 + length w) 1 1 p) [] (\<lambda>_. None) =
      Inr (ObjectValue ms, mv (Suc (length t)) (sum_list (map mcount ms)) 0 (mv 1 1 1 p))"
    by simp
  then show "parseValue p = Inr (ObjectValue ms, mv (length (cLBRACE # t @ [cRBRACE])) (vcount (ObjectValue ms)) 0 p)"
    using object_enter [of p w cQUOTE "t' @ cRBRACE # u"] r w rm(3,4) by simp
qed

lemma elems_complete_one:
  assumes "ws w" "jvalue N t v" "value_complete N t v" "ws w'"
  shows "elems_complete N (w @ t @ w') [v]"
  unfolding elems_complete_def
proof (intro allI impI)
  fix p u es
  assume r: "rest p = (w @ t @ w') @ cRBRACK # u" and room: "room_for_elems p [v]" and N: "N \<le> maxNumberChars p"
    and l: "int (length (es @ [v])) \<le> maxArrayElements p"
  have rv: "room_for (mv (length w) 0 0 p) v" using room by (simp add: room_for_elems_def room_for_def)
  have st: "stop (w' @ cRBRACK # u)" using stop_ws [OF assms(4)] by simp
  have "parseValue (mv (length w) 0 0 p) = Inr (v, mv (length w + length t) (vcount v) 0 p)"
    using assms(3) [unfolded value_complete_def, rule_format, OF _ st rv] r N by simp
  from elems_turn [OF _ assms(1,4) _ assms(2) this, of cRBRACK u es] r l
  show "parseElems p es = Inr (ArrayValue (es @ [v]), mv (Suc (length (w @ t @ w'))) (sum_list (map vcount [v])) 0 p)"
    by (simp add: Let_def)
qed

lemma elems_complete_more:
  assumes "ws w" "jvalue N t v" "value_complete N t v" "ws w'" "elems_complete N x vs"
  shows "elems_complete N (w @ t @ w' @ cCOMMA # x) (v # vs)"
  unfolding elems_complete_def
proof (intro allI impI)
  fix p u es
  assume r: "rest p = (w @ t @ w' @ cCOMMA # x) @ cRBRACK # u" and room: "room_for_elems p (v # vs)"
    and N: "N \<le> maxNumberChars p" and l: "int (length (es @ v # vs)) \<le> maxArrayElements p"
  have rv: "room_for (mv (length w) 0 0 p) v" using room by (simp add: room_for_elems_def room_for_def)
  have st: "stop (w' @ cCOMMA # x @ cRBRACK # u)" using stop_ws [OF assms(4)] by simp
  have v: "parseValue (mv (length w) 0 0 p) = Inr (v, mv (length w + length t) (vcount v) 0 p)"
    using assms(3) [unfolded value_complete_def, rule_format, OF _ st rv] r N by simp
  let ?p = "mv (Suc (length (w @ t @ w'))) (vcount v) 0 p"
  have "room_for_elems ?p vs" using room by (auto simp: room_for_elems_def)
  then have "parseElems ?p (es @ [v]) = Inr (ArrayValue ((es @ [v]) @ vs), mv (Suc (length x)) (sum_list (map vcount vs)) 0 ?p)"
    using assms(5) [unfolded elems_complete_def, rule_format, of ?p u "es @ [v]"] r N l by simp
  moreover have "parseElems p es = parseElems ?p (es @ [v])"
    using elems_turn [OF _ assms(1,4) _ assms(2) v, of cCOMMA "x @ cRBRACK # u" es] r l by (simp add: Let_def)
  ultimately show "parseElems p es = Inr (ArrayValue (es @ v # vs),
      mv (Suc (length (w @ t @ w' @ cCOMMA # x))) (sum_list (map vcount (v # vs))) 0 p)"
    by (simp add: add_ac)
qed

lemma members_complete_one:
  assumes "ws w" "jchars k s" "ws wk" "ws wc" "jvalue N t v" "value_complete N t v" "ws w'"
  shows "members_complete N (w @ (cQUOTE # k @ [cQUOTE]) @ wk @ cCOLON # wc @ t @ w') [Member s v]"
  unfolding members_complete_def
proof (intro allI impI)
  fix p u ms and seen :: "bytes \<rightharpoonup> nat"
  let ?k = "cQUOTE # k @ [cQUOTE]" and ?a = "length w + length k + length wk + length wc + 3"
  assume r: "rest p = (w @ ?k @ wk @ cCOLON # wc @ t @ w') @ cRBRACE # u" and room: "room_for_members p [Member s v]"
    and N: "N \<le> maxNumberChars p" and l: "int (length (ms @ [Member s v])) \<le> maxObjectMembers p"
    and seen: "\<forall>m\<in>set [Member s v]. seen (Key m) = None"
  have rv: "room_for (mv ?a 0 0 p) v" "int (length s) \<le> maxStringBytes p"
    using room by (simp_all add: room_for_members_def room_for_def)
  have st: "stop (w' @ cRBRACE # u)" using stop_ws [OF assms(7)] by simp
  have "rest (mv ?a 0 0 p) = t @ w' @ cRBRACE # u" using r by (simp add: eval_nat_numeral)
  then have "parseValue (mv ?a 0 0 p) = Inr (v, mv (?a + length t) (vcount v) 0 p)"
    using assms(6) [unfolded value_complete_def, rule_format, OF _ st rv(1)] N by simp
  from members_turn [OF _ assms(1,3,4,7) _ assms(2) rv(2) _ assms(5) refl this, of cRBRACE u seen ms] r l seen
  have "parseMembers p ms seen = Inr (ObjectValue (ms @ [Member s v]), mv (Suc (?a + length t + length w')) (vcount v) 0 p)"
    by (simp add: Let_def)
  moreover have "Suc (?a + length t + length w') = Suc (length (w @ ?k @ wk @ cCOLON # wc @ t @ w'))" by simp
  ultimately show "parseMembers p ms seen = Inr (ObjectValue (ms @ [Member s v]),
      mv (Suc (length (w @ ?k @ wk @ cCOLON # wc @ t @ w'))) (sum_list (map mcount [Member s v])) 0 p)"
    by simp
qed

lemma members_complete_more:
  assumes "ws w" "jchars k s" "ws wk" "ws wc" "jvalue N t v" "value_complete N t v" "ws w'" "members_complete N x vs"
  shows "members_complete N (w @ (cQUOTE # k @ [cQUOTE]) @ wk @ cCOLON # wc @ t @ w' @ cCOMMA # x) (Member s v # vs)"
  unfolding members_complete_def
proof (intro allI impI)
  fix p u ms and seen :: "bytes \<rightharpoonup> nat"
  let ?k = "cQUOTE # k @ [cQUOTE]" and ?a = "length w + length k + length wk + length wc + 3"
  assume r: "rest p = (w @ ?k @ wk @ cCOLON # wc @ t @ w' @ cCOMMA # x) @ cRBRACE # u"
    and room: "room_for_members p (Member s v # vs)"
    and N: "N \<le> maxNumberChars p" and l: "int (length (ms @ Member s v # vs)) \<le> maxObjectMembers p"
    and seen: "\<forall>m\<in>set (Member s v # vs). seen (Key m) = None" and dis: "distinct (map Key (Member s v # vs))"
  have rv: "room_for (mv ?a 0 0 p) v" "int (length s) \<le> maxStringBytes p"
    using room by (simp_all add: room_for_members_def room_for_def)
  have st: "stop (w' @ cCOMMA # x @ cRBRACE # u)" using stop_ws [OF assms(7)] by simp
  have "rest (mv ?a 0 0 p) = t @ w' @ cCOMMA # x @ cRBRACE # u" using r by (simp add: eval_nat_numeral)
  then have v: "parseValue (mv ?a 0 0 p) = Inr (v, mv (?a + length t) (vcount v) 0 p)"
    using assms(6) [unfolded value_complete_def, rule_format, OF _ st rv(1)] N by simp
  let ?p = "mv (Suc (?a + length t + length w')) (vcount v) 0 p" and ?seen = "seen(s \<mapsto> pos p + length w)"
  have "room_for_members ?p vs" using room by (auto simp: room_for_members_def)
  moreover have "rest ?p = x @ cRBRACE # u" using r by (simp add: eval_nat_numeral)
  moreover have "\<forall>m\<in>set vs. ?seen (Key m) = None" using seen dis by (force simp: image_iff)
  ultimately have "parseMembers ?p (ms @ [Member s v]) ?seen =
      Inr (ObjectValue ((ms @ [Member s v]) @ vs), mv (Suc (length x)) (sum_list (map mcount vs)) 0 ?p)"
    using assms(8) [unfolded members_complete_def, rule_format, of ?p u "ms @ [Member s v]" ?seen] N l dis by simp
  moreover have "parseMembers p ms seen = parseMembers ?p (ms @ [Member s v]) ?seen"
    using members_turn [OF _ assms(1,3,4,7) _ assms(2) rv(2) _ assms(5) refl v, of cCOMMA "x @ cRBRACE # u" seen ms] r l seen
    by (simp add: Let_def)
  moreover have "Suc (length x) + Suc (?a + length t + length w') = Suc (length (w @ ?k @ wk @ cCOLON # wc @ t @ w' @ cCOMMA # x))"
    by simp
  ultimately show "parseMembers p ms seen = Inr (ObjectValue (ms @ Member s v # vs),
      mv (Suc (length (w @ ?k @ wk @ cCOLON # wc @ t @ w' @ cCOMMA # x))) (sum_list (map mcount (Member s v # vs))) 0 p)"
    by (simp add: add_ac)
qed

lemma value_complete_intro:
  assumes "\<And>p u. rest p = t @ u \<Longrightarrow> stop u \<Longrightarrow> room_for p v \<Longrightarrow> room p \<Longrightarrow> N \<le> maxNumberChars p \<Longrightarrow>
    parseValue p = Inr (v, mv (length t) (vcount v) 0 p)"
  shows "value_complete N t v"
  using assms room_for_room by (auto simp: value_complete_def)

lemma null_complete: "value_complete N (ascii ''null'') NullValue"
proof (rule value_complete_intro)
  fix p u assume r: "rest p = ascii ''null'' @ u" "room p"
  then have "parseNull (mv 0 1 0 p) = Inr (NullValue, mv 4 1 0 p)"
    by (simp add: parseNull_goes goes_def)
  with r parseValue_dispatch [of p "0x6E" "tl (ascii ''null'') @ u"]
  show "parseValue p = Inr (NullValue, mv (length (ascii ''null'')) (vcount NullValue) 0 p)"
    by (simp add: ascii_def)
qed

lemma bool_complete: "b \<in> {ascii ''true'', ascii ''false''} \<Longrightarrow> value_complete N b (BoolValue b)"
proof (rule value_complete_intro)
  fix p u assume b: "b \<in> {ascii ''true'', ascii ''false''}" and r: "rest p = b @ u" "room p"
  then have "parseBool (mv 0 1 0 p) = Inr (BoolValue b, mv (length b) 1 0 p)"
    by (auto simp: parseBool_goes goes_def)
  moreover obtain c b' where c: "b = c # b'" "c = 0x74 \<or> c = 0x66" using b by (auto simp: ascii_def)
  ultimately show "parseValue p = Inr (BoolValue b, mv (length b) (vcount (BoolValue b)) 0 p)"
    using r parseValue_dispatch [of p c "b' @ u"] by auto
qed

lemma number_complete:
  assumes "jnum t f" "int (length t) \<le> N"
  shows "value_complete N t (NumberValue f)"
proof (rule value_complete_intro)
  fix p u assume r: "rest p = t @ u" "stop u" "room p" "N \<le> maxNumberChars p"
  have "parseNumber (mv 0 1 0 p) = Inr (NumberValue f, adv (length t) (mv 0 1 0 p))"
    using r assms by (intro parseNumber_complete [OF assms(1), of _ u] stop_number) simp_all
  moreover obtain b w where b: "t = b # w" "b = cMINUS \<or> isDigit b"
    using json_number_first assms(1) unfolding jnum_def by blast
  ultimately show "parseValue p = Inr (NumberValue f, mv (length t) (vcount (NumberValue f)) 0 p)"
    using r parseValue_dispatch [of p b "w @ u"] digit_or_minus(2) [OF b(2)] by (simp add: adv_mv)
qed

lemma string_complete: "jchars t s \<Longrightarrow> value_complete N (cQUOTE # t @ [cQUOTE]) (StringValue s)"
proof (rule value_complete_intro)
  fix p u assume t: "jchars t s" and r: "rest p = (cQUOTE # t @ [cQUOTE]) @ u" "room_for p (StringValue s)" "room p"
  then have "parseString (mv 0 1 0 p) = Inr (StringValue s, mv (length (cQUOTE # t @ [cQUOTE])) 1 0 p)"
    by (auto simp: parseString_iff reads_iff adv_mv room_for_def)
  then show "parseValue p = Inr (StringValue s, mv (length (cQUOTE # t @ [cQUOTE])) (vcount (StringValue s)) 0 p)"
    using r(1) parseValue_dispatch [OF _ r(3), of cQUOTE "t @ cQUOTE # u"] by simp
qed

lemma array0_complete: "ws w \<Longrightarrow> value_complete N (cLBRACK # w @ [cRBRACK]) (ArrayValue [])"
proof (rule value_complete_intro)
  fix p u assume w: "ws w" and r: "rest p = (cLBRACK # w @ [cRBRACK]) @ u" "room_for p (ArrayValue [])" "room p"
  then have "int (Suc (depth p)) \<le> maxDepth p" by (auto simp: room_for_def container_def)
  then show "parseValue p = Inr (ArrayValue [], mv (length (cLBRACK # w @ [cRBRACK])) (vcount (ArrayValue [])) 0 p)"
    using array_enter [of p w cRBRACK u] w r by simp
qed

lemma object0_complete: "ws w \<Longrightarrow> value_complete N (cLBRACE # w @ [cRBRACE]) (ObjectValue [])"
proof (rule value_complete_intro)
  fix p u assume w: "ws w" and r: "rest p = (cLBRACE # w @ [cRBRACE]) @ u" "room_for p (ObjectValue [])" "room p"
  then have "int (Suc (depth p)) \<le> maxDepth p" by (auto simp: room_for_def container_def)
  then show "parseValue p = Inr (ObjectValue [], mv (length (cLBRACE # w @ [cRBRACE])) (vcount (ObjectValue [])) 0 p)"
    using object_enter [of p w cRBRACE u] w r by simp
qed

lemma grammar_complete:
  "jvalue N t v \<Longrightarrow> value_complete N t v"
  "jmembers N tm ms \<Longrightarrow> members_complete N tm ms"
  "jelems N te es \<Longrightarrow> elems_complete N te es"
proof (induction rule: jvalue_jmembers_jelems.inducts)
  case jv_null
  show ?case by (rule null_complete)
next
  case (jv_bool b)
  then show ?case by (rule bool_complete)
next
  case (jv_num t f)
  then show ?case by (rule number_complete)
next
  case (jv_str t s)
  then show ?case by (rule string_complete)
next
  case (jv_arr0 w)
  then show ?case by (rule array0_complete)
next
  case (jv_obj0 w)
  then show ?case by (rule object0_complete)
next
  case (jv_arr t es)
  then show ?case by (rule array_complete)
next
  case (jv_obj t ms)
  from object_complete [OF jv_obj(1,3,2)] show ?case .
next
  case (je_one w t v w')
  then show ?case by (intro elems_complete_one)
next
  case (je_more w t v w' u vs)
  then show ?case by (intro elems_complete_more)
next
  case (jm_one w k s wk wc t v w')
  then show ?case by (intro members_complete_one)
next
  case (jm_more w k s wk wc t v w' u ms)
  then show ?case by (intro members_complete_more)
qed

end
