(* ===== verification/Token_Spec.thy ===== *)
theory Token_Spec
  imports Token_Values
begin

text \<open>
  What package jcstoken promises of \<open>ParseWithOptions\<close>: it is the grammar, read within the limits.
\<close>

text \<open>The texts of the grammar are valid UTF-8.\<close>

lemma utf8_ascii: "list_all (\<lambda>b. b < 0x80) t \<Longrightarrow> utf8_Valid (t @ u) = utf8_Valid u"
  by (induction t) auto

lemma utf8_ascii_only: "list_all (\<lambda>b. b < 0x80) t \<Longrightarrow> utf8_Valid t"
  using utf8_ascii [of t "[]"] by simp

lemma isWS_ascii: "isWS b \<Longrightarrow> b < 0x80"
  by (auto simp: isWS_def)

lemma isDigit_ascii: "isDigit b \<Longrightarrow> b < 0x80"
  by (auto simp: isDigit_def byte_uint)

lemma ws_ascii: "ws w \<Longrightarrow> list_all (\<lambda>b. b < 0x80) w"
  by (auto simp: ws_def list_all_iff isWS_ascii)

lemma json_number_ascii: "json_number t \<Longrightarrow> list_all (\<lambda>b. b < 0x80) t"
  by (auto simp: json_number_def sign_part_def int_part_def frac_part_def exp_part_def digits1_def list_all_iff
      isDigit_ascii)

lemma hex_digit_ascii: "hex_digit b = Some d \<Longrightarrow> b < 0x80"
  by (auto simp: hex_digit_def byte_less_iff split: if_splits)

lemma hex4_ascii: "hex4 h = Some r \<Longrightarrow> list_all (\<lambda>b. b < 0x80) h"
  by (auto simp: hex4_def hex_digit_ascii split: list.splits option.splits)

lemma jescape_ascii: "jescape e r \<Longrightarrow> list_all (\<lambda>b. b < 0x80) e"
proof (induction rule: jescape.induct)
  case (esc_simple c r)
  then show ?case by (auto simp: simple_escapes_def split: if_splits)
qed (auto dest: hex4_ascii)

lemma jchars_utf8: "jchars t s \<Longrightarrow> utf8_Valid (t @ u) = utf8_Valid u"
proof (induction rule: jchars.induct)
  case (jc_plain r t s)
  then show ?case by (simp add: char_ok_def codec)
next
  case (jc_esc e r t s)
  then show ?case using utf8_ascii [OF jescape_ascii [OF jc_esc(1)]] by simp
qed simp

lemma literal_ascii: "list_all (\<lambda>b. b < 0x80) (ascii ''null'')" "list_all (\<lambda>b. b < 0x80) (ascii ''true'')"
  "list_all (\<lambda>b. b < 0x80) (ascii ''false'')"
  by (simp_all add: ascii_def)

lemma ws_utf8: "ws w \<Longrightarrow> utf8_Valid (w @ u) = utf8_Valid u"
  by (simp add: ws_ascii utf8_ascii)

lemma jvalue_utf8:
  "jvalue N t v \<Longrightarrow> \<forall>u. utf8_Valid (t @ u) = utf8_Valid u"
  "jmembers N tm ms \<Longrightarrow> \<forall>u. utf8_Valid (tm @ u) = utf8_Valid u"
  "jelems N te es \<Longrightarrow> \<forall>u. utf8_Valid (te @ u) = utf8_Valid u"
proof (induction rule: jvalue_jmembers_jelems.inducts)
  case (jv_num t f)
  then have "list_all (\<lambda>b. b < 0x80) t" by (auto simp: jnum_def json_number_ascii)
  then show ?case by (simp add: utf8_ascii)
next
  case (jv_bool b)
  then show ?case by (auto simp: utf8_ascii literal_ascii)
qed (simp_all add: utf8_ascii literal_ascii ws_utf8 jchars_utf8)

lemma jtext_utf8: "jtext N d v \<Longrightarrow> utf8_Valid d"
  unfolding jtext_def using jvalue_utf8(1) ws_utf8 [of _ "[]"] ws_utf8 by (metis append_Nil2 utf8_Valid_Nil)

text \<open>What the options allow of a value.\<close>

definition allowed :: "Options option \<Rightarrow> Value \<Rightarrow> bool" where
  "allowed opts v \<longleftrightarrow> int (vcount v) \<le> opt_maxValues opts \<and> int (vdepth v) \<le> opt_maxDepth opts
     \<and> fits (opt_maxStringBytes opts) (opt_maxObjectMembers opts) (opt_maxArrayElements opts) v"

lemma new_parser_fields [simp]:
  "data (new_parser d opts) = d" "pos (new_parser d opts) = 0" "depth (new_parser d opts) = 0"
  "valueCount (new_parser d opts) = 0" "maxNumberChars (new_parser d opts) = opt_maxNumberChars opts"
  "rest (new_parser d opts) = d"
  by (simp_all add: new_parser_def rest_def)

lemma room_for_new: "room_for (mv a 0 0 (new_parser d opts)) v \<longleftrightarrow> allowed opts v"
  using opt_pos [of opts] by (auto simp: room_for_def allowed_def new_parser_def mv_def max_def)

lemma parse_document:
  "(case parseValue (skipWhitespace (new_parser d opts)) of Inl e \<Rightarrow> Inl e | Inr (v, p0) \<Rightarrow>
      (let p = skipWhitespace p0 in
       if pos p \<noteq> length (data p) then Inl (newError p (Msg ''trailing content after JSON value'')) else Inr v)) = Inr v
    \<longleftrightarrow> jtext (opt_maxNumberChars opts) d v \<and> allowed opts v" (is "?L \<longleftrightarrow> ?R")
proof
  let ?p = "new_parser d opts"
  assume ?L
  then obtain p0 where v: "parseValue (skipWhitespace ?p) = Inr (v, p0)"
    and e: "pos (skipWhitespace p0) = length (data (skipWhitespace p0))"
    by (auto simp: Let_def split: sum.splits if_splits)
  obtain w where w: "ws w" "goes ?p w 0 (skipWhitespace ?p)" using goes_skip by blast
  from run_sound(1) [OF parseValue_run [OF v]] obtain t where t: "jvalue (maxNumberChars (skipWhitespace ?p)) t v"
    "goes (skipWhitespace ?p) t (vcount v) p0" "room_for (skipWhitespace ?p) v" by (auto simp: reads_value_def)
  obtain w' where w': "ws w'" "goes p0 w' 0 (skipWhitespace p0)" using goes_skip by blast
  note all = goes_trans [OF w(2) goes_trans [OF t(2) w'(2)]]
  have "d = w @ t @ w'"
    using all e by (auto simp: goes_def)
  moreover have "room_for (skipWhitespace ?p) v \<longleftrightarrow> allowed opts v" using w(2) by (auto simp: goes_def room_for_new)
  ultimately show ?R
    using w(1) w'(1) t goes_env [OF w(2)] unfolding jtext_def by auto
next
  let ?p = "new_parser d opts"
  assume R: ?R
  then obtain w t w' where d: "d = w @ t @ w'" "ws w" "jvalue (opt_maxNumberChars opts) t v" "ws w'"
    by (auto simp: jtext_def)
  obtain b u where b: "t = b # u" "\<not> isWS b" using jvalue_first [OF d(3)] by blast
  have sk: "skipWhitespace ?p = mv (length w) 0 0 ?p"
    using skip_mv [of ?p w "t @ w'"] d(1,2) b by simp
  have st: "stop w'" using d(4) by (cases w') (auto simp: stop_def ws_def)
  have "parseValue (mv (length w) 0 0 ?p) = Inr (v, mv (length t) (vcount v) 0 (mv (length w) 0 0 ?p))"
    by (rule grammar_complete(1) [OF d(3), unfolded value_complete_def, rule_format, OF _ st])
      (use d(1) R in \<open>simp_all add: room_for_new\<close>)
  moreover have "skipWhitespace (mv (length w + length t) (vcount v) 0 ?p) = mv (length d) (vcount v) 0 ?p"
    using skip_mv [of "mv (length w + length t) (vcount v) 0 ?p" w' "[]"] d(1,4) by (simp add: add.assoc)
  ultimately show ?L by (simp add: sk)
qed

lemma parse_spec:
  "ParseWithOptions d opts = Inr v \<longleftrightarrow>
     int (length d) \<le> opt_maxInputSize opts \<and> jtext (opt_maxNumberChars opts) d v \<and> allowed opts v"
proof (cases "int (length d) \<le> opt_maxInputSize opts \<and> utf8_Valid d")
  case True
  then have "ParseWithOptions d opts = Inr v \<longleftrightarrow> jtext (opt_maxNumberChars opts) d v \<and> allowed opts v"
    using parse_document [of d opts v] by (simp add: ParseWithOptions_def)
  with True show ?thesis by simp
next
  case False
  with jtext_utf8 [of "opt_maxNumberChars opts" d v] show ?thesis by (auto simp: ParseWithOptions_def Let_def)
qed

text \<open>
  C1: the parser is the grammar. A byte string is accepted with a value exactly when it is short enough, is a
  JSON text denoting that value (RFC 8259 with the I-JSON restrictions on strings, numbers and keys), and
  the value keeps to the limits on depth, values, members, elements, string and number lengths.
\<close>

theorem ParseWithOptions_correct:
  "ParseWithOptions d opts = Inr v \<longleftrightarrow>
     int (length d) \<le> opt_maxInputSize opts \<and> jtext (opt_maxNumberChars opts) d v \<and> allowed opts v"
  by (rule parse_spec)

end
