(* ===== verification/Jcs_Validate.thy ===== *)
theory Jcs_Validate
  imports Jcs_Serialize Token_Spec
begin

text \<open>
  Validation of a value tree (\<open>validateValueTree\<close>): which trees pass, and that the trees the parser returns
  do. The walk follows the kind of a value: a field that belongs to another kind is not visited.
\<close>

section \<open>Measures of a tree\<close>

fun tcount :: "Value \<Rightarrow> nat" and tmcount :: "Member \<Rightarrow> nat" where
  "tcount (Value k s n ms es) =
     Suc (if k = KindObject then sum_list (map tmcount ms) else if k = KindArray then sum_list (map tcount es) else 0)"
| "tmcount (Member k v) = tcount v"

text \<open>The height of a leaf is 0, and so is that of an empty container.\<close>

fun theight :: "Value \<Rightarrow> nat" and tmheight :: "Member \<Rightarrow> nat" where
  "theight (Value k s n ms es) =
     (if k = KindObject then foldr max (map (\<lambda>m. Suc (tmheight m)) ms) 0
      else if k = KindArray then foldr max (map (\<lambda>v. Suc (theight v)) es) 0 else 0)"
| "tmheight (Member k v) = theight v"

text \<open>What every value of an acceptable tree is, with limits on strings, members and elements.\<close>

definition number_finite :: "float64 \<Rightarrow> bool" where
  "number_finite f \<longleftrightarrow> \<not> IsNaN f \<and> \<not> IsInf f"

definition string_fits :: "int \<Rightarrow> bytes \<Rightarrow> bool" where
  "string_fits S s \<longleftrightarrow> string_ok s \<and> int (length s) \<le> S"

fun tree_ok :: "serializeLimits \<Rightarrow> Value \<Rightarrow> bool" and member_ok :: "serializeLimits \<Rightarrow> Member \<Rightarrow> bool" where
  "tree_ok L (Value k s n ms es) = (case k of
     KindNull \<Rightarrow> True
   | KindBool \<Rightarrow> s = ascii ''true'' \<or> s = ascii ''false''
   | KindNumber \<Rightarrow> number_finite n
   | KindString \<Rightarrow> string_fits (lim_maxStringBytes L) s
   | KindArray \<Rightarrow> int (length es) \<le> lim_maxArrayElements L \<and> list_all (tree_ok L) es
   | KindObject \<Rightarrow> int (length ms) \<le> lim_maxObjectMembers L \<and> distinct (map Key ms) \<and> list_all (member_ok L) ms
   | KindUnknown i \<Rightarrow> False)"
| "member_ok L (Member k v) = (string_fits (lim_maxStringBytes L) k \<and> tree_ok L v)"

section \<open>Strings\<close>

lemma validateRunes_None: "list_all scalar cs \<Longrightarrow> validateRunes cs = None \<longleftrightarrow> list_all (\<lambda>r. \<not> noncharacter r) cs"
  by (induction cs) (auto simp: IsNoncharacter_iff scalar_def is_surrogate_def)

lemma validateString_None: "validateString s S = None \<longleftrightarrow> string_fits S s"
  using utf8_Valid_runes [of s]
  by (auto simp: validateString_def string_fits_def string_ok_def validateRunes_None)

section \<open>Trees\<close>

lemma tcount_pos: "0 < tcount v"
  by (cases v) simp

lemma height_list:
  "dep + int (foldr max (map (\<lambda>x. Suc (f x)) xs) 0) \<le> b \<longleftrightarrow> dep \<le> b \<and> (\<forall>x\<in>set xs. 1 + (dep + int (f x)) \<le> b)"
  by (induction xs) (auto simp: of_nat_max)

lemma validate_iff:
  "validateValueTree v dep st L = Inr st' \<longleftrightarrow> st' = st + tcount v \<and> int st' \<le> lim_maxValues L
     \<and> dep + int (theight v) \<le> lim_maxDepth L \<and> tree_ok L v"
  "validateElems vs dep st L = Inr st' \<longleftrightarrow> st' = st + sum_list (map tcount vs) \<and> (vs = [] \<or> int st' \<le> lim_maxValues L)
     \<and> (\<forall>v\<in>set vs. dep + int (theight v) \<le> lim_maxDepth L) \<and> list_all (tree_ok L) vs"
  "validateMembers ms seen dep st L = Inr st' \<longleftrightarrow> st' = st + sum_list (map tmcount ms)
     \<and> (ms = [] \<or> int st' \<le> lim_maxValues L) \<and> (\<forall>m\<in>set ms. dep + int (tmheight m) \<le> lim_maxDepth L)
     \<and> list_all (member_ok L) ms \<and> distinct (map Key ms) \<and> (\<forall>m\<in>set ms. Key m \<notin> set seen)"
proof (induction v dep st L and vs dep st L and ms seen dep st L arbitrary: st' and st' and st'
    rule: validateValueTree_validateElems_validateMembers.induct)
  case (1 k s n ms es dep st L)
  show ?case
  proof (cases k)
    case KindArray
    with 1 show ?thesis by (auto simp: Let_def height_list add.commute [of dep 1] split: if_splits)
  next
    case KindObject
    with 1 show ?thesis by (auto simp: Let_def height_list add.commute [of dep 1] split: if_splits)
  next
    case KindString
    then show ?thesis using validateString_None [of s "lim_maxStringBytes L"]
      by (cases "validateString s (lim_maxStringBytes L)") (auto simp: Let_def)
  qed (auto simp: Let_def number_finite_def)
next
  case (3 v vs dep st L)
  show ?case
  proof (cases "validateValueTree v dep st L")
    case (Inl e)
    with 3(1) have "\<not> (int (st + tcount v) \<le> lim_maxValues L \<and> dep + int (theight v) \<le> lim_maxDepth L \<and> tree_ok L v)"
      by (metis Inl_Inr_False)
    with Inl show ?thesis by auto
  next
    case (Inr st1)
    from this [unfolded 3(1)] 3(2) [OF Inr] Inr show ?thesis by auto
  qed
next
  case (5 key v ms seen dep st L)
  show ?case
  proof (cases "validateString key (lim_maxStringBytes L)")
    case None
    then have s: "string_fits (lim_maxStringBytes L) key" by (simp add: validateString_None)
    show ?thesis
    proof (cases "key \<in> set seen")
      case True
      with None s show ?thesis by auto
    next
      case False
      show ?thesis
      proof (cases "validateValueTree v dep st L")
        case (Inl e)
        with 5(1) None False have "\<not> (int (st + tcount v) \<le> lim_maxValues L \<and> dep + int (theight v) \<le> lim_maxDepth L \<and> tree_ok L v)"
          by (metis Inl_Inr_False)
        with Inl None False show ?thesis by auto
      next
        case (Inr st1)
        from Inr [unfolded 5(1) [OF None False]] 5(2) [OF None False Inr] Inr None False s show ?thesis
          by auto
      qed
    qed
  next
    case (Some e)
    then have "\<not> string_fits (lim_maxStringBytes L) key" using validateString_None by (metis option.distinct(1))
    with Some show ?thesis by auto
  qed
qed auto

section \<open>What the parser returns passes\<close>

lemma resolve_limits [simp]:
  "lim_maxDepth (resolveSerializeLimits opts) = opt_maxDepth opts"
  "lim_maxValues (resolveSerializeLimits opts) = opt_maxValues opts"
  "lim_maxObjectMembers (resolveSerializeLimits opts) = opt_maxObjectMembers opts"
  "lim_maxArrayElements (resolveSerializeLimits opts) = opt_maxArrayElements opts"
  "lim_maxStringBytes (resolveSerializeLimits opts) = opt_maxStringBytes opts"
  by (cases opts; simp add: resolveSerializeLimits_def opt_defs resolveSerializeLimit_def resolveOption_def)+

lemma number_ok_finite: "number_ok f \<Longrightarrow> number_finite f"
  by (auto simp: number_ok_def number_finite_def finite64_def IsNaN_def IsInf_def)

definition tree_of :: "serializeLimits \<Rightarrow> Value \<Rightarrow> bool" where
  "tree_of L v \<longleftrightarrow> tcount v = vcount v \<and> theight v \<le> vdepth v
     \<and> (fits (lim_maxStringBytes L) (lim_maxObjectMembers L) (lim_maxArrayElements L) v \<longrightarrow> tree_ok L v)"

definition mtree_of :: "serializeLimits \<Rightarrow> Member \<Rightarrow> bool" where
  "mtree_of L m \<longleftrightarrow> tmcount m = mcount m \<and> tmheight m \<le> mdepth m
     \<and> (mfits (lim_maxStringBytes L) (lim_maxObjectMembers L) (lim_maxArrayElements L) m \<longrightarrow> member_ok L m)"

lemma mtree_of_Member: "string_ok k \<Longrightarrow> tree_of L v \<Longrightarrow> mtree_of L (Member k v)"
  by (simp add: mtree_of_def tree_of_def string_fits_def)

lemma height_le: "(\<forall>x\<in>set xs. f x \<le> g x) \<Longrightarrow> foldr max (map (\<lambda>x. Suc (f x)) xs) 0 \<le> Suc (foldr max (map g xs) (0::nat))"
  by (induction xs) auto

lemma tree_of_array: "list_all (tree_of L) es \<Longrightarrow> tree_of L (ArrayValue es)"
  using height_le [of es theight vdepth] map_cong [OF refl, of es tcount vcount]
  by (auto simp: tree_of_def container_def list_all_iff intro!: arg_cong [of _ _ sum_list])

lemma tree_of_object: "list_all (mtree_of L) ms \<Longrightarrow> distinct (map Key ms) \<Longrightarrow> tree_of L (ObjectValue ms)"
  using height_le [of ms tmheight mdepth] map_cong [OF refl, of ms tmcount mcount]
  by (auto simp: tree_of_def mtree_of_def container_def list_all_iff intro!: arg_cong [of _ _ sum_list])

lemma jvalue_tree:
  "jvalue N t v \<Longrightarrow> tree_of L v"
  "jmembers N tm ms \<Longrightarrow> list_all (mtree_of L) ms"
  "jelems N te es \<Longrightarrow> list_all (tree_of L) es"
proof (induction rule: jvalue_jmembers_jelems.inducts)
  case (jv_num t f)
  then show ?case using number_ok_finite [OF jnum_ok] by (simp add: tree_of_def)
next
  case (jv_str t s)
  then show ?case by (simp add: tree_of_def string_fits_def jchars_ok)
qed (auto simp: mtree_of_Member jchars_ok tree_of_array tree_of_object, auto simp: tree_of_def)

lemma parse_validates:
  assumes "jtext N d v" "allowed opts v"
  shows "validateValueTree v 0 0 (resolveSerializeLimits opts) = Inr (vcount v)"
proof -
  obtain t where "jvalue N t v" using assms(1) by (auto simp: jtext_def)
  then have "tree_of (resolveSerializeLimits opts) v" by (rule jvalue_tree)
  with assms(2) show ?thesis by (auto simp: validate_iff(1) tree_of_def allowed_def)
qed

text \<open>
  C17: which trees \<open>validateValueTree\<close> accepts, and what it counts: a tree passes exactly when its values are
  at most \<open>maxValues\<close>, its height keeps within \<open>maxDepth\<close>, and every value is well formed: a boolean is
  "true" or "false", a number is finite, strings and keys are valid and short enough, containers are small
  enough and keys are distinct.
\<close>

theorem validateValueTree_spec:
  "validateValueTree v dep st L = Inr st' \<longleftrightarrow> st' = st + tcount v \<and> int st' \<le> lim_maxValues L
     \<and> dep + int (theight v) \<le> lim_maxDepth L \<and> tree_ok L v"
  by (rule validate_iff(1))

text \<open>
  C18: whatever the parser accepts under some options passes the validation of the serializer under the
  same options.
\<close>

theorem parsed_values_validate:
  assumes "ParseWithOptions d opts = Inr v"
  shows "\<exists>n. validateValueTree v 0 0 (resolveSerializeLimits opts) = Inr n"
  using assms parse_spec parse_validates by blast

theorem parsed_values_validate_witness:
  "\<exists>v. ParseWithOptions (ascii ''[{}, true]'') None = Inr v
     \<and> (\<exists>n. validateValueTree v 0 0 (resolveSerializeLimits None) = Inr n)"
proof -
  have "ParseWithOptions (ascii ''[{}, true]'') None = Inr (ArrayValue [ObjectValue [], BoolValue (ascii ''true'')])"
    by code_simp
  from this parsed_values_validate [OF this] show ?thesis by blast
qed

text \<open>Nested empty arrays.\<close>

fun nested :: "nat \<Rightarrow> Value" where
  "nested 0 = ArrayValue []"
| "nested (Suc n) = ArrayValue [nested n]"

lemma nested_measures: "theight (nested n) = n" "tcount (nested n) = Suc n" "vdepth (nested n) = Suc n"
  "int n < lim_maxArrayElements L \<Longrightarrow> tree_ok L (nested n)" for L
  by (induction n) (auto simp: container_def)

text \<open>
  C19: the converse fails at the bound on the depth. With \<^verbatim>\<open>MaxDepth = n\<close> the serializer accepts \<open>n + 1\<close> nested
  empty arrays, the parser rejects their text: the parser counts open containers, the serializer only
  edges of the tree.
\<close>

theorem depth_bounds_differ:
  assumes "0 < n" "n < 250000"
  defines "opts \<equiv> Some \<lparr>MaxDepth = int n, MaxInputSize = 0, MaxValues = 0, MaxObjectMembers = 0,
    MaxArrayElements = 0, MaxStringBytes = 0, MaxNumberChars = 0\<rparr>"
  shows "validateValueTree (nested n) 0 0 (resolveSerializeLimits opts) = Inr (n + 1)
     \<and> (\<forall>d. ParseWithOptions d opts \<noteq> Inr (nested n))"
proof -
  have o: "opt_maxDepth opts = int n" "opt_maxValues opts = 1000000" "opt_maxArrayElements opts = 250000"
    using assms(1) by (simp_all add: opts_def opt_defs resolveOption_def default_defs)
  then have "tree_ok (resolveSerializeLimits opts) (nested n)" using assms(2) by (intro nested_measures) simp
  then have "validateValueTree (nested n) 0 0 (resolveSerializeLimits opts) = Inr (n + 1)"
    using assms(2) o by (simp add: validate_iff(1) nested_measures)
  moreover have "\<not> allowed opts (nested n)" by (simp add: allowed_def o nested_measures)
  ultimately show ?thesis using parse_spec by blast
qed

theorem depth_bounds_differ_witness:
  "validateValueTree (nested 1) 0 0 (resolveSerializeLimits (Some \<lparr>MaxDepth = 1, MaxInputSize = 0, MaxValues = 0,
       MaxObjectMembers = 0, MaxArrayElements = 0, MaxStringBytes = 0, MaxNumberChars = 0\<rparr>)) = Inr 2"
  using depth_bounds_differ [of 1] by simp

end
