(* ===== verification/Jcs_Sort.thy ===== *)
theory Jcs_Sort
  imports Jcs_Order
begin

text \<open>
  The order of object members: the comparison of package jcs is the lexicographic order of the UTF-16 code
  units of the keys, whatever path it takes, and sorting by it has one result for the members of an object
  with distinct keys.
\<close>

section \<open>Sorting by a strict order\<close>

text \<open>
  What \<^verbatim>\<open>sort.Slice\<close> asks of its comparison (a strict weak order), and what the caller adds: on elements
  that are \<open>ok\<close> only equal keys are incomparable.
\<close>

locale sort_order =
  fixes lt :: "'a \<Rightarrow> 'a \<Rightarrow> bool" and key :: "'a \<Rightarrow> 'k" and ok :: "'a \<Rightarrow> bool"
  assumes lt_asym: "lt x y \<Longrightarrow> \<not> lt y x"
    and lt_trans: "lt x y \<Longrightarrow> lt y z \<Longrightarrow> lt x z"
    and not_lt_trans: "\<not> lt x y \<Longrightarrow> \<not> lt y z \<Longrightarrow> \<not> lt x z"
    and lt_total: "ok x \<Longrightarrow> ok y \<Longrightarrow> \<not> lt x y \<Longrightarrow> \<not> lt y x \<Longrightarrow> key x = key y"
begin

lemma sorted_insert:
  "sorted_wrt (\<lambda>a b. \<not> lt b a) ys \<Longrightarrow> sorted_wrt (\<lambda>a b. \<not> lt b a) (sort_insert lt x ys)"
proof (induction ys)
  case (Cons y ys)
  have set_insert: "set (sort_insert lt x zs) = insert x (set zs)" for zs by (induction zs) auto
  show ?case
  proof (cases "lt y x")
    case True
    with Cons lt_asym [OF True] show ?thesis by (auto simp: set_insert)
  next
    case False
    with Cons.prems have "\<not> lt z x" if "z \<in> set ys" for z using that not_lt_trans [of z y x] by auto
    with False Cons show ?thesis by simp
  qed
qed simp

lemma sorted_sort: "sorted_wrt (\<lambda>a b. \<not> lt b a) (sort_Slice lt xs)"
  by (induction xs) (simp_all add: sorted_insert)

text \<open>With distinct keys the order of the result is strict, and there is one such list.\<close>

lemma sorted_strict:
  assumes "sorted_wrt (\<lambda>a b. \<not> lt b a) xs" "distinct (map key xs)" "list_all ok xs"
  shows "sorted_wrt lt xs"
  using assms
proof (induction xs)
  case (Cons x xs)
  have "lt x y" if "y \<in> set xs" for y
  proof (rule ccontr)
    assume "\<not> lt x y"
    moreover have "\<not> lt y x" "ok x" "ok y" using Cons.prems that by (auto simp: list_all_iff)
    ultimately have "key x = key y" using lt_total by blast
    with Cons.prems(2) that show False by (auto simp: image_iff)
  qed
  with Cons show ?case by auto
qed simp

lemma strict_unique:
  "sorted_wrt lt xs \<Longrightarrow> sorted_wrt lt ys \<Longrightarrow> mset xs = mset ys \<Longrightarrow> xs = ys"
proof (induction xs arbitrary: ys)
  case (Cons x xs)
  then obtain y ys' where ys: "ys = y # ys'" by (cases ys) auto
  have s: "set (x # xs) = set (y # ys')" using Cons.prems(3) mset_eq_setD unfolding ys by blast
  have "x = y"
  proof (rule ccontr)
    assume "x \<noteq> y"
    then have "y \<in> set xs" "x \<in> set ys'" using s by auto
    with Cons.prems(1,2) ys have "lt x y" "lt y x" by auto
    with lt_asym show False by blast
  qed
  with Cons ys show ?case by auto
qed simp

lemma sort_unique:
  assumes "sorted_wrt (\<lambda>a b. \<not> lt b a) ys" "mset ys = mset xs" "distinct (map key xs)" "list_all ok xs"
  shows "ys = sort_Slice lt xs"
proof (rule strict_unique)
  have d: "distinct (map key zs)" "list_all ok zs" if "mset zs = mset xs" for zs
  proof -
    have "mset (map key zs) = mset (map key xs)" using that by simp
    then show "distinct (map key zs)" using assms(3) mset_eq_imp_distinct_iff by blast
    show "list_all ok zs" using assms(4) mset_eq_setD [OF that] by (simp add: list_all_iff)
  qed
  show "sorted_wrt lt ys" using assms(1,2) d by (intro sorted_strict)
  show "sorted_wrt lt (sort_Slice lt xs)" using sorted_sort d by (intro sorted_strict) simp_all
qed (use assms(2) in simp)

lemma sort_permutation:
  assumes "mset ys = mset xs" "distinct (map key xs)" "list_all ok xs"
  shows "sort_Slice lt ys = sort_Slice lt xs"
  by (rule sort_unique [OF sorted_sort _ assms(2,3)]) (use assms(1) in simp)

lemma sort_idem:
  assumes "distinct (map key xs)" "list_all ok xs"
  shows "sort_Slice lt (sort_Slice lt xs) = sort_Slice lt xs"
  by (rule sort_permutation [OF _ assms]) simp

end

section \<open>The comparison\<close>

lemma compareUTF16Units_refl [simp]: "compareUTF16Units u u = 0"
  by (induction u) auto

lemma compareUTF16Units_0: "compareUTF16Units u v = 0 \<longleftrightarrow> u = v"
  by (induction u v rule: compareUTF16Units.induct) auto

lemma compareUTF16Units_swap: "compareUTF16Units v u = - compareUTF16Units u v"
  by (induction u v rule: compareUTF16Units.induct) auto

lemma compareUTF16Units_range: "compareUTF16Units u v \<in> {-1, 0, 1}"
  by (induction u v rule: compareUTF16Units.induct) auto

text \<open>It is the lexicographic order of the library.\<close>

lemma compareUTF16Units_lexord: "compareUTF16Units u v < 0 \<longleftrightarrow> (u, v) \<in> lexord {(a, b). a < b}"
  by (induction u v rule: compareUTF16Units.induct) auto

lemma compareUTF16Units_trans:
  "compareUTF16Units u v < 0 \<Longrightarrow> compareUTF16Units v w < 0 \<Longrightarrow> compareUTF16Units u w < 0"
  unfolding compareUTF16Units_lexord by (rule lexord_trans) (auto simp: trans_def)

lemma compareUTF16Units_not_less:
  "\<not> compareUTF16Units u v < 0 \<Longrightarrow> \<not> compareUTF16Units v w < 0 \<Longrightarrow> \<not> compareUTF16Units u w < 0"
  using compareUTF16Units_trans [of w v u] compareUTF16Units_swap [of u v] compareUTF16Units_swap [of v w]
    compareUTF16Units_swap [of u w] compareUTF16Units_0 [of u v] compareUTF16Units_0 [of v w]
  by (smt (verit))

section \<open>The ASCII path\<close>

lemma isASCII_Nil [simp]: "isASCII []" and isASCII_Cons [simp]: "isASCII (b # s) \<longleftrightarrow> b < 0x80 \<and> isASCII s"
  by (auto simp: isASCII_def not_le)

lemma utf16_key_ascii: "isASCII s \<Longrightarrow> utf16_key s = map uint s"
proof (induction s)
  case (Cons b s)
  then have b: "0 \<le> uint b" "uint b < 128" by (simp_all add: byte_less_iff)
  then have "utf16_unit (uint b) = [uint b]" by (auto simp: utf16_unit_def)
  with Cons show ?case by (simp add: utf16_key_def utf16_Encode_def runes_ascii)
qed (simp add: utf16_key_def utf16_Encode_def)

lemma go_string_less_units: "go_string_less a b \<longleftrightarrow> compareUTF16Units (map uint a) (map uint b) < 0"
  by (induction a b rule: go_string_less.induct) (auto simp: byte_uint)

lemma compareSortKeys_units:
  "compareSortKeys (to_sortable a) (to_sortable b) = compareUTF16Units (utf16_key (Key a)) (utf16_key (Key b))"
proof (cases "isASCII (Key a) \<and> isASCII (Key b)")
  case True
  let ?c = "compareUTF16Units (map uint (Key a)) (map uint (Key b))"
  have "compareSortKeys (to_sortable a) (to_sortable b) = (if ?c < 0 then -1 else if ?c > 0 then 1 else 0)"
    using True compareUTF16Units_swap [of "map uint (Key a)" "map uint (Key b)"]
    by (simp add: compareSortKeys_def to_sortable_def go_string_less_units)
  also have "\<dots> = ?c" using compareUTF16Units_range [of "map uint (Key a)" "map uint (Key b)"] by auto
  finally show ?thesis using True by (simp add: utf16_key_ascii)
next
  case False
  then show ?thesis by (auto simp: compareSortKeys_def to_sortable_def Let_def)
qed

section \<open>The order of members\<close>

definition member_less :: "Member \<Rightarrow> Member \<Rightarrow> bool" where
  "member_less a b \<longleftrightarrow> compareUTF16Units (utf16_key (Key a)) (utf16_key (Key b)) < 0"

definition valid_key :: "Member \<Rightarrow> bool" where
  "valid_key m \<longleftrightarrow> utf8_Valid (Key m)"

lemma utf16_key_inj: "utf8_Valid a \<Longrightarrow> utf8_Valid b \<Longrightarrow> utf16_key a = utf16_key b \<Longrightarrow> a = b"
  unfolding utf16_key_def using utf8_Valid_runes utf16_Encode_inj runes_inj by blast

interpretation members: sort_order member_less Key valid_key
proof unfold_locales
  fix x y z
  show "member_less x y \<Longrightarrow> \<not> member_less y x"
    using compareUTF16Units_swap [of "utf16_key (Key x)" "utf16_key (Key y)"] by (simp add: member_less_def)
  show "member_less x y \<Longrightarrow> member_less y z \<Longrightarrow> member_less x z"
    unfolding member_less_def by (rule compareUTF16Units_trans)
  show "\<not> member_less x y \<Longrightarrow> \<not> member_less y z \<Longrightarrow> \<not> member_less x z"
    unfolding member_less_def by (rule compareUTF16Units_not_less)
  show "valid_key x \<Longrightarrow> valid_key y \<Longrightarrow> \<not> member_less x y \<Longrightarrow> \<not> member_less y x \<Longrightarrow> Key x = Key y"
    using compareUTF16Units_0 [of "utf16_key (Key x)" "utf16_key (Key y)"]
      compareUTF16Units_swap [of "utf16_key (Key x)" "utf16_key (Key y)"]
    by (intro utf16_key_inj) (simp_all add: member_less_def valid_key_def)
qed

lemma sort_insert_map:
  "sort_insert lt (f x) (map f ys) = map f (sort_insert (\<lambda>a b. lt (f a) (f b)) x ys)"
  by (induction ys) auto

lemma sort_Slice_map: "sort_Slice lt (map f xs) = map f (sort_Slice (\<lambda>a b. lt (f a) (f b)) xs)"
  by (induction xs) (auto simp: sort_insert_map)

lemma sortMembers_eq: "sortMembers ms = sort_Slice member_less ms"
proof -
  have "(\<lambda>a b. compareSortKeys (to_sortable a) (to_sortable b) < 0) = member_less"
    by (intro ext) (simp add: member_less_def compareSortKeys_units)
  then show ?thesis
    by (simp add: sortMembers_def sort_Slice_map comp_def to_sortable_def [abs_def])
qed

lemma sortMembers_sorted: "sorted_wrt (\<lambda>a b. \<not> member_less b a) (sortMembers ms)"
  unfolding sortMembers_eq by (rule members.sorted_sort)

lemma sortMembers_permutation:
  "mset ms = mset ms' \<Longrightarrow> distinct (map Key ms') \<Longrightarrow> list_all valid_key ms' \<Longrightarrow> sortMembers ms = sortMembers ms'"
  unfolding sortMembers_eq by (rule members.sort_permutation)

lemma sortMembers_idem:
  "distinct (map Key ms) \<Longrightarrow> list_all valid_key ms \<Longrightarrow> sortMembers (sortMembers ms) = sortMembers ms"
  unfolding sortMembers_eq by (rule members.sort_idem)

lemma sortMembers_keys [simp]: "distinct (map Key (sortMembers ms)) = distinct (map Key ms)"
proof -
  have "mset (map Key (sortMembers ms)) = mset (map Key ms)" by simp
  then show ?thesis by (rule mset_eq_imp_distinct_iff)
qed

text \<open>
  The two ways of comparing keys agree. For ASCII keys the code compares bytes, otherwise UTF-16 code
  units it computes once per key or on demand; the result is always the comparison of the code units.
\<close>

theorem compareSortKeys_paths:
  "compareSortKeys (to_sortable a) (to_sortable b) = compareUTF16Units (utf16_key (Key a)) (utf16_key (Key b))
   \<and> (compareSortKeys (to_sortable a) (to_sortable b) < 0 \<longleftrightarrow>
        (utf16_key (Key a), utf16_key (Key b)) \<in> lexord {(x, y). x < y})"
  by (simp only: compareSortKeys_units compareUTF16Units_lexord simp_thms)

text \<open>
  C7: sorting the members of an object with distinct, valid keys has one possible result, the permutation in
  increasing order of UTF-16 code units: so the algorithm behind \<^verbatim>\<open>sort.Slice\<close> does not matter.
\<close>

theorem sortMembers_unique:
  assumes "distinct (map Key ms)" "\<forall>m\<in>set ms. utf8_Valid (Key m)"
  shows "sorted_wrt (\<lambda>a b. (utf16_key (Key a), utf16_key (Key b)) \<in> lexord {(x, y). x < y}) ys \<and> mset ys = mset ms
     \<longleftrightarrow> ys = sortMembers ms"
proof -
  have lt: "(\<lambda>a b. (utf16_key (Key a), utf16_key (Key b)) \<in> lexord {(x, y). x < y}) = member_less"
    by (intro ext) (simp add: member_less_def compareUTF16Units_lexord)
  have ok: "list_all valid_key ms" using assms(2) by (simp add: list_all_iff valid_key_def)
  have "sorted_wrt member_less (sortMembers ms)"
    using assms(1) ok mset_eq_setD [of "sortMembers ms" ms]
    by (intro members.sorted_strict sortMembers_sorted) (simp_all add: list_all_iff)
  then show ?thesis unfolding lt using members.strict_unique [of ys "sortMembers ms"] by auto
qed

theorem sortMembers_unique_witness:
  "let ms = [Member [0xEF, 0xBF, 0xBD] NullValue, Member [0x62] NullValue, Member [0xF0, 0x90, 0x80, 0x80] NullValue];
       ys = [Member [0x62] NullValue, Member [0xF0, 0x90, 0x80, 0x80] NullValue, Member [0xEF, 0xBF, 0xBD] NullValue]
   in sorted_wrt (\<lambda>a b. (utf16_key (Key a), utf16_key (Key b)) \<in> lexord {(x, y). x < y}) ys \<and> mset ys = mset ms"
proof -
  let ?ms = "[Member [0xEF, 0xBF, 0xBD] NullValue, Member [0x62] NullValue, Member [0xF0, 0x90, 0x80, 0x80] NullValue]"
  let ?ys = "[Member [0x62] NullValue, Member [0xF0, 0x90, 0x80, 0x80] NullValue, Member [0xEF, 0xBF, 0xBD] NullValue]"
  have "distinct (map Key ?ms)" "\<forall>m\<in>set ?ms. utf8_Valid (Key m)" by code_simp+
  moreover have "?ys = sortMembers ?ms" by code_simp
  ultimately show ?thesis unfolding Let_def by (rule sortMembers_unique [THEN iffD2])
qed

end
