(* ===== verification/Jcs_String.thy ===== *)
theory Jcs_String
  imports Jcs_Serialize Token_Strings
begin

text \<open>
  Canonical strings: \<open>serializeString\<close> writes the runes of a string one by one, each as RFC 8785 wants it,
  and the text it writes denotes the string it was given.
\<close>

section \<open>The escape of one rune\<close>

definition lower_hex :: "int \<Rightarrow> byte" where
  "lower_hex d = byte_of (if d < 10 then 48 + d else 87 + d)"

definition jcs_escape :: "rune \<Rightarrow> bytes" where
  "jcs_escape r =
     (if r = 0x22 then [cBSLASH, cQUOTE] else if r = 0x5C then [cBSLASH, cBSLASH]
      else if r = 0x08 then [cBSLASH, 0x62] else if r = 0x09 then [cBSLASH, 0x74]
      else if r = 0x0A then [cBSLASH, 0x6E] else if r = 0x0C then [cBSLASH, 0x66]
      else if r = 0x0D then [cBSLASH, 0x72]
      else if r < 0x20 then [cBSLASH, 0x75, cZERO, cZERO, lower_hex (r div 16), lower_hex (r mod 16)]
      else EncodeRune r)"

lemma hexDigit_lower: "uint c < 16 \<Longrightarrow> hexDigit c = lower_hex (uint c)"
  by (simp add: hexDigit_def lower_hex_def byte_less_iff byte_of_def)

lemma nibbles: "uint (drop_bit 4 (b::byte)) = uint b div 16" "uint (and b 0x0F) = uint b mod 16"
proof -
  show "uint (drop_bit 4 b) = uint b div 16" by (simp add: drop_bit_eq_div uint_div)
  have "and b 0x0F = take_bit 4 b" by (simp only: take_bit_eq_mask) (simp add: mask_eq_exp_minus_1)
  then have "uint (and b 0x0F) = take_bit 4 (uint b)" by (simp add: unsigned_take_bit_eq)
  then show "uint (and b 0x0F) = uint b mod 16" by (simp add: take_bit_eq_mod)
qed

lemma appendEscapedByte_escape:
  assumes "b < 0x80"
  shows "appendEscapedByte buf b = (buf @ jcs_escape (uint b), True)
     \<or> (appendEscapedByte buf b = (buf, False) \<and> jcs_escape (uint b) = [b])"
proof (cases "b < 0x20 \<or> b = cQUOTE \<or> b = cBSLASH")
  case True
  show ?thesis
  proof (cases "b \<in> {cQUOTE, cBSLASH, 0x08, cTAB, cLF, 0x0C, cCR}")
    case True
    then show ?thesis by (auto simp: appendEscapedByte_def jcs_escape_def)
  next
    case False
    with True have b: "uint b < 32" "b < 0x20" by (auto simp: byte_less_iff)
    then have "hexDigit (drop_bit 4 b) = lower_hex (uint b div 16)" "hexDigit (and b 0x0F) = lower_hex (uint b mod 16)"
      by (simp_all add: hexDigit_lower nibbles)
    with False b show ?thesis by (simp add: appendEscapedByte_def jcs_escape_def byte_eq_iff)
  qed
next
  case False
  then have "uint b \<ge> 32" "uint b < 128" using assms by (auto simp: byte_less_iff)
  with False show ?thesis
    by (auto simp: appendEscapedByte_def jcs_escape_def EncodeRune_def scalar_def is_surrogate_def byte_uint)
qed

text \<open>Above ASCII the code copies as many bytes as the first one announces: exactly those of the rune.\<close>

lemma utf8SeqLen_Encode:
  assumes "scalar r" "\<not> r < 0x80"
  shows "\<not> hd (EncodeRune r) < 0x80 \<and> utf8SeqLen (hd (EncodeRune r)) = length (EncodeRune r)"
proof -
  have r: "128 \<le> r" "r \<le> 0x10FFFF" using assms by (simp_all add: scalar_def)
  consider "r < 0x800" | "0x800 \<le> r" "r < 0x10000" | "0x10000 \<le> r" by linarith
  then show ?thesis
  proof cases
    case 1
    then have "0 \<le> r div 64" "r div 64 < 32" using r by auto
    with 1 r assms show ?thesis by (simp add: EncodeRune_def Let_def utf8SeqLen_def byte_less_iff uint_byte_of)
  next
    case 2
    then have "0 \<le> r div 4096" "r div 4096 < 16" using r by auto
    with 2 r assms show ?thesis by (simp add: EncodeRune_def Let_def utf8SeqLen_def byte_less_iff uint_byte_of)
  next
    case 3
    then have "0 \<le> r div 262144" "r div 262144 < 8" using r by auto
    with 3 r assms show ?thesis by (simp add: EncodeRune_def Let_def utf8SeqLen_def byte_less_iff uint_byte_of)
  qed
qed

lemma appendEscapedByte_high: "\<not> b < 0x80 \<Longrightarrow> appendEscapedByte buf b = (buf, False)"
  by (auto simp: appendEscapedByte_def byte_less_iff)

section \<open>The loop\<close>

definition escapes :: "bytes \<Rightarrow> bytes" where
  "escapes s = concat (map jcs_escape (runes s))"

lemma escapes_Nil [simp]: "escapes [] = []"
  by (simp add: escapes_def)

lemma escapes_Encode: "scalar r \<Longrightarrow> escapes (EncodeRune r @ s) = jcs_escape r @ escapes s"
  by (simp add: escapes_def codec)

lemma serializeStringLoop_step:
  assumes "i < length s" "drop i s = EncodeRune r @ u" "scalar r"
  shows "serializeStringLoop buf s i = serializeStringLoop (buf @ jcs_escape r) s (i + length (EncodeRune r))"
proof (cases "r < 0x80")
  case True
  then obtain b where b: "EncodeRune r = [b]" using EncodeRune_length1 [OF assms(3)] by (auto simp: length_Suc_conv)
  then have s: "s ! i = b" using drop_eq_Cons_nth [of i s b u] assms(2) by simp
  have ub: "b < 0x80 \<and> uint b = r"
    using EncodeRune_first [OF assms(3), of u b u] b True by (auto split: if_splits)
  show ?thesis
    using appendEscapedByte_escape [of b buf] assms(1,2) b s ub
    by (subst serializeStringLoop.simps) (auto simp: byteSpanForCopy_def)
next
  case False
  note len = utf8SeqLen_Encode [OF assms(3) False]
  have s: "s ! i = hd (EncodeRune r)"
    using assms(1,2) by (metis EncodeRune_nonempty hd_append2 hd_drop_conv_nth)
  have "length (drop i s) = length (EncodeRune r) + length u" using assms(2) by simp
  then have fit: "i + length (EncodeRune r) \<le> length s" using assms(1) by simp
  have "jcs_escape r = EncodeRune r" using False by (simp add: jcs_escape_def)
  moreover have "byteSpanForCopy s i = length (EncodeRune r)" using len fit by (simp add: byteSpanForCopy_def s)
  moreover have "take (length (EncodeRune r)) (drop i s) = EncodeRune r" using assms(2) by simp
  ultimately show ?thesis
    using assms(1) appendEscapedByte_high [of "s ! i" buf] len
    by (subst serializeStringLoop.simps) (simp add: s)
qed

lemma serializeStringLoop_spec:
  "list_all scalar rs \<Longrightarrow> i \<le> length s \<Longrightarrow> drop i s = concat (map EncodeRune rs) \<Longrightarrow>
   serializeStringLoop buf s i = buf @ concat (map jcs_escape rs)"
proof (induction rs arbitrary: i buf)
  case Nil
  then show ?case by (subst serializeStringLoop.simps) simp
next
  case (Cons r rs)
  then have d: "drop i s = EncodeRune r @ concat (map EncodeRune rs)" "scalar r" by simp_all
  then have i: "i < length s" by (cases "i < length s") auto
  have "length (drop i s) \<ge> length (EncodeRune r)" using d by simp
  then have "i + length (EncodeRune r) \<le> length s" using i by simp
  moreover have "drop (i + length (EncodeRune r)) s = concat (map EncodeRune rs)"
    using d(1) by (metis add.commute append_eq_conv_conj drop_drop)
  ultimately show ?case using Cons by (simp add: serializeStringLoop_step [OF i d])
qed

lemma serializeString_eq:
  assumes "utf8_Valid s"
  shows "serializeString buf s = buf @ cQUOTE # escapes s @ [cQUOTE]"
proof -
  have "serializeStringLoop (buf @ [cQUOTE]) s 0 = (buf @ [cQUOTE]) @ concat (map jcs_escape (runes s))"
    using utf8_Valid_runes [OF assms] by (intro serializeStringLoop_spec) auto
  then show ?thesis by (simp add: serializeString_def escapes_def)
qed

section \<open>Reading it back\<close>

lemma hex_digit_lower: "0 \<le> d \<Longrightarrow> d < 16 \<Longrightarrow> hex_digit (lower_hex d) = Some d"
  by (auto simp: hex_digit_def lower_hex_def uint_byte_of)

lemma hex_digit_zero: "hex_digit cZERO = Some 0"
  by (simp add: hex_digit_def)

lemma jcs_escape_jchars:
  assumes "char_ok r" "jchars t s"
  shows "jchars (jcs_escape r @ t) (EncodeRune r @ s)"
proof -
  have r0: "0 \<le> r" using assms(1) by (simp add: char_ok_def scalar_def)
  consider c where "map_of simple_escapes c = Some r" "jcs_escape r = [cBSLASH, c]"
    | "r < 0x20" "jcs_escape r = [cBSLASH, 0x75, cZERO, cZERO, lower_hex (r div 16), lower_hex (r mod 16)]"
    | "0x20 \<le> r" "r \<noteq> 0x22" "r \<noteq> 0x5C" "jcs_escape r = EncodeRune r"
  proof (cases "r \<in> {0x22, 0x5C, 0x08, 0x09, 0x0A, 0x0C, 0x0D}")
    case True
    then show ?thesis using that(1) by (fastforce simp: jcs_escape_def simple_escapes_def)
  next
    case False
    then show ?thesis using that(2,3) by (cases "r < 0x20") (auto simp: jcs_escape_def)
  qed
  then show ?thesis
  proof cases
    case 1
    then show ?thesis using jc_esc [OF esc_simple assms] by simp
  next
    case 2
    let ?h = "[cZERO, cZERO, lower_hex (r div 16), lower_hex (r mod 16)]"
    have "0 \<le> r div 16" "r div 16 < 16" using r0 2(1) by auto
    then have "hex4 ?h = Some r" by (simp add: hex4_def hex_digit_lower hex_digit_zero)
    moreover have "\<not> is_surrogate r" using 2(1) by (simp add: is_surrogate_def)
    ultimately have "jescape (0x75 # ?h) r" by (rule esc_bmp)
    from jc_esc [OF this assms] 2 show ?thesis by simp
  next
    case 3
    then show ?thesis using jc_plain [OF assms(1) 3(1,2,3) assms(2)] by simp
  qed
qed

lemma escapes_jchars: "string_ok s \<Longrightarrow> jchars (escapes s) s"
proof -
  have "jchars (concat (map jcs_escape rs)) (concat (map EncodeRune rs))" if "list_all char_ok rs" for rs
    using that by (induction rs) (auto intro: jc_nil jcs_escape_jchars)
  moreover assume "string_ok s"
  ultimately show ?thesis
    using utf8_Valid_runes [of s] unfolding escapes_def string_ok_def
    by (metis (mono_tags, lifting) Ball_set char_ok_def)
qed

text \<open>
  C15: what a canonical string is. For a valid string the code writes, between quotes, the runes of the
  string in order, each either as itself or as the one escape RFC 8785 prescribes for it.
\<close>

theorem serializeString_spec:
  assumes "utf8_Valid s"
  shows "serializeString buf s = buf @ [cQUOTE] @ concat (map jcs_escape (runes s)) @ [cQUOTE]"
  using serializeString_eq [OF assms] by (simp add: escapes_def)

theorem serializeString_spec_witness:
  "serializeString [0x5B] [0x61, 0x0A, 0x1F, 0xC3, 0xA9, 0x22] =
     [0x5B, 0x22, 0x61, 0x5C, 0x6E, 0x5C, 0x75, 0x30, 0x30, 0x31, 0x66, 0xC3, 0xA9, 0x5C, 0x22, 0x22]"
proof -
  have "utf8_Valid [0x61, 0x0A, 0x1F, 0xC3, 0xA9, 0x22]" by code_simp
  from serializeString_spec [OF this, of "[0x5B]"] show ?thesis by (rule trans) code_simp
qed

text \<open>
  Parsing a serialized string gives the string back, with the cursor right after the closing quote, for
  every string the parser can produce.
\<close>

theorem parseString_serializeString:
  assumes "string_ok s" "rest p = serializeString [] s @ u" "int (length s) \<le> maxStringBytes p"
  shows "parseString p = Inr (StringValue s, adv (length (serializeString [] s)) p)"
proof -
  have "utf8_Valid s" using assms(1) by (simp add: string_ok_def)
  from serializeString_eq [OF this] have t: "serializeString [] s = cQUOTE # escapes s @ [cQUOTE]" by simp
  then have "reads p (cQUOTE # escapes s @ [cQUOTE]) (adv (length (serializeString [] s)) p)"
    using assms(2) by (simp add: reads_iff)
  then show ?thesis using parseString_iff escapes_jchars [OF assms(1)] assms(3) by blast
qed

theorem parseString_serializeString_witness:
  "let s = [0x61, 0x0A, 0xF0, 0x9F, 0x98, 0x80, 0x22]; t = serializeString [] s; p = new_parser (t @ [0x2C]) None
   in parseString p = Inr (StringValue s, adv (length t) p)"
proof -
  let ?s = "[0x61, 0x0A, 0xF0, 0x9F, 0x98, 0x80, 0x22]"
  let ?p = "new_parser (serializeString [] ?s @ [0x2C]) None"
  have "string_ok ?s" by code_simp
  moreover have "rest ?p = serializeString [] ?s @ [0x2C]" by (simp add: rest_def new_parser_def)
  moreover have "int (length ?s) \<le> maxStringBytes ?p" by code_simp
  ultimately show ?thesis unfolding Let_def by (rule parseString_serializeString)
qed

end
