(* ===== verification/Jcsfloat_Digits.thy ===== *)
theory Jcsfloat_Digits
  imports Jcsfloat
begin

text \<open>
  The digit generator of package jcsfloat: what the loop of \<open>extractDigits\<close> computes from a scaled state.
  The digits denote a number inside the rounding interval, no shorter digit string does, and among those of
  the same length the digits are the closest. The carry and the stripping of zeros never change anything.
\<close>

section \<open>The state as rationals\<close>

text \<open>\<open>cle ev a b\<close>: \<open>a\<close> is below \<open>b\<close>, equality allowed exactly when the significand is even.\<close>

definition cle :: "bool \<Rightarrow> rat \<Rightarrow> rat \<Rightarrow> bool" where
  "cle ev a b \<longleftrightarrow> (if ev then a \<le> b else a < b)"

definition sR :: "digitState \<Rightarrow> rat" where "sR st = of_int (st_r st) / of_int (st_s st)"
definition sP :: "digitState \<Rightarrow> rat" where "sP st = of_int (mPlus st) / of_int (st_s st)"
definition sM :: "digitState \<Rightarrow> rat" where "sM st = of_int (mMinus st) / of_int (st_s st)"

text \<open>Membership in the interval from \<open>x - m\<close> to \<open>x + p\<close>.\<close>

definition in_interval :: "bool \<Rightarrow> rat \<Rightarrow> rat \<Rightarrow> rat \<Rightarrow> rat \<Rightarrow> bool" where
  "in_interval ev x p m w \<longleftrightarrow> cle ev (x - m) w \<and> cle ev w (x + p)"

lemma cle_mult: "0 < c \<Longrightarrow> cle ev (c * a) (c * b) \<longleftrightarrow> cle ev a b"
  by (simp add: cle_def)

lemma cle_shift: "cle ev (a + c) (b + c) \<longleftrightarrow> cle ev a b"
  by (simp add: cle_def)

lemma in_interval_scale:
  assumes "0 < c"
  shows "in_interval ev (c * x + d) (c * p) (c * m) (c * w + d) \<longleftrightarrow> in_interval ev x p m w"
proof -
  have "c * x + d - c * m = c * (x - m) + d" "c * x + d + c * p = c * (x + p) + d" by (simp_all add: algebra_simps)
  then show ?thesis by (simp only: in_interval_def cle_shift cle_mult [OF assms])
qed

lemma cle_frac: "0 < s \<Longrightarrow> cle ev (of_int a / of_int s) (of_int b / of_int s) \<longleftrightarrow> (if ev then a \<le> b else a < b)"
  by (simp add: cle_def divide_le_cancel divide_less_cancel)

lemma cmp_cle:
  assumes "0 < st_s st"
  shows "cmpHigh (st_r st + mPlus st) (st_s st) ev \<longleftrightarrow> cle ev 1 (sR st + sP st)"
    "cmpRoundDown (st_r st) (mMinus st) ev \<longleftrightarrow> cle ev (sR st) (sM st)"
    "\<not> cmpLow (st_r st * 10) (st_s st) ev \<longleftrightarrow> cle ev 1 (10 * sR st)"
    "\<not> cmpLow ((st_r st + mPlus st) * 10) (st_s st) ev \<longleftrightarrow> cle ev 1 (10 * (sR st + sP st))"
proof -
  let ?s = "of_int (st_s st) :: rat"
  have e: "1 = of_int (st_s st) / ?s" "sR st + sP st = of_int (st_r st + mPlus st) / ?s"
    "10 * sR st = of_int (st_r st * 10) / ?s" "10 * (sR st + sP st) = of_int ((st_r st + mPlus st) * 10) / ?s"
    using assms by (simp_all add: sR_def sP_def add_divide_distrib mult.commute)
  show "cmpHigh (st_r st + mPlus st) (st_s st) ev \<longleftrightarrow> cle ev 1 (sR st + sP st)"
    unfolding e(2) by (subst e(1)) (simp only: cle_frac [OF assms] cmpHigh_def)
  show "cmpRoundDown (st_r st) (mMinus st) ev \<longleftrightarrow> cle ev (sR st) (sM st)"
    by (simp only: sR_def sM_def cle_frac [OF assms] cmpRoundDown_def)
  show "\<not> cmpLow (st_r st * 10) (st_s st) ev \<longleftrightarrow> cle ev 1 (10 * sR st)"
    unfolding e(3) by (subst e(1)) (auto simp only: cle_frac [OF assms] cmpLow_def not_less not_le split: if_split)
  show "\<not> cmpLow ((st_r st + mPlus st) * 10) (st_s st) ev \<longleftrightarrow> cle ev 1 (10 * (sR st + sP st))"
    unfolding e(4) by (subst e(1)) (auto simp only: cle_frac [OF assms] cmpLow_def not_less not_le split: if_split)
qed

section \<open>One digit\<close>

text \<open>A state ready for the next digit: neither end of the interval has been reached.\<close>

definition ready :: "bool \<Rightarrow> digitState \<Rightarrow> bool" where
  "ready ev st \<longleftrightarrow> 0 < st_s st \<and> 0 < mPlus st \<and> 0 < mMinus st \<and> \<not> cle ev 1 (sR st + sP st) \<and> \<not> cle ev (sR st) (sM st)"

definition next_digit :: "digitState \<Rightarrow> int" where
  "next_digit st = 10 * st_r st div st_s st"

definition next_state :: "digitState \<Rightarrow> digitState" where
  "next_state st = \<lparr>st_r = 10 * st_r st mod st_s st, st_s = st_s st, mPlus = 10 * mPlus st, mMinus = 10 * mMinus st\<rparr>"

lemma divide_scale: "divideAndRemainder (scaleDigitState st) = (next_digit st, next_state st)"
  by (simp add: divideAndRemainder_def scaleDigitState_def next_digit_def next_state_def mult.commute)

lemma next_rationals:
  assumes "0 < st_s st"
  shows "sR (next_state st) = 10 * sR st - of_int (next_digit st)" "sP (next_state st) = 10 * sP st"
    "sM (next_state st) = 10 * sM st" "0 \<le> sR (next_state st)" "sR (next_state st) < 1"
proof -
  let ?s = "of_int (st_s st) :: rat"
  have "10 * st_r st = st_s st * next_digit st + 10 * st_r st mod st_s st" by (simp add: next_digit_def)
  then have "10 * of_int (st_r st) = ?s * of_int (next_digit st) + of_int (10 * st_r st mod st_s st)"
    by (metis of_int_add of_int_mult of_int_numeral)
  then show "sR (next_state st) = 10 * sR st - of_int (next_digit st)"
    using assms by (simp add: sR_def next_state_def field_simps)
  show "sP (next_state st) = 10 * sP st" "sM (next_state st) = 10 * sM st"
    by (simp_all add: sP_def sM_def next_state_def)
  have "0 \<le> 10 * st_r st mod st_s st" "10 * st_r st mod st_s st < st_s st" using assms by simp_all
  then show "0 \<le> sR (next_state st)" "sR (next_state st) < 1"
    using assms by (simp_all add: sR_def next_state_def)
qed

lemma ready_pos:
  assumes "ready ev st"
  shows "0 < sP st" "0 < sM st" "0 < sR st" "sR st < 1"
proof -
  show "0 < sP st" "0 < sM st" using assms by (simp_all add: ready_def sP_def sM_def)
  then show "0 < sR st" "sR st < 1" using assms by (auto simp: ready_def cle_def split: if_splits)
qed

lemma next_digit_range:
  assumes "ready ev st"
  shows "0 \<le> next_digit st" "next_digit st \<le> 9"
proof -
  have s: "0 < st_s st" using assms by (simp add: ready_def)
  have r: "0 < st_r st" "st_r st < st_s st" using ready_pos(3,4) [OF assms] s by (simp_all add: sR_def zero_less_divide_iff)
  show "0 \<le> next_digit st" using r s by (simp add: next_digit_def pos_imp_zdiv_nonneg_iff)
  have "of_int (next_digit st) = 10 * sR st - sR (next_state st)" using next_rationals(1) [OF s] by simp
  then have "of_int (next_digit st) < (10::rat)" using next_rationals(4) [OF s] ready_pos(4) [OF assms] by linarith
  then show "next_digit st \<le> 9" by simp
qed

definition final_int :: "bool \<Rightarrow> digitState \<Rightarrow> int" where
  "final_int ev st = (let d = next_digit st; st' = next_state st; (tc1, tc2) = terminationConditions st' ev in
     if tc1 \<and> \<not> tc2 then d else if \<not> tc1 \<and> tc2 then d + 1
     else if 2 * st_r st' < st_s st' then d else if 2 * st_r st' > st_s st' then d + 1
     else if d mod 2 = 0 then d else d + 1)"

lemma finalDigit_int:
  "finalDigit (next_digit st) (fst (terminationConditions (next_state st) ev)) (snd (terminationConditions (next_state st) ev))
     (next_state st) = byte_of (48 + final_int ev st)"
  by (simp add: finalDigit_def midpointDigit_def final_int_def Let_def case_prod_beta add.assoc)

lemma termination_rat:
  assumes "0 < st_s st"
  shows "terminationConditions (next_state st) ev =
     (cle ev (sR (next_state st)) (sM (next_state st)), cle ev 1 (sR (next_state st) + sP (next_state st)))"
proof -
  have "0 < st_s (next_state st)" using assms by (simp add: next_state_def)
  then show ?thesis by (simp add: terminationConditions_def cmp_cle)
qed

text \<open>The final digit in terms of the remainder \<open>x\<close> and the half gaps \<open>p\<close> and \<open>m\<close>, all scaled to this digit.\<close>

lemma final_int_cases:
  assumes "0 < st_s st"
  defines "x \<equiv> sR (next_state st)" and "p \<equiv> sP (next_state st)" and "m \<equiv> sM (next_state st)"
  assumes "cle ev x m \<or> cle ev 1 (x + p)"
  obtains (down) "final_int ev st = next_digit st" "cle ev x m" "cle ev 1 (x + p) \<Longrightarrow> 2 * x \<le> 1"
  | (up) "final_int ev st = next_digit st + 1" "cle ev 1 (x + p)" "cle ev x m \<Longrightarrow> 1 \<le> 2 * x"
proof -
  have s: "0 < st_s (next_state st)" using assms(1) by (simp add: next_state_def)
  have half: "2 * st_r (next_state st) < st_s (next_state st) \<longleftrightarrow> 2 * x < 1"
    "2 * st_r (next_state st) > st_s (next_state st) \<longleftrightarrow> 2 * x > 1"
  proof -
    have "2 * x < 1 \<longleftrightarrow> of_int (2 * st_r (next_state st)) < (of_int (st_s (next_state st)) :: rat)"
      "2 * x > 1 \<longleftrightarrow> of_int (2 * st_r (next_state st)) > (of_int (st_s (next_state st)) :: rat)"
      using s by (simp_all add: x_def sR_def field_simps)
    then show "2 * st_r (next_state st) < st_s (next_state st) \<longleftrightarrow> 2 * x < 1"
      "2 * st_r (next_state st) > st_s (next_state st) \<longleftrightarrow> 2 * x > 1"
      by (simp_all only: of_int_less_iff)
  qed
  note t = termination_rat [OF assms(1), of ev, folded x_def p_def m_def]
  show thesis
  proof (cases "cle ev x m \<and> cle ev 1 (x + p)")
    case True
    then have "final_int ev st = (if 2 * x < 1 then next_digit st else if 2 * x > 1 then next_digit st + 1
        else if next_digit st mod 2 = 0 then next_digit st else next_digit st + 1)"
      by (simp add: final_int_def Let_def t half)
    with True show thesis by (cases "2 * x < 1"; cases "2 * x > 1") (auto intro: down up split: if_splits)
  next
    case False
    with assms(5) show thesis by (auto simp: final_int_def Let_def t intro: down up)
  qed
qed

lemma cle_trans: "cle ev a b \<Longrightarrow> b \<le> c \<Longrightarrow> cle ev a c" "a \<le> b \<Longrightarrow> cle ev b c \<Longrightarrow> cle ev a c"
  by (auto simp: cle_def split: if_splits)

lemma cle_less: "a < b \<Longrightarrow> cle ev a b"
  by (simp add: cle_def)

lemma cle_le: "cle ev a b \<Longrightarrow> a \<le> b"
  by (simp add: cle_def split: if_splits)

lemma cle_add: "cle ev (a - c) b \<longleftrightarrow> cle ev a (b + c)" "cle ev (10 * a) (10 * b) \<longleftrightarrow> cle ev a b"
  by (auto simp: cle_def)

text \<open>The interval at this digit and the interval at the next one are the same numbers.\<close>

lemma interval_next:
  assumes "0 < st_s st"
  shows "in_interval ev (sR st) (sP st) (sM st) w \<longleftrightarrow>
     in_interval ev (sR (next_state st)) (sP (next_state st)) (sM (next_state st)) (10 * w - of_int (next_digit st))"
  using in_interval_scale [of 10 ev "sR st" "- of_int (next_digit st)" "sP st" "sM st" w] next_rationals [OF assms]
  by simp

text \<open>A candidate digit, its interval and its distance, seen from the state after the last digit.\<close>

lemma final_interval:
  assumes "0 < st_s st"
  shows "in_interval ev (sR st) (sP st) (sM st) (of_int e / 10) \<longleftrightarrow>
    in_interval ev (sR (next_state st)) (sP (next_state st)) (sM (next_state st)) (of_int (e - next_digit st))"
  using interval_next [OF assms, of ev "of_int e / 10"] by simp

lemma final_distance:
  assumes "0 < st_s st"
  shows "\<bar>of_int e / 10 - sR st\<bar> = \<bar>of_int (e - next_digit st) - sR (next_state st)\<bar> / 10"
proof -
  have "of_int e / 10 - sR st = (of_int (e - next_digit st) - sR (next_state st)) / 10"
    using next_rationals(1) [OF assms] by (simp add: field_simps)
  then show ?thesis by (simp only: abs_divide abs_numeral)
qed

text \<open>The loop ends at a state where rounding down or rounding up stays in the interval.\<close>

definition ends :: "bool \<Rightarrow> digitState \<Rightarrow> bool" where
  "ends ev st \<longleftrightarrow> cle ev (sR (next_state st)) (sM (next_state st)) \<or> cle ev 1 (sR (next_state st) + sP (next_state st))"

lemma final_range:
  assumes r: "ready ev st" and t: "ends ev st"
  shows "1 \<le> final_int ev st" "final_int ev st \<le> 9"
proof -
  have s: "0 < st_s st" using r by (simp add: ready_def)
  define x p m d where "x = sR (next_state st)" and "p = sP (next_state st)" and "m = sM (next_state st)" and "d = next_digit st"
  note nr = next_rationals [OF s, folded x_def p_def m_def d_def]
  have rd: "\<not> cle ev 10 (10 * sR st + p)" "\<not> cle ev (10 * sR st) m"
    using r nr cle_add(2) [of ev 1 "sR st + sP st"] cle_add(2) [of ev "sR st" "sM st"]
    by (auto simp: ready_def distrib_left)
  note d = next_digit_range [OF r, folded d_def]
  show "1 \<le> final_int ev st"
    using s t [unfolded ends_def]
  proof (cases rule: final_int_cases)
    case down
    have "d \<noteq> 0" using down(2) [folded x_def m_def] rd(2) nr(1) by auto
    with d down(1) show ?thesis by (simp add: d_def)
  qed (use d in \<open>simp add: d_def\<close>)
  show "final_int ev st \<le> 9"
    using s t [unfolded ends_def]
  proof (cases rule: final_int_cases)
    case up
    have "cle ev (of_int (d + 1)) (10 * sR st + p)"
      using up(2) [folded x_def p_def] cle_shift [of ev 1 "of_int d" "x + p"] nr(1) by (simp add: add.commute add.left_commute)
    with rd(1) d have "d \<noteq> 9" by auto
    with d up(1) show ?thesis by (simp add: d_def)
  qed (use d in \<open>simp add: d_def\<close>)
qed

lemma final_inside:
  assumes r: "ready ev st" and t: "ends ev st"
  shows "in_interval ev (sR st) (sP st) (sM st) (of_int (final_int ev st) / 10)"
proof -
  have s: "0 < st_s st" using r by (simp add: ready_def)
  note nr = next_rationals [OF s]
  have pm: "0 < sP (next_state st)" "0 < sM (next_state st)" using ready_pos(1,2) [OF r] nr by simp_all
  show ?thesis
    using s t [unfolded ends_def]
  proof (cases rule: final_int_cases)
    case down
    then show ?thesis unfolding final_interval [OF s] using pm nr(4)
      by (auto simp: in_interval_def cle_add intro: cle_less)
  next
    case up
    then show ?thesis unfolding final_interval [OF s] using pm nr(5)
      by (auto simp: in_interval_def intro: cle_less)
  qed
qed

lemma final_closest:
  assumes r: "ready ev st" and t: "ends ev st" and e: "in_interval ev (sR st) (sP st) (sM st) (of_int e / 10)"
  shows "\<bar>of_int (final_int ev st) / 10 - sR st\<bar> \<le> \<bar>of_int e / 10 - sR st\<bar>"
proof -
  have s: "0 < st_s st" using r by (simp add: ready_def)
  define x p m d where "x = sR (next_state st)" and "p = sP (next_state st)" and "m = sM (next_state st)" and "d = next_digit st"
  note nr = next_rationals [OF s, folded x_def p_def m_def d_def]
  have iv: "cle ev (x - m) (of_int (e - d))" "cle ev (of_int (e - d)) (x + p)"
    using e unfolding final_interval [OF s] by (simp_all add: in_interval_def x_def p_def m_def d_def)
  have "\<bar>of_int (final_int ev st - d) - x\<bar> \<le> \<bar>of_int (e - d) - x\<bar>"
    using s t [unfolded ends_def]
  proof (cases rule: final_int_cases)
    case down
    have "x \<le> \<bar>of_int (e - d) - x\<bar>"
    proof (cases "e - d \<le> 0")
      case True
      then have "of_int (e - d) \<le> (0::rat)" by simp
      with nr(4) show ?thesis by linarith
    next
      case False
      then have "(1::rat) \<le> of_int (e - d)" by simp
      moreover from this have "cle ev 1 (x + p)" using iv(2) cle_trans(2) by blast
      ultimately show ?thesis using down(3) [folded x_def p_def] by linarith
    qed
    then show ?thesis using down(1) nr(4) by (simp add: d_def)
  next
    case up
    have "1 - x \<le> \<bar>of_int (e - d) - x\<bar>"
    proof (cases "1 \<le> e - d")
      case True
      then have "(1::rat) \<le> of_int (e - d)" by simp
      with nr(5) show ?thesis by linarith
    next
      case False
      then have le: "of_int (e - d) \<le> (0::rat)" by simp
      then have "cle ev (x - m) 0" using iv(1) cle_trans(1) by blast
      then have "1 \<le> 2 * x" using up(3) [folded x_def m_def] by (simp add: cle_add)
      with le show ?thesis by linarith
    qed
    then show ?thesis using up(1) nr(5) by (simp add: d_def)
  qed
  then show ?thesis unfolding final_distance [OF s] d_def x_def by (rule divide_right_mono) simp
qed

lemma final_int_spec:
  assumes r: "ready ev st"
    and t: "cle ev (sR (next_state st)) (sM (next_state st)) \<or> cle ev 1 (sR (next_state st) + sP (next_state st))"
  shows "1 \<le> final_int ev st" "final_int ev st \<le> 9"
    "in_interval ev (sR st) (sP st) (sM st) (of_int (final_int ev st) / 10)"
    "in_interval ev (sR st) (sP st) (sM st) (of_int e / 10) \<Longrightarrow>
      \<bar>of_int (final_int ev st) / 10 - sR st\<bar> \<le> \<bar>of_int e / 10 - sR st\<bar>"
  using final_range [OF r] final_inside [OF r] final_closest [OF r] t unfolding ends_def by blast+

section \<open>The loop\<close>

text \<open>The digits as a fraction: the value of \<open>0.d1 d2 ... dk\<close>.\<close>

definition frac_val :: "bytes \<Rightarrow> rat" where
  "frac_val ds = of_int (digits_val ds) / 10 ^ length ds"

lemma frac_val_Cons: "frac_val (b # ds) = (of_int (digit_val b) + frac_val ds) / 10"
  by (simp add: frac_val_def digits_val_Cons add_divide_distrib)

lemma frac_val_Nil [simp]: "frac_val [] = 0"
  by (simp add: frac_val_def)

lemma digit_byte: "0 \<le> d \<Longrightarrow> d \<le> 9 \<Longrightarrow> digit_val (byte_of (48 + d)) = d \<and> isDec (byte_of (48 + d))"
  by (simp add: digit_val_def isDec_def byte_uint uint_byte_of)

lemma digit_byte_zero: "0 \<le> d \<Longrightarrow> d \<le> 9 \<Longrightarrow> byte_of (48 + d) = cZERO \<longleftrightarrow> d = 0"
  by (simp add: byte_eq_iff uint_byte_of)

text \<open>What a digit string must be for the state \<open>st\<close>: correct, shortest, closest, and written without a last zero.\<close>

definition good_digits :: "bool \<Rightarrow> digitState \<Rightarrow> bytes \<Rightarrow> bool" where
  "good_digits ev st ds \<longleftrightarrow> ds \<noteq> [] \<and> list_all isDec ds \<and> last ds \<noteq> cZERO
     \<and> in_interval ev (sR st) (sP st) (sM st) (frac_val ds)
     \<and> (\<forall>e j. j < length ds \<longrightarrow> \<not> in_interval ev (sR st) (sP st) (sM st) (of_int e / 10 ^ j))
     \<and> (\<forall>e. in_interval ev (sR st) (sP st) (sM st) (of_int e / 10 ^ length ds) \<longrightarrow>
          \<bar>frac_val ds - sR st\<bar> \<le> \<bar>of_int e / 10 ^ length ds - sR st\<bar>)"

lemma no_integer:
  assumes "ready ev st"
  shows "\<not> in_interval ev (sR st) (sP st) (sM st) (of_int e)"
proof
  assume "in_interval ev (sR st) (sP st) (sM st) (of_int e)"
  then have e: "cle ev (sR st - sM st) (of_int e)" "cle ev (of_int e) (sR st + sP st)" by (simp_all add: in_interval_def)
  have r: "\<not> cle ev 1 (sR st + sP st)" "\<not> cle ev (sR st) (sM st)" using assms by (simp_all add: ready_def)
  show False
  proof (cases "1 \<le> e")
    case True
    then have "(1::rat) \<le> of_int e" by simp
    with e(2) r(1) cle_trans(2) show False by blast
  next
    case False
    then have "of_int e \<le> (0::rat)" by simp
    with e(1) have "cle ev (sR st - sM st) 0" using cle_trans(1) by blast
    with r(2) show False by (simp add: cle_add)
  qed
qed

lemma good_digits_last:
  assumes "ready ev st" "cle ev (sR (next_state st)) (sM (next_state st)) \<or> cle ev 1 (sR (next_state st) + sP (next_state st))"
  shows "good_digits ev st [byte_of (48 + final_int ev st)]"
  using final_int_spec [OF assms] no_integer [OF assms(1)] digit_byte [of "final_int ev st"]
    digit_byte_zero [of "final_int ev st"]
  by (simp add: good_digits_def frac_val_Cons)

lemma good_digits_more:
  assumes r: "ready ev st" and ds: "good_digits ev (next_state st) ds"
  shows "good_digits ev st (byte_of (48 + next_digit st) # ds)"
proof -
  have s: "0 < st_s st" using r by (simp add: ready_def)
  note d = digit_byte [OF next_digit_range [OF r]]
  note nr = next_rationals [OF s]
  let ?b = "byte_of (48 + next_digit st)"
  have fv: "10 * frac_val (?b # ds) - of_int (next_digit st) = frac_val ds" using d by (simp add: frac_val_Cons add_divide_distrib)
  have sh: "10 * (of_int e / 10 ^ Suc j) - of_int (next_digit st) = of_int (e - next_digit st * 10 ^ j) / (10::rat) ^ j" for e j
    by (simp add: field_simps)
  have dist: "\<bar>w - sR st\<bar> = \<bar>(10 * w - of_int (next_digit st)) - sR (next_state st)\<bar> / 10" for w
  proof -
    have "w - sR st = ((10 * w - of_int (next_digit st)) - sR (next_state st)) / 10" using nr(1) by simp
    then show ?thesis by (simp only: abs_divide abs_numeral)
  qed
  have "in_interval ev (sR st) (sP st) (sM st) (frac_val (?b # ds))"
    unfolding interval_next [OF s] fv using ds by (simp add: good_digits_def)
  moreover have "\<not> in_interval ev (sR st) (sP st) (sM st) (of_int e / 10 ^ j)" if "j < length (?b # ds)" for e j
  proof (cases j)
    case 0
    then show ?thesis using no_integer [OF r] by simp
  next
    case (Suc i)
    with ds that have "\<forall>e. \<not> in_interval ev (sR (next_state st)) (sP (next_state st)) (sM (next_state st)) (of_int e / 10 ^ i)"
      by (simp add: good_digits_def)
    then show ?thesis unfolding Suc interval_next [OF s] sh by blast
  qed
  moreover have "\<bar>frac_val (?b # ds) - sR st\<bar> \<le> \<bar>of_int e / 10 ^ length (?b # ds) - sR st\<bar>"
    if "in_interval ev (sR st) (sP st) (sM st) (of_int e / 10 ^ length (?b # ds))" for e
  proof -
    have "in_interval ev (sR (next_state st)) (sP (next_state st)) (sM (next_state st))
        (of_int (e - next_digit st * 10 ^ length ds) / 10 ^ length ds)"
      using that unfolding interval_next [OF s] list.size One_nat_def add_Suc_right add_0_right sh .
    then have "\<bar>frac_val ds - sR (next_state st)\<bar>
        \<le> \<bar>of_int (e - next_digit st * 10 ^ length ds) / 10 ^ length ds - sR (next_state st)\<bar>"
      using ds unfolding good_digits_def by blast
    then show ?thesis
      unfolding dist [of "frac_val (?b # ds)"] fv list.size One_nat_def add_Suc_right add_0_right
        dist [of "of_int e / 10 ^ Suc (length ds)"] sh by (rule divide_right_mono) simp
  qed
  ultimately show ?thesis using ds d by (simp add: good_digits_def)
qed

lemma ready_next:
  assumes "ready ev st" "\<not> (cle ev (sR (next_state st)) (sM (next_state st)) \<or> cle ev 1 (sR (next_state st) + sP (next_state st)))"
  shows "ready ev (next_state st)"
  using assms by (auto simp: ready_def next_state_def)

text \<open>
  The loop ends when the interval is wider than one unit of the current digit: with \<open>b\<close> free places in
  the buffer it does if \<open>(m+ + m-) 10^b > 1\<close>, and uses at most \<open>b\<close> of them.
\<close>

lemma extractLoop_spec:
  assumes "ready ev st" "1 < (sP st + sM st) * 10 ^ b" "length buf + b \<le> digitBufSize"
  shows "\<exists>ds. extractLoop st ev buf = Some (buf @ ds) \<and> good_digits ev st ds \<and> length ds \<le> b"
  using assms
proof (induction b arbitrary: st buf)
  case 0
  then have "1 < sP st + sM st" by simp
  moreover have "sM st \<le> sR st" "sR st + sP st \<le> 1" using 0(1) by (auto simp: ready_def cle_def split: if_splits)
  ultimately show ?case by linarith
next
  case (Suc b)
  have s: "0 < st_s st" using Suc(2) by (simp add: ready_def)
  note nr = next_rationals [OF s]
  let ?st = "next_state st"
  have unf: "extractLoop st ev buf = (if \<not> (cle ev (sR ?st) (sM ?st) \<or> cle ev 1 (sR ?st + sP ?st))
      then extractLoop ?st ev (buf @ [byte_of (48 + next_digit st)])
      else Some (buf @ [byte_of (48 + final_int ev st)]))"
    using Suc(4) finalDigit_int [of st ev]
    by (cases "cle ev (sR ?st) (sM ?st)"; cases "cle ev 1 (sR ?st + sP ?st)"; subst extractLoop.simps;
        simp add: divide_scale termination_rat [OF s])
  show ?case
  proof (cases "cle ev (sR ?st) (sM ?st) \<or> cle ev 1 (sR ?st + sP ?st)")
    case True
    then show ?thesis using unf good_digits_last [OF Suc(2) True] by auto
  next
    case False
    have "1 < (sP ?st + sM ?st) * 10 ^ b" using Suc(3) nr by (simp add: algebra_simps)
    from Suc(1) [OF ready_next [OF Suc(2) False] this, of "buf @ [byte_of (48 + next_digit st)]"] Suc(4)
    obtain ds where "extractLoop ?st ev (buf @ [byte_of (48 + next_digit st)]) =
        Some ((buf @ [byte_of (48 + next_digit st)]) @ ds)" "good_digits ev ?st ds" "length ds \<le> b" by auto
    with unf False good_digits_more [OF Suc(2)] show ?thesis
      by (intro exI [of _ "byte_of (48 + next_digit st) # ds"]) simp
  qed
qed

section \<open>Carry and zeros\<close>

lemma carryLoop_id: "list_all isDec ds \<Longrightarrow> i < length ds \<Longrightarrow> carryLoop i ds = ds"
proof (induction i)
  case (Suc i)
  then have "isDec (ds ! Suc i)" by (simp add: list_all_length)
  with Suc show ?case by (simp add: isDec_def not_less [symmetric])
qed simp

lemma normalize_id:
  assumes "ds \<noteq> []" "list_all isDec ds" "last ds \<noteq> cZERO"
  shows "normalizeDigitBuffer ds n = Some (ds, n)"
proof -
  have "carryLoop (length ds - 1) ds = ds" using assms by (intro carryLoop_id) auto
  moreover have "\<not> ds ! 0 > cNINE" using assms(1,2) by (cases ds) (auto simp: isDec_def not_less [symmetric])
  moreover have "stripZeros ds = ds" using assms(3) by (simp add: stripZeros.simps [of ds])
  ultimately show ?thesis by (simp add: normalizeDigitBuffer_def)
qed

lemma extractDigits_spec:
  assumes "ready ev st" "1 < (sP st + sM st) * 10 ^ b" "b \<le> digitBufSize"
  shows "\<exists>ds. extractDigits st ev n = Some (ds, n) \<and> good_digits ev st ds \<and> length ds \<le> b"
proof -
  obtain ds where ds: "extractLoop st ev [] = Some ds" "good_digits ev st ds" "length ds \<le> b"
    using extractLoop_spec [OF assms(1,2), of "[]"] assms(3) by auto
  then have "normalizeDigitBuffer ds n = Some (ds, n)" by (intro normalize_id) (simp_all add: good_digits_def)
  with ds show ?thesis by (simp add: extractDigits_def)
qed

end
