(* ===== verification/Jcsfloat_Generate.thy ===== *)
theory Jcsfloat_Generate
  imports Jcsfloat_Digits
begin

text \<open>
  From a double to its digits: the exact scaled state, the two fixups of the estimated exponent, and what
  \<open>generateDigits\<close> returns.
\<close>

section \<open>The parts of a double\<close>

lemma exponentBits_eq: "exponentBits f = expField f"
proof -
  define w where "w = uint f div 2 ^ 48"
  have 1: "uint f div 2 ^ 56 = w div 256" "uint f div 2 ^ 52 = w div 16"
    by (simp_all add: w_def flip: zdiv_zmult2_eq)
  have 2: "w div 256 = w div 16 div 16" by (simp flip: zdiv_zmult2_eq)
  have 3: "w mod 256 div 16 = w div 16 mod 16"
  proof -
    have "w mod 256 = 16 * (w div 16 mod 16) + w mod 16" using zmod_zmult2_eq [of 16 w 16] by simp
    then show ?thesis by simp
  qed
  have 4: "w div 256 mod 256 mod 128 = w div 16 div 16 mod 128" unfolding 2 by (simp add: mod_mod_cancel)
  have 5: "w div 16 mod 2048 = 16 * (w div 16 div 16 mod 128) + w div 16 mod 16"
    using zmod_zmult2_eq [of 128 "w div 16" 16] by simp
  have "exponentBits f = (w div 256 mod 256) mod 128 * 16 + w mod 256 div 16"
    by (simp only: exponentBits_def Let_def 1 w_def)
  also have "\<dots> = w div 16 mod 2048" unfolding 3 4 5 by simp
  finally show ?thesis by (simp only: expField_def 1)
qed

definition lower_boundary :: "float64 \<Rightarrow> bool" where
  "lower_boundary f \<longleftrightarrow> 1 < expField f \<and> mantField f = 0"

lemma decodeFloatParts_eq:
  "fMant (decodeFloatParts f) = signif f" "fExp (decodeFloatParts f) = exponent2 f"
  "lowerBoundary (decodeFloatParts f) = lower_boundary f" "isEven (decodeFloatParts f) = even (signif f)"
proof -
  have m: "uint f mod 2 ^ 52 = mantField f" by (simp add: mantField_def)
  show "fMant (decodeFloatParts f) = signif f" "fExp (decodeFloatParts f) = exponent2 f"
    "lowerBoundary (decodeFloatParts f) = lower_boundary f" "isEven (decodeFloatParts f) = even (signif f)"
    unfolding decodeFloatParts_def Let_def exponentBits_eq m
    by (simp_all add: signif_def exponent2_def lower_boundary_def even_iff_mod_2_eq_zero)
qed

text \<open>The spacing of the doubles at \<open>f\<close>, and half the distances to its neighbours.\<close>

definition ulp :: "float64 \<Rightarrow> rat" where "ulp f = 2 powi exponent2 f"
definition half_up :: "float64 \<Rightarrow> rat" where "half_up f = ulp f / 2"
definition half_down :: "float64 \<Rightarrow> rat" where "half_down f = (if lower_boundary f then ulp f / 4 else ulp f / 2)"

lemma ulp_pos: "0 < ulp f" "0 < half_up f" "0 < half_down f"
  by (simp_all add: ulp_def half_up_def half_down_def zero_less_power_int)

section \<open>Scaled states\<close>

definition scaled :: "digitState \<Rightarrow> rat \<Rightarrow> rat \<Rightarrow> rat \<Rightarrow> int \<Rightarrow> bool" where
  "scaled st v p m n \<longleftrightarrow> 0 < st_s st \<and> 0 < mPlus st \<and> 0 < mMinus st
     \<and> sR st = v / 10 powi n \<and> sP st = p / 10 powi n \<and> sM st = m / 10 powi n"

lemma powi_nat: "0 \<le> n \<Longrightarrow> (x::rat) powi n = x ^ nat n" "n < 0 \<Longrightarrow> (x::rat) powi n = 1 / x ^ nat (- n)"
  by (simp_all add: power_int_def divide_inverse power_inverse)

lemma lshByInt_nonneg: "0 \<le> n \<Longrightarrow> lshByInt z n = z * 2 ^ nat n"
  by (simp add: lshByInt_def)

lemma initScaledState_scaled:
  "scaled (initScaledState (decodeFloatParts f)) (of_int (signif f) * ulp f) (half_up f) (half_down f) 0"
proof (cases "0 \<le> exponent2 f")
  case True
  define e where "e = nat (exponent2 f)"
  have e: "exponent2 f = int e" using True by (simp add: e_def)
  have u: "ulp f = 2 ^ e" by (simp add: ulp_def e)
  have "nat (int e + 1) = Suc e" "nat (int e + 2) = Suc (Suc e)" by simp_all
  then show ?thesis
    unfolding scaled_def initScaledState_def decodeFloatParts_eq initScaledPositiveExp_def
    by (simp add: e lshByInt_nonneg sR_def sP_def sM_def half_up_def half_down_def u Let_def)
next
  case False
  define e where "e = nat (- exponent2 f)"
  have e: "exponent2 f = - int e" "0 < e" using False by (simp_all add: e_def)
  have u: "ulp f = 1 / 2 ^ e" using e by (simp add: ulp_def power_int_minus divide_inverse)
  have "nat (int e + 1) = Suc e" "nat (int e + 2) = Suc (Suc e)" by simp_all
  with e show ?thesis
    unfolding scaled_def initScaledState_def decodeFloatParts_eq initScaledNegativeExp_def
    by (simp add: lshByInt_nonneg lshByInt_def sR_def sP_def sM_def half_up_def half_down_def u Let_def field_simps)
qed

lemma scaleByPower10_scaled:
  assumes "scaled st v p m 0"
  shows "scaled (scaleByPower10 st k) v p m k"
proof -
  consider "k > 0" | "k < 0" | "k = 0" by linarith
  then show ?thesis
    using assms by cases (auto simp: scaled_def scaleByPower10_def pow10Big_def sR_def sP_def sM_def Let_def powi_nat)
qed

lemma powi_step: "(10::rat) powi (n + 1) = 10 * 10 powi n" "(10::rat) powi (1 + n) = 10 * 10 powi n"
  "(10::rat) powi (n - 1) = 10 powi n / 10"
  by (simp_all add: power_int_add power_int_diff)

lemma pow_pos [simp]: "0 < (10::rat) powi n" "0 \<le> (10::rat) powi n"
  by (simp_all add: zero_less_power_int)

lemma applyHighFixup_scaled:
  assumes "scaled st v p m n" "v + p < 10 powi (n + 1)" "applyHighFixup st ev n = (n', st')"
  shows "scaled st' v p m n' \<and> \<not> cle ev 1 (sR st' + sP st')"
proof (cases "cle ev 1 (sR st + sP st)")
  case True
  with assms have eq: "n' = n + 1" "st' = st\<lparr>st_s := st_s st * 10\<rparr>"
    by (auto simp: applyHighFixup_def cmp_cle scaled_def)
  then have sc: "scaled st' v p m n'"
    using assms(1) by (simp add: scaled_def sR_def sP_def sM_def powi_step field_simps)
  then have "sR st' + sP st' = (v + p) / 10 powi (n + 1)" by (simp add: scaled_def eq add_divide_distrib)
  also have "\<dots> < 1" using assms(2) by simp
  finally show ?thesis using sc by (auto simp: cle_def)
next
  case False
  with assms show ?thesis by (auto simp: applyHighFixup_def cmp_cle scaled_def)
qed

lemma applyLowFixup_scaled:
  assumes "scaled st v p m n" "\<not> cle ev 1 (sR st + sP st)" "1 < 10 ^ b * (sR st + sP st)" "0 < p"
  shows "\<exists>n' st'. applyLowFixup st ev n = Some (n', st') \<and> scaled st' v p m n' \<and> \<not> cle ev 1 (sR st' + sP st')
     \<and> cle ev 1 (10 * (sR st' + sP st'))"
  using assms(1,2,3)
proof (induction b arbitrary: st n)
  case 0
  then show ?case by (auto simp: cle_def split: if_splits)
next
  case (Suc b)
  have s: "0 < st_s st" "0 < sP st" using Suc(2) assms(4) by (simp_all add: scaled_def)
  show ?case
  proof (cases "cle ev 1 (10 * (sR st + sP st))")
    case True
    have "applyLowFixup st ev n = Some (n, st)"
      using True by (subst applyLowFixup.simps) (simp only: cmp_cle(4) [OF s(1), symmetric] if_False if_True simp_thms split: if_split)
    with Suc True show ?thesis by blast
  next
    case False
    then have "\<not> cle ev 1 (10 * sR st)" using cle_trans(1) [of ev 1 "10 * sR st" "10 * (sR st + sP st)"] s by auto
    with False have unf: "applyLowFixup st ev n =
        applyLowFixup (st\<lparr>st_r := st_r st * 10, mPlus := mPlus st * 10, mMinus := mMinus st * 10\<rparr>) ev (n - 1)"
      (is "_ = applyLowFixup ?st ev _")
      by (subst applyLowFixup.simps) (simp only: cmp_cle(3,4) [OF s(1)] if_False simp_thms)
    have ten: "sR ?st = 10 * sR st" "sP ?st = 10 * sP st" "sM ?st = 10 * sM st" by (simp_all add: sR_def sP_def sM_def)
    have "scaled ?st v p m (n - 1)" using Suc(2) by (simp add: scaled_def ten powi_step)
    moreover have "\<not> cle ev 1 (sR ?st + sP ?st)" using False by (simp add: ten distrib_left)
    moreover have "1 < 10 ^ b * (sR ?st + sP ?st)" using Suc(4) by (simp add: ten algebra_simps)
    ultimately show ?thesis using Suc(1) unf by metis
  qed
qed

text \<open>The exponent is over-estimated by as much as it likes, and under-estimated by less than one.\<close>

definition estimate_ok :: "fmath \<Rightarrow> float64 \<Rightarrow> bool" where
  "estimate_ok M f \<longleftrightarrow> of_int (signif f) * ulp f + half_up f < 10 powi (estimateK M f + 1)"

lemma ex_power10: "0 < x \<Longrightarrow> \<exists>b. 1 < 10 ^ b * (x::rat)"
proof -
  assume x: "0 < x"
  obtain b where "inverse x < of_nat b" using reals_Archimedean2 [of "inverse x"] by blast
  moreover have "b < 10 ^ b" by (induction b) auto
  then have "of_nat b < (10::rat) ^ b" by (metis of_nat_less_iff of_nat_numeral of_nat_power)
  ultimately have "inverse x < 10 ^ b" by linarith
  with x show ?thesis by (intro exI [of _ b]) (simp add: inverse_eq_divide divide_less_eq)
qed

lemma signif_bounds: "finite64 f \<Longrightarrow> 0 \<le> signif f \<and> signif f < 2 ^ 53"
  using field_bounds [of f] by (auto simp: signif_def)

lemma signif_pos: "\<not> isZero f \<Longrightarrow> 0 < signif f"
  using field_bounds [of f] by (auto simp: signif_def isZero_def)

lemma lower_boundary_signif: "lower_boundary f \<Longrightarrow> signif f = 2 ^ 52"
  by (auto simp: lower_boundary_def signif_def)

text \<open>What the digits and the exponent of a double must satisfy; \<open>v\<close> is its magnitude.\<close>

definition digits_of :: "float64 \<Rightarrow> bytes \<Rightarrow> int \<Rightarrow> bool" where
  "digits_of f ds n \<longleftrightarrow> (\<exists>st. scaled st (of_int (signif f) * ulp f) (half_up f) (half_down f) n
     \<and> ready (even (signif f)) st \<and> cle (even (signif f)) 1 (10 * (sR st + sP st))
     \<and> good_digits (even (signif f)) st ds \<and> length ds \<le> 17)"

lemma generateDigits_spec:
  assumes "finite64 f" "\<not> isZero f" "estimate_ok M f"
  shows "\<exists>ds n. generateDigits M f = Some (ds, n) \<and> digits_of f ds n"
proof -
  let ?v = "of_int (signif f) * ulp f" and ?ev = "even (signif f)"
  let ?st1 = "scaleByPower10 (initScaledState (decodeFloatParts f)) (estimateK M f)"
  note up = ulp_pos [of f]
  have sig: "1 \<le> signif f" "signif f < 2 ^ 53" using signif_pos [OF assms(2)] signif_bounds [OF assms(1)] by auto
  then have M: "1 \<le> (of_int (signif f) :: rat)" "of_int (signif f) \<le> (2 ^ 53 - 1 :: rat)"
  proof -
    have "signif f \<le> 2 ^ 53 - 1" using sig by simp
    then have "of_int (signif f) \<le> (of_int (2 ^ 53 - 1) :: rat)" by (rule of_int_le_iff [THEN iffD2])
    then show "of_int (signif f) \<le> (2 ^ 53 - 1 :: rat)" by simp
  qed (use sig in simp)
  have v: "ulp f \<le> ?v" "?v \<le> (2 ^ 53 - 1) * ulp f" using M up by (simp_all only: mult_right_mono mult_le_cancel_right1, simp_all)
  have s1: "scaled ?st1 ?v (half_up f) (half_down f) (estimateK M f)"
    by (rule scaleByPower10_scaled [OF initScaledState_scaled])
  obtain n1 st2 where h: "applyHighFixup ?st1 ?ev (estimateK M f) = (n1, st2)" by fastforce
  from applyHighFixup_scaled [OF s1 _ h] assms(3) have s2: "scaled st2 ?v (half_up f) (half_down f) n1"
    "\<not> cle ?ev 1 (sR st2 + sP st2)" by (auto simp: estimate_ok_def)
  have "0 < sR st2 + sP st2" using s2(1) v up by (simp add: scaled_def add_pos_pos)
  then obtain b where "1 < 10 ^ b * (sR st2 + sP st2)" using ex_power10 by blast
  from applyLowFixup_scaled [OF s2 this up(2)] obtain n st where l: "applyLowFixup st2 ?ev n1 = Some (n, st)"
    "scaled st ?v (half_up f) (half_down f) n" "\<not> cle ?ev 1 (sR st + sP st)" "cle ?ev 1 (10 * (sR st + sP st))" by blast
  have "half_down f < ?v" using up v by (simp add: half_down_def half_up_def)
  then have "sM st < sR st" using l(2) by (simp add: scaled_def divide_strict_right_mono)
  then have rd: "ready ?ev st" using l(2,3) by (simp add: ready_def scaled_def cle_def)
  have "1 < (sP st + sM st) * 10 ^ 17"
  proof -
    have "1 \<le> 10 * ((?v + half_up f) / 10 powi n)" using cle_le [OF l(4)] l(2) by (simp add: scaled_def add_divide_distrib)
    moreover have "10 * (?v + half_up f) < (half_up f + half_down f) * 10 ^ 17"
    proof (cases "lower_boundary f")
      case True
      then show ?thesis using up by (simp add: half_up_def half_down_def lower_boundary_signif)
    next
      case False
      then show ?thesis using up v by (simp add: half_up_def half_down_def)
    qed
    then have "10 * ((?v + half_up f) / 10 powi n) < (half_up f + half_down f) * 10 ^ 17 / 10 powi n"
      by (simp only: times_divide_eq_right divide_strict_right_mono pow_pos)
    ultimately show ?thesis using l(2) by (simp add: scaled_def add_divide_distrib distrib_right)
  qed
  from extractDigits_spec [OF rd this, of n] obtain ds where
    "extractDigits st ?ev n = Some (ds, n)" "good_digits ?ev st ds" "length ds \<le> 17" by (auto simp: digitBufSize_def)
  with l rd h show ?thesis
    unfolding digits_of_def generateDigits_def Let_def decodeFloatParts_eq by fastforce
qed

end
