(* ===== verification/Jcsfloat_Round.thy ===== *)
theory Jcsfloat_Round
  imports Jcsfloat_Generate
begin

text \<open>
  Rounding to the nearest double in terms of intervals: \<open>roundBits n d\<close> are the bits of the double \<open>f\<close>
  exactly when \<open>n / d\<close> lies within half the distance to the neighbours of \<open>f\<close>, the ends included when
  the significand of \<open>f\<close> is even.
\<close>

section \<open>The binary logarithm\<close>

lemma bitlen_bounds: "0 < n \<Longrightarrow> 0 < bitlen n \<and> 2 ^ nat (bitlen n - 1) \<le> n \<and> n < 2 ^ nat (bitlen n)"
proof (induction n rule: bitlen.induct)
  case (1 n)
  have eq: "bitlen n = 1 + bitlen (n div 2)" using 1(2) by (subst bitlen.simps) simp
  show ?case
  proof (cases "n = 1")
    case True
    then show ?thesis by (simp add: eq bitlen.simps)
  next
    case False
    with 1 have IH: "0 < bitlen (n div 2)" "2 ^ nat (bitlen (n div 2) - 1) \<le> n div 2" "n div 2 < 2 ^ nat (bitlen (n div 2))"
      by auto
    define b where "b = nat (bitlen (n div 2) - 1)"
    have "nat (bitlen (n div 2)) = Suc b" "nat (bitlen n) = Suc (Suc b)" "nat (bitlen n - 1) = Suc b"
      using IH(1) by (auto simp: b_def eq nat_eq_iff)
    moreover have "2 ^ b \<le> n div 2" "n div 2 < 2 ^ Suc b" using IH calculation by (simp_all add: b_def)
    moreover have "2 * (n div 2) \<le> n" "n < 2 * (n div 2) + 2" by linarith+
    ultimately show ?thesis using IH(1) by (auto simp: eq)
  qed
qed

lemma two_powi_pos [simp]: "0 < (2::rat) powi n"
  by (simp add: zero_less_power_int)

lemma powi_nat_of_int: "0 \<le> k \<Longrightarrow> (2::rat) powi k = of_int (2 ^ nat k)"
  by (simp add: powi_nat)

lemma powi_int_cmp:
  "0 \<le> k \<Longrightarrow> (2::rat) powi k \<le> of_int n \<longleftrightarrow> 2 ^ nat k \<le> n" "0 \<le> k \<Longrightarrow> of_int n < (2::rat) powi k \<longleftrightarrow> n < 2 ^ nat k"
  by (simp_all only: powi_nat_of_int of_int_le_iff of_int_less_iff)

lemma two_powi_add: "(2::rat) powi (a + b) = 2 powi a * 2 powi b"
  by (simp add: power_int_add)

lemma floorLog2_bounds:
  assumes "0 < n" "0 < d"
  shows "2 powi floorLog2 n d * of_int d \<le> (of_int n :: rat)" "(of_int n :: rat) < 2 powi (floorLog2 n d + 1) * of_int d"
proof -
  define k where "k = bitlen n - bitlen d"
  let ?a = "bitlen n" and ?b = "bitlen d"
  note bn = bitlen_bounds [OF assms(1)] and bd = bitlen_bounds [OF assms(2)]
  have n: "2 powi (?a - 1) \<le> (of_int n::rat)" "of_int n < (2::rat) powi ?a"
    using bn by (simp_all add: powi_int_cmp)
  have d: "2 powi (?b - 1) \<le> (of_int d::rat)" "of_int d < (2::rat) powi ?b"
    using bd by (simp_all add: powi_int_cmp)
  have up: "of_int n < 2 powi (k + 1) * (of_int d::rat)"
  proof -
    have "(2::rat) powi ?a = 2 powi (k + 1) * 2 powi (?b - 1)" by (simp add: k_def flip: two_powi_add)
    also have "\<dots> \<le> 2 powi (k + 1) * of_int d" using d(1) by (intro mult_left_mono) simp_all
    finally show ?thesis using n(2) by linarith
  qed
  have low: "2 powi (k - 1) * (of_int d::rat) \<le> of_int n"
  proof -
    have "2 powi (k - 1) * (of_int d::rat) \<le> 2 powi (k - 1) * 2 powi ?b" using d(2) by (intro mult_left_mono) simp_all
    also have "\<dots> = 2 powi (?a - 1)" by (simp add: k_def flip: two_powi_add)
    finally show ?thesis using n(1) by linarith
  qed
  have test: "(if 0 \<le> k then 2 ^ nat k * d \<le> n else d \<le> n * 2 ^ nat (- k)) \<longleftrightarrow> 2 powi k * (of_int d::rat) \<le> of_int n"
  proof (cases "0 \<le> k")
    case True
    have "2 powi k * (of_int d::rat) = of_int (2 ^ nat k * d)" by (simp add: powi_nat_of_int [OF True])
    with True show ?thesis by (simp only: of_int_le_iff if_True)
  next
    case False
    have "2 powi k * (of_int d::rat) \<le> of_int n \<longleftrightarrow> of_int d \<le> of_int n * (2::rat) ^ nat (- k)"
      using False by (simp add: powi_nat divide_le_eq)
    also have "\<dots> \<longleftrightarrow> of_int d \<le> (of_int (n * 2 ^ nat (- k)) :: rat)" by simp
    finally show ?thesis using False by (simp only: of_int_le_iff if_False)
  qed
  have "floorLog2 n d = (if 2 powi k * (of_int d::rat) \<le> of_int n then k else k - 1)"
    unfolding floorLog2_def Let_def k_def [symmetric] test by simp
  then show "2 powi floorLog2 n d * of_int d \<le> (of_int n :: rat)" "(of_int n :: rat) < 2 powi (floorLog2 n d + 1) * of_int d"
    using up low by (auto split: if_splits)
qed

section \<open>Rounding half to even\<close>

definition half_even :: "int \<Rightarrow> int \<Rightarrow> int" where
  "half_even n d = (let q = n div d in if d < 2 * (n mod d) \<or> (d = 2 * (n mod d) \<and> odd q) then q + 1 else q)"

text \<open>\<open>n / d\<close> is within one half of \<open>s\<close>, the ends included when \<open>s\<close> is even.\<close>

definition near :: "int \<Rightarrow> rat \<Rightarrow> bool" where
  "near s y \<longleftrightarrow> cle (even s) (of_int s - 1 / 2) y \<and> cle (even s) y (of_int s + 1 / 2)"

lemma near_int:
  assumes "0 < d"
  shows "near s (of_int n / of_int d) \<longleftrightarrow>
    (if even s then (2 * s - 1) * d \<le> 2 * n \<and> 2 * n \<le> (2 * s + 1) * d else (2 * s - 1) * d < 2 * n \<and> 2 * n < (2 * s + 1) * d)"
proof -
  have c: "of_int s - 1 / 2 \<le> (of_int n / of_int d :: rat) \<longleftrightarrow> of_int ((2 * s - 1) * d) \<le> (of_int (2 * n) :: rat)"
    "of_int s - 1 / 2 < (of_int n / of_int d :: rat) \<longleftrightarrow> of_int ((2 * s - 1) * d) < (of_int (2 * n) :: rat)"
    "(of_int n / of_int d :: rat) \<le> of_int s + 1 / 2 \<longleftrightarrow> of_int (2 * n) \<le> (of_int ((2 * s + 1) * d) :: rat)"
    "(of_int n / of_int d :: rat) < of_int s + 1 / 2 \<longleftrightarrow> of_int (2 * n) < (of_int ((2 * s + 1) * d) :: rat)"
    using assms by (simp_all add: field_simps)
  show ?thesis
    by (cases "even s") (simp_all only: near_def cle_def c of_int_le_iff of_int_less_iff if_True if_False simp_thms)
qed

lemma half_even_iff:
  assumes "0 < d"
  shows "half_even n d = s \<longleftrightarrow> near s (of_int n / of_int d)"
proof -
  define q r where "q = n div d" and "r = n mod d"
  have n: "n = d * q + r" "0 \<le> r" "r < d" using assms by (simp_all add: q_def r_def)
  have he: "half_even n d = (if d < 2 * r \<or> (d = 2 * r \<and> odd q) then q + 1 else q)" by (simp add: half_even_def Let_def q_def r_def)
  define P where "P = 2 * (s - q) * d"
  have lo: "(2 * s - 1) * d \<le> 2 * n \<longleftrightarrow> P \<le> d + 2 * r" "(2 * s - 1) * d < 2 * n \<longleftrightarrow> P < d + 2 * r"
    and hi: "2 * n \<le> (2 * s + 1) * d \<longleftrightarrow> 2 * r - d \<le> P" "2 * n < (2 * s + 1) * d \<longleftrightarrow> 2 * r - d < P"
    unfolding n(1) P_def by (simp_all add: algebra_simps)
  consider "s = q" | "s = q + 1" | "s - q \<le> -1" | "2 \<le> s - q" by linarith
  then show ?thesis
  proof cases
    case 1
    then have "P = 0" by (simp add: P_def)
    with 1 show ?thesis unfolding he near_int [OF assms] lo hi using n(2,3) by auto
  next
    case 2
    then have "P = 2 * d" by (simp add: P_def)
    with 2 show ?thesis unfolding he near_int [OF assms] lo hi using n(2,3) by auto
  next
    case 3
    then have "P \<le> 2 * (-1) * d" unfolding P_def using assms by (intro mult_right_mono mult_left_mono) simp_all
    then show ?thesis unfolding he near_int [OF assms] lo hi using n(2,3) assms 3 by auto
  next
    case 4
    then have "2 * 2 * d \<le> P" unfolding P_def using assms by (intro mult_right_mono mult_left_mono) simp_all
    then show ?thesis unfolding he near_int [OF assms] lo hi using n(2,3) assms 4 by auto
  qed
qed

section \<open>Rounding to a double\<close>

text \<open>\<open>roundBits\<close> picks the binade \<open>e\<close> and rounds \<open>x / 2 ^ e\<close> half to even.\<close>

lemma roundBits_eq:
  assumes "0 < n" "0 < d"
  obtains e m where "roundBits n d = (e + 1074) * 2 ^ 52 + m" "-1074 \<le> e"
    "near m (of_int n / of_int d / 2 powi e)" "of_int n / of_int d / 2 powi e < (2 ^ 53 :: rat)"
    "e = -1074 \<or> 2 ^ 52 \<le> (of_int n / of_int d / 2 powi e :: rat)"
proof -
  define L where "L = floorLog2 n d"
  define e where "e = max (-1074) (L - 52)"
  define x where "x = (of_int n / of_int d :: rat)"
  define n' where "n' = (if 0 \<le> e then n else n * 2 ^ nat (- e))"
  define d' where "d' = (if 0 \<le> e then d * 2 ^ nat e else d)"
  have d': "0 < d'" using assms by (simp add: d'_def)
  have quot: "of_int n' / of_int d' = x / 2 powi e"
    using assms by (simp add: n'_def d'_def x_def powi_nat)
  have x: "2 powi L \<le> x" "x < 2 powi (L + 1)"
    using floorLog2_bounds [OF assms] assms by (simp_all add: x_def L_def le_divide_eq divide_less_eq)
  have "roundBits n d = (e + 1074) * 2 ^ 52 + half_even n' d'"
    unfolding roundBits_def Let_def L_def [symmetric] e_def [symmetric] n'_def [symmetric] d'_def [symmetric]
      half_even_def by simp
  moreover have "near (half_even n' d') (x / 2 powi e)" using half_even_iff [OF d', of n' "half_even n' d'"] quot by simp
  moreover have "x / 2 powi e < 2 ^ 53"
  proof -
    have "x < 2 powi (L + 1)" by (rule x)
    also have "\<dots> \<le> 2 powi (e + 53)" by (rule power_int_increasing) (simp_all add: e_def)
    also have "\<dots> = 2 powi e * 2 ^ 53" by (simp add: two_powi_add powi_nat)
    finally show ?thesis by (simp add: divide_less_eq mult.commute)
  qed
  moreover have "e = -1074 \<or> 2 ^ 52 \<le> x / 2 powi e"
  proof (cases "e = -1074")
    case False
    then have "L = e + 52" by (auto simp: e_def)
    then have "2 powi e * 2 ^ 52 \<le> x" using x(1) by (simp add: two_powi_add powi_nat)
    then show ?thesis by (simp add: le_divide_eq mult.commute)
  qed simp
  ultimately show thesis using that [of e "half_even n' d'"] by (simp add: e_def x_def)
qed

lemma near_bounds:
  assumes "near m y"
  shows "of_int m - 1 / 2 \<le> y" "y \<le> of_int m + 1 / 2" "odd m \<Longrightarrow> of_int m - 1 / 2 < y" "odd m \<Longrightarrow> y < of_int m + 1 / 2"
  using assms by (auto simp: near_def cle_def split: if_splits)

lemma near_unique: "near a y \<Longrightarrow> near b y \<Longrightarrow> a = b"
proof -
  assume a: "near a y" and b: "near b y"
  have "of_int a \<le> (of_int b + 1 :: rat)" "of_int b \<le> (of_int a + 1 :: rat)"
    using near_bounds(1,2) [OF a] near_bounds(1,2) [OF b] by linarith+
  then have "a \<le> b + 1" "b \<le> a + 1" by linarith+
  then consider "a = b" | "a = b + 1" | "b = a + 1" by linarith
  then show "a = b"
  proof cases
    case 2
    then have "y = of_int b + 1 / 2" "odd a \<or> odd b" using near_bounds(1,2) [OF a] near_bounds(1,2) [OF b] by (auto; linarith)+
    with near_bounds(3) [OF a] near_bounds(4) [OF b] 2 show ?thesis by auto
  next
    case 3
    then have "y = of_int a + 1 / 2" "odd a \<or> odd b" using near_bounds(1,2) [OF a] near_bounds(1,2) [OF b] by (auto; linarith)+
    with near_bounds(3) [OF b] near_bounds(4) [OF a] 3 show ?thesis by auto
  qed
qed

lemma magnitude_signif: "magnitude f = (exponent2 f + 1074) * 2 ^ 52 + signif f"
  by (simp add: magnitude_def exponent2_def signif_def algebra_simps)

lemma signif_range:
  "0 \<le> signif f" "signif f < 2 ^ 53" "-1074 \<le> exponent2 f" "-1074 < exponent2 f \<Longrightarrow> 2 ^ 52 \<le> signif f"
  using field_bounds [of f] by (auto simp: signif_def exponent2_def)

lemma lower_boundary_iff: "lower_boundary f \<longleftrightarrow> -1074 < exponent2 f \<and> signif f = 2 ^ 52"
  using field_bounds [of f] by (auto simp: lower_boundary_def signif_def exponent2_def)

text \<open>The interval of \<open>f\<close>, in units of its last place.\<close>

definition rounds_to :: "float64 \<Rightarrow> rat \<Rightarrow> bool" where
  "rounds_to f x \<longleftrightarrow> in_interval (even (signif f)) (of_int (signif f) * ulp f) (half_up f) (half_down f) x"

lemma rounds_to_ulp:
  "rounds_to f x \<longleftrightarrow> (let y = x / ulp f; S = signif f in
     cle (even S) (of_int S - (if lower_boundary f then 1 / 4 else 1 / 2)) y \<and> cle (even S) y (of_int S + 1 / 2))"
proof -
  have u: "0 < ulp f" by (rule ulp_pos)
  have x: "ulp f * (x / ulp f) = x" using u by simp
  have up: "half_up f = ulp f * (1 / 2)" and down: "half_down f = ulp f * (if lower_boundary f then 1 / 4 else 1 / 2)"
    by (simp_all add: half_up_def half_down_def)
  have v: "of_int (signif f) * ulp f = ulp f * of_int (signif f)" by simp
  have "rounds_to f x \<longleftrightarrow> in_interval (even (signif f)) (ulp f * of_int (signif f) + 0) (ulp f * (1 / 2))
      (ulp f * (if lower_boundary f then 1 / 4 else 1 / 2)) (ulp f * (x / ulp f) + 0)"
    unfolding rounds_to_def v up down x by simp
  then show ?thesis unfolding in_interval_scale [OF u] by (simp add: in_interval_def Let_def)
qed

lemma rounds_to_near: "\<not> lower_boundary f \<Longrightarrow> rounds_to f x \<longleftrightarrow> near (signif f) (x / ulp f)"
  by (simp add: rounds_to_ulp near_def Let_def)

text \<open>The binade in which a number is rounded against the binade of \<open>f\<close>.\<close>

lemma binades:
  assumes "0 < x"
  shows "e + 1 = E \<Longrightarrow> (x::rat) / 2 powi E = x / 2 powi e / 2"
    "e + 1 < E \<Longrightarrow> x / 2 powi E \<le> x / 2 powi e / 4" "E < e \<Longrightarrow> 2 * (x / 2 powi e) \<le> x / 2 powi E"
proof -
  show "x / 2 powi E = x / 2 powi e / 2" if "e + 1 = E" using that by (auto simp: two_powi_add)
  show "x / 2 powi E \<le> x / 2 powi e / 4" if "e + 1 < E"
  proof -
    have "2 powi (e + 2) \<le> (2::rat) powi E" using that by (intro power_int_increasing) auto
    then have "4 * 2 powi e \<le> (2::rat) powi E" by (simp add: two_powi_add)
    then have "x / 2 powi E \<le> x / (4 * 2 powi e)" using assms by (intro divide_left_mono) simp_all
    then show ?thesis by (simp add: mult.commute)
  qed
  show "2 * (x / 2 powi e) \<le> x / 2 powi E" if "E < e"
  proof -
    have "2 powi (E + 1) \<le> (2::rat) powi e" using that by (intro power_int_increasing) auto
    then have "2 * 2 powi E \<le> (2::rat) powi e" by (simp add: two_powi_add)
    then have "x / 2 powi e \<le> x / (2 * 2 powi E)" using assms by (intro divide_left_mono) simp_all
    then show ?thesis by simp
  qed
qed

lemma near_I: "of_int m - 1 / 2 \<le> y \<Longrightarrow> y \<le> of_int m + 1 / 2 \<Longrightarrow> even m \<Longrightarrow> near m y"
  by (simp add: near_def cle_def)

lemma rounds_to_bounds:
  assumes "rounds_to f x"
  shows "of_int (signif f) - 1 / 2 \<le> x / ulp f" "x / ulp f \<le> of_int (signif f) + 1 / 2"
    "lower_boundary f \<Longrightarrow> of_int (signif f) - 1 / 4 \<le> x / ulp f" "odd (signif f) \<Longrightarrow> x / ulp f < of_int (signif f) + 1 / 2"
  using assms by (auto simp: rounds_to_ulp Let_def cle_def split: if_splits)

text \<open>
  The result of \<open>roundBits\<close> on \<open>x\<close>: a binade \<open>e\<close> in which \<open>x\<close> measures \<open>y\<close>, and a significand \<open>m\<close> next to \<open>y\<close>. It is read
  as a double in the next binade when the rounding has carried.
\<close>

definition rounded :: "rat \<Rightarrow> int \<Rightarrow> int \<Rightarrow> rat \<Rightarrow> bool" where
  "rounded x e m y \<longleftrightarrow> y = x / 2 powi e \<and> 0 < x \<and> -1074 \<le> e \<and> near m y \<and> y < 2 ^ 53 \<and> (e = -1074 \<or> 2 ^ 52 \<le> y)"

lemma roundedD:
  assumes "rounded x e m y"
  shows "0 < y" "-1074 \<le> e" "near m y" "y < 2 ^ 53" "e = -1074 \<or> 2 ^ 52 \<le> y" "m \<le> 2 ^ 53" "e \<noteq> -1074 \<Longrightarrow> 2 ^ 52 \<le> m"
  using assms near_bounds(1,2) [of m y] by (auto simp: rounded_def)

lemma rounded_binades:
  assumes "rounded x e m y"
  shows "e = exponent2 f \<Longrightarrow> x / ulp f = y" "e + 1 = exponent2 f \<Longrightarrow> x / ulp f = y / 2"
    "e + 1 < exponent2 f \<Longrightarrow> x / ulp f \<le> y / 4" "exponent2 f < e \<Longrightarrow> 2 * y \<le> x / ulp f"
proof -
  have y: "y = x / 2 powi e" "0 < x" using assms by (simp_all add: rounded_def)
  have ulp: "ulp f = 2 powi exponent2 f" by (simp add: ulp_def)
  show "e = exponent2 f \<Longrightarrow> x / ulp f = y" by (simp add: y(1) ulp)
  show "e + 1 = exponent2 f \<Longrightarrow> x / ulp f = y / 2" "e + 1 < exponent2 f \<Longrightarrow> x / ulp f \<le> y / 4" "exponent2 f < e \<Longrightarrow> 2 * y \<le> x / ulp f"
    unfolding y(1) ulp using binades [OF y(2), where e = e and E = "exponent2 f"] by blast+
qed

lemma rounded_same:
  assumes r: "rounded x e m y" and e: "e = exponent2 f" and m: "m = signif f"
  shows "rounds_to f x"
proof -
  define z where "z = x / ulp f"
  have z: "z = y" unfolding z_def by (rule rounded_binades(1) [OF r e])
  show ?thesis
  proof (cases "lower_boundary f")
    case True
    then have "signif f = 2 ^ 52" "-1074 < exponent2 f" using lower_boundary_iff by auto
    then show ?thesis using roundedD(5) [OF r] near_bounds(2) [OF roundedD(3) [OF r]] e m z
      by (simp add: rounds_to_ulp z_def [symmetric] Let_def cle_def)
  next
    case False
    then show ?thesis using roundedD(3) [OF r] m z by (simp add: rounds_to_near z_def [symmetric])
  qed
qed

lemma rounded_carry:
  assumes r: "rounded x e m y" and E: "exponent2 f = e + 1" "signif f = 2 ^ 52" "m = 2 ^ 53"
  shows "rounds_to f x"
proof -
  define z where "z = x / ulp f"
  have z: "z = y / 2" unfolding z_def using rounded_binades(2) [OF r, of f] E(1) by simp
  have "lower_boundary f" using E roundedD(2) [OF r] lower_boundary_iff by auto
  then show ?thesis using near_bounds(1) [OF roundedD(3) [OF r]] roundedD(4) [OF r] E z
    by (simp add: rounds_to_ulp z_def [symmetric] Let_def cle_def)
qed

lemma rounded_sound:
  assumes r: "rounded x e m y" and eq: "(e + 1074) * 2 ^ 52 + m = (exponent2 f + 1074) * 2 ^ 52 + signif f"
  shows "rounds_to f x"
proof (cases "e = exponent2 f")
  case True
  with eq rounded_same [OF r] show ?thesis by simp
next
  case False
  note m = roundedD(6,7) [OF r] and S = signif_range [of f]
  have "exponent2 f = e + 1 \<and> signif f = 2 ^ 52 \<and> m = 2 ^ 53"
  proof (cases "e < exponent2 f")
    case True
    then have "2 ^ 52 \<le> signif f" using S(4) roundedD(2) [OF r] by simp
    then show ?thesis using eq m(1) True by simp
  next
    case False
    with \<open>e \<noteq> exponent2 f\<close> have "2 ^ 52 \<le> m" "exponent2 f + 1 \<le> e" using m(2) S(3) by auto
    then show ?thesis using eq S(2) by simp
  qed
  then show ?thesis using rounded_carry [OF r] by blast
qed

lemma rounds_to_same_binade:
  assumes r: "rounded x e m y" and rf: "rounds_to f x" and e: "e = exponent2 f"
  shows "m = signif f"
proof -
  have "near (signif f) (x / ulp f)"
  proof (cases "lower_boundary f")
    case True
    then have "even (signif f)" by (simp add: lower_boundary_signif)
    then show ?thesis using rounds_to_bounds(1,2) [OF rf] by (intro near_I)
  qed (use rf in \<open>simp add: rounds_to_near\<close>)
  then show ?thesis using near_unique [OF roundedD(3) [OF r]] rounded_binades(1) [OF r e] by simp
qed

lemma rounds_to_next_binade:
  assumes r: "rounded x e m y" and rf: "rounds_to f x" and E: "e < exponent2 f"
  shows "e + 1 = exponent2 f \<and> signif f = 2 ^ 52 \<and> m = 2 ^ 53"
proof -
  define z where "z = x / ulp f"
  let ?S = "signif f"
  note zb = rounds_to_bounds [OF rf, folded z_def] and bin = rounded_binades [OF r, of f, folded z_def] and y = roundedD [OF r]
  have "2 ^ 52 \<le> ?S" using signif_range(4) [of f] y(2) E by simp
  moreover have "z \<le> y / 2" using bin(2,3) E y(1) by (cases "e + 1 = exponent2 f") auto
  then have "z < 2 ^ 52" using y(4) by simp
  then have "of_int ?S < (2 ^ 52 + 1 :: rat)" using zb(1) by linarith
  then have "of_int ?S < (of_int (2 ^ 52 + 1) :: rat)" by simp
  then have "?S < 2 ^ 52 + 1" by (rule of_int_less_iff [THEN iffD1])
  ultimately have S52: "?S = 2 ^ 52" by linarith
  then have lb: "lower_boundary f" using lower_boundary_iff E y(2) by auto
  have e: "e + 1 = exponent2 f"
  proof (rule ccontr)
    assume "e + 1 \<noteq> exponent2 f"
    then have "z \<le> y / 4" using bin(3) E by simp
    with zb(3) [OF lb] y(4) S52 show False by simp
  qed
  then have "near (2 ^ 53) y" using bin(2) zb(3) [OF lb] y(4) S52 by (intro near_I) simp_all
  then show ?thesis using near_unique [OF y(3)] e S52 by simp
qed

lemma rounded_complete:
  assumes r: "rounded x e m y" and rf: "rounds_to f x"
  shows "(e + 1074) * 2 ^ 52 + m = (exponent2 f + 1074) * 2 ^ 52 + signif f"
proof -
  define z where "z = x / ulp f"
  have "signif f \<le> 2 ^ 53 - 1" using signif_range(2) [of f] by simp
  then have "of_int (signif f) \<le> (of_int (2 ^ 53 - 1) :: rat)" by (rule of_int_le_iff [THEN iffD2])
  then have S: "of_int (signif f) \<le> (2 ^ 53 - 1 :: rat)" by simp
  have "\<not> exponent2 f < e"
  proof
    assume E: "exponent2 f < e"
    then have "2 ^ 53 \<le> z" using rounded_binades(4) [OF r E, folded z_def] roundedD(5) [OF r] signif_range(3) [of f] by auto
    with rounds_to_bounds(2) [OF rf, folded z_def] S show False by linarith
  qed
  then show ?thesis
    using rounds_to_same_binade [OF r rf] rounds_to_next_binade [OF r rf] by (cases "e = exponent2 f") auto
qed

lemma roundBits_iff:
  assumes "0 < n" "0 < d"
  shows "roundBits n d = magnitude f \<longleftrightarrow> rounds_to f (of_int n / of_int d)"
proof -
  have "0 < (of_int n / of_int d :: rat)" using assms by simp
  with roundBits_eq [OF assms] obtain e m y where r: "roundBits n d = (e + 1074) * 2 ^ 52 + m" "rounded (of_int n / of_int d) e m y"
    unfolding rounded_def by metis
  show ?thesis unfolding r(1) magnitude_signif using rounded_sound [OF r(2)] rounded_complete [OF r(2)] by blast
qed

lemma decimalBits_iff:
  assumes "0 < m"
  shows "decimalBits m e = magnitude f \<longleftrightarrow> rounds_to f (of_int m * 10 powi e)"
proof (cases "0 \<le> e")
  case True
  then show ?thesis using roundBits_iff [of "m * 10 ^ nat e" 1 f] assms by (simp add: decimalBits_def powi_nat)
next
  case False
  then show ?thesis using roundBits_iff [of m "10 ^ nat (- e)" f] assms by (simp add: decimalBits_def powi_nat)
qed

end
