(* ===== verification/Jcsfloat_Text.thy ===== *)
theory Jcsfloat_Text
  imports Jcsfloat_Round Token_Numbers
begin

text \<open>
  The text of a number: what \<open>formatECMA\<close> lays out is a JSON number token denoting the digits it was given,
  and the digits \<open>generateDigits\<close> finds are the shortest that read back as the double.
\<close>

section \<open>The layout\<close>

lemma intDigits_spec:
  "0 < v \<Longrightarrow> list_all isDigit (intDigits v) \<and> intDigits v \<noteq> [] \<and> digits_val (intDigits v) = v
     \<and> (\<forall>j. v < 10 ^ j \<longrightarrow> length (intDigits v) \<le> j)"
proof (induction v rule: intDigits.induct)
  case (1 v)
  have unf: "intDigits v = intDigits (v div 10) @ [byte_of (48 + v mod 10)]" using 1(2) by (subst intDigits.simps) simp
  have b: "digit_val (byte_of (48 + v mod 10)) = v mod 10" "isDigit (byte_of (48 + v mod 10))"
    using digit_byte [of "v mod 10"] isDec_isDigit by simp_all
  show ?case
  proof (cases "0 < v div 10")
    case True
    note IH = 1(1) [OF 1(2) True]
    have "length (intDigits (v div 10)) < j" if "v < 10 ^ j" for j
    proof (cases j)
      case 0
      with that 1(2) show ?thesis by simp
    next
      case (Suc i)
      then have "v div 10 < 10 ^ i" using that by (simp add: div_less_iff_less_mult mult.commute)
      with IH Suc show ?thesis by (simp add: less_Suc_eq_le)
    qed
    with IH b show ?thesis unfolding unf by (auto simp: digits_val_snoc Suc_le_eq)
  next
    case False
    then have "v div 10 = 0" "v mod 10 = v" using 1(2) by auto
    then have "intDigits v = [byte_of (48 + v)]" unfolding unf by (simp add: intDigits.simps)
    moreover have "1 \<le> j" if "v < 10 ^ j" for j using that 1(2) by (cases j) auto
    ultimately show ?thesis using b \<open>v mod 10 = v\<close> by (simp add: digits_val_Cons)
  qed
qed

lemma digits_val_zeros: "digits_val (replicate j cZERO) = 0" "digits_val (replicate j cZERO @ ds) = digits_val ds"
proof -
  show "digits_val (replicate j cZERO) = 0" by (induction j) (simp_all add: digits_val_Cons digit_val_def)
  then show "digits_val (replicate j cZERO @ ds) = digits_val ds" by (simp add: digits_val_append)
qed

lemma digits_val_pad: "digits_val (ds @ replicate j cZERO) = digits_val ds * 10 ^ j"
  by (simp add: digits_val_append digits_val_zeros)

lemma digits_val_less: "list_all isDec ds \<Longrightarrow> digits_val ds < 10 ^ length ds"
proof (induction ds)
  case (Cons b ds)
  then have "digit_val b \<le> 9" using digit_val_bounds [of b] by (simp add: isDec_isDigit)
  then have "digit_val b * 10 ^ length ds \<le> 9 * 10 ^ length ds" by (intro mult_right_mono) simp_all
  moreover have "digits_val ds < 10 ^ length ds" using Cons by simp
  ultimately have "digits_val (b # ds) < 10 * 10 ^ length ds" unfolding digits_val_Cons by linarith
  then show ?case by simp
qed simp

text \<open>The token \<open>t\<close> writes the digits \<open>ds\<close> with the point after the \<open>n\<close>-th digit.\<close>

definition token_of :: "bytes \<Rightarrow> bool \<Rightarrow> bytes \<Rightarrow> int \<Rightarrow> bool" where
  "token_of t neg ds n \<longleftrightarrow> json_number t \<and> (\<exists>j e. parse_decimal t = Some (neg, digits_val ds * 10 ^ j, e)
     \<and> int j + e = n - int (length ds))"

definition sign_text :: "bool \<Rightarrow> bytes" where
  "sign_text neg = (if neg then [cMINUS] else [])"

lemma token_of_parts:
  assumes "int_part ip" "frac_part fp" "exp_part ep" "parse_exp ep = Some e" "digits_val (ip @ tl fp) = digits_val ds * 10 ^ j"
    "int j + (e - int (length (tl fp))) = n - int (length ds)"
  shows "token_of (sign_text neg @ ip @ fp @ ep) neg ds n"
proof -
  have sg: "sign_part (sign_text neg)" "sign_text neg \<noteq> [] \<longleftrightarrow> neg" by (auto simp: sign_part_def sign_text_def)
  then have "json_number (sign_text neg @ ip @ fp @ ep)" using assms(1-3) by (auto simp: json_number_def)
  with parse_decimal_number [OF sg(1) assms(1-3)] assms(4-6) sg(2) show ?thesis
    unfolding token_of_def by fastforce
qed

lemma parse_exp_signed:
  assumes "0 < v"
  shows "parse_exp (0x65 # cPLUS # intDigits v) = Some v" "parse_exp (0x65 # cMINUS # intDigits v) = Some (- v)"
    "exp_part (0x65 # cPLUS # intDigits v)" "exp_part (0x65 # cMINUS # intDigits v)"
  using intDigits_spec [OF assms]
  by (auto simp: parse_exp_def split_sign_def isDec_isDigit exp_part_def digits1_def intro: exI [of _ "[cPLUS]"] exI [of _ "[cMINUS]"])

text \<open>The four layouts, one for each appending function.\<close>

lemma integer_text:
  assumes "ds \<noteq> []" "list_all isDigit ds" "hd ds \<noteq> cZERO"
    and range: "int (length ds) \<le> n" "n \<le> 21"
  shows "token_of (formatECMA neg ds n) neg ds n"
proof -
  let ?k = "int (length ds)"
  note parts = frac_part_def exp_part_def digits1_def parse_exp_def
  obtain d u where du: "ds = d # u" using assms(1) by (cases ds) auto
  let ?ip = "ds @ replicate (nat (n - ?k)) cZERO"
  have "int_part ?ip" using assms du by (auto simp: int_part_def digits1_def list_all_iff)
  then have "token_of (sign_text neg @ ?ip @ [] @ []) neg ds n"
    using range by (intro token_of_parts [where j = "nat (n - ?k)" and e = 0]) (auto simp: parts digits_val_pad)
  then show ?thesis using range by (simp add: formatECMA_def isIntegerFixed_def appendIntegerFixed_def sign_text_def Let_def)
qed

lemma fraction_text:
  assumes "ds \<noteq> []" "list_all isDigit ds" "hd ds \<noteq> cZERO"
    and range: "0 < n" "n \<le> 21" "n < int (length ds)"
  shows "token_of (formatECMA neg ds n) neg ds n"
proof -
  obtain d u where du: "ds = d # u" using assms(1) by (cases ds) auto
  let ?i = "nat n"
  have i: "0 < ?i" "?i < length ds" using range by auto
  have tk: "take ?i ds \<noteq> []" "hd (take ?i ds) = d" "drop ?i ds \<noteq> []" using i du by (auto simp: hd_take)
  have "list_all isDigit (take ?i ds)" "list_all isDigit (drop ?i ds)"
    using assms(2) by (auto simp: list_all_iff dest: in_set_takeD in_set_dropD)
  then have "int_part (take ?i ds)" "frac_part (cDOT # drop ?i ds)"
    using tk assms(3) du by (auto simp: int_part_def frac_part_def digits1_def)
  then have "token_of (sign_text neg @ take ?i ds @ (cDOT # drop ?i ds) @ []) neg ds n"
    using range by (intro token_of_parts [where j = 0 and e = 0]) (auto simp: exp_part_def parse_exp_def)
  then show ?thesis using range
    by (simp add: formatECMA_def isIntegerFixed_def isFractionFixed_def appendFractionFixed_def sign_text_def Let_def)
qed

lemma small_text:
  assumes "ds \<noteq> []" "list_all isDigit ds" "hd ds \<noteq> cZERO"
    and range: "-6 < n" "n \<le> 0"
  shows "token_of (formatECMA neg ds n) neg ds n"
proof -
  let ?k = "int (length ds)"
  have k: "0 < ?k" using assms(1) by simp
  let ?z = "replicate (nat (- n)) cZERO"
  have "frac_part (cDOT # ?z @ ds)" using assms by (auto simp: frac_part_def digits1_def list_all_iff)
  then have "token_of (sign_text neg @ [cZERO] @ (cDOT # ?z @ ds) @ []) neg ds n"
    using range by (intro token_of_parts [where j = 0 and e = 0])
      (auto simp: int_part_def exp_part_def parse_exp_def digits_val_Cons digits_val_zeros digit_val_def)
  moreover have "\<not> ?k \<le> n" using range k by linarith
  ultimately show ?thesis using range
    by (simp add: formatECMA_def isIntegerFixed_def isFractionFixed_def isSmallFraction_def appendSmallFraction_def
        sign_text_def Let_def)
qed

lemma exponential_text:
  assumes "ds \<noteq> []" "list_all isDigit ds" "hd ds \<noteq> cZERO"
    and range: "n \<le> -6 \<or> 21 < n"
  shows "token_of (formatECMA neg ds n) neg ds n"
proof -
  let ?k = "int (length ds)"
  obtain d u where du: "ds = d # u" using assms(1) by (cases ds) auto
  have k: "0 < ?k" using assms(1) by simp
  let ?fp = "if ?k > 1 then cDOT # u else []"
  let ?ep = "if n - 1 \<ge> 0 then 0x65 # cPLUS # intDigits (n - 1) else 0x65 # cMINUS # intDigits (- (n - 1))"
  have ip: "int_part [d]" using assms du by (auto simp: int_part_def digits1_def)
  have fp: "frac_part ?fp" using assms(2) du by (auto simp: frac_part_def digits1_def)
  have ep: "exp_part ?ep" "parse_exp ?ep = Some (n - 1)"
    using range parse_exp_signed [of "n - 1"] parse_exp_signed [of "- (n - 1)"] by auto
  have tl: "tl ?fp = u" using du by auto
  have "token_of (sign_text neg @ [d] @ ?fp @ ?ep) neg ds n"
    using ip fp ep by (rule token_of_parts [where j = 0]) (simp_all add: tl du)
  moreover have "formatECMA neg ds n = sign_text neg @ [d] @ ?fp @ ?ep"
    using range k du
    by (auto simp: formatECMA_def isIntegerFixed_def isFractionFixed_def isSmallFraction_def appendExponential_def
        appendInt_def sign_text_def Let_def)
  ultimately show ?thesis by simp
qed

lemma formatECMA_text:
  assumes "ds \<noteq> []" "list_all isDigit ds" "hd ds \<noteq> cZERO"
  shows "token_of (formatECMA neg ds n) neg ds n"
proof -
  consider "int (length ds) \<le> n" "n \<le> 21" | "0 < n" "n \<le> 21" "n < int (length ds)" | "-6 < n" "n \<le> 0" | "n \<le> -6 \<or> 21 < n"
    by linarith
  then show ?thesis
    by cases (intro integer_text fraction_text small_text exponential_text assms; assumption)+
qed

text \<open>Its length: with at most 17 digits and an exponent of at most three digits it is at most 25.\<close>

lemma formatECMA_length:
  assumes "0 < length ds" "length ds \<le> 17" "\<bar>n - 1\<bar> < 1000"
  shows "length (formatECMA neg ds n) \<le> 25"
proof -
  have e: "length (intDigits v) \<le> 3" if "0 < v" "v < 1000" for v using intDigits_spec [OF that(1)] that(2) by simp
  show ?thesis
    using assms e [of "n - 1"] e [of "1 - n"]
    by (auto simp: formatECMA_def isIntegerFixed_def isFractionFixed_def isSmallFraction_def appendIntegerFixed_def
        appendFractionFixed_def appendSmallFraction_def appendExponential_def appendInt_def Let_def)
qed

section \<open>The digits\<close>

lemma ten_powi_add: "(10::rat) powi (a + b) = 10 powi a * 10 powi b"
  by (simp add: power_int_add)

lemma interval_unscale:
  assumes "scaled st v p m n"
  shows "in_interval ev (sR st) (sP st) (sM st) w \<longleftrightarrow> in_interval ev v p m (10 powi n * w)"
proof -
  have "in_interval ev (10 powi n * sR st + 0) (10 powi n * sP st) (10 powi n * sM st) (10 powi n * w + 0)
      \<longleftrightarrow> in_interval ev (sR st) (sP st) (sM st) w" by (rule in_interval_scale) simp
  with assms show ?thesis by (simp add: scaled_def)
qed

text \<open>The decimal \<open>c\<close> times \<open>10 ^ q\<close>, and the decimal that digits \<open>ds\<close> with the point after the \<open>n\<close>-th stand for.\<close>

definition decimal :: "int \<Rightarrow> int \<Rightarrow> rat" where "decimal c q = of_int c * 10 powi q"

definition digits_decimal :: "bytes \<Rightarrow> int \<Rightarrow> rat" where
  "digits_decimal ds n = decimal (digits_val ds) (n - int (length ds))"

definition shortest_digits :: "float64 \<Rightarrow> bytes \<Rightarrow> int \<Rightarrow> bool" where
  "shortest_digits f ds n \<longleftrightarrow> ds \<noteq> [] \<and> list_all isDigit ds \<and> hd ds \<noteq> cZERO \<and> last ds \<noteq> cZERO \<and> length ds \<le> 17
     \<and> rounds_to f (digits_decimal ds n)
     \<and> (\<forall>c q j. 0 < c \<longrightarrow> c < 10 ^ j \<longrightarrow> rounds_to f (decimal c q) \<longrightarrow> length ds \<le> j)
     \<and> (\<forall>c. rounds_to f (decimal c (n - int (length ds))) \<longrightarrow>
          \<bar>digits_decimal ds n - of_int (signif f) * ulp f\<bar> \<le> \<bar>decimal c (n - int (length ds)) - of_int (signif f) * ulp f\<bar>)"

lemma scale_decimal: "10 powi n * (of_int c / 10 ^ j) = decimal c (n - int j)"
  by (simp add: decimal_def power_int_diff)

lemma decimal_rescale: "0 \<le> i \<Longrightarrow> decimal c (q + i) = decimal (c * 10 ^ nat i) q"
  by (simp add: decimal_def ten_powi_add powi_nat)

lemma in_interval_between:
  "in_interval ev x p m a \<Longrightarrow> a \<le> w \<Longrightarrow> cle ev w (x + p) \<Longrightarrow> in_interval ev x p m w"
  by (auto simp: in_interval_def intro: cle_trans)

lemma digits_of_facts:
  assumes "digits_of f ds n"
  obtains ev v where "ev = even (signif f)" "v = of_int (signif f) * ulp f"
    "cle ev (10 powi (n - 1)) (v + half_up f)" "v + half_up f \<le> 10 powi n"
    "\<And>c j. j < length ds \<Longrightarrow> \<not> rounds_to f (decimal c (n - int j))"
proof -
  from assms obtain st where st: "scaled st (of_int (signif f) * ulp f) (half_up f) (half_down f) n"
    "ready (even (signif f)) st" "cle (even (signif f)) 1 (10 * (sR st + sP st))"
    "good_digits (even (signif f)) st ds" by (auto simp: digits_of_def)
  let ?v = "of_int (signif f) * ulp f" and ?ev = "even (signif f)"
  have sum: "sR st + sP st = (?v + half_up f) / 10 powi n" using st(1) by (simp add: scaled_def add_divide_distrib)
  have "cle ?ev (10 powi (n - 1) * 1) (10 powi (n - 1) * (10 * (sR st + sP st)))"
    using st(3) by (subst cle_mult) simp_all
  moreover have "10 powi (n - 1) * (10 * x) = 10 powi n * x" for x :: rat by (simp add: powi_step)
  then have "10 powi (n - 1) * (10 * (sR st + sP st)) = 10 powi n * (sR st + sP st)" .
  then have "10 powi (n - 1) * (10 * (sR st + sP st)) = ?v + half_up f"
    by (simp only: sum) simp
  ultimately have 1: "cle ?ev (10 powi (n - 1)) (?v + half_up f)" by (simp only: mult_1_right)
  have "sR st + sP st \<le> 1" using st(2) by (auto simp: ready_def cle_def split: if_splits)
  then have 2: "?v + half_up f \<le> 10 powi n" by (simp add: sum divide_le_eq)
  have 3: "\<not> rounds_to f (decimal c (n - int j))" if "j < length ds" for c j
  proof -
    have "\<not> in_interval ?ev (sR st) (sP st) (sM st) (of_int c / 10 ^ j)"
      using st(4) that unfolding good_digits_def by blast
    then show ?thesis by (simp only: interval_unscale [OF st(1)] scale_decimal rounds_to_def simp_thms)
  qed
  show thesis using that [of ?ev ?v] 1 2 3 by simp
qed

text \<open>No decimal with fewer digits lies in the interval, whatever its exponent.\<close>

lemma digits_of_shortest:
  assumes d: "digits_of f ds n" and c: "0 < c" "c < 10 ^ j" "rounds_to f (decimal c q)"
  shows "length ds \<le> j"
proof (rule ccontr)
  assume "\<not> length ds \<le> j"
  then have j: "j < length ds" by simp
  obtain ev v where ev: "ev = even (signif f)" "v = of_int (signif f) * ulp f" "cle ev (10 powi (n - 1)) (v + half_up f)"
    "v + half_up f \<le> 10 powi n" and no: "\<And>c j. j < length ds \<Longrightarrow> \<not> rounds_to f (decimal c (n - int j))"
    using digits_of_facts [OF d] by metis
  have j1: "1 \<le> j" using c(1,2) by (cases j) auto
  show False
  proof (cases "n - int j \<le> q")
    case True
    then have "decimal c q = decimal (c * 10 ^ nat (q - (n - int j))) (n - int j)"
      using decimal_rescale [of "q - (n - int j)" c "n - int j"] by simp
    with no [OF j] c(3) show False by simp
  next
    case False
    have "decimal c q < 10 ^ j * 10 powi q"
    proof -
      have "(of_int c :: rat) < of_int (10 ^ j)" using c(2) by (rule of_int_less_iff [THEN iffD2])
      then show ?thesis by (simp add: decimal_def)
    qed
    also have "\<dots> = 10 powi (q + int j)" by (simp add: ten_powi_add)
    also have "\<dots> \<le> 10 powi (n - 1)" using False by (intro power_int_increasing) simp_all
    finally have le: "decimal c q \<le> 10 powi (n - 1)" by simp
    have "rounds_to f (10 powi (n - 1))"
      using c(3) ev(3) unfolding rounds_to_def ev(1,2) by (rule in_interval_between [OF _ le])
    then have "rounds_to f (decimal 1 (n - int 1))" by (simp add: decimal_def)
    with no [of 1 1] j j1 show False by simp
  qed
qed

lemma first_digit:
  assumes d: "digits_of f ds n"
  shows "hd ds \<noteq> cZERO"
proof
  assume hd0: "hd ds = cZERO"
  from d obtain st where st: "scaled st (of_int (signif f) * ulp f) (half_up f) (half_down f) n"
    "good_digits (even (signif f)) st ds" by (auto simp: digits_of_def)
  obtain ev v where ev: "ev = even (signif f)" "v = of_int (signif f) * ulp f" "cle ev (10 powi (n - 1)) (v + half_up f)"
    and no: "\<And>c j. j < length ds \<Longrightarrow> \<not> rounds_to f (decimal c (n - int j))"
    using digits_of_facts [OF d] by metis
  have ds: "ds \<noteq> []" "list_all isDec ds" "last ds \<noteq> cZERO" using st(2) by (simp_all add: good_digits_def)
  obtain u where u: "ds = cZERO # u" using ds(1) hd0 by (cases ds) auto
  then have u0: "u \<noteq> []" using ds(3) by auto
  have "rounds_to f (10 powi n * frac_val ds)"
    using st(2) interval_unscale [OF st(1)] by (simp add: good_digits_def rounds_to_def)
  moreover have "10 powi n * frac_val ds \<le> 10 powi (n - 1)"
  proof -
    have "digits_val u < 10 ^ length u" using ds(2) u by (intro digits_val_less) simp
    then have "(of_int (digits_val u) :: rat) < of_int (10 ^ length u)" by (rule of_int_less_iff [THEN iffD2])
    then have "frac_val u \<le> 1" by (simp add: frac_val_def)
    then have "frac_val ds \<le> 1 / 10" by (simp add: u frac_val_Cons digit_val_def)
    then have "10 powi n * frac_val ds \<le> 10 powi n * (1 / 10)" by (intro mult_left_mono) simp_all
    then show ?thesis by (simp add: powi_step)
  qed
  ultimately have "rounds_to f (10 powi (n - 1))"
    using ev(3) unfolding rounds_to_def ev(1,2) by (rule in_interval_between)
  then have "rounds_to f (decimal 1 (n - int 1))" by (simp add: decimal_def)
  with no [of 1 1] u u0 show False by simp
qed

lemma digits_of_shortest_digits:
  assumes "digits_of f ds n"
  shows "shortest_digits f ds n"
proof -
  from assms obtain st where st: "scaled st (of_int (signif f) * ulp f) (half_up f) (half_down f) n"
    "good_digits (even (signif f)) st ds" "length ds \<le> 17" by (auto simp: digits_of_def)
  let ?v = "of_int (signif f) * ulp f"
  have fv: "10 powi n * frac_val ds = digits_decimal ds n"
    unfolding frac_val_def digits_decimal_def by (rule scale_decimal)
  have ds: "ds \<noteq> []" "list_all isDigit ds" "last ds \<noteq> cZERO" "rounds_to f (digits_decimal ds n)"
    using st(2) interval_unscale [OF st(1), of "even (signif f)" "frac_val ds"]
    by (simp_all add: good_digits_def isDec_isDigit rounds_to_def fv)
  have "\<bar>digits_decimal ds n - ?v\<bar> \<le> \<bar>decimal c (n - int (length ds)) - ?v\<bar>"
    if r: "rounds_to f (decimal c (n - int (length ds)))" for c
  proof -
    have "in_interval (even (signif f)) (sR st) (sP st) (sM st) (of_int c / 10 ^ length ds)"
      using r interval_unscale [OF st(1), of "even (signif f)" "of_int c / 10 ^ length ds"]
      by (simp only: rounds_to_def scale_decimal)
    then have "\<bar>frac_val ds - sR st\<bar> \<le> \<bar>of_int c / 10 ^ length ds - sR st\<bar>" using st(2) by (simp add: good_digits_def)
    then have "10 powi n * \<bar>frac_val ds - sR st\<bar> \<le> 10 powi n * \<bar>of_int c / 10 ^ length ds - sR st\<bar>"
      by (intro mult_left_mono) simp_all
    moreover have "10 powi n * \<bar>w - sR st\<bar> = \<bar>10 powi n * w - ?v\<bar>" for w
    proof -
      have "10 powi n * w - ?v = 10 powi n * (w - sR st)" using st(1) by (simp add: scaled_def algebra_simps)
      then show ?thesis by (simp add: abs_mult)
    qed
    ultimately show ?thesis by (simp only: fv scale_decimal)
  qed
  with ds st(3) first_digit [OF assms] digits_of_shortest [OF assms] show ?thesis
    unfolding shortest_digits_def by blast
qed

section \<open>The sign\<close>

definition abs64 :: "float64 \<Rightarrow> float64" where
  "abs64 f = (if isNegative f then negate f else f)"

lemma negate_mk_float: "negate (mk_float True b) = mk_float False b"
proof -
  have "(0x8000000000000000 + 0x8000000000000000 :: 64 word) = 0" by simp
  then show ?thesis unfolding negate_def mk_float_def by (simp add: add.assoc)
qed

lemma isNegative_iff: "finite64 f \<Longrightarrow> \<not> isZero f \<Longrightarrow> isNegative f \<longleftrightarrow> signBit f"
  by (auto simp: isNegative_def finite64_def IsNaN_def)

lemma abs64_eq: "finite64 f \<Longrightarrow> \<not> isZero f \<Longrightarrow> abs64 f = mk_float False (magnitude f)"
  using mk_float_magnitude [of f] negate_mk_float [of "magnitude f"] isNegative_iff [of f]
  by (cases "signBit f") (simp_all add: abs64_def)

lemma abs64_fields:
  assumes "finite64 f" "\<not> isZero f"
  shows "mantField (abs64 f) = mantField f" "expField (abs64 f) = expField f" "\<not> signBit (abs64 f)"
proof -
  have b: "0 \<le> magnitude f" "magnitude f \<le> infBits" using magnitude_bounds [OF assms(1)] by auto
  have "magnitude f mod 2 ^ 52 = mantField f" "magnitude f div 2 ^ 52 = expField f"
    using field_bounds [of f] unfolding magnitude_def by (simp_all add: div_pos_pos_trivial mod_pos_pos_trivial)
  with mk_float_fields [OF b, of False] show "mantField (abs64 f) = mantField f" "expField (abs64 f) = expField f"
    "\<not> signBit (abs64 f)" by (simp_all add: abs64_eq [OF assms])
qed

lemma abs64_same:
  assumes "finite64 f" "\<not> isZero f"
  shows "signif (abs64 f) = signif f" "ulp (abs64 f) = ulp f" "rounds_to (abs64 f) = rounds_to f"
    "finite64 (abs64 f)" "\<not> isZero (abs64 f)" "shortest_digits (abs64 f) = shortest_digits f"
proof -
  note e = abs64_fields [OF assms]
  show s: "signif (abs64 f) = signif f" and u: "ulp (abs64 f) = ulp f"
    by (simp_all add: signif_def ulp_def exponent2_def e)
  have "lower_boundary (abs64 f) = lower_boundary f" by (simp add: lower_boundary_def e)
  with s u show r: "rounds_to (abs64 f) = rounds_to f" by (intro ext) (simp add: rounds_to_ulp)
  show "finite64 (abs64 f)" "\<not> isZero (abs64 f)" using assms by (simp_all add: finite64_def isZero_def e)
  from s u r show "shortest_digits (abs64 f) = shortest_digits f" by (intro ext) (simp add: shortest_digits_def)
qed

section \<open>Formatting a double\<close>

lemma ten_powi_less: "(10::rat) powi a < 10 powi b \<longleftrightarrow> a < b"
proof
  show "a < b" if "(10::rat) powi a < 10 powi b"
  proof (rule ccontr)
    assume "\<not> a < b"
    then have "(10::rat) powi b \<le> 10 powi a" by (intro power_int_increasing) simp_all
    with that show False by simp
  qed
qed (intro power_int_strict_increasing; simp)

lemma tiny_bound: "(10::rat) powi (-324) < 2 powi (-1074)"
proof -
  have "(2::rat) ^ 1074 < 10 ^ 324" by simp
  then show ?thesis by (simp only: powi_nat) (simp add: divide_simps)
qed

lemma digits_of_exponent:
  assumes "digits_of f ds n" "finite64 f" "\<not> isZero f"
  shows "-324 < n" "n < 310"
proof -
  obtain ev v where ev: "ev = even (signif f)" "v = of_int (signif f) * ulp f" "cle ev (10 powi (n - 1)) (v + half_up f)"
    "v + half_up f \<le> 10 powi n" using digits_of_facts [OF assms(1)] by metis
  have S: "1 \<le> signif f" "signif f \<le> 2 ^ 53 - 1" using signif_pos [OF assms(3)] signif_range(2) [of f] by auto
  then have Sq: "1 \<le> (of_int (signif f) :: rat)" "of_int (signif f) \<le> (of_int (2 ^ 53 - 1) :: rat)"
    by (simp, intro of_int_le_iff [THEN iffD2])
  have E: "-1074 \<le> exponent2 f" "exponent2 f \<le> 971"
    using assms(2) field_bounds [of f] by (auto simp: exponent2_def finite64_def)
  note up = ulp_pos [of f]
  have "(2::rat) powi (-1074) \<le> ulp f" unfolding ulp_def using E by (intro power_int_increasing) simp_all
  moreover have "ulp f * 1 \<le> of_int (signif f) * ulp f" using Sq(1) up(1) by (simp add: mult_le_cancel_right1)
  ultimately have "(10::rat) powi (-324) < 10 powi n" using ev(2,4) up(2) tiny_bound by linarith
  then show "-324 < n" by (simp only: ten_powi_less)
  have "v + half_up f \<le> of_int (2 ^ 53 - 1) * ulp f + ulp f"
    unfolding ev(2) by (intro add_mono mult_right_mono Sq(2)) (use up in \<open>simp_all add: half_up_def\<close>)
  also have "\<dots> = 2 ^ 53 * ulp f" by (simp add: algebra_simps)
  also have "\<dots> \<le> 2 ^ 53 * 2 powi 971"
    unfolding ulp_def using E by (intro mult_left_mono power_int_increasing) simp_all
  also have "\<dots> < (10::rat) powi 309" by simp
  finally have "(10::rat) powi (n - 1) < 10 powi 309" using cle_le [OF ev(3)] by simp
  then show "n < 310" by (simp only: ten_powi_less)
qed

lemma FormatDouble_digits:
  assumes "finite64 f" "\<not> isZero f" "estimate_ok M (abs64 f)"
  obtains ds n where "FormatDouble M f = Inr (formatECMA (signBit f) ds n)" "digits_of (abs64 f) ds n"
proof -
  have c: "\<not> IsNaN f" "\<not> IsInf f" using assms(1) by (auto simp: finite64_def IsNaN_def IsInf_def)
  obtain ds n where "generateDigits M (abs64 f) = Some (ds, n)" "digits_of (abs64 f) ds n"
    using generateDigits_spec [OF abs64_same(4,5) assms(3)] assms(1,2) by blast
  with c assms(2) isNegative_iff [OF assms(1,2)] that [of ds n] show thesis
    by (simp add: FormatDouble_def abs64_def Let_def split: if_splits)
qed

lemma digits_val_pos: "list_all isDigit ds \<Longrightarrow> ds \<noteq> [] \<Longrightarrow> hd ds \<noteq> cZERO \<Longrightarrow> 0 < digits_val ds"
  using digits_val_nonneg [of ds] digits_val_0 [of ds] by (cases ds) auto

lemma token_of_jnum:
  assumes "token_of t (signBit f) ds n" "rounds_to f (digits_decimal ds n)" "0 < digits_val ds" "finite64 f" "\<not> isZero f"
  shows "jnum t f"
proof -
  from assms(1) obtain j e where t: "json_number t" "parse_decimal t = Some (signBit f, digits_val ds * 10 ^ j, e)"
    "int j + e = n - int (length ds)" by (auto simp: token_of_def)
  have "of_int (digits_val ds * 10 ^ j) * 10 powi e = digits_decimal ds n"
    by (simp add: digits_decimal_def decimal_def ten_powi_add flip: t(3))
  then have b: "decimalBits (digits_val ds * 10 ^ j) e = magnitude f"
    using assms(2,3) by (subst decimalBits_iff) simp_all
  have "magnitude f \<noteq> 0" using assms(5) field_bounds [of f] by (auto simp: magnitude_def isZero_def)
  with t(1,2) b assms(3) magnitude_bounds [OF assms(4)] mk_float_magnitude [of f] show ?thesis
    unfolding jnum_def by (intro conjI exI) auto
qed

lemma jnum_zero: "jnum [cZERO] 0"
proof -
  have "json_number ([] @ [cZERO] @ [] @ [])"
    unfolding json_number_def sign_part_def int_part_def frac_part_def exp_part_def by blast
  moreover have "parse_decimal [cZERO] = Some (False, 0, 0)" by code_simp
  ultimately show ?thesis by (auto simp: jnum_def decimalBits_def infBits_def mk_float_def)
qed

lemma zero_unsigned: "isZero f \<Longrightarrow> \<not> signBit f \<Longrightarrow> f = 0"
  using mk_float_surj [of f] by (simp add: isZero_def mk_float_def)

lemma FormatDouble_jnum:
  assumes "number_ok f" "\<not> isZero f \<Longrightarrow> estimate_ok M (abs64 f)"
  shows "\<exists>t. FormatDouble M f = Inr t \<and> jnum t f \<and> length t \<le> 25"
proof (cases "isZero f")
  case True
  then have "f = 0" using assms(1) zero_unsigned by (simp add: number_ok_def)
  moreover have "FormatDouble M 0 = Inr [cZERO]" by (simp add: FormatDouble_def IsNaN_def isZero_def expField_def mantField_def)
  ultimately show ?thesis using jnum_zero by auto
next
  case False
  have fin: "finite64 f" using assms(1) by (simp add: number_ok_def)
  obtain ds n where F: "FormatDouble M f = Inr (formatECMA (signBit f) ds n)" "digits_of (abs64 f) ds n"
    using FormatDouble_digits [OF fin False assms(2) [OF False]] by blast
  have sd: "shortest_digits f ds n" using digits_of_shortest_digits [OF F(2)] abs64_same [OF fin False] by simp
  then have ds: "ds \<noteq> []" "list_all isDigit ds" "hd ds \<noteq> cZERO" "length ds \<le> 17" "rounds_to f (digits_decimal ds n)"
    by (simp_all add: shortest_digits_def)
  have "jnum (formatECMA (signBit f) ds n) f"
    using formatECMA_text [OF ds(1-3)] ds fin False by (intro token_of_jnum digits_val_pos)
  moreover have "length (formatECMA (signBit f) ds n) \<le> 25"
    using digits_of_exponent [OF F(2)] abs64_same [OF fin False] ds by (intro formatECMA_length) auto
  ultimately show ?thesis using F(1) by blast
qed

end
