(* ===== verification/Jcsfloat_Estimate.thy ===== *)
theory Jcsfloat_Estimate
  imports Jcsfloat_Text
begin

text \<open>
  The estimate of the decimal exponent (\<open>estimateK\<close>) is good enough for the two fixups, under weak
  assumptions on the floating-point operations it uses: a logarithm within 1/4 of the true one, and
  results rounded with an error of at most 1/1000 on the range it works in. IEEE 754 double arithmetic and
  \<^verbatim>\<open>math.Log2\<close> are far more precise.
\<close>

definition accurate :: "fmath \<Rightarrow> bool" where
  "accurate M \<longleftrightarrow> (\<forall>x. 0 < x \<longrightarrow> \<bar>real_of_rat (Log2 M x) - log 2 (real_of_rat x)\<bar> \<le> 1 / 4)
     \<and> \<bar>real_of_rat (Log2 M 10) - log 2 10\<bar> \<le> 1 / 1000
     \<and> (\<forall>x. \<bar>x\<bar> \<le> 2048 \<longrightarrow> \<bar>fl M x - x\<bar> \<le> 1 / 1000)"

lemma accurate_log: "accurate M \<Longrightarrow> 0 < x \<Longrightarrow> \<bar>real_of_rat (Log2 M x) - log 2 (real_of_rat x)\<bar> \<le> 1 / 4"
  and accurate_log10: "accurate M \<Longrightarrow> \<bar>real_of_rat (Log2 M 10) - log 2 10\<bar> \<le> 1 / 1000"
  unfolding accurate_def by blast+

lemma of_rat_diff_le: "\<bar>a - b\<bar> \<le> c \<Longrightarrow> \<bar>real_of_rat a - real_of_rat b\<bar> \<le> real_of_rat c"
proof -
  assume "\<bar>a - b\<bar> \<le> c"
  then have "a - b \<le> c" "b - a \<le> c" by linarith+
  then have "real_of_rat (a - b) \<le> real_of_rat c" "real_of_rat (b - a) \<le> real_of_rat c" by (simp_all only: of_rat_less_eq)
  then show ?thesis by (simp add: of_rat_diff)
qed

lemma accurate_fl:
  assumes "accurate M" "\<bar>real_of_rat x\<bar> \<le> 2048"
  shows "\<bar>real_of_rat (fl M x) - real_of_rat x\<bar> \<le> 1 / 1000"
proof -
  have "real_of_rat \<bar>x\<bar> \<le> real_of_rat 2048" using assms(2) by simp
  then have "\<bar>x\<bar> \<le> 2048" by (simp only: of_rat_less_eq)
  then have "\<bar>fl M x - x\<bar> \<le> 1 / 1000" using assms(1) by (simp add: accurate_def)
  then show ?thesis using of_rat_diff_le [of "fl M x" x "1 / 1000"] by (simp add: of_rat_divide)
qed

lemma of_rat_powi: "real_of_rat (a powi n) = real_of_rat a powi n"
  by (cases "0 \<le> n") (simp_all add: power_int_def of_rat_power of_rat_inverse)

lemma powi_two_log: "10 powi n = 2 powr (log 2 10 * of_int n)" for n :: int
proof -
  have "2 powr (log 2 10 * of_int n) = (2 powr log 2 10) powr of_int n" by (simp only: powr_powr)
  also have "\<dots> = 10 powr of_int n" by simp
  finally show ?thesis by (simp add: powr_real_of_int')
qed

lemma log_two_pow: "log 2 (2 ^ 52) = (52::real)" "log 2 (2 ^ 93) = (93::real)" "log 2 (2 ^ 196) = (196::real)"
proof -
  have "log 2 (2 ^ n) = real n" for n :: nat by simp
  from this [of 52] this [of 93] this [of 196] show "log 2 (2 ^ 52) = (52::real)" "log 2 (2 ^ 93) = (93::real)"
    "log 2 (2 ^ 196) = (196::real)" by (simp_all only: of_nat_numeral)
qed

text \<open>The bits of the logarithm the code computes.\<close>

definition log2f :: "fmath \<Rightarrow> float64 \<Rightarrow> rat" where
  "log2f M f = (if expField f = 0 then Log2 M (fval f)
     else fl M (of_int (expField f - 1023) + Log2 M (fl M (1 + fl M (of_int (mantField f) / 2 ^ 52)))))"

lemma estimateK_eq: "estimateK M f = \<lceil>fl M (log2f M f / Log2 M 10)\<rceil>"
  by (simp only: estimateK_def log2f_def Let_def exponentBits_eq mantField_def)

lemma log_bounds: "1 / 2 \<le> x \<Longrightarrow> x \<le> 4 \<Longrightarrow> -1 \<le> log 2 x \<and> log 2 x \<le> 2"
proof -
  assume x: "1 / 2 \<le> x" "x \<le> 4"
  have "log 2 (1 / 2) \<le> log 2 x" "log 2 x \<le> log 2 4" using x by simp_all
  moreover have "log 2 (1 / 2) = -1" by (simp add: log_divide)
  moreover have "log 2 4 = 2" using log_pow_cancel [of 2 2] by simp
  ultimately show ?thesis by simp
qed

lemma log_ten: "3 \<le> log 2 10" "log 2 10 \<le> 4"
proof -
  have "log 2 (2 ^ 3) \<le> log 2 10" "log 2 10 \<le> log 2 (2 ^ 4)" by simp_all
  then show "3 \<le> log 2 10" "log 2 10 \<le> 4" by (simp_all only: log_pow_cancel)
qed

text \<open>
  \<open>B\<close> approximates the logarithm of the double and that of the upper end of its interval. A subnormal double is measured
  as it is, a normal one by its exponent.
\<close>

definition log_estimate :: "fmath \<Rightarrow> float64 \<Rightarrow> real \<Rightarrow> bool" where
  "log_estimate M f B \<longleftrightarrow> real_of_rat (of_int (signif f) * ulp f + half_up f) \<le> 2 powr (B + 1)
     \<and> B - 13 / 10 \<le> real_of_rat (log2f M f) \<and> \<bar>real_of_rat (log2f M f)\<bar> \<le> 1080"

lemma real_ulp: "real_of_rat (ulp f) = 2 powr of_int (exponent2 f)"
  by (simp add: ulp_def of_rat_powi powr_real_of_int')

lemma real_top: "real_of_rat (of_int (signif f) * ulp f + half_up f) = (of_int (signif f) + 1 / 2) * real_of_rat (ulp f)"
  by (simp add: half_up_def of_rat_add of_rat_mult of_rat_divide algebra_simps)

lemma log2f_subnormal:
  assumes "accurate M" "\<not> isZero f" "\<not> signBit f" "expField f = 0"
  shows "\<exists>B. log_estimate M f B"
proof -
  let ?u = "real_of_rat (ulp f)"
  note u = real_ulp [of f] and top = real_top [of f]
  have S: "1 \<le> signif f" using signif_pos [OF assms(2)] by simp
  then have E: "exponent2 f = -1074" and S52: "signif f \<le> 2 ^ 52" using field_bounds [of f] assms(4) by (auto simp: exponent2_def signif_def)
  let ?v = "of_int (signif f) * ?u"
  define B where "B = log 2 ?v"
  have v0: "0 < ?v" using S by (simp add: u)
  have vB: "2 powr B = ?v" using v0 by (simp add: B_def)
  have fv: "real_of_rat (fval f) = ?v" using assms(3) by (simp add: fval_def ulp_def of_rat_mult)
  then have "0 < fval f" using v0 by (metis zero_less_of_rat_iff)
  then have "\<bar>real_of_rat (Log2 M (fval f)) - log 2 (real_of_rat (fval f))\<bar> \<le> 1 / 4" by (rule accurate_log [OF assms(1)])
  moreover have "log2f M f = Log2 M (fval f)" using assms(4) by (simp add: log2f_def)
  ultimately have L: "\<bar>real_of_rat (log2f M f) - B\<bar> \<le> 1 / 4" unfolding B_def fv by simp
  have Breq: "B = log 2 (of_int (signif f)) - 1074" using S by (simp add: B_def log_mult u E)
  have "0 \<le> log 2 (of_int (signif f))" using S by simp
  moreover have "log 2 (of_int (signif f)) \<le> log 2 (2 ^ 52)"
  proof -
    have "real_of_int (signif f) \<le> real_of_int (2 ^ 52)" using S52 by (rule of_int_le_iff [THEN iffD2])
    then show ?thesis using S by simp
  qed
  ultimately have "-1074 \<le> B" "B \<le> -1022" unfolding Breq log_two_pow by linarith+
  moreover have "(of_int (signif f) + 1 / 2) * ?u \<le> 2 * ?v" using S by (simp add: u)
  then have "real_of_rat (of_int (signif f) * ulp f + half_up f) \<le> 2 powr (B + 1)"
    unfolding top by (simp add: powr_add vB)
  ultimately show ?thesis using L unfolding log_estimate_def by (intro exI [of _ B]) linarith
qed

lemma log2f_normal:
  assumes "accurate M" "finite64 f" "expField f \<noteq> 0"
  shows "\<exists>B. log_estimate M f B"
proof -
  let ?u = "real_of_rat (ulp f)"
  note u = real_ulp [of f] and top = real_top [of f]
  define B where "B = real_of_int (expField f - 1023)"
  define m where "m = (of_int (mantField f) / 2 ^ 52 :: rat)"
  have E: "exponent2 f = expField f - 1075" using assms(3) by (simp add: exponent2_def)
  have eb: "1 \<le> expField f" "expField f \<le> 2046" using assms(3) field_bounds [of f] assms(2) by (auto simp: finite64_def)
  then have B: "-1022 \<le> B" "B \<le> 1023" by (simp_all add: B_def)
  have m: "0 \<le> real_of_rat m" "real_of_rat m \<le> 1"
  proof -
    have "(of_int (mantField f) :: rat) \<le> of_int (2 ^ 52)" using field_bounds(2) [of f]
      by (intro of_int_le_iff [THEN iffD2]) simp
    then have "0 \<le> m" "m \<le> 1" using field_bounds(1) [of f] by (simp_all add: m_def divide_le_eq)
    then show "0 \<le> real_of_rat m" "real_of_rat m \<le> 1" by simp_all
  qed
  define y1 where "y1 = fl M m"
  define y2 where "y2 = fl M (1 + y1)"
  have y1: "\<bar>real_of_rat y1 - real_of_rat m\<bar> \<le> 1 / 1000"
    unfolding y1_def by (rule accurate_fl [OF assms(1)]) (use m in linarith)
  have y2: "\<bar>real_of_rat y2 - (1 + real_of_rat y1)\<bar> \<le> 1 / 1000"
  proof -
    have "\<bar>real_of_rat (1 + y1)\<bar> \<le> 2048" unfolding of_rat_add of_rat_1 using y1 m by linarith
    then show ?thesis using accurate_fl [OF assms(1), of "1 + y1"] unfolding y2_def of_rat_add of_rat_1 by blast
  qed
  have y2b: "1 / 2 \<le> real_of_rat y2" "real_of_rat y2 \<le> 4" using y1 y2 m by linarith+
  then have "0 < real_of_rat y2" by linarith
  then have "0 < y2" by simp
  then have l2: "\<bar>real_of_rat (Log2 M y2) - log 2 (real_of_rat y2)\<bar> \<le> 1 / 4" by (rule accurate_log [OF assms(1)])
  have sum: "real_of_rat (of_int (expField f - 1023) + Log2 M y2) = B + real_of_rat (Log2 M y2)"
    unfolding of_rat_add of_rat_of_int_eq B_def ..
  have lb: "\<bar>real_of_rat (log2f M f) - (B + real_of_rat (Log2 M y2))\<bar> \<le> 1 / 1000"
  proof -
    have "\<bar>B + real_of_rat (Log2 M y2)\<bar> \<le> 2048" using l2 log_bounds [OF y2b] B by linarith
    moreover have "log2f M f = fl M (of_int (expField f - 1023) + Log2 M y2)"
      using assms(3) by (simp add: log2f_def y2_def y1_def m_def)
    ultimately show ?thesis
      using accurate_fl [OF assms(1), of "of_int (expField f - 1023) + Log2 M y2"] unfolding sum by metis
  qed
  have "(of_int (signif f) + 1 / 2) * ?u \<le> 2 ^ 53 * ?u"
  proof (intro mult_right_mono)
    have "real_of_int (signif f) \<le> real_of_int (2 ^ 53 - 1)" using signif_range(2) [of f]
      by (intro of_int_le_iff [THEN iffD2]) simp
    then show "real_of_int (signif f) + 1 / 2 \<le> 2 ^ 53" by simp
  qed (simp add: u)
  also have "\<dots> = 2 powr (B + 1)"
  proof -
    have "B + 1 = 53 + real_of_int (exponent2 f)" by (simp add: B_def E)
    then show ?thesis by (simp add: u powr_add powr_numeral)
  qed
  finally have "real_of_rat (of_int (signif f) * ulp f + half_up f) \<le> 2 powr (B + 1)" unfolding top .
  moreover have "B - 13 / 10 \<le> real_of_rat (log2f M f)" using lb l2 log_bounds [OF y2b] by linarith
  moreover have "\<bar>real_of_rat (log2f M f)\<bar> \<le> 1080" using lb l2 log_bounds [OF y2b] B by linarith
  ultimately show ?thesis unfolding log_estimate_def by blast
qed

lemma log2f_bounds:
  assumes "accurate M" "finite64 f" "\<not> isZero f" "\<not> signBit f"
  shows "\<exists>B. log_estimate M f B"
  using log2f_subnormal [OF assms(1,3,4)] log2f_normal [OF assms(1,2)] by blast

text \<open>The quotient of the logarithms, and the exponent.\<close>

lemma quotient_bound:
  fixes L l t :: real
  assumes "3 \<le> l" "l \<le> 4" "\<bar>L - l\<bar> \<le> 1 / 1000" "\<bar>t\<bar> \<le> 1080"
  shows "t - 2 / 5 \<le> l * (t / L)" "\<bar>t / L\<bar> \<le> 2048"
proof -
  have L: "2 \<le> L" "2999 / 1000 \<le> L" using assms(1,3) by linarith+
  have "\<bar>t\<bar> / L \<le> 1080 / 2" using L assms(4) by (intro frac_le) simp_all
  then show "\<bar>t / L\<bar> \<le> 2048" using L by (simp add: abs_divide)
  have "l * (t / L) = t - t * (L - l) / L" using L by (simp add: field_simps)
  moreover have "\<bar>t * (L - l) / L\<bar> \<le> 2 / 5"
  proof -
    have "\<bar>t * (L - l)\<bar> \<le> 1080 * (1 / 1000)" using assms(3,4) unfolding abs_mult by (intro mult_mono) simp_all
    then have "\<bar>t * (L - l)\<bar> / L \<le> 1080 * (1 / 1000) / (2999 / 1000)" using L by (intro frac_le) simp_all
    then show ?thesis using L by (simp add: abs_divide)
  qed
  ultimately show "t - 2 / 5 \<le> l * (t / L)" by linarith
qed

lemma accurate_estimate:
  assumes "accurate M" "finite64 f" "\<not> isZero f" "\<not> signBit f"
  shows "estimate_ok M f"
proof -
  obtain B where B: "real_of_rat (of_int (signif f) * ulp f + half_up f) \<le> 2 powr (B + 1)"
    "B - 13 / 10 \<le> real_of_rat (log2f M f)" "\<bar>real_of_rat (log2f M f)\<bar> \<le> 1080"
    using log2f_bounds [OF assms] unfolding log_estimate_def by blast
  let ?t = "real_of_rat (log2f M f)" and ?L = "real_of_rat (Log2 M 10)" and ?l = "log 2 10"
  note q = quotient_bound [OF log_ten accurate_log10 [OF assms(1)] B(3)]
  have t: "real_of_rat (log2f M f / Log2 M 10) = ?t / ?L" by (simp add: of_rat_divide)
  have "fl M (log2f M f / Log2 M 10) \<le> of_int (estimateK M f)" unfolding estimateK_eq by (rule le_of_int_ceiling)
  then have "real_of_rat (fl M (log2f M f / Log2 M 10)) \<le> real_of_rat (of_int (estimateK M f))" by (simp only: of_rat_less_eq)
  moreover have "\<bar>real_of_rat (fl M (log2f M f / Log2 M 10)) - ?t / ?L\<bar> \<le> 1 / 1000"
    using accurate_fl [OF assms(1), of "log2f M f / Log2 M 10"] q(2) unfolding t by blast
  ultimately have k: "?t / ?L - 1 / 1000 \<le> real_of_int (estimateK M f)" unfolding of_rat_of_int_eq by linarith
  have "?l * (?t / ?L + 999 / 1000) \<le> ?l * of_int (estimateK M f + 1)"
    using k log_ten by (intro mult_left_mono) simp_all
  moreover have "?l * (?t / ?L + 999 / 1000) = ?l * (?t / ?L) + ?l * (999 / 1000)" by (simp add: distrib_left)
  ultimately have "B + 1 < ?l * of_int (estimateK M f + 1)" using q(1) B(2) log_ten by linarith
  then have "2 powr (B + 1) < 2 powr (?l * of_int (estimateK M f + 1))" by simp
  then have "real_of_rat (of_int (signif f) * ulp f + half_up f) < 10 powi (estimateK M f + 1)"
    using B(1) unfolding powi_two_log by linarith
  then have "real_of_rat (of_int (signif f) * ulp f + half_up f) < real_of_rat (10 powi (estimateK M f + 1))"
    by (simp add: of_rat_powi)
  then show ?thesis unfolding estimate_ok_def by (simp only: of_rat_less)
qed

lemma accurate_abs64: "accurate M \<Longrightarrow> finite64 f \<Longrightarrow> \<not> isZero f \<Longrightarrow> estimate_ok M (abs64 f)"
  by (rule accurate_estimate) (simp_all add: abs64_same abs64_fields)

section \<open>The assumptions can hold\<close>

text \<open>Exact arithmetic with a logarithm in steps of 1/4.\<close>

definition quarter_math :: fmath where
  "quarter_math = \<lparr>Log2 = (\<lambda>x. if x = 10 then 485 / 146 else
     (case quotient_of x of (n, d) \<Rightarrow> of_int (floorLog2 (n ^ 4) (d ^ 4)) / 4)), fl = (\<lambda>x. x)\<rparr>"

lemma log_mono2: "0 < a \<Longrightarrow> a \<le> b \<Longrightarrow> log 2 a \<le> log 2 b"
  by simp

lemma quarter_log:
  assumes "0 < x"
  shows "\<bar>real_of_rat (case quotient_of x of (n, d) \<Rightarrow> of_int (floorLog2 (n ^ 4) (d ^ 4)) / 4) - log 2 (real_of_rat x)\<bar> \<le> 1 / 4"
proof -
  obtain n d where nd: "quotient_of x = (n, d)" by fastforce
  have d: "0 < d" by (rule quotient_of_denom_pos [OF nd])
  have x: "x = of_int n / of_int d" by (rule quotient_of_div [OF nd])
  then have n: "0 < n" using assms d by (simp add: zero_less_divide_iff)
  let ?k = "floorLog2 (n ^ 4) (d ^ 4)"
  have p: "0 < n ^ 4" "0 < d ^ 4" using n d by simp_all
  have "x ^ 4 = of_int (n ^ 4) / of_int (d ^ 4)" by (simp add: x power_divide)
  then have "2 powi ?k \<le> x ^ 4" "x ^ 4 < 2 powi (?k + 1)"
    using floorLog2_bounds [OF p] p(2) by (simp_all add: le_divide_eq divide_less_eq)
  then have "real_of_rat (2 powi ?k) \<le> real_of_rat (x ^ 4)" "real_of_rat (x ^ 4) \<le> real_of_rat (2 powi (?k + 1))"
    by (simp_all only: of_rat_less_eq less_imp_le)
  moreover have pw: "real_of_rat (2 powi k) = 2 powr of_int k" for k
    by (simp add: of_rat_powi powr_real_of_int')
  ultimately have b: "2 powr of_int ?k \<le> real_of_rat x ^ 4" "real_of_rat x ^ 4 \<le> 2 powr of_int (?k + 1)"
    by (simp_all only: pw of_rat_power)
  have x0: "0 < real_of_rat x" using assms by simp
  have "log 2 (2 powr of_int ?k) \<le> log 2 (real_of_rat x ^ 4)" by (rule log_mono2 [OF _ b(1)]) simp
  moreover have "log 2 (real_of_rat x ^ 4) \<le> log 2 (2 powr of_int (?k + 1))" by (rule log_mono2 [OF _ b(2)]) (use x0 in simp)
  ultimately have "of_int ?k \<le> 4 * log 2 (real_of_rat x)" "4 * log 2 (real_of_rat x) \<le> of_int ?k + 1"
    using x0 by (simp_all add: log_nat_power)
  then show ?thesis by (simp add: nd of_rat_divide abs_le_iff)
qed

lemma log10_bounds: "93 / 28 \<le> log 2 10" "log 2 10 \<le> 196 / 59"
proof -
  have "log 2 (2 ^ 93) \<le> log 2 (10 ^ 28)" "log 2 (10 ^ 59) \<le> log 2 (2 ^ 196)" by simp_all
  moreover have "log 2 (10 ^ 28) = 28 * log 2 10" "log 2 (10 ^ 59) = 59 * log 2 10"
    using log_nat_power [of 10 2 28] log_nat_power [of 10 2 59] by (simp_all only: of_nat_numeral zero_less_numeral simp_thms)
  ultimately show "93 / 28 \<le> log 2 10" "log 2 10 \<le> 196 / 59" unfolding log_two_pow by linarith+
qed

lemma quarter_math_accurate: "accurate quarter_math"
  unfolding accurate_def
proof (intro conjI allI impI)
  have ten: "\<bar>485 / 146 - log 2 10\<bar> \<le> 1 / 1000" using log10_bounds by linarith
  have c485: "real_of_rat (485 / 146) = 485 / 146" by (simp add: of_rat_divide)
  show "\<bar>real_of_rat (Log2 quarter_math 10) - log 2 10\<bar> \<le> 1 / 1000" using ten by (simp add: quarter_math_def c485)
  show "\<bar>real_of_rat (Log2 quarter_math x) - log 2 (real_of_rat x)\<bar> \<le> 1 / 4" if "0 < x" for x
    using quarter_log [OF that] ten by (simp add: quarter_math_def c485)
qed (simp add: quarter_math_def)

section \<open>Properties\<close>

lemma format_shortest:
  assumes "accurate M" "finite64 f" "\<not> isZero f"
  obtains ds n where "FormatDouble M f = Inr (formatECMA (signBit f) ds n)" "shortest_digits f ds n"
proof -
  obtain ds n where F: "FormatDouble M f = Inr (formatECMA (signBit f) ds n)" "digits_of (abs64 f) ds n"
    using FormatDouble_digits [OF assms(2,3) accurate_abs64 [OF assms]] .
  with digits_of_shortest_digits [OF F(2)] that [of ds n] show thesis by (simp add: abs64_same [OF assms(2,3)])
qed

text \<open>
  C3: the shortest digits. A finite double that is not zero is printed as the ECMAScript layout of digits
  \<open>d1 ... dk\<close> and an exponent \<open>n\<close> such that: \<open>0.d1 ... dk * 10^n\<close> rounds to the double; no decimal with fewer
  digits, at any exponent, does; among the decimals of that length at that exponent the printed one is
  closest to the double; there are at most 17 digits, the first and the last not zero.
\<close>

theorem FormatDouble_shortest:
  assumes "accurate M" "finite64 f" "\<not> isZero f"
  shows "\<exists>ds n. FormatDouble M f = Inr (formatECMA (signBit f) ds n)
     \<and> list_all isDigit ds \<and> hd ds \<noteq> cZERO \<and> last ds \<noteq> cZERO \<and> length ds \<in> {1..17}
     \<and> decimalBits (digits_val ds) (n - int (length ds)) = magnitude f
     \<and> (\<forall>c q j. 0 < c \<longrightarrow> c < 10 ^ j \<longrightarrow> decimalBits c q = magnitude f \<longrightarrow> length ds \<le> j)
     \<and> (\<forall>c. 0 < c \<longrightarrow> decimalBits c (n - int (length ds)) = magnitude f \<longrightarrow>
          \<bar>of_int (digits_val ds) * 10 powi (n - int (length ds)) - \<bar>fval f\<bar>\<bar>
          \<le> \<bar>of_int c * 10 powi (n - int (length ds)) - \<bar>fval f\<bar>\<bar>)"
proof -
  obtain ds n where F: "FormatDouble M f = Inr (formatECMA (signBit f) ds n)" and s: "shortest_digits f ds n"
    using format_shortest [OF assms] .
  note sd = s [unfolded shortest_digits_def digits_decimal_def decimal_def]
  have pos: "0 < digits_val ds" using sd by (intro digits_val_pos) auto
  have v: "\<bar>fval f\<bar> = of_int (signif f) * ulp f"
    using signif_range(1) [of f] ulp_pos(1) [of f] by (simp add: fval_def ulp_def abs_mult)
  have "1 \<le> length ds" using sd by (cases ds) auto
  then have "length ds \<in> {1..17}" using sd by simp
  moreover have "decimalBits (digits_val ds) (n - int (length ds)) = magnitude f"
    using sd decimalBits_iff [OF pos, of "n - int (length ds)" f] by blast
  moreover have "length ds \<le> j" if "0 < c" "c < 10 ^ j" "decimalBits c q = magnitude f" for c q j
    using sd that(1,2) that(3) [unfolded decimalBits_iff [OF that(1)]] by blast
  moreover have "\<bar>of_int (digits_val ds) * 10 powi (n - int (length ds)) - \<bar>fval f\<bar>\<bar>
      \<le> \<bar>of_int c * 10 powi (n - int (length ds)) - \<bar>fval f\<bar>\<bar>"
    if "0 < c" "decimalBits c (n - int (length ds)) = magnitude f" for c
    using sd that(2) [unfolded decimalBits_iff [OF that(1)]] unfolding v by blast
  ultimately show ?thesis using F sd by blast
qed

text \<open>Numbers that are hard to print: 0.1, the smallest subnormal, a power of two at a binade boundary.\<close>

lemma sample_floats:
  "finite64 0x3FB999999999999A \<and> \<not> isZero 0x3FB999999999999A" "finite64 1 \<and> \<not> isZero 1"
  "finite64 0x4340000000000000 \<and> \<not> isZero 0x4340000000000000"
  by code_simp+

theorem FormatDouble_shortest_witness:
  "\<exists>ds n. FormatDouble quarter_math 0x3FB999999999999A = Inr (formatECMA (signBit 0x3FB999999999999A) ds n)
     \<and> length ds \<in> {1..17}"
  using FormatDouble_shortest [OF quarter_math_accurate, of "0x3FB999999999999A"] sample_floats(1) by blast

text \<open>
  C9: the round trip. For every double the parser can return, \<open>FormatDouble\<close> succeeds with a JSON number
  token of at most 25 bytes, and \<^verbatim>\<open>strconv.ParseFloat\<close> reads that token back as the same double.
\<close>

theorem FormatDouble_roundtrip:
  assumes "accurate M" "number_ok f"
  shows "\<exists>t. FormatDouble M f = Inr t \<and> json_number t \<and> length t \<le> 25 \<and> ParseFloat t = (f, None)"
proof -
  have "\<exists>t. FormatDouble M f = Inr t \<and> jnum t f \<and> length t \<le> 25"
    by (rule FormatDouble_jnum [OF assms(2)]) (use assms in \<open>auto simp: number_ok_def intro: accurate_abs64\<close>)
  then obtain t where t: "FormatDouble M f = Inr t" "jnum t f" "length t \<le> 25" by blast
  moreover from t(2) have "ParseFloat t = (f, None)" by (auto simp: jnum_def ParseFloat_Some)
  ultimately show ?thesis by (auto simp: jnum_def)
qed

theorem FormatDouble_roundtrip_witness:
  "\<exists>t. FormatDouble quarter_math 1 = Inr t \<and> ParseFloat t = (1, None)"
  using FormatDouble_roundtrip [OF quarter_math_accurate, of 1] sample_floats(2) by (auto simp: number_ok_def)

text \<open>
  C16: \<open>FormatDouble\<close> fails on NaN and on the infinities, with class INVALID_GRAMMAR, and on nothing else: the
  digit buffer never overflows and the fixup loop always ends. Both zeros print as "0".
\<close>

theorem FormatDouble_total:
  assumes "accurate M"
  shows "(IsNaN f \<or> IsInf f \<longrightarrow> (\<exists>msg. FormatDouble M f = Inl (Fail (New InvalidGrammar (-1) msg))))
     \<and> (\<not> IsNaN f \<and> \<not> IsInf f \<longrightarrow> (\<exists>t. FormatDouble M f = Inr t \<and> (isZero f \<longrightarrow> t = [cZERO])))"
proof -
  have "\<exists>t. FormatDouble M f = Inr t" if "finite64 f" "\<not> isZero f"
    using format_shortest [OF assms that] by metis
  moreover have "isZero f \<Longrightarrow> \<not> IsInf f" by (simp add: isZero_def IsInf_def)
  ultimately show ?thesis
    by (auto simp: FormatDouble_def finite64_def IsNaN_def IsInf_def)
qed

theorem FormatDouble_total_witness:
  "\<exists>msg. FormatDouble quarter_math 0x7FF0000000000000 = Inl (Fail (New InvalidGrammar (-1) msg))"
proof -
  have "IsInf 0x7FF0000000000000" by code_simp
  then show ?thesis using FormatDouble_total [OF quarter_math_accurate, of "0x7FF0000000000000"] by blast
qed

end
