(* ===== verification/Jcs_Canon.thy ===== *)
theory Jcs_Canon
  imports Jcs_Validate Jcs_Sort Jcs_String Jcsfloat_Estimate
begin

text \<open>
  The canonical form: what \<open>serializeValue\<close> writes is a JSON text, that of the value with the members of
  every object sorted; the text depends on that sorted value only.
\<close>

section \<open>The values the parser returns\<close>

text \<open>Each value is one of the composite literals, and its parts are valid.\<close>

fun wf :: "Value \<Rightarrow> bool" and mwf :: "Member \<Rightarrow> bool" where
  "wf (Value k s n ms es) = (case k of
     KindNull \<Rightarrow> s = [] \<and> n = 0 \<and> ms = [] \<and> es = []
   | KindBool \<Rightarrow> (s = ascii ''true'' \<or> s = ascii ''false'') \<and> n = 0 \<and> ms = [] \<and> es = []
   | KindNumber \<Rightarrow> s = [] \<and> number_ok n \<and> ms = [] \<and> es = []
   | KindString \<Rightarrow> string_ok s \<and> n = 0 \<and> ms = [] \<and> es = []
   | KindArray \<Rightarrow> s = [] \<and> n = 0 \<and> ms = [] \<and> list_all wf es
   | KindObject \<Rightarrow> s = [] \<and> n = 0 \<and> distinct (map Key ms) \<and> list_all mwf ms \<and> es = []
   | KindUnknown i \<Rightarrow> False)"
| "mwf (Member k v) = (string_ok k \<and> wf v)"

lemma jvalue_wf:
  "jvalue N t v \<Longrightarrow> wf v"
  "jmembers N tm ms \<Longrightarrow> list_all mwf ms"
  "jelems N te es \<Longrightarrow> list_all wf es"
  by (induction rule: jvalue_jmembers_jelems.inducts) (auto simp: jnum_ok jchars_ok)

section \<open>The canonical value\<close>

text \<open>
  What the serialized text of a tree denotes: members sorted by key, the negative zero without its sign,
  and nothing of the fields that belong to another kind.
\<close>

definition unsigned_zero :: "float64 \<Rightarrow> float64" where
  "unsigned_zero f = (if isZero f then 0 else f)"

fun canon :: "Value \<Rightarrow> Value" and mcanon :: "Member \<Rightarrow> Member" where
  "canon (Value k s n ms es) = (case k of
     KindNull \<Rightarrow> NullValue
   | KindBool \<Rightarrow> BoolValue s
   | KindNumber \<Rightarrow> NumberValue (unsigned_zero n)
   | KindString \<Rightarrow> StringValue s
   | KindArray \<Rightarrow> ArrayValue (map canon es)
   | KindObject \<Rightarrow> ObjectValue (sortMembers (map mcanon ms))
   | KindUnknown i \<Rightarrow> Value k s n ms es)"
| "mcanon (Member k v) = Member k (canon v)"

lemma Key_mcanon [simp]: "Key (mcanon m) = Key m" and MValue_mcanon [simp]: "MValue (mcanon m) = canon (MValue m)"
  by (cases m; simp)+

lemma keys_mcanon [simp]: "map Key (map mcanon ms) = map Key ms"
  by simp

text \<open>Sorting looks at keys only.\<close>

lemma sortMembers_mcanon: "sortMembers (map mcanon ms) = map mcanon (sortMembers ms)"
proof -
  have "(\<lambda>a b. member_less (mcanon a) (mcanon b)) = member_less" by (intro ext) (simp add: member_less_def)
  then show ?thesis by (simp add: sortMembers_eq sort_Slice_map)
qed

section \<open>Serialization writes the canonical value\<close>

definition writes :: "fmath \<Rightarrow> int \<Rightarrow> Value \<Rightarrow> bool" where
  "writes M N v \<longleftrightarrow> (\<exists>t. jvalue N t (canon v) \<and> (\<forall>buf. serializeValue M buf v = Inr (buf @ t)))"

lemma zero_word_unsigned: "\<not> signBit 0" "isZero 0" "finite64 0"
  by (simp_all add: signBit_def isZero_def finite64_def expField_def mantField_def)

lemma unsigned_zero_ok: "number_finite f \<Longrightarrow> number_ok (unsigned_zero f)"
  using zero_word_unsigned
  by (auto simp: number_ok_def unsigned_zero_def number_finite_def finite64_def IsNaN_def IsInf_def)

lemma FormatDouble_unsigned_zero: "FormatDouble M (unsigned_zero f) = FormatDouble M f"
  using zero_word_unsigned(2,3)
  by (auto simp: FormatDouble_def unsigned_zero_def isZero_def IsNaN_def finite64_def)

lemma format_number:
  assumes "accurate M" "number_finite f" "25 \<le> N"
  shows "\<exists>t. FormatDouble M f = Inr t \<and> jnum t (unsigned_zero f) \<and> int (length t) \<le> N"
proof -
  note ok = unsigned_zero_ok [OF assms(2)]
  then have "\<exists>t. FormatDouble M (unsigned_zero f) = Inr t \<and> jnum t (unsigned_zero f) \<and> length t \<le> 25"
    by (rule FormatDouble_jnum) (use ok assms(1) in \<open>auto simp: number_ok_def intro: accurate_abs64\<close>)
  with assms(3) show ?thesis by (auto simp: FormatDouble_unsigned_zero)
qed

lemma writes_elems:
  assumes "es \<noteq> []" "\<forall>v\<in>set es. writes M N v"
  shows "\<exists>t. jelems N t (map canon es) \<and> (\<forall>buf. serializeElems M buf True es = Inr (buf @ t))
     \<and> (\<forall>buf. serializeElems M buf False es = Inr (buf @ cCOMMA # t))"
  using assms
proof (induction es)
  case (Cons v es)
  then obtain t where t: "jvalue N t (canon v)" "\<And>buf. serializeValue M buf v = Inr (buf @ t)" by (auto simp: writes_def)
  show ?case
  proof (cases "es = []")
    case True
    then show ?thesis using t je_one [of "[]" N t "canon v" "[]"] by (intro exI [of _ t]) (simp add: ws_Nil)
  next
    case False
    with Cons obtain u where u: "jelems N u (map canon es)" "\<And>buf. serializeElems M buf False es = Inr (buf @ cCOMMA # u)" by auto
    have "jelems N (t @ cCOMMA # u) (map canon (v # es))"
      using je_more [of "[]" N t "canon v" "[]" u] t(1) u(1) by (simp add: ws_Nil)
    then show ?thesis using t(2) u(2) by (intro exI [of _ "t @ cCOMMA # u"]) simp
  qed
qed simp

lemma writes_members:
  assumes "ms \<noteq> []" "\<forall>m\<in>set ms. string_ok (Key m) \<and> writes M N (MValue m)"
  shows "\<exists>t. jmembers N t (map mcanon ms) \<and> (\<forall>buf. serializeMembers M buf True ms = Inr (buf @ t))
     \<and> (\<forall>buf. serializeMembers M buf False ms = Inr (buf @ cCOMMA # t))"
  using assms
proof (induction ms)
  case (Cons m ms)
  obtain k v where m: "m = Member k v" by (cases m)
  with Cons obtain t where t: "jvalue N t (canon v)" "\<And>buf. serializeValue M buf v = Inr (buf @ t)" by (auto simp: writes_def)
  have k: "string_ok k" "utf8_Valid k" using Cons m by (auto simp: string_ok_def)
  note ks = serializeString_eq [OF k(2)] and kj = escapes_jchars [OF k(1)]
  let ?k = "cQUOTE # escapes k @ [cQUOTE]"
  show ?case
  proof (cases "ms = []")
    case True
    have "jmembers N (?k @ cCOLON # t) (map mcanon (m # ms))"
      using jm_one [of "[]" "escapes k" k "[]" "[]" N t "canon v" "[]"] kj t(1) True by (simp add: m ws_Nil)
    then show ?thesis using t(2) True by (intro exI [of _ "?k @ cCOLON # t"]) (simp add: m ks Let_def)
  next
    case False
    with Cons obtain u where u: "jmembers N u (map mcanon ms)"
      "\<And>buf. serializeMembers M buf False ms = Inr (buf @ cCOMMA # u)" by auto
    have "jmembers N (?k @ cCOLON # t @ cCOMMA # u) (map mcanon (m # ms))"
      using jm_more [of "[]" "escapes k" k "[]" "[]" N t "canon v" "[]" u] kj t(1) u(1) by (simp add: m ws_Nil)
    then show ?thesis using t(2) u(2) by (intro exI [of _ "?k @ cCOLON # t @ cCOMMA # u"]) (simp add: m ks Let_def)
  qed
qed simp

lemma writes_array:
  assumes "\<forall>v\<in>set es. writes M N v"
  shows "writes M N (Value KindArray s n ms es)"
proof (cases "es = []")
  case True
  then show ?thesis using jv_arr0 [of "[]" N] by (intro writes_def [THEN iffD2] exI [of _ "[cLBRACK, cRBRACK]"]) (simp add: ws_Nil)
next
  case False
  from writes_elems [OF this assms] obtain t where t: "jelems N t (map canon es)"
    "\<And>buf. serializeElems M buf True es = Inr (buf @ t)" by blast
  from jv_arr [OF t(1)] t(2) show ?thesis
    by (intro writes_def [THEN iffD2] exI [of _ "cLBRACK # t @ [cRBRACK]"]) simp
qed

lemma writes_object:
  assumes "\<forall>m\<in>set ms. string_ok (Key m) \<and> writes M N (MValue m)" "distinct (map Key ms)"
  shows "writes M N (Value KindObject s n ms es)"
proof (cases "ms = []")
  case True
  then have "sortMembers ms = []" by (simp add: sortMembers_eq)
  with True show ?thesis using jv_obj0 [of "[]" N]
    by (intro writes_def [THEN iffD2] exI [of _ "[cLBRACE, cRBRACE]"]) (simp add: ws_Nil)
next
  case False
  then have "sortMembers ms \<noteq> []" using length_sortMembers [of ms] by fastforce
  from writes_members [OF this, of M N] assms(1) obtain t where t: "jmembers N t (map mcanon (sortMembers ms))"
    "\<And>buf. serializeMembers M buf True (sortMembers ms) = Inr (buf @ t)" by auto
  have "jvalue N (cLBRACE # t @ [cRBRACE]) (ObjectValue (map mcanon (sortMembers ms)))"
    by (rule jv_obj [OF t(1)]) (simp only: keys_mcanon sortMembers_keys assms(2))
  with t(2) show ?thesis
    by (intro writes_def [THEN iffD2] exI [of _ "cLBRACE # t @ [cRBRACE]"]) (simp add: sortMembers_mcanon)
qed

lemma tree_writes:
  assumes "accurate M" "25 \<le> N"
  shows "tree_ok L v \<Longrightarrow> writes M N v" "member_ok L m \<Longrightarrow> string_ok (Key m) \<and> writes M N (MValue m)"
proof (induction L v and L m rule: tree_ok_member_ok.induct)
  case (1 L k s n ms es)
  show ?case
  proof (cases k)
    case KindNull
    then show ?thesis using jv_null by (auto simp: writes_def)
  next
    case KindBool
    then show ?thesis using 1 jv_bool [of s] by (auto simp: writes_def)
  next
    case KindNumber
    then obtain t where "FormatDouble M n = Inr t" "jnum t (unsigned_zero n)" "int (length t) \<le> N"
      using format_number [OF assms(1) _ assms(2)] 1 by auto
    with KindNumber show ?thesis
      by (intro writes_def [THEN iffD2] exI [of _ t]) (simp add: serializeNumber_def jv_num)
  next
    case KindString
    then have "string_ok s" "utf8_Valid s" using 1 by (simp_all add: string_fits_def string_ok_def)
    with KindString jv_str [OF escapes_jchars] show ?thesis
      by (intro writes_def [THEN iffD2] exI [of _ "cQUOTE # escapes s @ [cQUOTE]"]) (simp add: serializeString_eq)
  next
    case KindArray
    then show ?thesis using 1 by (auto simp: list_all_iff intro: writes_array)
  next
    case KindObject
    then show ?thesis using 1 by (auto simp: list_all_iff intro!: writes_object)
  qed (use 1 in simp)
qed (simp add: string_fits_def)

end
