(* ===== verification/Token_Errors.thy ===== *)
theory Token_Errors
  imports Token_Spec
begin

text \<open>
  How the parser fails: the class and the offset of the error of every scanner and of every value, on an
  input that is valid UTF-8, and the offset \<open>ParseWithOptions\<close> reports when it is not.
\<close>

text \<open>A state inside the input, at the border of two runes.\<close>

definition good :: "parser \<Rightarrow> bool" where
  "good p \<longleftrightarrow> pos p \<le> length (data p) \<and> utf8_Valid (rest p)"

text \<open>The classes of an error inside valid UTF-8.\<close>

definition parse_class :: "FailureClass \<Rightarrow> bool" where
  "parse_class c \<longleftrightarrow> c \<in> {InvalidGrammar, DuplicateKey, LoneSurrogate, Noncharacter, NumberOverflow, NumberNegZero,
     NumberUnderflow, BoundExceeded}"

definition parse_error :: "bytes \<Rightarrow> jcserr \<Rightarrow> bool" where
  "parse_error d e \<longleftrightarrow> 0 \<le> Offset e \<and> Offset e \<le> int (length d) \<and> parse_class (Class e)"

lemma parse_class_simps [simp]:
  "parse_class InvalidGrammar" "parse_class DuplicateKey" "parse_class LoneSurrogate" "parse_class Noncharacter"
  "parse_class NumberOverflow" "parse_class NumberNegZero" "parse_class NumberUnderflow" "parse_class BoundExceeded"
  by (simp_all add: parse_class_def)

lemma parse_error_New [simp]: "parse_error d (New c (int n) m) \<longleftrightarrow> n \<le> length d \<and> parse_class c"
  by (simp add: parse_error_def)

lemma parse_error_newError [simp]: "parse_error d (newError p m) \<longleftrightarrow> pos p \<le> length d"
  by (simp add: newError_def)

lemma parse_error_newErrorf [simp]: "parse_error d (newErrorf p c m) \<longleftrightarrow> pos p \<le> length d \<and> parse_class c"
  by (simp add: newErrorf_def)

section \<open>Staying at the border of runes\<close>

lemma good_goes:
  assumes "goes p t n q" "good p" "\<forall>u. utf8_Valid (t @ u) = utf8_Valid u"
  shows "good q \<and> data q = data p"
proof -
  from assms(1) obtain u where u: "rest p = t @ u" "q = mv (length t) n 0 p" by (auto simp: goes_def)
  then have "length t \<le> length (data p) - pos p" using length_rest [of p] by simp
  with u assms(2,3) show ?thesis by (auto simp: good_def)
qed

lemma good_skip: "good p \<Longrightarrow> good (skipWhitespace p) \<and> data (skipWhitespace p) = data p"
proof -
  assume g: "good p"
  obtain w where "ws w" "goes p w 0 (skipWhitespace p)" using goes_skip by blast
  with good_goes [OF this(2) g] show ?thesis by (simp add: ws_utf8)
qed

lemma good_byte: "good p \<Longrightarrow> rest p = b # u \<Longrightarrow> b < 0x80 \<Longrightarrow> good (mv 1 n m p)"
  using rest_Cons [of p b u] by (auto simp: good_def Suc_le_eq)

lemma good_mv_count [simp]: "good (mv 0 n m p) \<longleftrightarrow> good p"
  by (simp add: good_def)

lemma good_popDepth [simp]: "good (popDepth p) \<longleftrightarrow> good p" "data (popDepth p) = data p"
  by (simp_all add: good_def popDepth_def rest_def)

lemma good_reads: "reads p t q \<Longrightarrow> good p \<Longrightarrow> list_all (\<lambda>b. b < 0x80) t \<Longrightarrow> good q \<and> data q = data p"
  using good_goes [of p t 0 q] by (simp add: reads_goes utf8_ascii)

lemma expect_good: "expect p b = Inr q \<Longrightarrow> good p \<Longrightarrow> b < 0x80 \<Longrightarrow> good q \<and> data q = data p"
  using good_reads [of p "[b]" q] by (simp add: expect_reads)

lemma expect_error: "expect p b = Inl e \<Longrightarrow> good p \<Longrightarrow> parse_error (data p) e"
  by (cases p rule: rest_cases) (auto simp: expect_def next_byte_def good_def split: if_splits)

section \<open>Strings\<close>

lemma readHexLoop_error: "readHexLoop p off js v = Inl e \<Longrightarrow> off \<le> length d \<Longrightarrow> parse_error d e"
  by (induction js arbitrary: v) (auto split: prod.splits if_splits)

lemma readHex4_error: "readHex4 p off = Inl e \<Longrightarrow> off \<le> length d \<Longrightarrow> parse_error d e"
  by (auto simp: readHex4_def simp del: readHexLoop.simps split: if_splits sum.splits dest: readHexLoop_error)

lemma parseUnicodeEscape_error:
  assumes "parseUnicodeEscape p off = Inl e" "off \<le> length (data p)" "pos p \<le> length (data p)"
  shows "parse_error (data p) e"
proof (cases "readHex4 p off")
  case (Inl x)
  with assms readHex4_error [OF Inl, of "data p"] show ?thesis by (simp add: parseUnicodeEscape_def)
next
  case (Inr y)
  then obtain r1 p1 where 1: "readHex4 p off = Inr (r1, p1)" by (cases y) auto
  then have p1: "pos p1 \<le> length (data p)" "data p1 = data p" using readHexLoop_pos [OF 1] by auto
  show ?thesis
  proof (cases "readHex4 (p1\<lparr>pos := pos p1 + 2\<rparr>) (pos p1)")
    case (Inl x)
    with readHex4_error [OF Inl, of "data p"] 1 p1 assms show ?thesis
      by (auto simp: parseUnicodeEscape_def Let_def split: if_splits)
  next
    case (Inr z)
    with 1 p1 assms show ?thesis
      by (auto simp: parseUnicodeEscape_def Let_def split: if_splits prod.splits)
  qed
qed

lemma parseEscape_error:
  assumes "parseEscape p off = Inl e" "off \<le> length (data p)" "pos p \<le> length (data p)"
  shows "parse_error (data p) e"
  using assms parseUnicodeEscape_error [of "p\<lparr>pos := pos p + 1\<rparr>" off e]
  by (auto simp: parseEscape_def Let_def split: if_splits prod.splits)

lemma validateStringRune_error: "validateStringRune r off = Some e \<Longrightarrow> off \<le> length d \<Longrightarrow> parse_error d e"
  by (auto simp: validateStringRune_def split: if_splits)

text \<open>One round of the loop that fails, at an escape and at a character: the failure is the escape's, the rune's, the
  bound's or that of the next round.\<close>

lemma escape_round_fails:
  assumes eq: "parseStringLoop p buf = Inl e" and g: "good p" and r: "rest p = cBSLASH # w" "pos p < length (data p)" "data p ! pos p = cBSLASH"
    and IH: "\<And>r q. parseEscape (p\<lparr>pos := pos p + 1\<rparr>) (pos p) = Inr (r, q) \<Longrightarrow> validateStringRune r (pos p) = None \<Longrightarrow>
      \<not> maxStringBytes q < int (length buf + length (EncodeRune r)) \<Longrightarrow>
      parseStringLoop q (buf @ EncodeRune r) = Inl e \<Longrightarrow> good q \<Longrightarrow> parse_error (data q) e"
  shows "parse_error (data p) e"
proof (cases "parseEscape (p\<lparr>pos := pos p + 1\<rparr>) (pos p)")
  case (Inl x)
  with eq r parseEscape_error [OF Inl] show ?thesis by (simp add: parseStringLoop.simps [of p buf])
next
  case (Inr y)
  then obtain r' q where y: "parseEscape (p\<lparr>pos := pos p + 1\<rparr>) (pos p) = Inr (r', q)" by (cases y) auto
  then obtain t where t: "jescape t r'" "reads (adv 1 p) t q" by (auto simp: adv_1 parseEscape_Inr)
  have "good (adv 1 p)" using good_byte [OF g r(1), of 0 0] by (simp add: adv_mv)
  then have q: "good q" "data q = data p" using good_reads [OF t(2) _ jescape_ascii [OF t(1)]] by auto
  then have le: "pos q \<le> length (data p)" by (simp add: good_def)
  consider x where "validateStringRune r' (pos p) = Some x"
    | "validateStringRune r' (pos p) = None" "maxStringBytes q < int (length buf + length (EncodeRune r'))"
    | "validateStringRune r' (pos p) = None" "\<not> maxStringBytes q < int (length buf + length (EncodeRune r'))"
    by (cases "validateStringRune r' (pos p)") auto
  then show ?thesis
  proof cases
    case 1
    with eq r y validateStringRune_error [OF 1, of "data p"] show ?thesis by (simp add: parseStringLoop.simps [of p buf])
  next
    case 2
    with eq r y le show ?thesis by (auto simp: parseStringLoop.simps [of p buf])
  next
    case 3
    with eq r y have "parseStringLoop q (buf @ EncodeRune r') = Inl e" by (auto simp: parseStringLoop.simps [of p buf])
    with IH [OF y 3] q show ?thesis by simp
  qed
qed

lemma rune_round_fails:
  assumes eq: "parseStringLoop p buf = Inl e" and g: "good p" and n: "pos p < length (data p)" "data p ! pos p = b"
    and b: "b \<noteq> cQUOTE" "b \<noteq> cBSLASH" "\<not> b < 0x20"
    and IH: "\<And>r k. DecodeRune (drop (pos p) (data p)) = (r, k) \<Longrightarrow> \<not> (r = RuneError \<and> k \<le> 1) \<Longrightarrow>
      validateStringRune r (pos p) = None \<Longrightarrow> \<not> maxStringBytes p < int (length buf + k) \<Longrightarrow>
      parseStringLoop (p\<lparr>pos := pos p + k\<rparr>) (buf @ take k (drop (pos p) (data p))) = Inl e \<Longrightarrow>
      good (p\<lparr>pos := pos p + k\<rparr>) \<Longrightarrow> parse_error (data p) e"
  shows "parse_error (data p) e"
proof -
  have "utf8_Valid (rest p)" "rest p \<noteq> []" using g n by (auto simp: good_def rest_def)
  then obtain r' k where d: "decode_seq (rest p) = Some (r', k)" "utf8_Valid (drop k (rest p))"
    using utf8_Valid_decode by blast
  then have D: "DecodeRune (drop (pos p) (data p)) = (r', k)" "\<not> (r' = RuneError \<and> k \<le> 1)"
    using DecodeRune_bad DecodeRune_Some by (auto simp: rest_def)
  consider x where "validateStringRune r' (pos p) = Some x"
    | "validateStringRune r' (pos p) = None" "maxStringBytes p < int (length buf + k)"
    | "validateStringRune r' (pos p) = None" "\<not> maxStringBytes p < int (length buf + k)"
    by (cases "validateStringRune r' (pos p)") auto
  then show ?thesis
  proof cases
    case 1
    with eq n b D validateStringRune_error [OF 1, of "data p"] show ?thesis by (auto simp: parseStringLoop.simps [of p buf] Let_def)
  next
    case 2
    with eq n b D show ?thesis by (auto simp: parseStringLoop.simps [of p buf] Let_def)
  next
    case 3
    with eq n b D have "parseStringLoop (p\<lparr>pos := pos p + k\<rparr>) (buf @ take k (drop (pos p) (data p))) = Inl e"
      by (auto simp: parseStringLoop.simps [of p buf] Let_def)
    moreover have "good (p\<lparr>pos := pos p + k\<rparr>)"
      using d decode_seq_size [OF d(1)] n(1) by (auto simp: good_def rest_def add.commute)
    ultimately show ?thesis by (rule IH [OF D 3])
  qed
qed

lemma parseStringLoop_error:
  assumes "parseStringLoop p buf = Inl e" "good p"
  shows "parse_error (data p) e"
  using assms
proof (induction p buf rule: parseStringLoop.induct)
  case (1 p buf)
  have le: "pos p \<le> length (data p)" using 1(4) by (simp add: good_def)
  show ?case
  proof (cases p rule: rest_cases)
    case 1
    with \<open>parseStringLoop p buf = Inl e\<close> le show ?thesis by (auto simp: parseStringLoop.simps [of p buf])
  next
    case (2 b w)
    consider (q) "b = cQUOTE" | (e) "b = cBSLASH" | (c) "b \<noteq> cQUOTE" "b \<noteq> cBSLASH" "b < 0x20"
      | (n) "b \<noteq> cQUOTE" "b \<noteq> cBSLASH" "\<not> b < 0x20" by blast
    then show ?thesis
    proof cases
      case e
      show ?thesis
        by (rule escape_round_fails [OF 1(3,4) 2 [unfolded e]])
          (use 1(1) [OF _ refl _ _ refl _ refl _ refl] 2 e in simp_all)
    next
      case n
      show ?thesis
        by (rule rune_round_fails [OF 1(3,4) 2(2,3) n])
          (use 1(2) [OF _ refl _ _ _ refl _ _ _ _] 2 n in simp_all)
    qed (use 1(3) 2 le in \<open>auto simp: parseStringLoop.simps [of p buf]\<close>)
  qed
qed

lemma parseStringFast_good:
  assumes "good p"
  shows "(parseStringFast p start = Inl (Inl e) \<longrightarrow> parse_error (data p) e)
     \<and> (parseStringFast p start = Inr q \<longrightarrow> good q \<and> data q = data p)"
  using assms
proof (induction p start rule: parseStringFast.induct)
  case (1 p start)
  have le: "pos p \<le> length (data p)" using 1(2) by (simp add: good_def)
  show ?case
  proof (cases p rule: rest_cases)
    case 1
    with \<open>good p\<close> show ?thesis by (auto simp: parseStringFast.simps [of p start])
  next
    case (2 b w)
    consider (q) "b = cQUOTE" | (l) "b \<noteq> cQUOTE" "b < 0x20 \<or> b = cBSLASH \<or> b \<ge> 0x80" | (n) "plain_ascii b"
      by (meson plain_ascii_def not_less)
    then show ?thesis
    proof cases
      case n
      then have nb: "b \<noteq> cQUOTE" "\<not> (b < 0x20 \<or> b = cBSLASH \<or> b \<ge> 0x80)" "b < 0x80" by (auto simp: plain_ascii_def)
      have "good (adv 1 p)" using good_byte [OF 1(2) 2(1) nb(3), of 0 0] by (simp add: adv_mv)
      with 1(1) [OF 2(2) refl] 2 nb show ?thesis
        by (subst (1 2) parseStringFast.simps) (simp add: Let_def adv_1)
    qed (use 1(2) 2 le in \<open>auto simp: parseStringFast.simps [of p start] Let_def\<close>)
  qed
qed

lemma parseString_error:
  assumes "parseString p = Inl e" "good p"
  shows "parse_error (data p) e"
proof (cases "expect p cQUOTE")
  case (Inl x)
  with assms expect_error [OF Inl assms(2)] show ?thesis by (simp add: parseString_def)
next
  case (Inr p1)
  then have g: "good p1" "data p1 = data p" using expect_good [OF Inr assms(2)] by auto
  show ?thesis
  proof (cases "parseStringFast p1 (pos p1)")
    case (Inl r)
    with Inr assms(1) have "parseStringFast p1 (pos p1) = Inl (Inl e)" by (simp add: parseString_def)
    with parseStringFast_good [OF g(1)] g(2) show ?thesis by auto
  next
    case (Inr q)
    with parseStringFast_good [OF g(1), of "pos p1" e q] g have q: "good q" "data q = data p" by auto
    from Inr \<open>expect p cQUOTE = Inr p1\<close> assms(1) have
      "parseStringLoop q (take (pos q - pos p1) (drop (pos p1) (data q))) = Inl e"
      by (simp add: parseString_def Let_def)
    from parseStringLoop_error [OF this q(1)] q(2) show ?thesis by simp
  qed
qed

lemma parseString_good:
  assumes "parseString p = Inr (v, q)" "good p"
  shows "good q \<and> data q = data p"
proof -
  from assms(1) obtain t s where t: "jchars t s" "goes p (cQUOTE # t @ [cQUOTE]) 0 q"
    by (auto simp: parseString_iff reads_goes)
  from good_goes [OF t(2) assms(2)] show ?thesis by (simp add: jchars_utf8 [OF t(1)])
qed

section \<open>Numbers and literals\<close>

lemma scanDigits_error: "scanDigits p n = Inl e \<Longrightarrow> n \<le> length d \<Longrightarrow> parse_error d e"
proof (induction p n rule: scanDigits.induct)
  case (1 p n)
  then show ?case
    by (auto simp: Let_def scanDigits.simps [of p n] numberTooLong_def split: if_splits)
qed

lemma scanIntegerPart_error:
  assumes "scanIntegerPart p n = Inl e" "n \<le> length (data p)" "pos p \<le> length (data p)"
  shows "parse_error (data p) e"
  using assms scanDigits_error [of p n e "data p"]
  by (auto simp: scanIntegerPart_def scanZeroIntegerPart_def scanNonZeroIntegerDigits_def Let_def split: if_splits)

lemma scanFractionPart_error:
  assumes "scanFractionPart p n = Inl e" "n \<le> length (data p)" "pos p \<le> length (data p)"
  shows "parse_error (data p) e"
  using assms scanDigits_error [of "p\<lparr>pos := pos p + 1\<rparr>" n e "data p"]
  by (auto simp: scanFractionPart_def Let_def split: if_splits)

lemma scanExponentPart_error:
  assumes "scanExponentPart p n = Inl e" "n \<le> length (data p)" "pos p \<le> length (data p)"
  shows "parse_error (data p) e"
proof -
  obtain s where s: "reads (adv 1 p) s (skip_exp_sign (adv 1 p))" using skip_exp_sign_sound by blast
  have "pos (skip_exp_sign (adv 1 p)) \<le> length (data p)" if "rest p \<noteq> []"
  proof -
    from s obtain u where "rest (adv 1 p) = s @ u" "skip_exp_sign (adv 1 p) = adv (length s) (adv 1 p)" by (auto simp: reads_iff)
    moreover from this have "length s \<le> length (data p) - Suc (pos p)" using length_rest [of "adv 1 p"] by simp
    moreover have "pos p < length (data p)" using that by (simp add: inside_rest)
    ultimately show ?thesis by simp
  qed
  moreover have "data (skip_exp_sign (adv 1 p)) = data p" using s by (simp add: reads_iff)
  ultimately show ?thesis
    using assms scanDigits_error [of "skip_exp_sign (adv 1 p)" n e "data p"]
    by (auto simp: scanExponentPart_alt Let_def split: if_splits)
qed

lemma reads_le: "reads p t q \<Longrightarrow> pos p \<le> length (data p) \<Longrightarrow> pos q \<le> length (data q) \<and> data q = data p"
  using length_rest [of p] by (auto simp: reads_iff)

lemma buildNumberValue_error: "buildNumberValue n raw = Inl e \<Longrightarrow> n \<le> length d \<Longrightarrow> parse_error d e"
  by (auto simp: buildNumberValue_def split: if_splits prod.splits)

lemma parseNumber_error:
  assumes "parseNumber p = Inl e" "pos p \<le> length (data p)"
  shows "parse_error (data p) e"
proof -
  define p1 where "p1 = (if pos p < length (data p) \<and> data p ! pos p = cMINUS then p\<lparr>pos := pos p + 1\<rparr> else p)"
  obtain sg where "reads p sg p1" using optional_minus unfolding p1_def by blast
  from reads_le [OF this assms(2)] have p1: "pos p1 \<le> length (data p1)" "data p1 = data p" by auto
  note def = parseNumber_def [of p, unfolded Let_def, folded p1_def]
  show ?thesis
  proof (cases "scanIntegerPart p1 (pos p)")
    case (Inl x)
    with assms scanIntegerPart_error [OF Inl] p1 show ?thesis by (simp add: def)
  next
    case p2: (Inr p2)
    obtain ip where "reads p1 ip p2" using scanIntegerPart_sound [OF p2] by blast
    from reads_le [OF this p1(1)] p1 have l2: "pos p2 \<le> length (data p2)" "data p2 = data p" by auto
    show ?thesis
    proof (cases "scanFractionPart p2 (pos p)")
      case (Inl x)
      with assms scanFractionPart_error [OF Inl] p2 l2 show ?thesis by (simp add: def)
    next
      case p3: (Inr p3)
      obtain fp where "reads p2 fp p3" using scanFractionPart_sound [OF p3] by blast
      from reads_le [OF this l2(1)] l2 have l3: "pos p3 \<le> length (data p3)" "data p3 = data p" by auto
      show ?thesis
      proof (cases "scanExponentPart p3 (pos p)")
        case (Inl x)
        with assms scanExponentPart_error [OF Inl] p2 p3 l3 show ?thesis by (simp add: def)
      next
        case p4: (Inr p4)
        have "buildNumberValue (pos p) (take (pos p4 - pos p) (drop (pos p) (data p4))) = Inl e \<or> numberTooLong p4 (pos p) = e"
          using assms(1) p2 p3 p4 by (simp add: def split: if_splits sum.splits)
        then show ?thesis using buildNumberValue_error assms(2) by (auto simp: numberTooLong_def)
      qed
    qed
  qed
qed

lemma literal_error:
  "parseBool p = Inl e \<Longrightarrow> pos p \<le> length (data p) \<Longrightarrow> parse_error (data p) e"
  "parseNull p = Inl e \<Longrightarrow> pos p \<le> length (data p) \<Longrightarrow> parse_error (data p) e"
  by (auto simp: parseBool_def parseNull_def split: if_splits)

section \<open>Values\<close>

lemma parseValue_good:
  assumes "parseValue p = Inr (v, q)" "good p"
  shows "good q \<and> data q = data p"
proof -
  from run_sound(1) [OF parseValue_run [OF assms(1)]] obtain t where
    "jvalue (maxNumberChars p) t v" "goes p t (vcount v) q" by (auto simp: reads_value_def)
  with good_goes assms(2) jvalue_utf8(1) show ?thesis by blast
qed

lemma pushDepth_error: "pushDepth p = Inl e \<Longrightarrow> good p \<Longrightarrow> parse_error (data p) e"
  by (auto simp: pushDepth_def Let_def good_def split: if_splits)

lemma pushDepth_good: "pushDepth p = Inr q \<Longrightarrow> good p \<Longrightarrow> good q \<and> data q = data p"
  by (auto dest!: pushDepth_Inr simp: good_def rest_def)

lemma peek_good: "good p \<Longrightarrow> peek p = (c, ok) \<Longrightarrow> pos p \<le> length (data p) \<and> (ok \<longrightarrow> rest p \<noteq> [] \<and> c = hd (rest p))"
  by (cases p rule: rest_cases) (auto simp: good_def peek_def)

lemma good_step: "good p \<Longrightarrow> peek p = (c, True) \<Longrightarrow> c < 0x80 \<Longrightarrow> good (p\<lparr>pos := pos p + 1\<rparr>)"
  using good_byte [of p c _ 0 0] by (cases p rule: rest_cases) (auto simp: peek_def adv_1 adv_mv)

lemma expect_unread: "expect p b = Inr q \<Longrightarrow> unread q < unread p"
  by (auto dest!: expect_Inr)

lemma pushDepth_unread: "pushDepth p = Inr q \<Longrightarrow> unread q = unread p"
  by (auto dest!: pushDepth_Inr)

lemma object_fails:
  assumes "parseObject p = Inl e" "good p"
    and IH: "\<And>p'. unread p' < unread p \<Longrightarrow> good p' \<Longrightarrow> data p' = data p \<Longrightarrow>
      parseMembers p' [] (\<lambda>_. None) = Inl e \<Longrightarrow> parse_error (data p) e"
  shows "parse_error (data p) e"
proof (cases "pushDepth p")
  case (Inl x)
  with assms pushDepth_error show ?thesis by (simp add: parseObject.simps [of p])
next
  case p1: (Inr p1)
  then have g1: "good p1" "data p1 = data p" using pushDepth_good assms(2) by auto
  show ?thesis
  proof (cases "expect p1 cLBRACE")
    case (Inl x)
    with assms p1 expect_error [OF Inl g1(1)] g1 show ?thesis by (simp add: parseObject.simps [of p])
  next
    case p2: (Inr p2)
    let ?p = "skipWhitespace p2"
    have g: "good ?p" "data ?p = data p" using expect_good [OF p2 g1(1)] g1 good_skip by auto
    have u: "unread ?p < unread p"
      using expect_unread [OF p2] pushDepth_unread [OF p1] unread_skip [of p2] by simp
    obtain c ok where pk: "peek ?p = (c, ok)" by fastforce
    show ?thesis
    proof (cases ok)
      case False
      with assms(1) p1 p2 pk g peek_good [OF g(1) pk] show ?thesis by (auto simp: parseObject.simps [of p] Let_def)
    next
      case True
      with assms(1) p1 p2 pk have "parseMembers ?p [] (\<lambda>_. None) = Inl e"
        by (auto simp: parseObject.simps [of p] Let_def split: if_splits sum.splits)
      from IH [OF u g this] show ?thesis .
    qed
  qed
qed

lemma array_fails:
  assumes "parseArray p = Inl e" "good p"
    and IH: "\<And>p'. unread p' < unread p \<Longrightarrow> good p' \<Longrightarrow> data p' = data p \<Longrightarrow>
      parseElems p' [] = Inl e \<Longrightarrow> parse_error (data p) e"
  shows "parse_error (data p) e"
proof (cases "pushDepth p")
  case (Inl x)
  with assms pushDepth_error show ?thesis by (simp add: parseArray.simps [of p])
next
  case p1: (Inr p1)
  then have g1: "good p1" "data p1 = data p" using pushDepth_good assms(2) by auto
  show ?thesis
  proof (cases "expect p1 cLBRACK")
    case (Inl x)
    with assms p1 expect_error [OF Inl g1(1)] g1 show ?thesis by (simp add: parseArray.simps [of p])
  next
    case p2: (Inr p2)
    let ?p = "skipWhitespace p2"
    have g: "good ?p" "data ?p = data p" using expect_good [OF p2 g1(1)] g1 good_skip by auto
    have u: "unread ?p < unread p"
      using expect_unread [OF p2] pushDepth_unread [OF p1] unread_skip [of p2] by simp
    obtain c ok where pk: "peek ?p = (c, ok)" by fastforce
    show ?thesis
    proof (cases ok)
      case False
      with assms(1) p1 p2 pk g peek_good [OF g(1) pk] show ?thesis by (auto simp: parseArray.simps [of p] Let_def)
    next
      case True
      with assms(1) p1 p2 pk have "parseElems ?p [] = Inl e"
        by (auto simp: parseArray.simps [of p] Let_def split: if_splits sum.splits)
      from IH [OF u g this] show ?thesis .
    qed
  qed
qed

lemma value_fails:
  assumes "parseValue p = Inl e" "good p"
    and IHm: "\<And>p'. unread p' < unread p \<Longrightarrow> good p' \<Longrightarrow> data p' = data p \<Longrightarrow>
      parseMembers p' [] (\<lambda>_. None) = Inl e \<Longrightarrow> parse_error (data p) e"
    and IHe: "\<And>p'. unread p' < unread p \<Longrightarrow> good p' \<Longrightarrow> data p' = data p \<Longrightarrow>
      parseElems p' [] = Inl e \<Longrightarrow> parse_error (data p) e"
  shows "parse_error (data p) e"
proof (cases "room p \<and> rest p \<noteq> []")
  case False
  have "pos p \<le> length (data p)" using assms(2) by (simp add: good_def)
  with False assms(1) show ?thesis
    by (cases p rule: rest_cases)
      (auto simp: parseValue.simps [of p] Let_def peek_def room_def split: if_splits)
next
  case True
  then obtain b u where b: "rest p = b # u" by (cases "rest p") auto
  let ?q = "mv 0 1 0 p"
  have q: "good ?q" "data ?q = data p" "unread ?q = unread p" "pos ?q \<le> length (data ?q)"
    using assms(2) by (simp_all add: good_def)
  have "parseObject ?q = Inl e \<or> parseArray ?q = Inl e \<or> parseString ?q = Inl e \<or> parseBool ?q = Inl e
      \<or> parseNull ?q = Inl e \<or> parseNumber ?q = Inl e"
    using parseValue_dispatch [OF b] True assms(1) by (simp add: Let_def split: if_splits)
  then show ?thesis
    using object_fails [OF _ q(1)] array_fails [OF _ q(1)] parseString_error [OF _ q(1)] literal_error [OF _ q(4)]
      parseNumber_error [OF _ q(4)] IHm IHe q(2,3) by metis
qed

text \<open>The tail of one turn of a loop, after the value has been read into \<open>q\<close>.\<close>

lemma peek_fails:
  assumes "good q" "data q = d" "peek (skipWhitespace q) = (c, ok)"
  shows "pos (skipWhitespace q) \<le> length d" "pos q \<le> length d"
  using assms good_skip [OF assms(1)] by (auto simp: good_def)

lemma elems_fails:
  assumes "parseElems p es = Inl e" "good p"
    and IHv: "\<And>p'. unread p' \<le> unread p \<Longrightarrow> good p' \<Longrightarrow> data p' = data p \<Longrightarrow>
      parseValue p' = Inl e \<Longrightarrow> parse_error (data p) e"
    and IHe: "\<And>p' es'. unread p' < unread p \<Longrightarrow> good p' \<Longrightarrow> data p' = data p \<Longrightarrow>
      parseElems p' es' = Inl e \<Longrightarrow> parse_error (data p) e"
  shows "parse_error (data p) e"
proof (cases "parseValue (skipWhitespace p)")
  case (Inl x)
  with assms(1) have "parseValue (skipWhitespace p) = Inl e" by (simp add: parseElems.simps [of p])
  with IHv [OF unread_skip] good_skip [OF assms(2)] show ?thesis by simp
next
  case (Inr y)
  then obtain v q where v: "parseValue (skipWhitespace p) = Inr (v, q)" by (cases y) auto
  have g: "good q" "data q = data p" using parseValue_good [OF v] good_skip [OF assms(2)] by auto
  let ?r = "skipWhitespace q"
  obtain c ok where pk: "peek ?r = (c, ok)" by fastforce
  note le = peek_fails [OF g pk]
  show ?thesis
  proof (cases "parseElems (?r\<lparr>pos := pos ?r + 1\<rparr>) (es @ [v]) = Inl e \<and> ok \<and> c = cCOMMA")
    case True
    with pk have pk': "peek ?r = (cCOMMA, True)" by simp
    have "good (?r\<lparr>pos := pos ?r + 1\<rparr>)" using good_step [OF _ pk'] good_skip [OF g(1)] by simp
    moreover have "unread (?r\<lparr>pos := pos ?r + 1\<rparr>) < unread p"
      using pk' unread_moves [OF parseValue_moves [OF v]] unread_skip [of p] unread_skip [of q]
      by (auto simp: peek_ok)
    ultimately show ?thesis
      using IHe [of "?r\<lparr>pos := pos ?r + 1\<rparr>" "es @ [v]"] True good_skip [OF g(1)] g(2) by simp
  next
    case False
    with assms(1) v pk le show ?thesis by (auto simp: parseElems.simps [of p] Let_def split: if_splits)
  qed
qed

lemma after_member_fails:
  assumes eq: "parseMembers p ms seen = Inl e" and k: "parseString (skipWhitespace p) = Inr (k, p2)" "seen (Str k) = None"
    "expect (skipWhitespace p2) cCOLON = Inr p3" "parseValue (skipWhitespace p3) = Inr (v, q)"
    and g: "good q" "data q = data p"
    and IHm: "\<And>p' ms' seen'. unread p' < unread p \<Longrightarrow> good p' \<Longrightarrow> data p' = data p \<Longrightarrow>
      parseMembers p' ms' seen' = Inl e \<Longrightarrow> parse_error (data p) e"
  shows "parse_error (data p) e"
proof -
  let ?r = "skipWhitespace q"
  let ?next = "parseMembers (?r\<lparr>pos := pos ?r + 1\<rparr>) (ms @ [Member (Str k) v]) (seen(Str k \<mapsto> pos (skipWhitespace p)))"
  obtain c ok where pk: "peek ?r = (c, ok)" by fastforce
  show ?thesis
  proof (cases "?next = Inl e \<and> ok \<and> c = cCOMMA")
    case True
    with pk have pk': "peek ?r = (cCOMMA, True)" by simp
    have "good (?r\<lparr>pos := pos ?r + 1\<rparr>)" using good_step [OF _ pk'] good_skip [OF g(1)] by simp
    moreover have "unread (?r\<lparr>pos := pos ?r + 1\<rparr>) < unread p"
      using pk' unread_moves [OF parseValue_moves [OF k(4)]] unread_moves [OF members_decrease [OF k(1,3)]] unread_skip [of q]
      by (auto simp: peek_ok)
    moreover have "?next = Inl e" "data (?r\<lparr>pos := pos ?r + 1\<rparr>) = data p" using True good_skip [OF g(1)] g(2) by auto
    ultimately show ?thesis by (meson IHm)
  next
    case False
    with eq k pk peek_fails [OF g pk] show ?thesis
      by (simp add: parseMembers.simps [of p] Let_def split: if_splits) auto
  qed
qed

lemma members_fails:
  assumes "parseMembers p ms seen = Inl e" "good p"
    and IHv: "\<And>p'. unread p' < unread p \<Longrightarrow> good p' \<Longrightarrow> data p' = data p \<Longrightarrow>
      parseValue p' = Inl e \<Longrightarrow> parse_error (data p) e"
    and IHm: "\<And>p' ms' seen'. unread p' < unread p \<Longrightarrow> good p' \<Longrightarrow> data p' = data p \<Longrightarrow>
      parseMembers p' ms' seen' = Inl e \<Longrightarrow> parse_error (data p) e"
  shows "parse_error (data p) e"
proof (cases "parseString (skipWhitespace p)")
  case (Inl x)
  with assms(1,2) parseString_error [OF Inl] good_skip show ?thesis by (simp add: parseMembers.simps [of p] Let_def)
next
  case (Inr y)
  then obtain k p2 where k: "parseString (skipWhitespace p) = Inr (k, p2)" by (cases y) auto
  have g2: "good (skipWhitespace p2)" "data (skipWhitespace p2) = data p"
    using parseString_good [OF k] good_skip assms(2) by auto
  consider (dup) off where "seen (Str k) = Some off"
    | (colon) x where "seen (Str k) = None" "expect (skipWhitespace p2) cCOLON = Inl x"
    | (ok) p3 where "seen (Str k) = None" "expect (skipWhitespace p2) cCOLON = Inr p3"
    by (cases "seen (Str k)"; cases "expect (skipWhitespace p2) cCOLON") auto
  then show ?thesis
  proof cases
    case dup
    with assms(1) k good_skip [OF assms(2)] show ?thesis by (auto simp: parseMembers.simps [of p] Let_def good_def)
  next
    case colon
    with assms(1) k expect_error [OF colon(2) g2(1)] g2 show ?thesis by (simp add: parseMembers.simps [of p] Let_def)
  next
    case (ok p3)
    have g3: "good (skipWhitespace p3)" "data (skipWhitespace p3) = data p" using expect_good [OF ok(2) g2(1)] g2 good_skip by auto
    show ?thesis
    proof (cases "parseValue (skipWhitespace p3)")
      case (Inl x)
      with assms(1) k ok have "parseValue (skipWhitespace p3) = Inl e" by (simp add: parseMembers.simps [of p] Let_def)
      with IHv [OF unread_moves [OF members_decrease [OF k ok(2)]] g3] show ?thesis .
    next
      case (Inr y)
      then obtain v q where v: "parseValue (skipWhitespace p3) = Inr (v, q)" by (cases y) auto
      with parseValue_good [OF v] g3 show ?thesis
        by (intro after_member_fails [OF assms(1) k ok v _ _ IHm]) auto
    qed
  qed
qed

lemma parse_fails:
  "(\<forall>p e. n = 2 * unread p \<longrightarrow> good p \<longrightarrow> parseValue p = Inl e \<longrightarrow> parse_error (data p) e)
   \<and> (\<forall>p ms seen e. n = Suc (2 * unread p) \<longrightarrow> good p \<longrightarrow> parseMembers p ms seen = Inl e \<longrightarrow> parse_error (data p) e)
   \<and> (\<forall>p es e. n = Suc (2 * unread p) \<longrightarrow> good p \<longrightarrow> parseElems p es = Inl e \<longrightarrow> parse_error (data p) e)"
proof (induction n rule: less_induct)
  case (less n)
  have V: "parse_error (data p) e" if "2 * unread p' < n" "good p'" "data p' = data p" "parseValue p' = Inl e" for p p' e
    using less that by metis
  have M: "parse_error (data p) e"
    if "Suc (2 * unread p') < n" "good p'" "data p' = data p" "parseMembers p' ms seen = Inl e" for p p' ms seen e
    using less that by metis
  have E: "parse_error (data p) e"
    if "Suc (2 * unread p') < n" "good p'" "data p' = data p" "parseElems p' es = Inl e" for p p' es e
    using less that by metis
  have 1: "parse_error (data p) e" if n: "n = 2 * unread p" and p: "good p" "parseValue p = Inl e" for p e
  proof (rule value_fails [OF p(2,1)])
    fix p' assume p': "unread p' < unread p" "good p'" "data p' = data p"
    show "parse_error (data p) e" if "parseMembers p' [] (\<lambda>_. None) = Inl e" by (rule M [OF _ p'(2,3) that]) (use p' n in linarith)
    show "parse_error (data p) e" if "parseElems p' [] = Inl e" by (rule E [OF _ p'(2,3) that]) (use p' n in linarith)
  qed
  have 2: "parse_error (data p) e" if n: "n = Suc (2 * unread p)" and p: "good p" "parseMembers p ms seen = Inl e" for p ms seen e
  proof (rule members_fails [OF p(2,1)])
    fix p' assume p': "unread p' < unread p" "good p'" "data p' = data p"
    show "parse_error (data p) e" if "parseValue p' = Inl e" by (rule V [OF _ p'(2,3) that]) (use p' n in linarith)
    show "parse_error (data p) e" if "parseMembers p' ms' seen' = Inl e" for ms' seen'
      by (rule M [OF _ p'(2,3) that]) (use p' n in linarith)
  qed
  have 3: "parse_error (data p) e" if n: "n = Suc (2 * unread p)" and p: "good p" "parseElems p es = Inl e" for p es e
  proof (rule elems_fails [OF p(2,1)])
    fix p' assume p': "good p'" "data p' = data p"
    show "parse_error (data p) e" if "unread p' \<le> unread p" "parseValue p' = Inl e"
      by (rule V [OF _ p' that(2)]) (use that n in linarith)
    show "parse_error (data p) e" if "unread p' < unread p" "parseElems p' es' = Inl e" for es'
      by (rule E [OF _ p' that(2)]) (use that n in linarith)
  qed
  show ?case using 1 2 3 by blast
qed

lemma parseValue_error: "parseValue p = Inl e \<Longrightarrow> good p \<Longrightarrow> parse_error (data p) e"
  using parse_fails [of "2 * unread p"] by simp

section \<open>Invalid UTF-8\<close>

lemma firstInvalid_spec:
  assumes "utf8_Valid (take i d)" "\<not> utf8_Valid (drop i d)"
  shows "firstInvalidUTF8From d i < length d \<and> utf8_Valid (take (firstInvalidUTF8From d i) d)
     \<and> decode_seq (drop (firstInvalidUTF8From d i) d) = None"
  using assms
proof (induction d i rule: firstInvalidUTF8From.induct)
  case (1 d i)
  from 1(3) have ne: "drop i d \<noteq> []" by auto
  then have i: "i < length d" by simp
  show ?case
  proof (cases "decode_seq (drop i d)")
    case None
    have "d ! i \<ge> 0x80"
    proof (rule ccontr)
      assume "\<not> d ! i \<ge> 0x80"
      then have "decode_seq (d ! i # drop (Suc i) d) \<noteq> None" by (simp add: decode_ascii)
      with None i show False by (simp add: Cons_nth_drop_Suc)
    qed
    moreover have "DecodeRune (drop i d) = (RuneError, 1)" using None ne DecodeRune_error by blast
    ultimately have "firstInvalidUTF8From d i = i" using i by (simp add: firstInvalidUTF8From.simps [of d i])
    with 1(2) None i show ?thesis by simp
  next
    case (Some x)
    then obtain r n where d: "decode_seq (drop i d) = Some (r, n)" by (cases x) auto
    from decode_rest [OF d] obtain u where r: "scalar r" "drop i d = EncodeRune r @ u" "n = length (EncodeRune r)" by blast
    have D: "DecodeRune (drop i d) = (r, n)" by (rule DecodeRune_Some [OF d])
    have nn: "\<not> (n = 1 \<and> d ! i \<ge> 0x80)"
    proof
      assume n1: "n = 1 \<and> d ! i \<ge> 0x80"
      have "EncodeRune r @ u = d ! i # drop (Suc i) d" using r(2) i by (simp add: Cons_nth_drop_Suc)
      from EncodeRune_first [OF r(1) this] n1 have "0x80 \<le> r" by (auto simp: not_less)
      moreover have "r < 0x80" using n1 r(1,3) EncodeRune_length1 [OF r(1)] by simp
      ultimately show False by simp
    qed
    have "take (i + n) d = take i d @ EncodeRune r" using r(2,3) by (simp add: take_add)
    then have "utf8_Valid (take (i + n) d)"
      using utf8_Valid_append [OF 1(2)] utf8_Valid_Encode [OF r(1), of "[]"] by simp
    moreover have "\<not> utf8_Valid (drop (i + n) d)"
      using 1(3) utf8_Valid_Some [OF d] by (simp add: add.commute)
    ultimately show ?thesis
      using 1(1) [OF i D [symmetric] nn] i D nn by (auto simp: firstInvalidUTF8From.simps [of d i])
  qed
qed

lemma parse_document_error:
  assumes "utf8_Valid d" "int (length d) \<le> opt_maxInputSize opts" "ParseWithOptions d opts = Inl e"
  shows "parse_error d e"
proof -
  let ?p = "skipWhitespace (new_parser d opts)"
  have "good (new_parser d opts)" using assms(1) by (simp add: good_def)
  from good_skip [OF this] have g: "good ?p" "data ?p = d" by auto
  show ?thesis
  proof (cases "parseValue ?p")
    case (Inl x)
    with assms parseValue_error [OF Inl g(1)] g(2) show ?thesis by (simp add: ParseWithOptions_def)
  next
    case (Inr y)
    then obtain v q where v: "parseValue ?p = Inr (v, q)" by (cases y) auto
    have "good q" "data q = d" using parseValue_good [OF v g(1)] g(2) by auto
    then have "good (skipWhitespace q)" "data (skipWhitespace q) = d" using good_skip [of q] by auto
    with assms v show ?thesis
      by (auto simp: ParseWithOptions_def Let_def good_def split: if_splits)
  qed
qed

lemma parse_rejects:
  "ParseWithOptions d opts = Inl e \<Longrightarrow> ExitCode (Class e) = 2 \<and>
     (if int (length d) > opt_maxInputSize opts then Class e = BoundExceeded \<and> Offset e = 0
      else if \<not> utf8_Valid d then Class e = InvalidUTF8 \<and> (\<exists>i < length d. Offset e = int i \<and> utf8_Valid (take i d)
        \<and> decode_seq (drop i d) = None)
      else 0 \<le> Offset e \<and> Offset e \<le> int (length d) \<and> Class e \<in> {InvalidGrammar, DuplicateKey, LoneSurrogate,
        Noncharacter, NumberOverflow, NumberNegZero, NumberUnderflow, BoundExceeded})"
proof -
  assume e: "ParseWithOptions d opts = Inl e"
  consider (long) "int (length d) > opt_maxInputSize opts"
    | (utf) "int (length d) \<le> opt_maxInputSize opts" "\<not> utf8_Valid d"
    | (ok) "int (length d) \<le> opt_maxInputSize opts" "utf8_Valid d" by linarith
  then show ?thesis
  proof cases
    case long
    with e show ?thesis by (auto simp: ParseWithOptions_def Let_def)
  next
    case utf
    with e have "e = New InvalidUTF8 (int (firstInvalidUTF8Offset d)) (Msg ''input is not valid UTF-8'')"
      by (simp add: ParseWithOptions_def Let_def)
    moreover have "\<exists>i < length d. firstInvalidUTF8Offset d = i \<and> utf8_Valid (take i d) \<and> decode_seq (drop i d) = None"
      using firstInvalid_spec [of 0 d] utf(2) by (simp add: firstInvalidUTF8Offset_def)
    ultimately show ?thesis using utf by auto
  next
    case ok
    from parse_document_error [OF ok(2,1) e] have "parse_error d e" .
    with ok show ?thesis by (auto simp: parse_error_def parse_class_def)
  qed
qed

text \<open>
  C8: how \<open>ParseWithOptions\<close> fails. The error is one of three: the input is too long (offset 0), it is not
  valid UTF-8 and the offset is that of the first undecodable byte, or it is valid UTF-8 and the class is
  one of the eight classes of the scanners with an offset inside the input. The exit code is 2 always.
\<close>

theorem ParseWithOptions_error:
  "ParseWithOptions d opts = Inl e \<Longrightarrow> ExitCode (Class e) = 2 \<and>
     (if int (length d) > opt_maxInputSize opts then Class e = BoundExceeded \<and> Offset e = 0
      else if \<not> utf8_Valid d then Class e = InvalidUTF8 \<and> (\<exists>i < length d. Offset e = int i \<and> utf8_Valid (take i d)
        \<and> decode_seq (drop i d) = None)
      else 0 \<le> Offset e \<and> Offset e \<le> int (length d) \<and> Class e \<in> {InvalidGrammar, DuplicateKey, LoneSurrogate,
        Noncharacter, NumberOverflow, NumberNegZero, NumberUnderflow, BoundExceeded})"
  by (rule parse_rejects)

theorem ParseWithOptions_error_witness:
  "ParseWithOptions [0x20, 0xC3, 0x28] None = Inl (New InvalidUTF8 1 (Msg ''input is not valid UTF-8''))
   \<and> ExitCode InvalidUTF8 = 2"
proof -
  have "ParseWithOptions [0x20, 0xC3, 0x28] None = Inl (New InvalidUTF8 1 (Msg ''input is not valid UTF-8''))"
    by code_simp
  with ParseWithOptions_error [OF this] show ?thesis by simp
qed

end
