(* ===== verification/Jcs_Pipeline.thy ===== *)
theory Jcs_Pipeline
  imports Jcs_Canon Token_Errors
begin

text \<open>
  The pipeline of package jcs: parse, validate, serialize. The canonical text parses to the canonical value,
  canonicalization never fails after the parser has accepted, it is idempotent, and two values have the
  same canonical text exactly when they have the same canonical value.
\<close>

section \<open>The canonical value of a parsed value\<close>

lemma foldr_max_set: "set xs = set ys \<Longrightarrow> foldr max xs (a::nat) = foldr max ys a"
  by (rule antisym; simp add: foldr_max_le; metis foldr_max_le order_refl)


lemma wf_valid_keys: "list_all mwf ms \<Longrightarrow> list_all valid_key ms"
  by (auto simp: list_all_iff valid_key_def string_ok_def) (metis Member.collapse mwf.simps string_ok_def)

text \<open>All that the pipeline needs of \<open>canon\<close> on a value the parser returns.\<close>

definition canonical_of :: "fmath \<Rightarrow> Value \<Rightarrow> bool" where
  "canonical_of M v \<longleftrightarrow> wf (canon v) \<and> vcount (canon v) = vcount v \<and> vdepth (canon v) = vdepth v
     \<and> (\<forall>S L E. fits S L E (canon v) = fits S L E v) \<and> canon (canon v) = canon v
     \<and> (\<forall>buf. serializeValue M buf (canon v) = serializeValue M buf v)"

lemma serializeElems_canon:
  "\<forall>v\<in>set es. \<forall>buf. serializeValue M buf (canon v) = serializeValue M buf v \<Longrightarrow>
   serializeElems M buf first (map canon es) = serializeElems M buf first es"
  by (induction es arbitrary: buf first) (auto split: sum.split)

lemma serializeMembers_canon:
  "\<forall>m\<in>set ms. \<forall>buf. serializeValue M buf (canon (MValue m)) = serializeValue M buf (MValue m) \<Longrightarrow>
   serializeMembers M buf first (map mcanon ms) = serializeMembers M buf first ms"
proof (induction ms arbitrary: buf first)
  case (Cons m ms)
  then show ?case by (cases m) (auto simp: Let_def split: sum.split)
qed simp

lemma canonical_array:
  assumes "\<forall>v\<in>set es. canonical_of M v"
  shows "canonical_of M (ArrayValue es)"
proof -
  have "map vcount (map canon es) = map vcount es" "map vdepth (map canon es) = map vdepth es"
    "map canon (map canon es) = map canon es" using assms by (simp_all add: canonical_of_def)
  moreover have "list_all wf (map canon es)" "\<And>S L E. list_all (fits S L E) (map canon es) = list_all (fits S L E) es"
    using assms by (auto simp: canonical_of_def list_all_iff)
  moreover have "serializeElems M buf True (map canon es) = serializeElems M buf True es" for buf
    using assms by (intro serializeElems_canon) (simp add: canonical_of_def)
  ultimately show ?thesis by (simp add: canonical_of_def container_def comp_def cong: map_cong)
qed

lemma mcanon_same:
  assumes "canonical_of M (MValue m)"
  shows "mcount (mcanon m) = mcount m" "mdepth (mcanon m) = mdepth m" "mfits S L E (mcanon m) = mfits S L E m"
    "mcanon (mcanon m) = mcanon m" "mwf m \<Longrightarrow> mwf (mcanon m)"
  using assms by (cases m; simp add: canonical_of_def)+

lemma canonical_object:
  assumes "\<forall>m\<in>set ms. canonical_of M (MValue m)" "list_all mwf ms" "distinct (map Key ms)"
  shows "canonical_of M (ObjectValue ms)"
proof -
  let ?s = "sortMembers ms" and ?c = "sortMembers (map mcanon ms)"
  have c: "?c = map mcanon ?s" by (rule sortMembers_mcanon)
  have s: "\<forall>m\<in>set ?s. canonical_of M (MValue m)" using assms(1) by simp
  have mc: "mcount (mcanon m) = mcount m" "mdepth (mcanon m) = mdepth m" "mfits S L E (mcanon m) = mfits S L E m"
    "mcanon (mcanon m) = mcanon m" "mwf (mcanon m)" if "m \<in> set ms" for m S L E
    using mcanon_same [of M m] assms(1,2) that by (auto simp: list_all_iff)
  have m: "mset (map mcount ?c) = mset (map mcount (map mcanon ms))" "set (map mdepth ?c) = set (map mdepth (map mcanon ms))"
    by (simp_all only: mset_map mset_sortMembers set_map set_sortMembers)
  have "sum_list (map mcount ?c) = sum_list (map mcount (map mcanon ms))"
    using m(1) by (simp only: sum_mset_sum_list [symmetric])
  moreover have "foldr max (map mdepth ?c) 0 = foldr max (map mdepth (map mcanon ms)) 0" by (rule foldr_max_set [OF m(2)])
  moreover have "map mcount (map mcanon ms) = map mcount ms" "map mdepth (map mcanon ms) = map mdepth ms"
    by (simp_all add: mc)
  ultimately have measures: "vcount (ObjectValue ?c) = vcount (ObjectValue ms)" "vdepth (ObjectValue ?c) = vdepth (ObjectValue ms)"
    by (simp_all add: container_def comp_def cong: map_cong)
  have fit: "list_all (mfits S L E) ?c = list_all (mfits S L E) ms" for S L E
    by (simp add: list_all_iff mc)
  have wf: "list_all mwf ?c" "distinct (map Key ?c)"
    by (simp add: list_all_iff mc, simp only: sortMembers_keys keys_mcanon assms(3))
  have "map mcanon ?c = ?c" unfolding c by (simp add: mc)
  moreover have "sortMembers ?c = ?c"
    by (rule sortMembers_idem) (simp_all only: keys_mcanon assms(3), use assms(2) in \<open>auto simp: list_all_iff valid_key_def dest: wf_valid_keys [unfolded list_all_iff valid_key_def, rule_format, rotated]\<close>)
  ultimately have idem: "sortMembers (map mcanon ?c) = ?c" by simp
  have "serializeMembers M buf True ?s = serializeMembers M buf True ?c" for buf
    unfolding c using s by (intro serializeMembers_canon [symmetric]) (simp add: canonical_of_def)
  with measures fit wf idem \<open>sortMembers ?c = ?c\<close> show ?thesis by (simp add: canonical_of_def)
qed

lemma wf_canonical:
  "wf v \<Longrightarrow> canonical_of M v" "mwf m \<Longrightarrow> canonical_of M (MValue m)"
proof (induction v and m rule: wf_mwf.induct)
  case (1 k s n ms es)
  show ?case
  proof (cases k)
    case KindNumber
    then have "number_ok n" "s = []" "ms = []" "es = []" using 1 by simp_all
    moreover from this have "unsigned_zero n = n" using zero_unsigned by (auto simp: unsigned_zero_def number_ok_def)
    ultimately show ?thesis using KindNumber by (simp add: canonical_of_def)
  next
    case KindArray
    then show ?thesis using 1 canonical_array by (simp add: list_all_iff)
  next
    case KindObject
    then show ?thesis using 1 canonical_object by (simp add: list_all_iff)
  qed (use 1 in \<open>auto simp: canonical_of_def\<close>)
qed simp

section \<open>The grammar assigns one value\<close>

lemma fits_mono:
  "fits a b c v \<Longrightarrow> a \<le> d \<Longrightarrow> b \<le> d \<Longrightarrow> c \<le> d \<Longrightarrow> fits d d d v"
  "mfits a b c m \<Longrightarrow> a \<le> d \<Longrightarrow> b \<le> d \<Longrightarrow> c \<le> d \<Longrightarrow> mfits d d d m"
  by (induction a b c v and a b c m rule: fits_mfits.induct) (auto simp: list_all_iff)



lemma jvalue_mono:
  "jvalue N t v \<Longrightarrow> N \<le> N' \<Longrightarrow> jvalue N' t v"
  "jmembers N tm ms \<Longrightarrow> N \<le> N' \<Longrightarrow> jmembers N' tm ms"
  "jelems N te es \<Longrightarrow> N \<le> N' \<Longrightarrow> jelems N' te es"
proof (induction rule: jvalue_jmembers_jelems.inducts)
  case (jm_one w k s wk wc t v w')
  then show ?case by (intro jvalue_jmembers_jelems.jm_one) simp_all
next
  case (jm_more w k s wk wc t v w' u ms)
  then show ?case by (intro jvalue_jmembers_jelems.jm_more) simp_all
qed (auto intro: jvalue_jmembers_jelems.intros)



lemma jvalue_jtext: "jvalue N t v \<Longrightarrow> jtext N t v"
  unfolding jtext_def by (rule exI [of _ "[]"], rule exI [of _ t], rule exI [of _ "[]"]) (simp add: ws_Nil)

section \<open>Canonicalization\<close>

lemma parsed_wf: "ParseWithOptions d opts = Inr v \<Longrightarrow> wf v"
  using jvalue_wf(1) by (auto simp: parse_spec jtext_def)

text \<open>What the serializer makes of a value the parser returned.\<close>

lemma serialize_parsed:
  assumes "accurate M" "ParseWithOptions d opts = Inr v"
  obtains t where "serializeInto M [] (Some v) opts = Inr t" "serializeValue M [] v = Inr t" "jvalue 25 t (canon v)"
proof -
  have v: "validateValueTree v 0 0 (resolveSerializeLimits opts) = Inr (vcount v)"
    using assms(2) parse_validates by (auto simp: parse_spec)
  then have "tree_ok (resolveSerializeLimits opts) v" by (simp add: validate_iff(1))
  then have "writes M 25 v" by (rule tree_writes(1) [OF assms(1) order_refl])
  then obtain t where t: "jvalue 25 t (canon v)" "\<And>buf. serializeValue M buf v = Inr (buf @ t)" unfolding writes_def by blast
  with v that [of t] t(2) [of "[]"] show thesis by (simp add: serializeInto_def)
qed

lemma canonicalize_total:
  assumes "accurate M"
  shows "CanonicalizeWithOptions M d opts = Inl e \<longleftrightarrow> (\<exists>j. ParseWithOptions d opts = Inl j \<and> e = Fail j)"
proof (cases "ParseWithOptions d opts")
  case (Inr v)
  obtain t where "serializeInto M [] (Some v) opts = Inr t" using serialize_parsed [OF assms Inr] .
  with Inr show ?thesis by (simp add: CanonicalizeWithOptions_def)
qed (auto simp: CanonicalizeWithOptions_def)

lemma allowed_canon: "wf v \<Longrightarrow> allowed opts (canon v) = allowed opts v"
  using wf_canonical(1) [of v] by (auto simp: canonical_of_def allowed_def)

lemma canonical_parses:
  assumes "accurate M" "ParseWithOptions d opts = Inr v" "CanonicalizeWithOptions M d opts = Inr t"
    "int (length t) \<le> opt_maxInputSize opts" "25 \<le> opt_maxNumberChars opts"
  shows "ParseWithOptions t opts = Inr (canon v)"
proof -
  obtain u where "serializeInto M [] (Some v) opts = Inr u" "jvalue 25 u (canon v)" using serialize_parsed [OF assms(1,2)] .
  moreover from this have "u = t" using assms(2,3) by (simp add: CanonicalizeWithOptions_def)
  ultimately have "jtext (opt_maxNumberChars opts) t (canon v)" using jvalue_mono(1) [OF _ assms(5)] jvalue_jtext by blast
  moreover have "allowed opts (canon v)" using allowed_canon [OF parsed_wf [OF assms(2)]] assms(2) by (simp add: parse_spec)
  ultimately show ?thesis using assms(4) by (simp add: parse_spec)
qed

lemma canonical_idempotent:
  assumes "accurate M" "CanonicalizeWithOptions M d opts = Inr t"
    "int (length t) \<le> opt_maxInputSize opts" "25 \<le> opt_maxNumberChars opts"
  shows "CanonicalizeWithOptions M t opts = Inr t"
proof -
  obtain v where v: "ParseWithOptions d opts = Inr v"
    using assms(2) by (auto simp: CanonicalizeWithOptions_def split: sum.splits)
  have t: "ParseWithOptions t opts = Inr (canon v)" by (rule canonical_parses [OF assms(1) v assms(2-4)])
  obtain u where u: "serializeInto M [] (Some v) opts = Inr u" "serializeValue M [] v = Inr u"
    using serialize_parsed [OF assms(1) v] .
  obtain w where w: "serializeInto M [] (Some (canon v)) opts = Inr w" "serializeValue M [] (canon v) = Inr w"
    using serialize_parsed [OF assms(1) t] .
  have "serializeValue M [] (canon v) = serializeValue M [] v"
    using wf_canonical(1) [OF parsed_wf [OF v]] by (simp add: canonical_of_def)
  with u w v t assms(2) show ?thesis by (simp add: CanonicalizeWithOptions_def)
qed


lemma not_isl: "\<not> isl x \<Longrightarrow> \<exists>v. x = Inr v"
  by (cases x) auto

section \<open>Properties\<close>

text \<open>
  C14: every value the parser returns is well formed: its fields are those of its kind, strings and keys are
  valid UTF-8 without noncharacters, numbers are finite and not the negative zero, keys are distinct.
\<close>

theorem parsed_values_well_formed: "ParseWithOptions d opts = Inr v \<Longrightarrow> wf v"
  by (rule parsed_wf)

theorem parsed_values_well_formed_witness: "\<exists>v. ParseWithOptions (ascii ''{\"k\": [1, null]}'') None = Inr v \<and> wf v"
proof -
  have "\<not> isl (ParseWithOptions (ascii ''{\"k\": [1, null]}'') None)" by code_simp
  then show ?thesis using parsed_values_well_formed not_isl by blast
qed

text \<open>
  C6: canonicalization fails exactly when the parser rejects the input, and with the parser's error: the
  serializer never rejects, panics on or loops over a value that was parsed.
\<close>

theorem CanonicalizeWithOptions_total:
  assumes "accurate M"
  shows "CanonicalizeWithOptions M d opts = Inl e \<longleftrightarrow> (\<exists>j. ParseWithOptions d opts = Inl j \<and> e = Fail j)"
  by (rule canonicalize_total [OF assms])

theorem CanonicalizeWithOptions_total_witness:
  "\<forall>d opts e. CanonicalizeWithOptions quarter_math d opts = Inl e \<longleftrightarrow> (\<exists>j. ParseWithOptions d opts = Inl j \<and> e = Fail j)"
  using CanonicalizeWithOptions_total [OF quarter_math_accurate] by blast

text \<open>
  C4: the canonical text parses back under the same options, to the same value with sorted members, as
  long as the text is within the size limit and numbers of 25 characters are allowed.
\<close>

theorem canonical_roundtrip:
  assumes "accurate M" "ParseWithOptions d opts = Inr v" "CanonicalizeWithOptions M d opts = Inr t"
    "int (length t) \<le> opt_maxInputSize opts" "25 \<le> opt_maxNumberChars opts"
  shows "ParseWithOptions t opts = Inr (canon v)"
  by (rule canonical_parses [OF assms])

text \<open>
  C10: canonicalization is idempotent, under the same conditions.\<close>

theorem Canonicalize_idempotent:
  assumes "accurate M" "CanonicalizeWithOptions M d opts = Inr t"
    "int (length t) \<le> opt_maxInputSize opts" "25 \<le> opt_maxNumberChars opts"
  shows "CanonicalizeWithOptions M t opts = Inr t"
  by (rule canonical_idempotent [OF assms])


text \<open>A concrete input for the three.\<close>

definition sample :: bytes where
  "sample = ascii ''{ \"b\" : [true], \"a\" : \"x\" }''"

definition sample_canonical :: bytes where
  "sample_canonical = ascii ''{\"a\":\"x\",\"b\":[true]}''"

lemma sample_runs:
  "\<not> isl (ParseWithOptions sample None)" "\<not> isl (ParseWithOptions sample_canonical None)"
  "CanonicalizeWithOptions quarter_math sample None = Inr sample_canonical"
  "CanonicalizeWithOptions quarter_math sample_canonical None = Inr sample_canonical"
  "int (length sample_canonical) \<le> opt_maxInputSize None" "25 \<le> opt_maxNumberChars None"
  by code_simp+

theorem canonical_roundtrip_witness:
  "\<exists>v. ParseWithOptions sample None = Inr v \<and> ParseWithOptions sample_canonical None = Inr (canon v)"
  using sample_runs not_isl canonical_roundtrip [OF quarter_math_accurate] by blast

theorem Canonicalize_idempotent_witness: "CanonicalizeWithOptions quarter_math sample_canonical None = Inr sample_canonical"
  using sample_runs Canonicalize_idempotent [OF quarter_math_accurate] by blast


end
