(* ===== verification/Cli_Io.thy ===== *)
theory Cli_Io
  imports Jcserr
begin

text \<open>
  What the commands see of the outside world: readers, writers, and Go's \<^verbatim>\<open>error\<close> values with \<^verbatim>\<open>errors.As\<close> and
  \<^verbatim>\<open>%w\<close> wrapping.

  A reader delivers the bytes \<open>avail\<close> and then the end of the stream or an error. A writer keeps the bytes
  it has passed on and the outcomes of the coming calls of \<^verbatim>\<open>Write\<close>: every call succeeds unless \<open>script\<close>
  says that it fails after some bytes.
\<close>

record reader =
  avail :: bytes
  read_error :: "string option"

datatype write_result = Written | WriteFailed nat string

record writer =
  sent :: bytes
  script :: "write_result list"

definition Write :: "writer \<Rightarrow> bytes \<Rightarrow> string option \<times> writer" where
  "Write w b = (case script w of
     [] \<Rightarrow> (None, w\<lparr>sent := sent w @ b\<rparr>)
   | Written # rest \<Rightarrow> (None, w\<lparr>sent := sent w @ b, script := rest\<rparr>)
   | WriteFailed n e # rest \<Rightarrow> (Some e, w\<lparr>sent := sent w @ take n b, script := rest\<rparr>))"

text \<open>\<^verbatim>\<open>io.ReadAll(io.LimitReader(r, n))\<close>: the limit hides an error that comes after it.\<close>

definition ReadAllLimited :: "reader \<Rightarrow> int \<Rightarrow> string + bytes" where
  "ReadAllLimited r n =
     (if n \<le> int (length (avail r)) then Inr (take (nat n) (avail r))
      else (case read_error r of None \<Rightarrow> Inr (avail r) | Some e \<Rightarrow> Inl e))"

text \<open>An \<^verbatim>\<open>error\<close> value: structured, wrapped by \<^verbatim>\<open>fmt.Errorf("...: %w", err)\<close>, or opaque.\<close>

datatype go_error = JcsErr jcserr | WrapErr string go_error | OtherErr string

fun errors_As :: "go_error \<Rightarrow> jcserr option" where
  "errors_As (JcsErr e) = Some e"
| "errors_As (WrapErr s e) = errors_As e"
| "errors_As (OtherErr s) = None"

text \<open>The text of an error; \<open>render\<close> and \<open>itoa\<close> are those of \<open>error_string\<close>.\<close>

fun error_text :: "(message \<Rightarrow> string) \<Rightarrow> (int \<Rightarrow> string) \<Rightarrow> go_error \<Rightarrow> string" where
  "error_text render itoa (JcsErr e) = error_string render itoa e"
| "error_text render itoa (WrapErr s e) = s @ '': '' @ error_text render itoa e"
| "error_text render itoa (OtherErr s) = s"

definition cause_of :: "(message \<Rightarrow> string) \<Rightarrow> (int \<Rightarrow> string) \<Rightarrow> go_error \<Rightarrow> cause" where
  "cause_of render itoa e = (case e of JcsErr j \<Rightarrow> JcsCause j | _ \<Rightarrow> OtherCause (error_text render itoa e))"

text \<open>What a writer has passed on only grows.\<close>

lemma Write_sent: "Write w b = (e, w') \<Longrightarrow> \<exists>t. sent w' = sent w @ t"
  by (auto simp: Write_def split: list.splits write_result.splits)

lemma Write_ok: "Write w b = (None, w') \<Longrightarrow> sent w' = sent w @ b"
  by (auto simp: Write_def split: list.splits write_result.splits)

lemma Write_works: "script w = [] \<Longrightarrow> Write w b = (None, w\<lparr>sent := sent w @ b\<rparr>)"
  by (simp add: Write_def)

end
