(* ===== verification/Cli.thy ===== *)
theory Cli
  imports Cli_Io Jcs_Serialize
begin

text \<open>
  The command jcs-canon (src/cmd/jcs-canon/main.go): dispatch, flags, bounded input, the two commands, the
  classification of errors and the exit codes.

  Every function that writes returns the new state of the writers. An exit code is \<open>Some code\<close>; \<open>None\<close> is a
  run that crashes or hangs in the number formatter, which the theorems exclude.

  \<open>cli_env\<close> holds what the process gets from outside: the file system as a function from paths to readers,
  the version of the build, the arithmetic of \<open>estimateK\<close>, and the text of messages and integers.
\<close>

record cli_env =
  maths :: fmath
  open_file :: "string \<Rightarrow> string + reader"
  version :: string
  render :: "message \<Rightarrow> string"
  itoa :: "int \<Rightarrow> string"

datatype failure = Failed go_error | Crashed

section \<open>Writers\<close>

definition writef :: "writer \<Rightarrow> string \<Rightarrow> go_error option \<times> writer" where
  "writef w text = (case Write w (ascii text) of
     (None, w') \<Rightarrow> (None, w') | (Some e, w') \<Rightarrow> (Some (WrapErr ''write stream'' (OtherErr e)), w'))"

definition newline :: string where "newline = [CHR 0x0A]"

definition writeLine :: "writer \<Rightarrow> string \<Rightarrow> go_error option \<times> writer" where
  "writeLine w msg = writef w (msg @ newline)"

text \<open>The help texts are written line by line, up to the first failure.\<close>

fun writeLines :: "writer \<Rightarrow> string list \<Rightarrow> go_error option \<times> writer" where
  "writeLines w [] = (None, w)"
| "writeLines w (l # ls) = (case writeLine w l of (Some e, w') \<Rightarrow> (Some e, w') | (None, w') \<Rightarrow> writeLines w' ls)"

definition writeCanonicalizeHelp :: "writer \<Rightarrow> go_error option \<times> writer" where
  "writeCanonicalizeHelp w = writeLines w
     [''usage: jcs-canon canonicalize [--quiet] [file|-]'',
      ''  Read JSON from file (or stdin), emit canonical bytes to stdout.'',
      ''  --quiet   Accepted for command symmetry; canonicalize is silent on success'']"

definition writeGlobalHelp :: "writer \<Rightarrow> go_error option \<times> writer" where
  "writeGlobalHelp w = writeLines w
     [''usage: jcs-canon <canonicalize|verify> [options] [file|-]'',
      ''       jcs-canon --help'',
      ''       jcs-canon --version'',
      ''commands: canonicalize, verify'',
      ''flags: --help, -h, --version'']"

definition writeVerifyHelp :: "writer \<Rightarrow> go_error option \<times> writer" where
  "writeVerifyHelp w = writeLines w
     [''usage: jcs-canon verify [--quiet] [file|-]'',
      ''  Parse, canonicalize, and compare bytes to verify canonical form.'',
      ''  --quiet  Suppress success messages'']"

definition writeVersion :: "cli_env \<Rightarrow> writer \<Rightarrow> go_error option \<times> writer" where
  "writeVersion E w = writeLine w (''jcs-canon '' @ version E)"

text \<open>The version: the variable set by the linker, else what the build information knows.\<close>

definition init_version :: "string \<Rightarrow> string option \<Rightarrow> string" where
  "init_version v info =
     (if v = ''v0.0.0-dev'' then
        (case info of Some m \<Rightarrow> if m \<noteq> '''' \<and> m \<noteq> ''(devel)'' then m else v | None \<Rightarrow> v)
      else v)"

section \<open>Errors\<close>

definition writeErrorAndReturn :: "cli_env \<Rightarrow> writer \<Rightarrow> int \<Rightarrow> go_error \<Rightarrow> int \<times> writer" where
  "writeErrorAndReturn E w code e =
     (case writef w (''error: '' @ error_text (render E) (itoa E) e @ newline) of
        (Some _, w') \<Rightarrow> (ExitCode InternalIO, w') | (None, w') \<Rightarrow> (code, w'))"

definition writeClassifiedError :: "cli_env \<Rightarrow> writer \<Rightarrow> go_error \<Rightarrow> int \<times> writer" where
  "writeClassifiedError E w e = (case errors_As e of
     Some je \<Rightarrow>
       (case writef w (''error: '' @ error_string (render E) (itoa E) je @ newline) of
          (Some _, w') \<Rightarrow> (ExitCode InternalIO, w') | (None, w') \<Rightarrow> (ExitCode (Class je), w'))
   | None \<Rightarrow> writeErrorAndReturn E w (ExitCode InternalError) e)"

definition io_failure :: "cli_env \<Rightarrow> string \<Rightarrow> go_error \<Rightarrow> go_error" where
  "io_failure E what e = JcsErr (Wrap InternalIO (-1) (Msg what) (cause_of (render E) (itoa E) e))"

section \<open>Flags and input\<close>

record flags =
  fl_quiet :: bool
  fl_help :: bool

fun parseFlagsFrom :: "flags \<Rightarrow> string list \<Rightarrow> string list \<Rightarrow> go_error + flags \<times> string list" where
  "parseFlagsFrom f positional [] = Inr (f, positional)"
| "parseFlagsFrom f positional (arg # args) =
     (if arg = ''--quiet'' \<or> arg = ''-q'' then parseFlagsFrom (f\<lparr>fl_quiet := True\<rparr>) positional args
      else if arg = ''--help'' \<or> arg = ''-h'' then parseFlagsFrom (f\<lparr>fl_help := True\<rparr>) positional args
      else if arg = ''-'' then parseFlagsFrom f (positional @ [arg]) args
      else if take 1 arg = ''-'' then
        Inl (JcsErr (New CLIUsage (-1) (Sprintf ''unknown option: %s'' [FText arg])))
      else parseFlagsFrom f (positional @ [arg]) args)"

definition parseFlags :: "string list \<Rightarrow> go_error + flags \<times> string list" where
  "parseFlags args = parseFlagsFrom \<lparr>fl_quiet = False, fl_help = False\<rparr> [] args"

definition ensureSingleInput :: "string list \<Rightarrow> go_error option" where
  "ensureSingleInput positional =
     (if length positional \<le> 1 then None
      else Some (JcsErr (New CLIUsage (-1) (Msg ''multiple input files specified''))))"

definition readBounded :: "reader \<Rightarrow> int \<Rightarrow> jcserr + bytes" where
  "readBounded r maxInputSize = (case ReadAllLimited r (maxInputSize + 1) of
     Inl e \<Rightarrow> Inl (Wrap InternalIO (-1) (Msg ''read input stream'') (OtherCause e))
   | Inr got \<Rightarrow>
       if int (length got) > maxInputSize
       then Inl (New BoundExceeded 0 (Sprintf ''input exceeds maximum size %d bytes'' [FInt maxInputSize]))
       else Inr got)"

definition readInput :: "cli_env \<Rightarrow> string list \<Rightarrow> reader \<Rightarrow> int \<Rightarrow> go_error + bytes" where
  "readInput E positional stdin maxInputSize =
     (if positional = [] \<or> hd positional = ''-'' then
        (case readBounded stdin maxInputSize of Inl e \<Rightarrow> Inl (JcsErr e) | Inr got \<Rightarrow> Inr got)
      else (case open_file E (hd positional) of
        Inl e \<Rightarrow> Inl (JcsErr (Wrap CLIUsage (-1) (Sprintf ''read file %q'' [FText (hd positional)]) (OtherCause e)))
      | Inr f \<Rightarrow> (case readBounded f maxInputSize of
          Inl e \<Rightarrow>
            if Class e = BoundExceeded then Inl (JcsErr e)
            else Inl (JcsErr (Wrap CLIUsage (-1) (Sprintf ''read file %q'' [FText (hd positional)]) (JcsCause e)))
        | Inr got \<Rightarrow> Inr got)))"

section \<open>Commands\<close>

definition cmdCanonicalize :: "cli_env \<Rightarrow> string list \<Rightarrow> reader \<Rightarrow> writer \<Rightarrow> writer \<Rightarrow> int option \<times> writer \<times> writer" where
  "cmdCanonicalize E args stdin stdout stderr =
     (let fail = (\<lambda>out e. case writeClassifiedError E stderr e of (code, err') \<Rightarrow> (Some code, out, err')) in
      case parseFlags args of Inl e \<Rightarrow> fail stdout e
      | Inr (fg, positional) \<Rightarrow>
        if fl_help fg then
          (case writeCanonicalizeHelp stdout of
             (Some e, out) \<Rightarrow> fail out (io_failure E ''write canonicalize help output'' e)
           | (None, out) \<Rightarrow> (Some 0, out, stderr))
        else (case ensureSingleInput positional of Some e \<Rightarrow> fail stdout e
        | None \<Rightarrow> (case readInput E positional stdin DefaultMaxInputSize of Inl e \<Rightarrow> fail stdout e
          | Inr input \<Rightarrow> (case Canonicalize (maths E) input of
              Inl (Fail e) \<Rightarrow> fail stdout (JcsErr e)
            | Inl Abort \<Rightarrow> (None, stdout, stderr)
            | Inr canonical \<Rightarrow> (case Write stdout canonical of
                (Some e, out) \<Rightarrow> fail out (io_failure E ''writing output'' (OtherErr e))
              | (None, out) \<Rightarrow> (Some 0, out, stderr))))))"

definition parseCanonicalFromInput :: "cli_env \<Rightarrow> string list \<Rightarrow> reader \<Rightarrow> failure + bytes \<times> bytes" where
  "parseCanonicalFromInput E positional stdin =
     (case ensureSingleInput positional of Some e \<Rightarrow> Inl (Failed e)
      | None \<Rightarrow> (case readInput E positional stdin DefaultMaxInputSize of Inl e \<Rightarrow> Inl (Failed e)
        | Inr input \<Rightarrow> (case Parse input of
            Inl e \<Rightarrow> Inl (Failed (WrapErr ''parse canonical input'' (JcsErr e)))
          | Inr parsed \<Rightarrow> (case Serialize (maths E) (Some parsed) of
              Inl (Fail e) \<Rightarrow> Inl (Failed (WrapErr ''serialize canonical input'' (JcsErr e)))
            | Inl Abort \<Rightarrow> Inl Crashed
            | Inr canonical \<Rightarrow> Inr (input, canonical)))))"

definition cmdVerify :: "cli_env \<Rightarrow> string list \<Rightarrow> reader \<Rightarrow> writer \<Rightarrow> writer \<Rightarrow> int option \<times> writer \<times> writer" where
  "cmdVerify E args stdin stdout stderr =
     (let fail = (\<lambda>out err e. case writeClassifiedError E err e of (code, err') \<Rightarrow> (Some code, out, err')) in
      case parseFlags args of Inl e \<Rightarrow> fail stdout stderr e
      | Inr (fg, positional) \<Rightarrow>
        if fl_help fg then
          (case writeVerifyHelp stdout of
             (Some e, out) \<Rightarrow> fail out stderr (io_failure E ''write verify help output'' e)
           | (None, out) \<Rightarrow> (Some 0, out, stderr))
        else (case parseCanonicalFromInput E positional stdin of
          Inl (Failed e) \<Rightarrow> fail stdout stderr e
        | Inl Crashed \<Rightarrow> (None, stdout, stderr)
        | Inr (input, canonical) \<Rightarrow>
            if input \<noteq> canonical
            then fail stdout stderr (JcsErr (New NotCanonical (-1) (Msg ''input is not canonical'')))
            else if \<not> fl_quiet fg then
              (case writeLine stderr ''ok'' of
                 (Some e, err) \<Rightarrow> fail stdout err (io_failure E ''writing verify success output'' e)
               | (None, err) \<Rightarrow> (Some 0, stdout, err))
            else (Some 0, stdout, stderr)))"

definition usage_error :: "cli_env \<Rightarrow> message \<Rightarrow> writer \<Rightarrow> int \<times> writer" where
  "usage_error E msg stderr =
     (case writeClassifiedError E stderr (JcsErr (New CLIUsage (-1) msg)) of (code, err) \<Rightarrow>
        (case writeGlobalHelp err of
           (Some e, err') \<Rightarrow> writeClassifiedError E err' (io_failure E ''write usage output'' e)
         | (None, err') \<Rightarrow> (code, err')))"

definition run :: "cli_env \<Rightarrow> string list \<Rightarrow> reader \<Rightarrow> writer \<Rightarrow> writer \<Rightarrow> int option \<times> writer \<times> writer" where
  "run E args stdin stdout stderr = (case args of
     [] \<Rightarrow> (case usage_error E (Msg ''no command specified'') stderr of (code, err) \<Rightarrow> (Some code, stdout, err))
   | cmd # rest \<Rightarrow>
       if cmd = ''--help'' \<or> cmd = ''-h'' then
         (case writeGlobalHelp stdout of
            (Some e, out) \<Rightarrow> (case writeClassifiedError E stderr (io_failure E ''write help output'' e) of
               (code, err) \<Rightarrow> (Some code, out, err))
          | (None, out) \<Rightarrow> (Some 0, out, stderr))
       else if cmd = ''--version'' then
         (case writeVersion E stdout of
            (Some e, out) \<Rightarrow> (case writeClassifiedError E stderr (io_failure E ''write version output'' e) of
               (code, err) \<Rightarrow> (Some code, out, err))
          | (None, out) \<Rightarrow> (Some 0, out, stderr))
       else if cmd = ''canonicalize'' then cmdCanonicalize E rest stdin stdout stderr
       else if cmd = ''verify'' then cmdVerify E rest stdin stdout stderr
       else (case usage_error E (Sprintf ''unknown command: %s'' [FText cmd]) stderr of
         (code, err) \<Rightarrow> (Some code, stdout, err)))"

end
