(* ===== verification/Cli_Spec.thy ===== *)
theory Cli_Spec
  imports Cli Jcs_Pipeline
begin

text \<open>
  What the command line promises: its exit codes, that \<^verbatim>\<open>canonicalize\<close> writes the canonical text or nothing,
  and that \<^verbatim>\<open>verify\<close> accepts exactly the canonical texts, in particular what \<^verbatim>\<open>canonicalize\<close> wrote.
\<close>

section \<open>Writers\<close>

lemma writef_works [simp]: "script w = [] \<Longrightarrow> writef w t = (None, w\<lparr>sent := sent w @ ascii t\<rparr>)"
  by (simp add: writef_def Write_works)

lemma ExitCode_range: "ExitCode c \<in> {2, 10}"
  by (simp add: ExitCode_cases)

lemma writeClassifiedError_code: "writeClassifiedError E w e = (code, w') \<Longrightarrow> code \<in> {2, 10}"
  using ExitCode_range
  by (auto simp: writeClassifiedError_def writeErrorAndReturn_def split: option.splits prod.splits)

text \<open>A structured error is reported with the exit code of its class when the stream works.\<close>

lemma writeClassifiedError_works:
  "script w = [] \<Longrightarrow> errors_As e = Some je \<Longrightarrow> fst (writeClassifiedError E w e) = ExitCode (Class je)"
  by (simp add: writeClassifiedError_def)

section \<open>Exit codes\<close>

definition ok_code :: "int \<Rightarrow> bool" where
  "ok_code c \<longleftrightarrow> c \<in> {0, 2, 10}"

lemma ok_code_0 [simp]: "ok_code 0"
  by (simp add: ok_code_def)

lemma writeClassifiedError_ok: "writeClassifiedError E w e = (c, w') \<Longrightarrow> ok_code c"
  by (auto simp: ok_code_def dest: writeClassifiedError_code)

lemma usage_error_ok: "usage_error E m w = (c, w') \<Longrightarrow> ok_code c"
  by (auto simp: usage_error_def dest!: writeClassifiedError_ok split: option.splits prod.splits)

lemma cmdCanonicalize_code: "cmdCanonicalize E args i out err = (Some c, out', err') \<Longrightarrow> ok_code c"
  by (auto simp: cmdCanonicalize_def Let_def dest!: writeClassifiedError_ok
      split: sum.splits option.splits prod.splits if_splits fault.splits)

lemma cmdVerify_code: "cmdVerify E args i out err = (Some c, out', err') \<Longrightarrow> ok_code c"
  by (auto simp: cmdVerify_def Let_def dest!: writeClassifiedError_ok
      split: sum.splits option.splits prod.splits if_splits failure.splits)

lemma run_code: "run E args i out err = (Some c, out', err') \<Longrightarrow> ok_code c"
  by (auto simp: run_def dest!: cmdCanonicalize_code cmdVerify_code writeClassifiedError_ok usage_error_ok
      split: list.splits option.splits prod.splits if_splits)

section \<open>The commands on their input\<close>

lemma Canonicalize_opts: "Canonicalize M d = CanonicalizeWithOptions M d None"
  by (simp add: Canonicalize_def CanonicalizeWithOptions_def Parse_def)

lemma Canonicalize_not_Abort: "accurate M \<Longrightarrow> Canonicalize M d \<noteq> Inl Abort"
  using canonicalize_total [of M d None Abort] by (simp add: Canonicalize_opts)

lemma Serialize_parsed: "Parse d = Inr v \<Longrightarrow> Serialize M (Some v) = Canonicalize M d"
  by (simp add: Serialize_def Canonicalize_def)

text \<open>What \<^verbatim>\<open>verify\<close> computes is the canonicalization of its input.\<close>

lemma parseCanonical_eq:
  "parseCanonicalFromInput E positional i = (case ensureSingleInput positional of Some e \<Rightarrow> Inl (Failed e)
     | None \<Rightarrow> (case readInput E positional i DefaultMaxInputSize of Inl e \<Rightarrow> Inl (Failed e)
       | Inr d \<Rightarrow> (case Canonicalize (maths E) d of
           Inr t \<Rightarrow> Inr (d, t)
         | Inl Abort \<Rightarrow> Inl Crashed
         | Inl (Fail e) \<Rightarrow> Inl (Failed (WrapErr
             (if isl (Parse d) then ''parse canonical input'' else ''serialize canonical input'') (JcsErr e))))))"
  unfolding parseCanonicalFromInput_def
  by (auto simp: Serialize_parsed split: option.split sum.split fault.split) (auto simp: Canonicalize_def)

lemma verify_code_0:
  assumes "parseFlags args = Inr (fg, positional)" "\<not> fl_help fg" "script err = []"
  shows "fst (cmdVerify E args i out err) = Some 0 \<longleftrightarrow>
    (length positional \<le> 1 \<and> (\<exists>d. readInput E positional i DefaultMaxInputSize = Inr d \<and> Canonicalize (maths E) d = Inr d))"
  using writeClassifiedError_code assms
  by (fastforce simp: cmdVerify_def parseCanonical_eq ensureSingleInput_def Let_def writeLine_def
      split: option.splits sum.splits fault.splits prod.splits if_splits)

lemma canonicalize_runs:
  assumes "parseFlags args = Inr (fg, positional)" "\<not> fl_help fg" "length positional \<le> 1"
    "readInput E positional i DefaultMaxInputSize = Inr d" "script out = []"
  shows "Canonicalize (maths E) d = Inr t \<Longrightarrow> cmdCanonicalize E args i out err = (Some 0, out\<lparr>sent := sent out @ t\<rparr>, err)"
    "Canonicalize (maths E) d = Inl (Fail e) \<Longrightarrow>
       cmdCanonicalize E args i out err = (case writeClassifiedError E err (JcsErr e) of (c, err') \<Rightarrow> (Some c, out, err'))"
  using assms by (simp_all add: cmdCanonicalize_def ensureSingleInput_def Let_def Write_works)

text \<open>Standard input with the text \<open>t\<close>.\<close>

definition stdin_of :: "bytes \<Rightarrow> reader" where
  "stdin_of t = \<lparr>avail = t, read_error = None\<rparr>"

lemma readInput_stdin: "int (length t) \<le> DefaultMaxInputSize \<Longrightarrow> readInput E [] (stdin_of t) DefaultMaxInputSize = Inr t"
  by (simp add: readInput_def readBounded_def ReadAllLimited_def stdin_of_def)

lemma parseFlags_Nil: "parseFlags [] = Inr (\<lparr>fl_quiet = False, fl_help = False\<rparr>, [])"
  by (simp add: parseFlags_def)

text \<open>The commands touch standard output only to write a result or a help text.\<close>

lemma cmdVerify_stdout:
  "cmdVerify E args i out err = (c, out', err') \<Longrightarrow> parseFlags args = Inr (fg, positional) \<Longrightarrow> \<not> fl_help fg \<Longrightarrow> out' = out"
  by (auto simp: cmdVerify_def Let_def split: sum.splits option.splits prod.splits if_splits failure.splits)

lemma cmdCanonicalize_stdout:
  assumes "cmdCanonicalize E args i out err = (c, out', err')" "parseFlags args = Inr (fg, positional)" "\<not> fl_help fg"
    "script out = []"
  shows "if c = Some 0 then (\<exists>d t. readInput E positional i DefaultMaxInputSize = Inr d \<and> Canonicalize (maths E) d = Inr t
       \<and> sent out' = sent out @ t) else out' = out"
proof -
  have 0: "code \<noteq> 0" if "writeClassifiedError E w e = (code, w')" for w e code w'
    using writeClassifiedError_code [OF that] by auto
  show ?thesis using assms
    by (auto simp: cmdCanonicalize_def Let_def Write_works dest!: 0
        split: sum.splits option.splits prod.splits if_splits fault.splits)
qed

lemma cmdCanonicalize_terminates: "accurate (maths E) \<Longrightarrow> cmdCanonicalize E args i out err \<noteq> (None, x)"
  by (auto simp: cmdCanonicalize_def Let_def dest: Canonicalize_not_Abort
      split: sum.splits option.splits prod.splits if_splits fault.splits)

lemma cmdVerify_terminates:
  assumes "accurate (maths E)"
  shows "cmdVerify E args i out err \<noteq> (None, x)"
proof -
  have "parseCanonicalFromInput E positional i \<noteq> Inl Crashed" for positional
    using Canonicalize_not_Abort [OF assms] by (auto simp: parseCanonical_eq split: sum.splits option.splits fault.splits)
  then show ?thesis
    by (auto simp: cmdVerify_def Let_def split: sum.splits option.splits prod.splits if_splits failure.splits)
qed

lemma run_terminates: "accurate (maths E) \<Longrightarrow> run E args i out err \<noteq> (None, x)"
  using cmdCanonicalize_terminates [of E] cmdVerify_terminates [of E]
  by (auto simp: run_def split: list.splits option.splits prod.splits if_splits)

section \<open>Properties\<close>

text \<open>
  C13: whatever the arguments, the input and the state of the streams, a run ends, and its exit code is 0, 2
  or 10, the three codes of the stable interface.
\<close>

theorem run_exit_codes:
  assumes "accurate (maths E)"
  shows "\<exists>c out' err'. run E args stdin stdout stderr = (Some c, out', err') \<and> c \<in> {0, 2, 10}"
proof -
  obtain c out' err' where r: "run E args stdin stdout stderr = (c, out', err')" by (cases "run E args stdin stdout stderr")
  with run_terminates [OF assms, of args stdin stdout stderr] obtain c' where "c = Some c'" by (cases c) auto
  with r run_code show ?thesis by (auto simp: ok_code_def)
qed

text \<open>An environment without files.\<close>

definition no_files :: cli_env where
  "no_files = \<lparr>maths = quarter_math, open_file = (\<lambda>_. Inl ''no such file''), version = ''v1'',
     render = (\<lambda>_. ''''), itoa = (\<lambda>_. '''')\<rparr>"

definition idle :: writer where "idle = \<lparr>sent = [], script = []\<rparr>"

lemma no_files_maths [simp]: "maths no_files = quarter_math" and script_idle [simp]: "script idle = []"
  by (simp_all add: no_files_def idle_def)

theorem run_exit_codes_witness:
  "\<exists>c out' err'. run no_files [''bogus''] (stdin_of []) idle idle = (Some c, out', err') \<and> c \<in> {0, 2, 10}"
  by (rule run_exit_codes) (simp add: quarter_math_accurate)

text \<open>
  C12: \<^verbatim>\<open>canonicalize\<close> writes the canonical text of its input or nothing: with a working standard output a run
  with exit code 0 has appended exactly the canonical bytes, any other run has left it alone.
\<close>

theorem canonicalize_all_or_nothing:
  assumes "run E (''canonicalize'' # args) stdin stdout stderr = (c, out', err')"
    "parseFlags args = Inr (fg, positional)" "\<not> fl_help fg" "script stdout = []"
  shows "if c = Some 0 then (\<exists>d t. readInput E positional stdin DefaultMaxInputSize = Inr d
       \<and> Canonicalize (maths E) d = Inr t \<and> sent out' = sent stdout @ t) else out' = stdout"
  by (rule cmdCanonicalize_stdout [OF _ assms(2-4)]) (use assms(1) in \<open>simp add: run_def\<close>)

lemma sample_canonicalize: "run no_files [''canonicalize''] (stdin_of sample) idle idle
   = (Some 0, idle\<lparr>sent := sample_canonical\<rparr>, idle)"
  by code_simp

theorem canonicalize_all_or_nothing_witness:
  "\<exists>d t. readInput no_files [] (stdin_of sample) DefaultMaxInputSize = Inr d \<and> Canonicalize quarter_math d = Inr t
     \<and> sample_canonical = [] @ t"
  using canonicalize_all_or_nothing [OF sample_canonicalize parseFlags_Nil] by (simp add: idle_def)

text \<open>
  C5: \<^verbatim>\<open>verify\<close> succeeds exactly on canonical input, and writes nothing to standard output: with a working
  standard error the exit code is 0 if and only if there is at most one file, the input can be read, and
  it is its own canonical form.
\<close>

theorem verify_exactly_canonical:
  assumes "parseFlags args = Inr (fg, positional)" "\<not> fl_help fg" "script stderr = []"
    "run E (''verify'' # args) stdin stdout stderr = (c, out', err')"
  shows "(c = Some 0 \<longleftrightarrow> length positional \<le> 1 \<and>
       (\<exists>d. readInput E positional stdin DefaultMaxInputSize = Inr d \<and> Canonicalize (maths E) d = Inr d))
     \<and> out' = stdout"
proof -
  have r: "cmdVerify E args stdin stdout stderr = (c, out', err')" using assms(4) by (simp add: run_def)
  from verify_code_0 [OF assms(1-3), of E stdin stdout] cmdVerify_stdout [OF r assms(1,2)] show ?thesis by (simp add: r)
qed

lemma sample_verify: "run no_files [''verify'', ''-q''] (stdin_of sample_canonical) idle idle = (Some 0, idle, idle)"
  by code_simp

theorem verify_exactly_canonical_witness:
  "\<exists>d. readInput no_files [] (stdin_of sample_canonical) DefaultMaxInputSize = Inr d \<and> Canonicalize quarter_math d = Inr d"
proof -
  have "parseFlags [''-q''] = Inr (\<lparr>fl_quiet = True, fl_help = False\<rparr>, [])" by (simp add: parseFlags_def)
  from verify_exactly_canonical [OF this _ script_idle sample_verify] show ?thesis by simp
qed

text \<open>
  C11: the two commands compose: what \<^verbatim>\<open>canonicalize\<close> has written, read back from standard input within the
  size limit, is accepted by \<^verbatim>\<open>verify\<close>, which says "ok".
\<close>

theorem verify_after_canonicalize:
  assumes "accurate (maths E)" "run E [''canonicalize''] stdin stdout stderr = (Some 0, out', err')" "script stdout = []"
    "sent stdout = []" "int (length (sent out')) \<le> DefaultMaxInputSize" "script err1 = []"
  shows "run E [''verify''] (stdin_of (sent out')) out1 err1
    = (Some 0, out1, err1\<lparr>sent := sent err1 @ ascii (''ok'' @ newline)\<rparr>)"
proof -
  have "cmdCanonicalize E [] stdin stdout stderr = (Some 0, out', err')" using assms(2) by (simp add: run_def)
  from cmdCanonicalize_stdout [OF this parseFlags_Nil _ assms(3)] obtain d where
    "Canonicalize (maths E) d = Inr (sent out')" using assms(4) by auto
  then have "Canonicalize (maths E) (sent out') = Inr (sent out')"
    using canonical_idempotent [OF assms(1), of d None] assms(5)
    by (simp add: Canonicalize_opts opt_defs default_defs)
  then show ?thesis using assms(5,6) readInput_stdin [OF assms(5), of E]
    by (simp add: run_def cmdVerify_def parseFlags_Nil parseCanonical_eq ensureSingleInput_def writeLine_def)
qed

theorem verify_after_canonicalize_witness:
  "run no_files [''verify''] (stdin_of sample_canonical) idle idle = (Some 0, idle, idle\<lparr>sent := ascii (''ok'' @ newline)\<rparr>)"
proof -
  have "int (length sample_canonical) \<le> DefaultMaxInputSize" by code_simp
  then show ?thesis
    using verify_after_canonicalize [OF _ sample_canonicalize, of idle idle] quarter_math_accurate by (simp add: idle_def)
qed

text \<open>
  An input the parser rejects is reported on standard error with exit code 2, never 10, by both commands.
\<close>

theorem rejected_input_exit_2:
  assumes "Parse t = Inl e" "int (length t) \<le> DefaultMaxInputSize" "script stderr = []" "cmd \<in> {''canonicalize'', ''verify''}"
  shows "\<exists>err'. run E [cmd] (stdin_of t) stdout stderr = (Some 2, stdout, err')"
proof -
  have "ParseWithOptions t None = Inl e" using assms(1) by (simp add: Parse_def)
  from parse_rejects [OF this] have x: "ExitCode (Class e) = 2" by blast
  have c: "Canonicalize (maths E) t = Inl (Fail e)" using assms(1) by (simp add: Canonicalize_def)
  from assms(4) show ?thesis
    using c x assms(1-3) readInput_stdin [OF assms(2), of E]
    by (auto simp: run_def cmdVerify_def cmdCanonicalize_def parseFlags_Nil parseCanonical_eq ensureSingleInput_def
        writeClassifiedError_def Let_def)
qed

theorem rejected_input_exit_2_witness:
  "\<exists>err'. run no_files [''verify''] (stdin_of (ascii ''{\"a\":1,\"a\":2}'')) idle idle = (Some 2, idle, err')"
proof -
  have "isl (Parse (ascii ''{\"a\":1,\"a\":2}''))" by code_simp
  then obtain e where e: "Parse (ascii ''{\"a\":1,\"a\":2}'') = Inl e" by (auto simp: isl_def)
  have "int (length (ascii ''{\"a\":1,\"a\":2}'')) \<le> DefaultMaxInputSize" by code_simp
  from rejected_input_exit_2 [OF e this script_idle] show ?thesis by simp
qed

end
