(* ===== verification/Go_Strings.thy ===== *)
theory Go_Strings
  imports Jcserr "HOL-Library.List_Lexorder" "HOL-Library.Char_ord" "HOL-Library.Sublist"
begin

text \<open>
  What the offline tools use of Go's standard library: operations of the packages strings, strconv, sort and
  encoding/hex on Go strings, and error values built by \<^verbatim>\<open>fmt.Errorf\<close>.

  A Go string is a list of 8 bit characters, its bytes. Go compares strings byte by byte: that is the
  lexicographic order of the library theories List_Lexorder and Char_ord, so \<^verbatim>\<open>sort.Strings\<close> is \<open>sort\<close>.
\<close>

section \<open>Errors\<close>

text \<open>\<^verbatim>\<open>fmt.Errorf\<close> without and with \<^verbatim>\<open>%w\<close>, and an error that comes from outside.\<close>

datatype go_err = Errorf message | Errorw message go_err | Opaque string

section \<open>Package strings\<close>

definition HasPrefix :: "string \<Rightarrow> string \<Rightarrow> bool" where
  "HasPrefix s p \<longleftrightarrow> take (length p) s = p"

definition Contains :: "string \<Rightarrow> string \<Rightarrow> bool" where
  "Contains s sub \<longleftrightarrow> list_ex (\<lambda>i. take (length sub) (drop i s) = sub) [0..<Suc (length s)]"

definition ContainsAny :: "string \<Rightarrow> string \<Rightarrow> bool" where
  "ContainsAny s chars \<longleftrightarrow> list_ex (\<lambda>c. c \<in> set chars) s"

fun Join :: "string list \<Rightarrow> string \<Rightarrow> string" where
  "Join [] sep = []"
| "Join [s] sep = s"
| "Join (s # t # ss) sep = s @ sep @ Join (t # ss) sep"

lemma HasPrefix_iff: "HasPrefix s p \<longleftrightarrow> (\<exists>t. s = p @ t)"
  unfolding HasPrefix_def by (metis append_eq_conv_conj append_take_drop_id)

lemma Contains_iff: "Contains s sub \<longleftrightarrow> (\<exists>a b. s = a @ sub @ b)"
proof
  assume "Contains s sub"
  then obtain i where "take (length sub) (drop i s) = sub" by (auto simp: Contains_def list_ex_iff)
  then have "s = take i s @ sub @ drop (length sub) (drop i s)" by (metis append_take_drop_id)
  then show "\<exists>a b. s = a @ sub @ b" by blast
next
  assume "\<exists>a b. s = a @ sub @ b"
  then obtain a b where "s = a @ sub @ b" by blast
  then have "take (length sub) (drop (length a) s) = sub" "length a < Suc (length s)" by auto
  then show "Contains s sub" by (force simp: Contains_def list_ex_iff simp del: upt_Suc)
qed

text \<open>
  \<^verbatim>\<open>TrimSpace\<close> removes the runes with the Unicode property White_Space at both ends. \<open>spaces\<close> lists their
  UTF-8 encodings: none is a prefix or a suffix of another, and no other sequence decodes to one of them.
\<close>

definition spaces :: "string list" where
  "spaces =
     map (\<lambda>c. [c]) [CHR 0x09, CHR 0x0A, CHR 0x0B, CHR 0x0C, CHR 0x0D, CHR 0x20]
   @ [[CHR 0xC2, CHR 0x85], [CHR 0xC2, CHR 0xA0], [CHR 0xE1, CHR 0x9A, CHR 0x80]]
   @ map (\<lambda>c. [CHR 0xE2, CHR 0x80, c])
       [CHR 0x80, CHR 0x81, CHR 0x82, CHR 0x83, CHR 0x84, CHR 0x85, CHR 0x86, CHR 0x87, CHR 0x88, CHR 0x89, CHR 0x8A,
        CHR 0xA8, CHR 0xA9, CHR 0xAF]
   @ [[CHR 0xE2, CHR 0x81, CHR 0x9F], [CHR 0xE3, CHR 0x80, CHR 0x80]]"

function strip :: "string list \<Rightarrow> string \<Rightarrow> string" where
  "strip ps s = (case find (\<lambda>p. p \<noteq> [] \<and> HasPrefix s p) ps of
     None \<Rightarrow> s | Some p \<Rightarrow> strip ps (drop (length p) s))"
  by pat_completeness auto
termination
proof (relation "measure (\<lambda>(ps, s). length s)", goal_cases)
  case (2 ps s p)
  then have "p \<noteq> []" "HasPrefix s p" by (auto simp: find_Some_iff)
  then show ?case by (auto simp: HasPrefix_iff)
qed simp

declare strip.simps [simp del]

definition TrimSpace :: "string \<Rightarrow> string" where
  "TrimSpace s = rev (strip (map rev spaces) (rev (strip spaces s)))"

lemma strip_id: "\<forall>p\<in>set ps. \<not> HasPrefix s p \<Longrightarrow> strip ps s = s"
proof -
  assume a: "\<forall>p\<in>set ps. \<not> HasPrefix s p"
  have "find (\<lambda>p. p \<noteq> [] \<and> HasPrefix s p) ps = None" unfolding find_None_iff using a by blast
  then show ?thesis by (simp add: strip.simps [of ps s])
qed

lemma strip_Nil [simp]: "strip ps [] = []"
proof -
  have "find (\<lambda>p. p \<noteq> [] \<and> HasPrefix [] p) ps = None" unfolding find_None_iff by (auto simp: HasPrefix_def)
  then show ?thesis by (simp add: strip.simps [of ps "[]"])
qed

lemma TrimSpace_Nil [simp]: "TrimSpace [] = []"
  by (simp add: TrimSpace_def)

text \<open>A string of printable ASCII characters is its own trimmed form.\<close>

definition graphic :: "char \<Rightarrow> bool" where
  "graphic c \<longleftrightarrow> 0x21 \<le> (of_char c :: nat) \<and> (of_char c :: nat) < 0x7F"

lemma spaces_ends: "\<forall>p\<in>set spaces. p \<noteq> [] \<and> \<not> graphic (hd p) \<and> \<not> graphic (last p)"
  by code_simp

lemma TrimSpace_graphic:
  assumes "s = [] \<or> graphic (hd s) \<and> graphic (last s)"
  shows "TrimSpace s = s"
proof (cases "s = []")
  case False
  then have g: "graphic (hd s)" "graphic (hd (rev s))" using assms by (auto simp: hd_rev)
  have "strip spaces s = s"
    using spaces_ends g(1) by (intro strip_id) (auto simp: HasPrefix_iff hd_append)
  moreover have "strip (map rev spaces) (rev s) = rev s"
  proof (intro strip_id ballI notI)
    fix p assume "p \<in> set (map rev spaces)" "HasPrefix (rev s) p"
    then obtain q t where q: "q \<in> set spaces" "rev s = rev q @ t" by (auto simp: HasPrefix_iff)
    then have "q \<noteq> []" "\<not> graphic (last q)" using spaces_ends by auto
    moreover have "hd (rev s) = last q" using q(2) \<open>q \<noteq> []\<close> by (simp add: hd_append hd_rev)
    ultimately show False using g(2) by simp
  qed
  ultimately show ?thesis by (simp add: TrimSpace_def)
qed simp

section \<open>Package strconv and encoding/hex\<close>

definition is_hex :: "char \<Rightarrow> bool" where
  "is_hex c \<longleftrightarrow> (let n = (of_char c :: nat) in
     (0x30 \<le> n \<and> n \<le> 0x39) \<or> (0x41 \<le> n \<and> n \<le> 0x46) \<or> (0x61 \<le> n \<and> n \<le> 0x66))"

text \<open>The error of \<^verbatim>\<open>hex.DecodeString\<close>: the first byte that is no hexadecimal digit, else an odd length.\<close>

definition hex_error :: "string \<Rightarrow> go_err option" where
  "hex_error s = (case find (\<lambda>c. \<not> is_hex c) s of
     Some c \<Rightarrow> Some (Opaque ''encoding/hex: invalid byte'')
   | None \<Rightarrow> if odd (length s) then Some (Opaque ''encoding/hex: odd length hex string'') else None)"

lemma hex_error_None: "hex_error s = None \<longleftrightarrow> list_all is_hex s \<and> even (length s)"
proof (cases "find (\<lambda>c. \<not> is_hex c) s")
  case None
  then have "list_all is_hex s" by (auto simp: find_None_iff list_all_iff)
  with None show ?thesis by (simp add: hex_error_def)
next
  case (Some c)
  then have "\<not> list_all is_hex s" by (auto simp: find_Some_iff list_all_iff)
  with Some show ?thesis by (simp add: hex_error_def)
qed

definition hex_digit :: "nat \<Rightarrow> char" where
  "hex_digit n = char_of (if n < 10 then 0x30 + n else 0x57 + n)"

text \<open>\<^verbatim>\<open>hex.EncodeToString\<close>\<close>

definition hexEncode :: "bytes \<Rightarrow> string" where
  "hexEncode bs = concat (map (\<lambda>b. [hex_digit (unat b div 16), hex_digit (unat b mod 16)]) bs)"

function Itoa_nat :: "nat \<Rightarrow> string" where
  "Itoa_nat n = (if n < 10 then [char_of (0x30 + n)] else Itoa_nat (n div 10) @ [char_of (0x30 + n mod 10)])"
  by pat_completeness auto
termination
  by (relation "measure id") auto

declare Itoa_nat.simps [simp del]

definition Itoa :: "int \<Rightarrow> string" where
  "Itoa i = (if i < 0 then CHR ''-'' # Itoa_nat (nat (- i)) else Itoa_nat (nat i))"

lemma length_hexEncode [simp]: "length (hexEncode bs) = 2 * length bs"
  by (induction bs) (auto simp: hexEncode_def)

lemma hex_digit_hex: "n < 16 \<Longrightarrow> is_hex (hex_digit n)"
  by (auto simp: is_hex_def hex_digit_def Let_def)

lemma list_all_hexEncode: "list_all is_hex (hexEncode bs)"
proof -
  have "unat b div 16 < 16" for b :: byte
    using unsigned_less [of b, where ?'a = nat] by (simp add: less_mult_imp_div_less)
  then show ?thesis by (auto simp: hexEncode_def list_all_iff hex_digit_hex)
qed

text \<open>A token of hexadecimal digits has no space at its ends.\<close>

lemma is_hex_graphic: "is_hex c \<Longrightarrow> graphic c"
  by (auto simp: is_hex_def graphic_def Let_def)

lemma TrimSpace_hex: "list_all is_hex s \<Longrightarrow> TrimSpace s = s"
  by (rule TrimSpace_graphic) (auto simp: list_all_iff intro!: is_hex_graphic)

text \<open>Trimming twice is trimming once.\<close>

lemma strip_done: "p \<in> set ps \<Longrightarrow> p \<noteq> [] \<Longrightarrow> \<not> HasPrefix (strip ps s) p"
proof (induction ps s rule: strip.induct)
  case (1 ps s)
  show ?case
  proof (cases "find (\<lambda>p. p \<noteq> [] \<and> HasPrefix s p) ps")
    case None
    then have "strip ps s = s" by (simp add: strip.simps [of ps s])
    with None 1(2,3) show ?thesis by (auto simp: find_None_iff)
  next
    case (Some q)
    then have "strip ps s = strip ps (drop (length q) s)" by (simp add: strip.simps [of ps s])
    with 1(1) [OF Some 1(2,3)] show ?thesis by simp
  qed
qed

lemma strip_suffix: "\<exists>t. s = t @ strip ps s"
proof (induction ps s rule: strip.induct)
  case (1 ps s)
  show ?case
  proof (cases "find (\<lambda>p. p \<noteq> [] \<and> HasPrefix s p) ps")
    case None
    then show ?thesis by (simp add: strip.simps [of ps s])
  next
    case (Some q)
    with 1 obtain t where "drop (length q) s = t @ strip ps (drop (length q) s)" by blast
    then have "s = (take (length q) s @ t) @ strip ps (drop (length q) s)" by (metis append.assoc append_take_drop_id)
    with Some show ?thesis by (metis strip.simps [of ps s] option.simps(5))
  qed
qed

lemma TrimSpace_idem [simp]: "TrimSpace (TrimSpace s) = TrimSpace s"
proof -
  let ?l = "strip spaces s" and ?r = "strip (map rev spaces) (rev (strip spaces s))"
  have ne: "p \<noteq> []" if "p \<in> set spaces" for p using that spaces_ends by blast
  obtain t where "rev ?l = t @ ?r" using strip_suffix by blast
  then have l: "?l = rev ?r @ rev t" by (metis rev_append rev_rev_ident)
  have "strip spaces (rev ?r) = rev ?r"
  proof (intro strip_id ballI notI)
    fix p assume p: "p \<in> set spaces" "HasPrefix (rev ?r) p"
    then have "HasPrefix ?l p" by (subst l) (auto simp: HasPrefix_iff)
    with strip_done [OF p(1) ne [OF p(1)], of s] show False by simp
  qed
  moreover have "strip (map rev spaces) ?r = ?r"
    using strip_done [of _ "map rev spaces" "rev ?l"] ne by (intro strip_id) auto
  ultimately show ?thesis by (simp add: TrimSpace_def)
qed

end
