(* ===== verification/Replay_Config.thy ===== *)
theory Replay_Config
  imports Go_Strings "HOL-Library.Finite_Map"
begin

text \<open>
  The configuration of the offline replay (src/offline/replay/config.go): the matrix of nodes, the profile, their
  validation, and the nodes and numbers of replays that a profile requires.

  A Go map is a finite map, a nil pointer is \<open>None\<close>, and a function that returns only an error returns an
  option. Reading a file and decoding JSON into a struct are parameters (\<open>document_source\<close>).
\<close>

type_synonym gomap = "(string, string) fmap"

record RunnerConfig =
  rc_Kind :: string
  rc_Prepare :: "string list"
  rc_Replay :: "string list"
  rc_Cleanup :: "string list"
  rc_Env :: gomap

record NodeSpec =
  ns_ID :: string
  ns_Mode :: string
  ns_Distro :: string
  ns_KernelFamily :: string
  ns_Replays :: int
  ns_Runner :: RunnerConfig

record Matrix =
  mx_Version :: string
  mx_Architecture :: string
  mx_Nodes :: "NodeSpec list"

record Profile =
  pf_Version :: string
  pf_Name :: string
  pf_RequiredNodes :: "string list"
  pf_RequiredSuites :: "string list"
  pf_MinColdReplays :: int
  pf_HardReleaseGate :: bool
  pf_EvidenceRequired :: bool

definition NodeModeContainer :: string where "NodeModeContainer = ''container''"
definition NodeModeVM :: string where "NodeModeVM = ''vm''"
definition architectureARM64 :: string where "architectureARM64 = ''arm64''"

section \<open>Validation\<close>

definition errf :: "string \<Rightarrow> string list \<Rightarrow> go_err" where
  "errf fmt args = Errorf (Sprintf fmt (map FText args))"

text \<open>The checks of one node, without the identifier and the mode.\<close>

definition validateNodeFields :: "NodeSpec \<Rightarrow> go_err option" where
  "validateNodeFields n =
     (if ns_Distro n = [] then Some (errf ''node %s: distro is required'' [ns_ID n])
      else if ns_KernelFamily n = [] then Some (errf ''node %s: kernel_family is required'' [ns_ID n])
      else if ns_Replays n < 0 then Some (errf ''node %s: replays cannot be negative'' [ns_ID n])
      else if rc_Replay (ns_Runner n) = [] then Some (errf ''node %s: runner.replay command is required'' [ns_ID n])
      else if rc_Kind (ns_Runner n) = [] then Some (errf ''node %s: runner.kind is required'' [ns_ID n])
      else None)"

text \<open>The loop over the nodes, with its index and the three variables it keeps.\<close>

fun validateNodes :: "nat \<Rightarrow> string list \<Rightarrow> bool \<Rightarrow> bool \<Rightarrow> NodeSpec list \<Rightarrow> go_err + bool \<times> bool" where
  "validateNodes i seen hasContainer hasVM [] = Inr (hasContainer, hasVM)"
| "validateNodes i seen hasContainer hasVM (n # ns) =
     (if ns_ID n = [] then Inl (Errorf (Sprintf ''node[%d] id is required'' [FInt (int i)]))
      else if ns_ID n \<in> set seen then Inl (errf ''duplicate node id: %s'' [ns_ID n])
      else if ns_Mode n \<noteq> NodeModeContainer \<and> ns_Mode n \<noteq> NodeModeVM
      then Inl (errf ''node %s: invalid mode %q'' [ns_ID n, ns_Mode n])
      else (case validateNodeFields n of Some e \<Rightarrow> Inl e
        | None \<Rightarrow> validateNodes (i + 1) (ns_ID n # seen) (hasContainer \<or> ns_Mode n = NodeModeContainer)
            (hasVM \<or> ns_Mode n = NodeModeVM) ns))"

definition ValidateMatrix :: "Matrix option \<Rightarrow> go_err option" where
  "ValidateMatrix mx = (case mx of None \<Rightarrow> Some (errf ''matrix is nil'' [])
   | Some m \<Rightarrow>
     if mx_Version m = [] then Some (errf ''matrix version is required'' [])
     else if mx_Architecture m = [] then Some (errf ''matrix architecture is required'' [])
     else if mx_Nodes m = [] then Some (errf ''matrix must include at least one node'' [])
     else (case validateNodes 0 [] False False (mx_Nodes m) of Inl e \<Rightarrow> Some e
       | Inr (hasContainer, hasVM) \<Rightarrow>
         if \<not> hasContainer then Some (errf ''matrix must include at least one container node'' [])
         else if \<not> hasVM then Some (errf ''matrix must include at least one vm node'' [])
         else None))"

definition ValidateProfile :: "Profile option \<Rightarrow> go_err option" where
  "ValidateProfile pf = (case pf of None \<Rightarrow> Some (errf ''profile is nil'' [])
   | Some p \<Rightarrow>
     if pf_Version p = [] then Some (errf ''profile version is required'' [])
     else if pf_Name p = [] then Some (errf ''profile name is required'' [])
     else if pf_RequiredSuites p = [] then Some (errf ''profile required_suites cannot be empty'' [])
     else if pf_MinColdReplays p < 1 then Some (errf ''profile min_cold_replays must be >= 1'' [])
     else if \<not> pf_EvidenceRequired p then Some (errf ''profile evidence_required must be true'' [])
     else None)"

definition ValidateReleaseArchitecture :: "Matrix option \<Rightarrow> go_err option" where
  "ValidateReleaseArchitecture mx = (case mx of None \<Rightarrow> Some (errf ''matrix is nil'' [])
   | Some m \<Rightarrow>
     if mx_Architecture m = ''x86_64'' \<or> mx_Architecture m = architectureARM64 then None
     else Some (errf ''release architecture must be one of x86_64, %s, got %q'' [architectureARM64, mx_Architecture m]))"

definition ValidatePhaseOneArchitecture :: "Matrix option \<Rightarrow> go_err option" where
  "ValidatePhaseOneArchitecture mx = ValidateReleaseArchitecture mx"

section \<open>Loading\<close>

datatype trailing = AtEOF | MoreContent | BadContent go_err

record 'a document_source =
  ReadFile :: "string \<Rightarrow> go_err + bytes"
  Decode :: "bytes \<Rightarrow> go_err + 'a \<times> bytes"
  NextToken :: "bytes \<Rightarrow> trailing"

definition ensureSingleJSONDocument :: "'a document_source \<Rightarrow> bytes \<Rightarrow> go_err option" where
  "ensureSingleJSONDocument src rest = (case NextToken src rest of
     AtEOF \<Rightarrow> None
   | MoreContent \<Rightarrow> Some (errf ''unexpected trailing json content'' [])
   | BadContent e \<Rightarrow> Some (Errorw (Msg ''decode trailing json token'') e))"

definition LoadMatrix :: "Matrix document_source \<Rightarrow> string \<Rightarrow> go_err + Matrix" where
  "LoadMatrix src path = (case ReadFile src path of Inl e \<Rightarrow> Inl (Errorw (Msg ''read matrix'') e)
   | Inr text \<Rightarrow> (case Decode src text of Inl e \<Rightarrow> Inl (Errorw (Msg ''decode matrix json'') e)
     | Inr (m, rest) \<Rightarrow> (case ensureSingleJSONDocument src rest of
         Some e \<Rightarrow> Inl (Errorw (Msg ''decode matrix json'') e)
       | None \<Rightarrow> (case ValidateMatrix (Some m) of Some e \<Rightarrow> Inl e | None \<Rightarrow> Inr m))))"

definition LoadProfile :: "Profile document_source \<Rightarrow> string \<Rightarrow> go_err + Profile" where
  "LoadProfile src path = (case ReadFile src path of Inl e \<Rightarrow> Inl (Errorw (Msg ''read profile'') e)
   | Inr text \<Rightarrow> (case Decode src text of Inl e \<Rightarrow> Inl (Errorw (Msg ''decode profile json'') e)
     | Inr (p, rest) \<Rightarrow> (case ensureSingleJSONDocument src rest of
         Some e \<Rightarrow> Inl (Errorw (Msg ''decode profile json'') e)
       | None \<Rightarrow> (case ValidateProfile (Some p) of Some e \<Rightarrow> Inl e | None \<Rightarrow> Inr p))))"

section \<open>What a profile requires\<close>

text \<open>The loop over the required nodes, with the identifiers kept so far; they are also the set \<^verbatim>\<open>seen\<close>.\<close>

fun collectRequired :: "string list \<Rightarrow> string list \<Rightarrow> string list \<Rightarrow> go_err + string list" where
  "collectRequired known ids [] = Inr ids"
| "collectRequired known ids (i # is) =
     (if i \<notin> set known then Inl (errf ''required node %q not present in matrix'' [i])
      else if i \<in> set ids then collectRequired known ids is
      else collectRequired known (ids @ [i]) is)"

definition requiredNodeIDs :: "Matrix \<Rightarrow> Profile \<Rightarrow> go_err + string list" where
  "requiredNodeIDs m p =
     (if pf_RequiredNodes p = [] then Inr (sort (map ns_ID (mx_Nodes m)))
      else (case collectRequired (map ns_ID (mx_Nodes m)) [] (pf_RequiredNodes p) of
        Inl e \<Rightarrow> Inl e | Inr ids \<Rightarrow> Inr (sort ids)))"

definition requiredReplayCount :: "NodeSpec \<Rightarrow> Profile \<Rightarrow> int" where
  "requiredReplayCount node p =
     (if ns_Replays node > pf_MinColdReplays p then ns_Replays node else pf_MinColdReplays p)"

section \<open>Facts\<close>

text \<open>A valid node and a valid matrix, stated on their own.\<close>

definition node_ok :: "NodeSpec \<Rightarrow> bool" where
  "node_ok n \<longleftrightarrow> ns_ID n \<noteq> [] \<and> ns_Mode n \<in> {NodeModeContainer, NodeModeVM} \<and> ns_Distro n \<noteq> [] \<and> ns_KernelFamily n \<noteq> []
     \<and> 0 \<le> ns_Replays n \<and> rc_Replay (ns_Runner n) \<noteq> [] \<and> rc_Kind (ns_Runner n) \<noteq> []"

definition matrix_ok :: "Matrix \<Rightarrow> bool" where
  "matrix_ok m \<longleftrightarrow> mx_Version m \<noteq> [] \<and> mx_Architecture m \<noteq> [] \<and> distinct (map ns_ID (mx_Nodes m))
     \<and> list_all node_ok (mx_Nodes m) \<and> NodeModeContainer \<in> ns_Mode ` set (mx_Nodes m)
     \<and> NodeModeVM \<in> ns_Mode ` set (mx_Nodes m)"

definition profile_ok :: "Profile \<Rightarrow> bool" where
  "profile_ok p \<longleftrightarrow> pf_Version p \<noteq> [] \<and> pf_Name p \<noteq> [] \<and> pf_RequiredSuites p \<noteq> [] \<and> 1 \<le> pf_MinColdReplays p
     \<and> pf_EvidenceRequired p"

lemma modes_differ [simp]: "NodeModeContainer \<noteq> NodeModeVM" "NodeModeVM \<noteq> NodeModeContainer"
  by (simp_all add: NodeModeContainer_def NodeModeVM_def)

lemma validateNodeFields_iff: "validateNodeFields n = None \<longleftrightarrow>
   ns_Distro n \<noteq> [] \<and> ns_KernelFamily n \<noteq> [] \<and> 0 \<le> ns_Replays n \<and> rc_Replay (ns_Runner n) \<noteq> [] \<and> rc_Kind (ns_Runner n) \<noteq> []"
  by (auto simp: validateNodeFields_def)

lemma validateNodes_iff:
  "validateNodes i seen c v ns = Inr (c', v') \<longleftrightarrow> list_all node_ok ns \<and> distinct (map ns_ID ns)
     \<and> set seen \<inter> ns_ID ` set ns = {} \<and> c' = (c \<or> NodeModeContainer \<in> ns_Mode ` set ns)
     \<and> v' = (v \<or> NodeModeVM \<in> ns_Mode ` set ns)"
proof (induction ns arbitrary: i seen c v)
  case (Cons n ns)
  show ?case
  proof (cases "node_ok n \<and> ns_ID n \<notin> set seen")
    case True
    then have "validateNodes i seen c v (n # ns)
        = validateNodes (i + 1) (ns_ID n # seen) (c \<or> ns_Mode n = NodeModeContainer) (v \<or> ns_Mode n = NodeModeVM) ns"
      using validateNodeFields_iff [of n] by (auto simp: node_ok_def)
    moreover have "set (ns_ID n # seen) \<inter> X = {} \<longleftrightarrow> set seen \<inter> insert (ns_ID n) X = {} \<and> ns_ID n \<notin> X" for X
      using True by auto
    moreover have "((b \<or> ns_Mode n = k) \<or> k \<in> ns_Mode ` set ns) = (b \<or> k \<in> ns_Mode ` set (n # ns))" for b k
      by auto
    ultimately show ?thesis
      using True by (simp only: Cons.IH list.pred_inject list.map distinct.simps list.set image_insert set_map) blast
  next
    case False
    then have "validateNodes i seen c v (n # ns) \<noteq> Inr (c', v')"
      using validateNodeFields_iff [of n] by (auto simp: node_ok_def split: option.splits)
    with False show ?thesis by auto
  qed
qed auto

lemma ValidateMatrix_iff: "ValidateMatrix (Some m) = None \<longleftrightarrow> matrix_ok m"
proof -
  obtain r where r: "validateNodes 0 [] False False (mx_Nodes m) = r" by simp
  show ?thesis
  proof (cases r)
    case (Inl e)
    then have "\<not> (list_all node_ok (mx_Nodes m) \<and> distinct (map ns_ID (mx_Nodes m)))"
      using r validateNodes_iff [of 0 "[]" False False "mx_Nodes m" "NodeModeContainer \<in> ns_Mode ` set (mx_Nodes m)"
        "NodeModeVM \<in> ns_Mode ` set (mx_Nodes m)"] by auto
    with r Inl show ?thesis by (auto simp: ValidateMatrix_def matrix_ok_def)
  next
    case (Inr b)
    obtain c v where b: "b = (c, v)" by (cases b)
    with r Inr have "validateNodes 0 [] False False (mx_Nodes m) = Inr (c, v)" by simp
    from this [unfolded validateNodes_iff] r Inr b show ?thesis by (auto simp: ValidateMatrix_def matrix_ok_def)
  qed
qed

lemma ValidateProfile_iff: "ValidateProfile (Some p) = None \<longleftrightarrow> profile_ok p"
  by (auto simp: ValidateProfile_def profile_ok_def)

lemma collectRequired_Inr:
  "collectRequired known ids is = Inr js \<Longrightarrow> distinct ids \<Longrightarrow>
     distinct js \<and> set js = set ids \<union> set is \<and> set is \<subseteq> set known"
proof (induction "is" arbitrary: ids)
  case (Cons i "is")
  show ?case
    using Cons.prems Cons.IH [of ids] Cons.IH [of "ids @ [i]"] by (simp split: if_splits) auto
qed simp

lemma collectRequired_Inl: "collectRequired known ids is = Inl e \<Longrightarrow> \<not> set is \<subseteq> set known"
  by (induction "is" arbitrary: ids) (auto split: if_splits)

text \<open>The nodes that are required, as a set.\<close>

definition required_set :: "Matrix \<Rightarrow> Profile \<Rightarrow> string set" where
  "required_set m p = (if pf_RequiredNodes p = [] then ns_ID ` set (mx_Nodes m) else set (pf_RequiredNodes p))"

lemma requiredNodeIDs_iff:
  assumes "distinct (map ns_ID (mx_Nodes m))"
  shows "requiredNodeIDs m p = Inr ids \<longleftrightarrow> required_set m p \<subseteq> ns_ID ` set (mx_Nodes m)
     \<and> ids = sorted_list_of_set (required_set m p)"
proof (cases "pf_RequiredNodes p = []")
  case True
  have "sort (map ns_ID (mx_Nodes m)) = sorted_list_of_set (ns_ID ` set (mx_Nodes m))"
    using assms by (metis distinct_sort sorted_sort set_sort list.set_map sorted_list_of_set.idem_if_sorted_distinct)
  with True show ?thesis by (auto simp: requiredNodeIDs_def required_set_def)
next
  case False
  let ?known = "map ns_ID (mx_Nodes m)"
  have r: "required_set m p = set (pf_RequiredNodes p)" using False by (simp add: required_set_def)
  show ?thesis
  proof (cases "collectRequired ?known [] (pf_RequiredNodes p)")
    case (Inl e)
    with collectRequired_Inl [OF Inl] False r show ?thesis by (auto simp: requiredNodeIDs_def)
  next
    case (Inr js)
    from collectRequired_Inr [OF Inr] have
      js: "distinct js" "set js = set (pf_RequiredNodes p)" "set (pf_RequiredNodes p) \<subseteq> ns_ID ` set (mx_Nodes m)" by auto
    then have "sort js = sorted_list_of_set (required_set m p)"
      by (metis r distinct_sort sorted_sort set_sort sorted_list_of_set.idem_if_sorted_distinct)
    with Inr js r False show ?thesis by (auto simp: requiredNodeIDs_def)
  qed
qed

lemma requiredReplayCount_max: "requiredReplayCount n p = max (ns_Replays n) (pf_MinColdReplays p)"
  by (auto simp: requiredReplayCount_def)

section \<open>Properties\<close>

text \<open>
  C29: \<open>ValidateMatrix\<close> accepts exactly the matrices with a version, an architecture, distinct identifiers, complete
  nodes, and at least one container node and one virtual machine.
\<close>

theorem ValidateMatrix_spec:
  "ValidateMatrix (Some m) = None \<longleftrightarrow> mx_Version m \<noteq> [] \<and> mx_Architecture m \<noteq> []
     \<and> distinct (map ns_ID (mx_Nodes m)) \<and> list_all node_ok (mx_Nodes m)
     \<and> NodeModeContainer \<in> ns_Mode ` set (mx_Nodes m) \<and> NodeModeVM \<in> ns_Mode ` set (mx_Nodes m)"
  using ValidateMatrix_iff by (simp add: matrix_ok_def)

text \<open>
  The nodes a profile requires. For a valid matrix the result is the increasing list, without duplicates, of the
  nodes the profile names, or of all nodes if it names none; it is an error exactly if the matrix lacks one.
\<close>

theorem requiredNodeIDs_spec:
  assumes "ValidateMatrix (Some m) = None"
  shows "requiredNodeIDs m p = Inr ids \<longleftrightarrow> sorted ids \<and> distinct ids \<and> set ids = required_set m p
     \<and> required_set m p \<subseteq> ns_ID ` set (mx_Nodes m)"
proof -
  have "finite (required_set m p)" by (simp add: required_set_def)
  then have "ids = sorted_list_of_set (required_set m p) \<longleftrightarrow> sorted ids \<and> distinct ids \<and> set ids = required_set m p"
    by (metis sorted_list_of_set.idem_if_sorted_distinct sorted_list_of_set.distinct_sorted_key_list_of_set
        sorted_list_of_set.set_sorted_key_list_of_set sorted_list_of_set.sorted_sorted_key_list_of_set map_ident)
  with requiredNodeIDs_iff [of m p ids] assms show ?thesis by (auto simp: ValidateMatrix_iff matrix_ok_def)
qed

definition two_lanes :: Matrix where
  "two_lanes = (let lane = (\<lambda>i mode. \<lparr>ns_ID = i, ns_Mode = mode, ns_Distro = ''d'', ns_KernelFamily = ''k'', ns_Replays = 0,
     ns_Runner = \<lparr>rc_Kind = ''r'', rc_Prepare = [], rc_Replay = [''x''], rc_Cleanup = [], rc_Env = fmempty\<rparr>\<rparr>) in
     \<lparr>mx_Version = ''v1'', mx_Architecture = ''arm64'', mx_Nodes = [lane ''b'' NodeModeVM, lane ''a'' NodeModeContainer]\<rparr>)"

definition b_then_a :: Profile where
  "b_then_a = \<lparr>pf_Version = ''v1'', pf_Name = ''p'', pf_RequiredNodes = [''b'', ''a'', ''b''], pf_RequiredSuites = [''s''],
     pf_MinColdReplays = 1, pf_HardReleaseGate = True, pf_EvidenceRequired = True\<rparr>"

theorem requiredNodeIDs_spec_witness: "requiredNodeIDs two_lanes b_then_a = Inr [''a'', ''b'']"
proof -
  have "ValidateMatrix (Some two_lanes) = None"
    by (auto simp: ValidateMatrix_iff matrix_ok_def node_ok_def two_lanes_def Let_def)
  from requiredNodeIDs_spec [OF this, of b_then_a "[''a'', ''b'']"] show ?thesis
    by (auto simp: required_set_def b_then_a_def two_lanes_def Let_def less_eq_char_def less_char_def)
qed

end
