(* ===== verification/Replay_Evidence.thy ===== *)
theory Replay_Evidence
  imports Replay_Config "HOL-Library.Multiset"
begin

text \<open>
  The evidence of a replay (src/offline/replay/evidence.go): the record of one run, the bundle of all runs, and the
  check of a bundle against the matrix, the profile and the expected digests.

  The checks are a sequence of guards that return at the first failure: \<open>first_error\<close> over the list of guards
  in the order of the code. The loops keep their order as well, so the reported error is the code's.
\<close>

record NodeRunEvidence =
  re_NodeID :: string
  re_Mode :: string
  re_Distro :: string
  re_KernelFamily :: string
  re_ReplayIndex :: int
  re_SessionID :: string
  re_StartedAtUTC :: string
  re_CompletedAtUTC :: string
  re_CaseCount :: int
  re_Passed :: bool
  re_CanonicalSHA256 :: string
  re_VerifySHA256 :: string
  re_FailureClassSHA256 :: string
  re_ExitCodeSHA256 :: string

record EvidenceBundle =
  eb_SchemaVersion :: string
  eb_BundleSHA256 :: string
  eb_ControlBinarySHA :: string
  eb_MatrixSHA256 :: string
  eb_ProfileSHA256 :: string
  eb_SourceGitCommit :: string
  eb_SourceGitTag :: string
  eb_GeneratedAtUTC :: string
  eb_Orchestrator :: string
  eb_ProfileName :: string
  eb_Architecture :: string
  eb_RequiredSuites :: "string list"
  eb_HardReleaseGate :: bool
  eb_NodeReplays :: "NodeRunEvidence list"
  eb_AggregateCanonical :: string
  eb_AggregateVerify :: string
  eb_AggregateClass :: string
  eb_AggregateExitCode :: string

record EvidenceValidationOptions =
  vo_BundleSHA256 :: string
  vo_ControlBinarySHA256 :: string
  vo_MatrixSHA256 :: string
  vo_ProfileSHA256 :: string
  vo_Architecture :: string
  vo_SourceGitCommit :: string
  vo_SourceGitTag :: string

definition EvidenceSchemaVersion :: string where "EvidenceSchemaVersion = ''evidence.v1''"

section \<open>Guards\<close>

definition guard :: "bool \<Rightarrow> go_err \<Rightarrow> go_err option" where
  "guard c e = (if c then Some e else None)"

fun first_error :: "go_err option list \<Rightarrow> go_err option" where
  "first_error [] = None"
| "first_error (None # es) = first_error es"
| "first_error (Some e # es) = Some e"

lemma guard_None [simp]: "guard c e = None \<longleftrightarrow> \<not> c"
  by (simp add: guard_def)

lemma guard_simps [simp]: "guard True e = Some e" "guard False e = None"
  by (simp_all add: guard_def)

lemma first_error_None [simp]: "first_error es = None \<longleftrightarrow> list_all (\<lambda>e. e = None) es"
  by (induction es rule: first_error.induct) auto

lemma first_error_map: "first_error (map f xs) = None \<longleftrightarrow> (\<forall>x\<in>set xs. f x = None)"
  by (simp add: list_all_iff)

section \<open>Tokens\<close>

definition validateHexToken :: "nat \<Rightarrow> string \<Rightarrow> string \<Rightarrow> string \<Rightarrow> go_err option" where
  "validateHexToken n short name value =
     (let token = TrimSpace value in
      if length token \<noteq> n then Some (errf short [name])
      else (case hex_error token of Some e \<Rightarrow> Some (Errorw (Sprintf ''%s must be valid hex'' [FText name]) e) | None \<Rightarrow> None))"

definition validateSHA256Token :: "string \<Rightarrow> string \<Rightarrow> go_err option" where
  "validateSHA256Token name value = validateHexToken 64 ''%s must be 64 hex characters'' name value"

definition validateGitCommitToken :: "string \<Rightarrow> string \<Rightarrow> go_err option" where
  "validateGitCommitToken name value = validateHexToken 40 ''%s must be 40 hex characters'' name value"

definition validateGitTagToken :: "string \<Rightarrow> string \<Rightarrow> go_err option" where
  "validateGitTagToken name value =
     (let token = TrimSpace value in
      first_error
        [guard (token = []) (errf ''%s must not be empty'' [name]),
         guard (ContainsAny token [CHR 0x20, CHR 0x09, CHR 0x0D, CHR 0x0A]) (errf ''%s must not contain whitespace'' [name])])"

definition hex_token :: "nat \<Rightarrow> string \<Rightarrow> bool" where
  "hex_token n s \<longleftrightarrow> length (TrimSpace s) = n \<and> list_all is_hex (TrimSpace s)"

lemma validateHexToken_iff: "even n \<Longrightarrow> validateHexToken n short name s = None \<longleftrightarrow> hex_token n s"
  using hex_error_None [of "TrimSpace s"]
  by (cases "hex_error (TrimSpace s)") (auto simp: validateHexToken_def hex_token_def Let_def)

lemma token_iffs:
  "validateSHA256Token name s = None \<longleftrightarrow> hex_token 64 s" "validateGitCommitToken name s = None \<longleftrightarrow> hex_token 40 s"
  by (simp_all add: validateSHA256Token_def validateGitCommitToken_def validateHexToken_iff)

section \<open>The header\<close>

definition shaFields :: "EvidenceBundle \<Rightarrow> (string \<times> string) list" where
  "shaFields e =
     [(''bundle_sha256'', eb_BundleSHA256 e), (''control_binary_sha256'', eb_ControlBinarySHA e),
      (''matrix_sha256'', eb_MatrixSHA256 e), (''profile_sha256'', eb_ProfileSHA256 e),
      (''aggregate_canonical_sha256'', eb_AggregateCanonical e), (''aggregate_verify_sha256'', eb_AggregateVerify e),
      (''aggregate_failure_class_sha256'', eb_AggregateClass e), (''aggregate_exit_code_sha256'', eb_AggregateExitCode e)]"

definition expectedArch :: "Matrix \<Rightarrow> EvidenceValidationOptions \<Rightarrow> string" where
  "expectedArch m opts = (if TrimSpace (vo_Architecture opts) \<noteq> [] then TrimSpace (vo_Architecture opts) else mx_Architecture m)"

definition mismatch :: "string \<Rightarrow> string \<Rightarrow> string \<Rightarrow> go_err option" where
  "mismatch fmt got want = guard (want \<noteq> [] \<and> got \<noteq> want) (errf fmt [got, want])"

definition checkHeader :: "EvidenceBundle \<Rightarrow> Matrix \<Rightarrow> Profile \<Rightarrow> EvidenceValidationOptions \<Rightarrow> go_err option" where
  "checkHeader e m p opts = first_error
     ([guard (eb_SchemaVersion e \<noteq> EvidenceSchemaVersion) (errf ''unsupported schema_version %q'' [eb_SchemaVersion e]),
       guard (eb_ProfileName e \<noteq> pf_Name p)
         (errf ''profile mismatch: evidence=%q profile=%q'' [eb_ProfileName e, pf_Name p])]
    @ map (\<lambda>(name, value). validateSHA256Token name value) (shaFields e)
    @ [validateGitCommitToken ''source_git_commit'' (eb_SourceGitCommit e),
       validateGitTagToken ''source_git_tag'' (eb_SourceGitTag e),
       guard (eb_Architecture e \<noteq> expectedArch m opts)
         (errf ''architecture mismatch: evidence=%q expected=%q'' [eb_Architecture e, expectedArch m opts]),
       mismatch ''bundle_sha256 mismatch: evidence=%q expected=%q'' (eb_BundleSHA256 e) (vo_BundleSHA256 opts),
       mismatch ''control_binary_sha256 mismatch: evidence=%q expected=%q'' (eb_ControlBinarySHA e) (vo_ControlBinarySHA256 opts),
       mismatch ''matrix_sha256 mismatch: evidence=%q expected=%q'' (eb_MatrixSHA256 e) (vo_MatrixSHA256 opts),
       mismatch ''profile_sha256 mismatch: evidence=%q expected=%q'' (eb_ProfileSHA256 e) (vo_ProfileSHA256 opts),
       mismatch ''source_git_commit mismatch: evidence=%q expected=%q'' (eb_SourceGitCommit e)
         (TrimSpace (vo_SourceGitCommit opts)),
       mismatch ''source_git_tag mismatch: evidence=%q expected=%q'' (eb_SourceGitTag e) (TrimSpace (vo_SourceGitTag opts)),
       guard (\<not> eb_HardReleaseGate e) (errf ''evidence must record hard_release_gate=true'' []),
       guard (eb_NodeReplays e = []) (errf ''evidence must include node_replays'' [])])"

section \<open>The runs\<close>

text \<open>The map from identifiers to nodes; a later node replaces an earlier one.\<close>

definition matrixByID :: "Matrix \<Rightarrow> string \<Rightarrow> NodeSpec option" where
  "matrixByID m = fold (\<lambda>node byID. byID(ns_ID node \<mapsto> node)) (mx_Nodes m) (\<lambda>_. None)"

definition errRun :: "string \<Rightarrow> NodeRunEvidence \<Rightarrow> string list \<Rightarrow> go_err" where
  "errRun fmt r args = Errorf (Sprintf fmt ([FText (re_NodeID r), FInt (re_ReplayIndex r)] @ map FText args))"

definition checkRun :: "(string \<Rightarrow> NodeSpec option) \<Rightarrow> NodeRunEvidence \<Rightarrow> go_err option" where
  "checkRun byID r =
     (if re_NodeID r = [] then Some (errf ''node replay has empty node_id'' [])
      else (case byID (re_NodeID r) of
        None \<Rightarrow> Some (errf ''node replay references unknown node_id %q'' [re_NodeID r])
      | Some node \<Rightarrow> first_error
         ([guard (re_Mode r \<noteq> ns_Mode node) (errf ''node %s mode mismatch: got=%q want=%q'' [re_NodeID r, re_Mode r, ns_Mode node]),
           guard (re_Distro r \<noteq> ns_Distro node)
             (errf ''node %s distro mismatch: got=%q want=%q'' [re_NodeID r, re_Distro r, ns_Distro node]),
           guard (re_KernelFamily r \<noteq> ns_KernelFamily node)
             (errf ''node %s kernel_family mismatch: got=%q want=%q'' [re_NodeID r, re_KernelFamily r, ns_KernelFamily node]),
           guard (re_ReplayIndex r < 1) (errf ''node %s replay_index must be >=1'' [re_NodeID r]),
           guard (re_CaseCount r < 1) (errRun ''node %s replay %d must have case_count >=1'' r []),
           guard (\<not> re_Passed r) (errRun ''node %s replay %d is marked failed'' r [])]
        @ map (\<lambda>(name, value). guard (TrimSpace value = []) (errRun ''node %s replay %d missing %s'' r [name]))
            [(''session_id'', re_SessionID r), (''started_at_utc'', re_StartedAtUTC r), (''completed_at_utc'', re_CompletedAtUTC r)]
        @ map (\<lambda>(name, value). validateSHA256Token name value)
            [(''canonical_sha256'', re_CanonicalSHA256 r), (''verify_sha256'', re_VerifySHA256 r),
             (''failure_class_sha256'', re_FailureClassSHA256 r), (''exit_code_sha256'', re_ExitCodeSHA256 r)])))"

text \<open>The loop over \<^verbatim>\<open>e.NodeReplays\<close>, which groups the runs by node.\<close>

fun checkRuns ::
  "(string \<Rightarrow> NodeSpec option) \<Rightarrow> (string \<Rightarrow> NodeRunEvidence list) \<Rightarrow> NodeRunEvidence list
     \<Rightarrow> go_err + (string \<Rightarrow> NodeRunEvidence list)" where
  "checkRuns byID byNode [] = Inr byNode"
| "checkRuns byID byNode (r # rs) = (case checkRun byID r of Some e \<Rightarrow> Inl e
     | None \<Rightarrow> checkRuns byID (byNode(re_NodeID r := byNode (re_NodeID r) @ [r])) rs)"

text \<open>The loop over the runs of one node, with the baseline: the first run of all.\<close>

fun checkDigests :: "NodeRunEvidence option \<Rightarrow> NodeRunEvidence list \<Rightarrow> go_err + NodeRunEvidence option" where
  "checkDigests baseline [] = Inr baseline"
| "checkDigests None (run # runs) = checkDigests (Some run) runs"
| "checkDigests (Some b) (run # runs) = (case first_error
     [guard (re_CanonicalSHA256 run \<noteq> re_CanonicalSHA256 b) (errRun ''canonical digest drift at node %s replay %d'' run []),
      guard (re_VerifySHA256 run \<noteq> re_VerifySHA256 b) (errRun ''verify digest drift at node %s replay %d'' run []),
      guard (re_FailureClassSHA256 run \<noteq> re_FailureClassSHA256 b)
        (errRun ''failure-class digest drift at node %s replay %d'' run []),
      guard (re_ExitCodeSHA256 run \<noteq> re_ExitCodeSHA256 b) (errRun ''exit-code digest drift at node %s replay %d'' run [])] of
       Some e \<Rightarrow> Inl e | None \<Rightarrow> checkDigests (Some b) runs)"

text \<open>What a Go map returns for a key it does not have.\<close>

definition zero_node :: NodeSpec where
  "zero_node = \<lparr>ns_ID = [], ns_Mode = [], ns_Distro = [], ns_KernelFamily = [], ns_Replays = 0,
     ns_Runner = \<lparr>rc_Kind = [], rc_Prepare = [], rc_Replay = [], rc_Cleanup = [], rc_Env = fmempty\<rparr>\<rparr>"

definition at_id :: "(string \<Rightarrow> NodeSpec option) \<Rightarrow> string \<Rightarrow> NodeSpec" where
  "at_id byID i = (case byID i of Some n \<Rightarrow> n | None \<Rightarrow> zero_node)"

fun checkNodes ::
  "(string \<Rightarrow> NodeSpec option) \<Rightarrow> (string \<Rightarrow> NodeRunEvidence list) \<Rightarrow> Profile \<Rightarrow> NodeRunEvidence option \<Rightarrow> string list
     \<Rightarrow> go_err + NodeRunEvidence option" where
  "checkNodes byID byNode p baseline [] = Inr baseline"
| "checkNodes byID byNode p baseline (i # is) =
     (let runs = byNode i; wantReplays = requiredReplayCount (at_id byID i) p in
      if int (length runs) < wantReplays
      then Inl (Errorf (Sprintf ''node %s has %d replays, want at least %d'' [FText i, FInt (int (length runs)), FInt wantReplays]))
      else (case checkDigests baseline runs of Inl e \<Rightarrow> Inl e
        | Inr b \<Rightarrow> (case find (\<lambda>k. k \<notin> re_ReplayIndex ` set runs) [1..wantReplays] of
            Some k \<Rightarrow> Inl (Errorf (Sprintf ''node %s missing replay index %d'' [FText i, FInt k]))
          | None \<Rightarrow> checkNodes byID byNode p b is)))"

definition checkAggregates :: "EvidenceBundle \<Rightarrow> NodeRunEvidence option \<Rightarrow> go_err option" where
  "checkAggregates e baseline = (case baseline of None \<Rightarrow> Some (errf ''no baseline replay digest found'' [])
   | Some b \<Rightarrow> first_error
       [guard (eb_AggregateCanonical e \<noteq> re_CanonicalSHA256 b) (errf ''aggregate canonical digest mismatch'' []),
        guard (eb_AggregateVerify e \<noteq> re_VerifySHA256 b) (errf ''aggregate verify digest mismatch'' []),
        guard (eb_AggregateClass e \<noteq> re_FailureClassSHA256 b) (errf ''aggregate failure-class digest mismatch'' []),
        guard (eb_AggregateExitCode e \<noteq> re_ExitCodeSHA256 b) (errf ''aggregate exit-code digest mismatch'' [])])"

definition ValidateEvidenceBundle ::
  "EvidenceBundle option \<Rightarrow> Matrix option \<Rightarrow> Profile option \<Rightarrow> EvidenceValidationOptions \<Rightarrow> go_err option" where
  "ValidateEvidenceBundle eo mo po opts = (case eo of None \<Rightarrow> Some (errf ''evidence bundle is nil'' [])
   | Some e \<Rightarrow> (case (mo, po) of
      (Some m, Some p) \<Rightarrow>
        (case checkHeader e m p opts of Some x \<Rightarrow> Some x
         | None \<Rightarrow> (case requiredNodeIDs m p of Inl x \<Rightarrow> Some x
           | Inr requiredNodes \<Rightarrow>
             (case checkRuns (matrixByID m) (\<lambda>_. []) (eb_NodeReplays e) of Inl x \<Rightarrow> Some x
              | Inr byNode \<Rightarrow> (case checkNodes (matrixByID m) byNode p None requiredNodes of Inl x \<Rightarrow> Some x
                | Inr baseline \<Rightarrow> first_error
                    [checkAggregates e baseline,
                     guard (Join (sort (eb_RequiredSuites e)) '','' \<noteq> Join (sort (pf_RequiredSuites p)) '','')
                       (errf ''required_suites mismatch'' [])]))))
    | _ \<Rightarrow> Some (errf ''matrix and profile are required'' [])))"

section \<open>What the checks accept\<close>

text \<open>The four digests of a run and those of the bundle.\<close>

definition run_digests :: "NodeRunEvidence \<Rightarrow> string list" where
  "run_digests r = [re_CanonicalSHA256 r, re_VerifySHA256 r, re_FailureClassSHA256 r, re_ExitCodeSHA256 r]"

definition aggregates :: "EvidenceBundle \<Rightarrow> string list" where
  "aggregates e = [eb_AggregateCanonical e, eb_AggregateVerify e, eb_AggregateClass e, eb_AggregateExitCode e]"

definition run_ok :: "Matrix \<Rightarrow> NodeRunEvidence \<Rightarrow> bool" where
  "run_ok m r \<longleftrightarrow> re_NodeID r \<noteq> [] \<and> (\<exists>n\<in>set (mx_Nodes m). ns_ID n = re_NodeID r \<and> ns_Mode n = re_Mode r
       \<and> ns_Distro n = re_Distro r \<and> ns_KernelFamily n = re_KernelFamily r)
     \<and> 1 \<le> re_ReplayIndex r \<and> 1 \<le> re_CaseCount r \<and> re_Passed r
     \<and> TrimSpace (re_SessionID r) \<noteq> [] \<and> TrimSpace (re_StartedAtUTC r) \<noteq> [] \<and> TrimSpace (re_CompletedAtUTC r) \<noteq> []
     \<and> list_all (hex_token 64) (run_digests r)"

lemma matrixByID_iff:
  assumes "distinct (map ns_ID (mx_Nodes m))"
  shows "matrixByID m i = Some n \<longleftrightarrow> n \<in> set (mx_Nodes m) \<and> ns_ID n = i"
proof -
  have "distinct (map ns_ID ns) \<Longrightarrow> ns_ID ` set ns \<inter> dom f = {} \<Longrightarrow>
      fold (\<lambda>node byID. byID(ns_ID node \<mapsto> node)) ns f i = Some n \<longleftrightarrow> (n \<in> set ns \<and> ns_ID n = i) \<or> f i = Some n" for ns f
  proof (induction ns arbitrary: f)
    case (Cons a ns)
    have "ns_ID ` set ns \<inter> dom (f(ns_ID a \<mapsto> a)) = {}" using Cons.prems by auto
    from Cons.IH [OF _ this] Cons.prems show ?case by auto
  qed simp
  from this [of "mx_Nodes m" "\<lambda>_. None"] assms show ?thesis by (simp add: matrixByID_def)
qed

lemma checkRun_iff:
  assumes "distinct (map ns_ID (mx_Nodes m))"
  shows "checkRun (matrixByID m) r = None \<longleftrightarrow> run_ok m r"
proof (cases "matrixByID m (re_NodeID r)")
  case None
  then have "\<not> (n \<in> set (mx_Nodes m) \<and> ns_ID n = re_NodeID r)" for n
    using matrixByID_iff [OF assms, of "re_NodeID r" n] by simp
  with None show ?thesis by (auto simp: checkRun_def run_ok_def)
next
  case (Some n)
  then have n: "n \<in> set (mx_Nodes m)" "ns_ID n = re_NodeID r" using matrixByID_iff [OF assms] by auto
  have "n' = n" if "n' \<in> set (mx_Nodes m)" "ns_ID n' = re_NodeID r" for n'
    using that n matrixByID_iff [OF assms, of "re_NodeID r"] Some by (metis option.inject)
  then have E: "(\<exists>k\<in>set (mx_Nodes m). ns_ID k = re_NodeID r \<and> ns_Mode k = re_Mode r \<and> ns_Distro k = re_Distro r
      \<and> ns_KernelFamily k = re_KernelFamily r)
    \<longleftrightarrow> re_Mode r = ns_Mode n \<and> re_Distro r = ns_Distro n \<and> re_KernelFamily r = ns_KernelFamily n"
    using n by metis
  have "checkRun (matrixByID m) r = None \<longleftrightarrow> re_NodeID r \<noteq> []
      \<and> (re_Mode r = ns_Mode n \<and> re_Distro r = ns_Distro n \<and> re_KernelFamily r = ns_KernelFamily n)
      \<and> 1 \<le> re_ReplayIndex r \<and> 1 \<le> re_CaseCount r \<and> re_Passed r
      \<and> TrimSpace (re_SessionID r) \<noteq> [] \<and> TrimSpace (re_StartedAtUTC r) \<noteq> [] \<and> TrimSpace (re_CompletedAtUTC r) \<noteq> []
      \<and> list_all (hex_token 64) (run_digests r)"
    by (simp add: checkRun_def Some run_digests_def token_iffs not_less)
  then show ?thesis unfolding run_ok_def E .
qed

section \<open>The loops in closed form\<close>

lemma checkRuns_iff:
  "checkRuns byID f rs = Inr g \<longleftrightarrow> (\<forall>r\<in>set rs. checkRun byID r = None) \<and> g = (\<lambda>i. f i @ filter (\<lambda>r. re_NodeID r = i) rs)"
proof (induction rs arbitrary: f)
  case (Cons r rs)
  have "(\<lambda>i. (f(re_NodeID r := f (re_NodeID r) @ [r])) i @ filter (\<lambda>r. re_NodeID r = i) rs)
      = (\<lambda>i. f i @ filter (\<lambda>r. re_NodeID r = i) (r # rs))"
    by auto
  with Cons.IH show ?case by (cases "checkRun byID r") auto
qed auto

lemma checkDigests_Some:
  "checkDigests (Some b) runs = Inr c \<longleftrightarrow> c = Some b \<and> (\<forall>r\<in>set runs. run_digests r = run_digests b)"
proof (induction runs)
  case (Cons r runs)
  show ?case
  proof (cases "run_digests r = run_digests b")
    case True
    then have "checkDigests (Some b) (r # runs) = checkDigests (Some b) runs"
      by (simp add: run_digests_def guard_def)
    with Cons.IH True show ?thesis by simp
  next
    case False
    then have "\<exists>e. checkDigests (Some b) (r # runs) = Inl e"
      by (auto simp: run_digests_def guard_def split: option.split)
    with False show ?thesis by auto
  qed
qed auto

lemma checkDigests_None:
  "checkDigests None runs = Inr c \<longleftrightarrow> (case runs of [] \<Rightarrow> c = None
     | b # rs \<Rightarrow> c = Some b \<and> (\<forall>r\<in>set rs. run_digests r = run_digests b))"
  by (cases runs) (auto simp: checkDigests_Some)

lemma checkDigests_append:
  "checkDigests b (xs @ ys) = (case checkDigests b xs of Inl e \<Rightarrow> Inl e | Inr c \<Rightarrow> checkDigests c ys)"
  by (induction b xs rule: checkDigests.induct) (auto split: option.split)

text \<open>The part of the check of a node that does not depend on the baseline.\<close>

definition replays_ok :: "NodeRunEvidence list \<Rightarrow> int \<Rightarrow> bool" where
  "replays_ok runs want \<longleftrightarrow> (\<forall>k\<in>{1..want}. \<exists>r\<in>set runs. re_ReplayIndex r = k)"

lemma replays_enough: "replays_ok runs want \<Longrightarrow> want \<le> int (length runs)"
proof -
  assume a: "replays_ok runs want"
  then have "{1..want} \<subseteq> re_ReplayIndex ` set runs" by (auto simp: replays_ok_def image_iff)
  then have "card {1..want} \<le> card (re_ReplayIndex ` set runs)" by (intro card_mono) auto
  also have "\<dots> \<le> card (set runs)" by (rule card_image_le) simp
  also have "\<dots> \<le> length runs" by (rule card_length)
  finally show ?thesis by simp
qed

lemma replays_find: "find (\<lambda>k. k \<notin> re_ReplayIndex ` set runs) [1..want] = None \<longleftrightarrow> replays_ok runs want"
  unfolding find_None_iff replays_ok_def image_iff set_upto by metis

lemma checkNodes_iff:
  "checkNodes byID byNode p b is = Inr c \<longleftrightarrow>
     (\<forall>i\<in>set is. replays_ok (byNode i) (requiredReplayCount (at_id byID i) p))
     \<and> checkDigests b (concat (map byNode is)) = Inr c"
proof (induction "is" arbitrary: b)
  case (Cons i "is")
  let ?w = "requiredReplayCount (at_id byID i) p"
  show ?case
  proof (cases "replays_ok (byNode i) ?w")
    case True
    then have "\<not> int (length (byNode i)) < ?w" using replays_enough by fastforce
    with True Cons.IH replays_find [of "byNode i" ?w] show ?thesis
      by (cases "checkDigests b (byNode i)") (simp_all add: Let_def checkDigests_append)
  next
    case False
    then obtain k where "find (\<lambda>k. k \<notin> re_ReplayIndex ` set (byNode i)) [1..?w] = Some k"
      using replays_find [of "byNode i" ?w] by auto
    with False show ?thesis by (auto simp: Let_def split: sum.splits)
  qed
qed simp

lemma checkAggregates_iff: "checkAggregates e b = None \<longleftrightarrow> (\<exists>r. b = Some r \<and> aggregates e = run_digests r)"
  by (auto simp: checkAggregates_def aggregates_def run_digests_def split: option.split)

lemma digests_agree:
  "(\<exists>c. checkDigests None runs = Inr c \<and> checkAggregates e c = None) \<longleftrightarrow>
     runs \<noteq> [] \<and> (\<forall>r\<in>set runs. run_digests r = aggregates e)"
  by (cases runs) (auto simp: checkDigests_Some checkAggregates_iff)

end
