(* ===== verification/Go_Path.thy ===== *)
theory Go_Path
  imports Go_Strings
begin

text \<open>
  Paths as Go's packages path and path/filepath treat them on Unix: \<^verbatim>\<open>Clean\<close> and \<^verbatim>\<open>Join\<close>. A path is split at its
  slashes; empty elements and "." disappear, ".." removes the element before it. \<open>resolve\<close> says where a
  path leads when no link is followed, and is the meaning the properties are stated with.
\<close>

fun split_slash :: "string \<Rightarrow> string list" where
  "split_slash [] = [[]]"
| "split_slash (c # s) = (if c = CHR ''/'' then [] # split_slash s
     else (case split_slash s of [] \<Rightarrow> [[c]] | e # es \<Rightarrow> (c # e) # es))"

text \<open>The elements kept so far, last one first.\<close>

fun clean_elems :: "bool \<Rightarrow> string list \<Rightarrow> string list \<Rightarrow> string list" where
  "clean_elems rooted acc [] = rev acc"
| "clean_elems rooted acc (e # es) =
     (if e = [] \<or> e = ''.'' then clean_elems rooted acc es
      else if e = ''..'' then
        (if acc \<noteq> [] \<and> hd acc \<noteq> ''..'' then clean_elems rooted (tl acc) es
         else if rooted then clean_elems rooted acc es
         else clean_elems rooted (e # acc) es)
      else clean_elems rooted (e # acc) es)"

definition path_Clean :: "string \<Rightarrow> string" where
  "path_Clean s =
     (let rooted = (s \<noteq> [] \<and> hd s = CHR ''/'');
          r = (if rooted then ''/'' else []) @ Join (clean_elems rooted [] (split_slash s)) ''/''
      in if r = [] then ''.'' else r)"

definition filepath_Join :: "string list \<Rightarrow> string" where
  "filepath_Join es = (case dropWhile (\<lambda>e. e = []) es of [] \<Rightarrow> [] | fs \<Rightarrow> path_Clean (Join fs ''/''))"

text \<open>
  An element of a cleaned path is not empty, not "." and has no slash. ".." occurs only at the front of a
  relative path.
\<close>

definition plain :: "string \<Rightarrow> bool" where
  "plain e \<longleftrightarrow> e \<noteq> [] \<and> e \<noteq> ''.'' \<and> e \<noteq> ''..'' \<and> CHR ''/'' \<notin> set e"

lemma split_slash_elems: "e \<in> set (split_slash s) \<Longrightarrow> CHR ''/'' \<notin> set e"
  by (induction s arbitrary: e) (auto split: if_splits list.splits)

lemma clean_elems_form:
  assumes "\<exists>k xs. acc = rev (replicate k ''..'' @ xs) \<and> list_all plain xs \<and> (rooted \<longrightarrow> k = 0)"
    "\<forall>e\<in>set es. CHR ''/'' \<notin> set e"
  shows "\<exists>k xs. clean_elems rooted acc es = replicate k ''..'' @ xs \<and> list_all plain xs \<and> (rooted \<longrightarrow> k = 0)"
  using assms
proof (induction es arbitrary: acc)
  case Nil
  then show ?case by (metis clean_elems.simps(1) rev_rev_ident)
next
  case (Cons e es)
  from Cons.prems(1) obtain k xs where acc: "acc = rev (replicate k ''..'' @ xs)" "list_all plain xs" "rooted \<longrightarrow> k = 0"
    by blast
  have es: "\<forall>e\<in>set es. CHR ''/'' \<notin> set e" using Cons.prems(2) by simp
  consider "e = [] \<or> e = ''.''" | "e = ''..''" "xs \<noteq> []" | "e = ''..''" "xs = []" | "plain e"
    using Cons.prems(2) by (auto simp: plain_def)
  then show ?case
  proof cases
    case 1
    then show ?thesis using Cons.IH [OF Cons.prems(1) es] by auto
  next
    case 2
    then have h: "hd acc = last xs" "tl acc = rev (replicate k ''..'' @ butlast xs)"
      using acc(1) by (auto simp: hd_rev butlast_append simp flip: butlast_rev)
        (metis append_butlast_last_id rev.simps(2) rev_append rev_rev_ident list.sel(3) rev_eq_Cons_iff)
    moreover have "plain (last xs)" "list_all plain (butlast xs)"
      using 2 acc(2) by (auto simp: list_all_iff dest: in_set_butlastD)
    ultimately have "clean_elems rooted acc (e # es) = clean_elems rooted (tl acc) es"
      using 2 acc(1) by (auto simp: plain_def)
    moreover from Cons.IH [of "tl acc", OF _ es] h(2) \<open>list_all plain (butlast xs)\<close> acc(3)
    have "\<exists>k xs. clean_elems rooted (tl acc) es = replicate k ''..'' @ xs \<and> list_all plain xs \<and> (rooted \<longrightarrow> k = 0)"
      by metis
    ultimately show ?thesis by simp
  next
    case 3
    have d: "acc = replicate k ''..''" using acc(1) 3 by simp
    show ?thesis
    proof (cases rooted)
      case True
      then have "acc = []" using d acc(3) by simp
      with True 3 Cons.IH [OF Cons.prems(1) es] show ?thesis by simp
    next
      case False
      have "clean_elems rooted acc (e # es) = clean_elems rooted (''..'' # acc) es"
        using False 3 d by (cases k) auto
      moreover have "''..'' # acc = rev (replicate (Suc k) ''..'' @ [])" using d by (simp add: replicate_append_same)
      ultimately show ?thesis using Cons.IH [of "''..'' # acc", OF _ es] False by (metis list.pred_inject(1))
    qed
  next
    case 4
    then have "clean_elems rooted acc (e # es) = clean_elems rooted (e # acc) es" by (auto simp: plain_def)
    moreover have "e # acc = rev (replicate k ''..'' @ (xs @ [e]))" "list_all plain (xs @ [e])" using acc 4 by auto
    ultimately show ?thesis using Cons.IH [of "e # acc", OF _ es] acc(3) by metis
  qed
qed

text \<open>The guard of the archive reader: a cleaned relative path that does not climb.\<close>

definition confined :: "string \<Rightarrow> bool" where
  "confined p \<longleftrightarrow> (\<exists>es. es \<noteq> [] \<and> list_all plain es \<and> p = Join es ''/'')"

lemma Join_slash: "Join (e # es) sep = e @ (if es = [] then [] else sep @ Join es sep)"
  by (cases es) auto

lemma path_Clean_cases:
  "path_Clean s = ''.'' \<or> HasPrefix (path_Clean s) ''/'' \<or> path_Clean s = ''..'' \<or> HasPrefix (path_Clean s) ''../''
     \<or> confined (path_Clean s)"
proof (cases "s \<noteq> [] \<and> hd s = CHR ''/''")
  case True
  then show ?thesis by (auto simp: path_Clean_def HasPrefix_iff Let_def)
next
  case False
  let ?cs = "clean_elems False [] (split_slash s)"
  have "\<exists>k xs. ?cs = replicate k ''..'' @ xs \<and> list_all plain xs \<and> (False \<longrightarrow> k = 0)"
    using split_slash_elems by (intro clean_elems_form) (auto intro: exI [of _ 0])
  then obtain k xs where cs: "?cs = replicate k ''..'' @ xs" "list_all plain xs" by blast
  have c: "path_Clean s = (let r = Join ?cs ''/'' in if r = [] then ''.'' else r)"
    using False by (auto simp: path_Clean_def Let_def)
  show ?thesis
  proof (cases k)
    case 0
    show ?thesis
    proof (cases "xs = []")
      case True
      with 0 c cs show ?thesis by (simp add: Let_def)
    next
      case False
      then have "Join xs ''/'' \<noteq> []" using cs(2) by (cases xs) (auto simp: Join_slash plain_def)
      with 0 c cs False show ?thesis by (auto simp: confined_def Let_def)
    qed
  next
    case (Suc j)
    then have "?cs = ''..'' # replicate j ''..'' @ xs" using cs by simp
    with c show ?thesis by (auto simp: Join_slash Let_def HasPrefix_iff)
  qed
qed

lemma dotdot_confined: "\<not> confined ''..'' \<and> \<not> confined ''.''"
proof -
  have "\<not> (es \<noteq> [] \<and> list_all plain es \<and> t = Join es ''/'')" if t: "t = ''..'' \<or> t = ''.''" for es t
  proof
    assume a: "es \<noteq> [] \<and> list_all plain es \<and> t = Join es ''/''"
    then obtain e fs where es: "es = e # fs" by (cases es) auto
    have "CHR ''/'' \<notin> set t" using t by auto
    then have "fs = []" using a es by (auto simp: Join_slash split: if_splits)
    with a es t show False by (auto simp: plain_def)
  qed
  then show ?thesis by (auto simp: confined_def)
qed

section \<open>Last element and directory\<close>

definition filepath_Base :: "string \<Rightarrow> string" where
  "filepath_Base s =
     (if s = [] then ''.''
      else (let t = rev (dropWhile (\<lambda>c. c = CHR ''/'') (rev s));
                b = rev (takeWhile (\<lambda>c. c \<noteq> CHR ''/'') (rev t))
            in if b = [] then ''/'' else b))"

definition filepath_Dir :: "string \<Rightarrow> string" where
  "filepath_Dir s = path_Clean (rev (dropWhile (\<lambda>c. c \<noteq> CHR ''/'') (rev s)))"

end
