(* ===== verification/Replay_Run.thy ===== *)
theory Replay_Run
  imports Replay_Evidence Go_Path "HOL-Library.Product_Lexorder"
begin

text \<open>
  The replay loop (src/offline/replay/run.go): \<open>RunMatrix\<close> prepares, runs and cleans up every required node as often
  as the profile demands, collects the evidence of the runs and checks the bundle.

  What the adapters and the file system do is a function of the state \<open>'w\<close> of the world, which every call takes
  and returns. The context of the calls only carries a deadline to the child processes and is left out.
  \<^verbatim>\<open>sort.Slice\<close> on node and index is \<open>sort_key\<close>; runs with equal node and index keep their order here, where Go
  may exchange them.
\<close>

record 'w NodeAdapter =
  ad_Prepare :: "NodeSpec \<Rightarrow> string \<Rightarrow> int \<Rightarrow> 'w \<Rightarrow> go_err option \<times> 'w"
  ad_RunReplay :: "NodeSpec \<Rightarrow> string \<Rightarrow> string \<Rightarrow> int \<Rightarrow> 'w \<Rightarrow> go_err option \<times> 'w"
  ad_Cleanup :: "NodeSpec \<Rightarrow> int \<Rightarrow> 'w \<Rightarrow> go_err option \<times> 'w"

type_synonym 'w AdapterFactory = "NodeSpec \<Rightarrow> go_err + 'w NodeAdapter"

record RunOptions =
  ro_BundlePath :: string
  ro_BundleSHA256 :: string
  ro_ControlBinarySHA256 :: string
  ro_MatrixSHA256 :: string
  ro_ProfileSHA256 :: string
  ro_SourceGitCommit :: string
  ro_SourceGitTag :: string
  ro_Orchestrator :: string
  ro_GlobalEnv :: gomap
  ro_Now :: "string option"

text \<open>The file system and the clock. A time is its text in the format RFC 3339.\<close>

record 'w replay_env =
  wallClockNow :: string
  MkdirTemp :: "'w \<Rightarrow> (go_err + string) \<times> 'w"
  RemoveAll :: "string \<Rightarrow> 'w \<Rightarrow> 'w"
  readFile :: "string \<Rightarrow> 'w \<Rightarrow> go_err + bytes"
  decodeRun :: "bytes \<Rightarrow> go_err + NodeRunEvidence"

definition LoadNodeRunEvidence :: "('w, 'x) replay_env_scheme \<Rightarrow> string \<Rightarrow> 'w \<Rightarrow> go_err + NodeRunEvidence" where
  "LoadNodeRunEvidence E path w = (case readFile E path w of
     Inl e \<Rightarrow> Inl (Errorw (Msg ''read node evidence'') e)
   | Inr text \<Rightarrow> (case decodeRun E text of Inl e \<Rightarrow> Inl (Errorw (Msg ''decode node evidence'') e) | Inr r \<Rightarrow> Inr r))"

text \<open>\<^verbatim>\<open>%03d\<close> for a number that is not negative.\<close>

definition pad3 :: "int \<Rightarrow> string" where
  "pad3 k = (let s = Itoa k in replicate (3 - length s) CHR ''0'' @ s)"

definition evidencePath :: "string \<Rightarrow> string \<Rightarrow> int \<Rightarrow> string" where
  "evidencePath tmpRoot nodeID k = filepath_Join [tmpRoot, nodeID @ ''-replay-'' @ pad3 k @ ''.json'']"

definition errLane :: "string \<Rightarrow> NodeSpec \<Rightarrow> int \<Rightarrow> go_err \<Rightarrow> go_err" where
  "errLane fmt node k e = Errorw (Sprintf fmt [FText (ns_ID node), FInt k]) e"

text \<open>One replay: the body of the inner loop.\<close>

definition runReplay ::
  "('w, 'x) replay_env_scheme \<Rightarrow> ('w, 'y) NodeAdapter_scheme \<Rightarrow> string \<Rightarrow> string \<Rightarrow> NodeSpec \<Rightarrow> int \<Rightarrow> 'w
     \<Rightarrow> (go_err + NodeRunEvidence) \<times> 'w" where
  "runReplay E adapter bundlePath tmpRoot node k w =
     (case ad_Prepare adapter node bundlePath k w of
        (Some e, w1) \<Rightarrow> (Inl (errLane ''node %s replay %d prepare'' node k e), w1)
      | (None, w1) \<Rightarrow>
        (let path = evidencePath tmpRoot (ns_ID node) k in
         case ad_RunReplay adapter node bundlePath path k w1 of (runErr, w2) \<Rightarrow>
         case ad_Cleanup adapter node k w2 of (cleanupErr, w3) \<Rightarrow>
         case runErr of Some e \<Rightarrow> (Inl (errLane ''node %s replay %d run'' node k e), w3)
         | None \<Rightarrow> (case cleanupErr of Some e \<Rightarrow> (Inl (errLane ''node %s replay %d cleanup'' node k e), w3)
           | None \<Rightarrow> (case LoadNodeRunEvidence E path w3 of
               Inl e \<Rightarrow> (Inl (errLane ''node %s replay %d load evidence'' node k e), w3)
             | Inr r \<Rightarrow> (Inr r, w3)))))"

fun runReplays ::
  "('w, 'x) replay_env_scheme \<Rightarrow> ('w, 'y) NodeAdapter_scheme \<Rightarrow> string \<Rightarrow> string \<Rightarrow> NodeSpec \<Rightarrow> int list
     \<Rightarrow> NodeRunEvidence list \<Rightarrow> 'w \<Rightarrow> (go_err + NodeRunEvidence list) \<times> 'w" where
  "runReplays E adapter bundlePath tmpRoot node [] acc w = (Inr acc, w)"
| "runReplays E adapter bundlePath tmpRoot node (k # ks) acc w =
     (case runReplay E adapter bundlePath tmpRoot node k w of
        (Inl e, w') \<Rightarrow> (Inl e, w')
      | (Inr r, w') \<Rightarrow> runReplays E adapter bundlePath tmpRoot node ks (acc @ [r]) w')"

text \<open>The node of an identifier, with the global variables over its own.\<close>

definition laneNode :: "Matrix \<Rightarrow> gomap \<Rightarrow> string \<Rightarrow> NodeSpec" where
  "laneNode m globalEnv i =
     (let node = at_id (matrixByID m) i in
      if globalEnv \<noteq> fmempty
      then node\<lparr>ns_Runner := (ns_Runner node)\<lparr>rc_Env := fmadd (rc_Env (ns_Runner node)) globalEnv\<rparr>\<rparr>
      else node)"

fun runNodes ::
  "('w, 'x) replay_env_scheme \<Rightarrow> Matrix \<Rightarrow> Profile \<Rightarrow> 'w AdapterFactory \<Rightarrow> string \<Rightarrow> gomap \<Rightarrow> string \<Rightarrow> string list
     \<Rightarrow> NodeRunEvidence list \<Rightarrow> 'w \<Rightarrow> (go_err + NodeRunEvidence list) \<times> 'w" where
  "runNodes E m p factory bundlePath globalEnv tmpRoot [] acc w = (Inr acc, w)"
| "runNodes E m p factory bundlePath globalEnv tmpRoot (i # is) acc w =
     (let node = laneNode m globalEnv i in
      case factory node of
        Inl e \<Rightarrow> (Inl (Errorw (Sprintf ''node %s adapter'' [FText (ns_ID node)]) e), w)
      | Inr adapter \<Rightarrow>
        (case runReplays E adapter bundlePath tmpRoot node [1..requiredReplayCount node p] acc w of
           (Inl e, w') \<Rightarrow> (Inl e, w')
         | (Inr acc', w') \<Rightarrow> runNodes E m p factory bundlePath globalEnv tmpRoot is acc' w'))"

definition untagged_commit :: string where
  "untagged_commit = replicate 40 CHR ''0''"

definition sourceCommit :: "RunOptions \<Rightarrow> string" where
  "sourceCommit opts = (let c = TrimSpace (ro_SourceGitCommit opts) in if c = [] then untagged_commit else c)"

definition sourceTag :: "RunOptions \<Rightarrow> string" where
  "sourceTag opts = (let t = TrimSpace (ro_SourceGitTag opts) in if t = [] then ''untagged'' else t)"

definition newBundle :: "('w, 'x) replay_env_scheme \<Rightarrow> Matrix \<Rightarrow> Profile \<Rightarrow> RunOptions \<Rightarrow> EvidenceBundle" where
  "newBundle E m p opts =
     \<lparr>eb_SchemaVersion = EvidenceSchemaVersion, eb_BundleSHA256 = ro_BundleSHA256 opts,
      eb_ControlBinarySHA = ro_ControlBinarySHA256 opts, eb_MatrixSHA256 = ro_MatrixSHA256 opts,
      eb_ProfileSHA256 = ro_ProfileSHA256 opts, eb_SourceGitCommit = sourceCommit opts, eb_SourceGitTag = sourceTag opts,
      eb_GeneratedAtUTC = (case ro_Now opts of None \<Rightarrow> wallClockNow E | Some t \<Rightarrow> t),
      eb_Orchestrator = (if ro_Orchestrator opts = [] then ''jcs-offline-replay'' else ro_Orchestrator opts),
      eb_ProfileName = pf_Name p, eb_Architecture = mx_Architecture m, eb_RequiredSuites = pf_RequiredSuites p,
      eb_HardReleaseGate = pf_HardReleaseGate p, eb_NodeReplays = [], eb_AggregateCanonical = [], eb_AggregateVerify = [],
      eb_AggregateClass = [], eb_AggregateExitCode = []\<rparr>"

definition sortReplays :: "NodeRunEvidence list \<Rightarrow> NodeRunEvidence list" where
  "sortReplays = sort_key (\<lambda>r. (re_NodeID r, re_ReplayIndex r))"

definition runExpectations :: "Matrix \<Rightarrow> RunOptions \<Rightarrow> EvidenceValidationOptions" where
  "runExpectations m opts =
     \<lparr>vo_BundleSHA256 = ro_BundleSHA256 opts, vo_ControlBinarySHA256 = ro_ControlBinarySHA256 opts,
      vo_MatrixSHA256 = ro_MatrixSHA256 opts, vo_ProfileSHA256 = ro_ProfileSHA256 opts, vo_Architecture = mx_Architecture m,
      vo_SourceGitCommit = sourceCommit opts, vo_SourceGitTag = sourceTag opts\<rparr>"

text \<open>What happens to the collected runs: order, aggregates, check.\<close>

definition finishBundle :: "EvidenceBundle \<Rightarrow> Matrix \<Rightarrow> Profile \<Rightarrow> RunOptions \<Rightarrow> NodeRunEvidence list \<Rightarrow> go_err + EvidenceBundle" where
  "finishBundle bundle m p opts runs = (case sortReplays runs of
     [] \<Rightarrow> Inl (errf ''matrix execution produced no replay evidence'' [])
   | base # others \<Rightarrow>
       (let b = bundle\<lparr>eb_NodeReplays := base # others, eb_AggregateCanonical := re_CanonicalSHA256 base,
              eb_AggregateVerify := re_VerifySHA256 base, eb_AggregateClass := re_FailureClassSHA256 base,
              eb_AggregateExitCode := re_ExitCodeSHA256 base\<rparr>
        in case ValidateEvidenceBundle (Some b) (Some m) (Some p) (runExpectations m opts) of
             Some e \<Rightarrow> Inl e | None \<Rightarrow> Inr b))"

definition RunMatrix ::
  "('w, 'x) replay_env_scheme \<Rightarrow> Matrix option \<Rightarrow> Profile option \<Rightarrow> 'w AdapterFactory option \<Rightarrow> RunOptions \<Rightarrow> 'w
     \<Rightarrow> (go_err + EvidenceBundle) \<times> 'w" where
  "RunMatrix E mo po fo opts w = (case (mo, po) of
     (Some m, Some p) \<Rightarrow>
       (case ValidateMatrix mo of Some e \<Rightarrow> (Inl e, w)
        | None \<Rightarrow> (case ValidateProfile po of Some e \<Rightarrow> (Inl e, w)
          | None \<Rightarrow> (case fo of None \<Rightarrow> (Inl (errf ''adapter factory is required'' []), w)
            | Some factory \<Rightarrow> (case requiredNodeIDs m p of Inl e \<Rightarrow> (Inl e, w)
              | Inr requiredNodes \<Rightarrow> (case MkdirTemp E w of
                  (Inl e, w1) \<Rightarrow> (Inl (Errorw (Msg ''create temp dir'') e), w1)
                | (Inr tmpRoot, w1) \<Rightarrow>
                  (case runNodes E m p factory (ro_BundlePath opts) (ro_GlobalEnv opts) tmpRoot requiredNodes [] w1 of
                     (Inl e, w2) \<Rightarrow> (Inl e, RemoveAll E tmpRoot w2)
                   | (Inr runs, w2) \<Rightarrow> (finishBundle (newBundle E m p opts) m p opts runs, RemoveAll E tmpRoot w2)))))))
   | _ \<Rightarrow> (Inl (errf ''matrix and profile are required'' []), w))"

end
