(* ===== verification/Runtime.thy ===== *)
theory Runtime
  imports Replay_Run
begin

text \<open>
  The runtimes of the replay: executil runs a command on the host with merged environment variables
  (src/offline/runtime/executil/executil.go); the adapters for containers and for virtual machines turn a step of
  the replay into a command (src/offline/runtime/container/runner.go, src/offline/runtime/libvirt/runner.go); the factory
  picks one by the mode of the node (\<^verbatim>\<open>adapterFactory\<close> in src/cmd/jcs-offline-replay/main.go).

  Starting a process is the parameter \<open>Exec\<close>: it takes the arguments, the environment as a list of
  assignments, and gives the error and the combined output.
\<close>

section \<open>Commands\<close>

record 'w CommandRunner =
  Run :: "string list \<Rightarrow> gomap \<Rightarrow> 'w \<Rightarrow> (string \<times> go_err option) \<times> 'w"

record 'w host =
  Environ :: "'w \<Rightarrow> string list"
  Exec :: "string list \<Rightarrow> string list \<Rightarrow> 'w \<Rightarrow> (string \<times> go_err option) \<times> 'w"

definition sortedKeys :: "gomap \<Rightarrow> string list" where
  "sortedKeys env = sorted_list_of_fset (fmdom env)"

definition assignment :: "gomap \<Rightarrow> string \<Rightarrow> string" where
  "assignment env k = k @ ''='' @ (case fmlookup env k of Some v \<Rightarrow> v | None \<Rightarrow> [])"

definition mergedEnviron :: "string list \<Rightarrow> gomap \<Rightarrow> string list" where
  "mergedEnviron inherited env = inherited @ map (assignment env) (sortedKeys env)"

definition OSRunner_Run :: "('w, 'x) host_scheme \<Rightarrow> string list \<Rightarrow> gomap \<Rightarrow> 'w \<Rightarrow> (string \<times> go_err option) \<times> 'w" where
  "OSRunner_Run H argv env w =
     (if argv = [] then (([], Some (errf ''empty argv'' [])), w)
      else (case Exec H argv (mergedEnviron (Environ H w) env) w of
        ((out, None), w') \<Rightarrow> ((out, None), w')
      | ((out, Some e), w') \<Rightarrow>
          (let msg = TrimSpace out in
           if msg \<noteq> [] then ((out, Some (Errorw (Sprintf ''run %q failed: %w: %s'' (map FText (argv @ [msg]))) e)), w')
           else ((out, Some (Errorw (Sprintf ''run %q failed'' (map FText argv)) e)), w'))))"

definition OSRunner :: "('w, 'x) host_scheme \<Rightarrow> 'w CommandRunner" where
  "OSRunner H = \<lparr>Run = OSRunner_Run H\<rparr>"

section \<open>The container adapter\<close>

definition container_commandEnv :: "NodeSpec \<Rightarrow> string \<Rightarrow> string \<Rightarrow> int \<Rightarrow> gomap" where
  "container_commandEnv node bundlePath evPath replayIndex =
     (let env = fmupd ''JCS_REPLAY_INDEX'' (Itoa replayIndex)
          (fmupd ''JCS_NODE_KERNEL_FAMILY'' (ns_KernelFamily node)
            (fmupd ''JCS_NODE_DISTRO'' (ns_Distro node)
              (fmupd ''JCS_NODE_MODE'' (ns_Mode node)
                (fmupd ''JCS_NODE_ID'' (ns_ID node) (rc_Env (ns_Runner node))))));
          env1 = (if bundlePath \<noteq> [] then fmupd ''JCS_BUNDLE_PATH'' bundlePath env else env)
      in if evPath \<noteq> [] then fmupd ''JCS_EVIDENCE_PATH'' evPath env1 else env1)"

definition container_Prepare :: "('w, 'x) CommandRunner_scheme \<Rightarrow> NodeSpec \<Rightarrow> string \<Rightarrow> int \<Rightarrow> 'w \<Rightarrow> go_err option \<times> 'w" where
  "container_Prepare R node bundlePath replayIndex w =
     (if rc_Prepare (ns_Runner node) = [] then (None, w)
      else (case Run R (rc_Prepare (ns_Runner node)) (container_commandEnv node bundlePath [] replayIndex) w of
        ((_, Some e), w') \<Rightarrow> (Some (Errorw (Msg ''container prepare command'') e), w')
      | ((_, None), w') \<Rightarrow> (None, w')))"

definition container_RunReplay ::
  "('w, 'x) CommandRunner_scheme \<Rightarrow> NodeSpec \<Rightarrow> string \<Rightarrow> string \<Rightarrow> int \<Rightarrow> 'w \<Rightarrow> go_err option \<times> 'w" where
  "container_RunReplay R node bundlePath evPath replayIndex w =
     (if rc_Replay (ns_Runner node) = [] then (Some (errf ''container replay command is required'' []), w)
      else (case Run R (rc_Replay (ns_Runner node)) (container_commandEnv node bundlePath evPath replayIndex) w of
        ((_, Some e), w') \<Rightarrow> (Some (Errorw (Msg ''container replay command'') e), w')
      | ((_, None), w') \<Rightarrow> (None, w')))"

definition container_Cleanup :: "('w, 'x) CommandRunner_scheme \<Rightarrow> NodeSpec \<Rightarrow> int \<Rightarrow> 'w \<Rightarrow> go_err option \<times> 'w" where
  "container_Cleanup R node replayIndex w =
     (if rc_Cleanup (ns_Runner node) = [] then (None, w)
      else (case Run R (rc_Cleanup (ns_Runner node)) (container_commandEnv node [] [] replayIndex) w of
        ((_, Some e), w') \<Rightarrow> (Some (Errorw (Msg ''container cleanup command'') e), w')
      | ((_, None), w') \<Rightarrow> (None, w')))"

definition container_Adapter :: "('w, 'x) CommandRunner_scheme \<Rightarrow> 'w NodeAdapter" where
  "container_Adapter R = \<lparr>ad_Prepare = container_Prepare R, ad_RunReplay = container_RunReplay R,
     ad_Cleanup = container_Cleanup R\<rparr>"

text \<open>A nil runner is replaced by the one of the host.\<close>

definition container_NewAdapter :: "('w, 'x) host_scheme \<Rightarrow> 'w CommandRunner option \<Rightarrow> 'w NodeAdapter" where
  "container_NewAdapter H r = container_Adapter (case r of None \<Rightarrow> OSRunner H | Some R \<Rightarrow> R)"

section \<open>The libvirt adapter\<close>

definition libvirt_commandEnv :: "NodeSpec \<Rightarrow> string \<Rightarrow> string \<Rightarrow> int \<Rightarrow> gomap" where
  "libvirt_commandEnv node bundlePath evPath replayIndex =
     (let env = fmupd ''JCS_REPLAY_INDEX'' (Itoa replayIndex)
          (fmupd ''JCS_NODE_KERNEL_FAMILY'' (ns_KernelFamily node)
            (fmupd ''JCS_NODE_DISTRO'' (ns_Distro node)
              (fmupd ''JCS_NODE_MODE'' (ns_Mode node)
                (fmupd ''JCS_NODE_ID'' (ns_ID node) (rc_Env (ns_Runner node))))));
          env1 = (if bundlePath \<noteq> [] then fmupd ''JCS_BUNDLE_PATH'' bundlePath env else env)
      in if evPath \<noteq> [] then fmupd ''JCS_EVIDENCE_PATH'' evPath env1 else env1)"

definition libvirt_Prepare :: "('w, 'x) CommandRunner_scheme \<Rightarrow> NodeSpec \<Rightarrow> string \<Rightarrow> int \<Rightarrow> 'w \<Rightarrow> go_err option \<times> 'w" where
  "libvirt_Prepare R node bundlePath replayIndex w =
     (if rc_Prepare (ns_Runner node) = [] then (None, w)
      else (case Run R (rc_Prepare (ns_Runner node)) (libvirt_commandEnv node bundlePath [] replayIndex) w of
        ((_, Some e), w') \<Rightarrow> (Some (Errorw (Msg ''libvirt prepare command'') e), w')
      | ((_, None), w') \<Rightarrow> (None, w')))"

definition libvirt_RunReplay ::
  "('w, 'x) CommandRunner_scheme \<Rightarrow> NodeSpec \<Rightarrow> string \<Rightarrow> string \<Rightarrow> int \<Rightarrow> 'w \<Rightarrow> go_err option \<times> 'w" where
  "libvirt_RunReplay R node bundlePath evPath replayIndex w =
     (if rc_Replay (ns_Runner node) = [] then (Some (errf ''libvirt replay command is required'' []), w)
      else (case Run R (rc_Replay (ns_Runner node)) (libvirt_commandEnv node bundlePath evPath replayIndex) w of
        ((_, Some e), w') \<Rightarrow> (Some (Errorw (Msg ''libvirt replay command'') e), w')
      | ((_, None), w') \<Rightarrow> (None, w')))"

definition libvirt_Cleanup :: "('w, 'x) CommandRunner_scheme \<Rightarrow> NodeSpec \<Rightarrow> int \<Rightarrow> 'w \<Rightarrow> go_err option \<times> 'w" where
  "libvirt_Cleanup R node replayIndex w =
     (if rc_Cleanup (ns_Runner node) = [] then (None, w)
      else (case Run R (rc_Cleanup (ns_Runner node)) (libvirt_commandEnv node [] [] replayIndex) w of
        ((_, Some e), w') \<Rightarrow> (Some (Errorw (Msg ''libvirt cleanup command'') e), w')
      | ((_, None), w') \<Rightarrow> (None, w')))"

definition libvirt_Adapter :: "('w, 'x) CommandRunner_scheme \<Rightarrow> 'w NodeAdapter" where
  "libvirt_Adapter R = \<lparr>ad_Prepare = libvirt_Prepare R, ad_RunReplay = libvirt_RunReplay R, ad_Cleanup = libvirt_Cleanup R\<rparr>"

definition libvirt_NewAdapter :: "('w, 'x) host_scheme \<Rightarrow> 'w CommandRunner option \<Rightarrow> 'w NodeAdapter" where
  "libvirt_NewAdapter H r = libvirt_Adapter (case r of None \<Rightarrow> OSRunner H | Some R \<Rightarrow> R)"

section \<open>The factory\<close>

definition adapterFactory :: "('w, 'x) host_scheme \<Rightarrow> 'w AdapterFactory" where
  "adapterFactory H node =
     (let baseRunner = OSRunner H; kind = rc_Kind (ns_Runner node) in
      if ns_Mode node = NodeModeContainer then
        (if \<not> HasPrefix kind ''container''
         then Inl (errf ''node %s mode=container requires runner.kind prefix container'' [ns_ID node])
         else Inr (container_NewAdapter H (Some baseRunner)))
      else if ns_Mode node = NodeModeVM then
        (if \<not> HasPrefix kind ''libvirt'' \<and> \<not> HasPrefix kind ''vm''
         then Inl (errf ''node %s mode=vm requires runner.kind prefix libvirt or vm'' [ns_ID node])
         else Inr (libvirt_NewAdapter H (Some baseRunner)))
      else Inl (errf ''node %s unsupported mode %q'' [ns_ID node, ns_Mode node]))"

end
