(* ===== verification/Replay_Bundle.thy ===== *)
theory Replay_Bundle
  imports Replay_Evidence Go_Path
begin

text \<open>
  Bundles (src/offline/replay/bundle.go): the manifest with the digests of all inputs, the creation of a bundle from
  the files, reading the manifest of an archive, and the check of its required fields.

  The world \<open>'w\<close> holds the file system. SHA-256, the JSON coder, and the writers of tar and gzip are library
  code and parameters (\<open>bundle_env\<close>). The deferred \<^verbatim>\<open>Close\<close> calls run on every path and their errors are dropped:
  \<open>be_CloseAll\<close> only returns the new world.
\<close>

record BundleOptions =
  bo_OutputPath :: string
  bo_BinaryPath :: string
  bo_WorkerPath :: string
  bo_MatrixPath :: string
  bo_ProfilePath :: string
  bo_VectorsGlob :: string
  bo_Version :: string

record BundleManifest =
  bm_Version :: string
  bm_CreatedAtUTC :: string
  bm_BinaryPath :: string
  bm_BinarySHA256 :: string
  bm_WorkerPath :: string
  bm_WorkerSHA256 :: string
  bm_MatrixPath :: string
  bm_MatrixSHA256 :: string
  bm_ProfilePath :: string
  bm_ProfileSHA256 :: string
  bm_VectorFiles :: "string list"
  bm_VectorSHA256 :: gomap
  bm_VectorSetSHA256 :: string

record bundleEntry =
  en_path :: string
  en_data :: string
  en_mode :: int

text \<open>The fields of a tar header the code sets or reads; the modification time is in Unix seconds.\<close>

record tar_header =
  th_Name :: string
  th_Regular :: bool
  th_Mode :: int
  th_Size :: int
  th_ModTime :: int
  th_Uid :: int
  th_Gid :: int
  th_Uname :: string
  th_Gname :: string

text \<open>What \<^verbatim>\<open>Next\<close> returns before the end of an archive, and the content that follows a header.\<close>

datatype tar_item = TarEntry tar_header "go_err + string" | TarError go_err

record 'w bundle_env =
  be_now :: string
  be_Sum256 :: "string \<Rightarrow> bytes"
  be_ReadFile :: "string \<Rightarrow> 'w \<Rightarrow> go_err + string"
  be_Glob :: "string \<Rightarrow> 'w \<Rightarrow> go_err + string list"
  be_encode :: "BundleManifest \<Rightarrow> go_err + string"
  be_decode :: "string \<Rightarrow> go_err + BundleManifest"
  be_gunzip :: "string \<Rightarrow> go_err + tar_item list"
  be_Create :: "string \<Rightarrow> 'w \<Rightarrow> go_err option \<times> 'w"
  be_WriteHeader :: "string \<Rightarrow> tar_header \<Rightarrow> 'w \<Rightarrow> go_err option \<times> 'w"
  be_WriteData :: "string \<Rightarrow> string \<Rightarrow> 'w \<Rightarrow> go_err option \<times> 'w"
  be_CloseAll :: "string \<Rightarrow> 'w \<Rightarrow> 'w"

definition bundleManifestPath :: string where "bundleManifestPath = ''manifest.json''"

definition sha256Hex :: "('w, 'x) bundle_env_scheme \<Rightarrow> string \<Rightarrow> string" where
  "sha256Hex E text = hexEncode (be_Sum256 E text)"

section \<open>Writing\<close>

definition tarHeader :: "bundleEntry \<Rightarrow> tar_header" where
  "tarHeader e = \<lparr>th_Name = en_path e, th_Regular = True, th_Mode = en_mode e, th_Size = int (length (en_data e)),
     th_ModTime = 0, th_Uid = 0, th_Gid = 0, th_Uname = ''root'', th_Gname = ''root''\<rparr>"

fun writeEntries :: "('w, 'x) bundle_env_scheme \<Rightarrow> string \<Rightarrow> bundleEntry list \<Rightarrow> 'w \<Rightarrow> go_err option \<times> 'w" where
  "writeEntries E path [] w = (None, w)"
| "writeEntries E path (e # es) w = (case be_WriteHeader E path (tarHeader e) w of
     (Some x, w1) \<Rightarrow> (Some (Errorw (Sprintf ''write tar header for %s'' [FText (en_path e)]) x), w1)
   | (None, w1) \<Rightarrow> (case be_WriteData E path (en_data e) w1 of
       (Some x, w2) \<Rightarrow> (Some (Errorw (Sprintf ''write tar entry %s'' [FText (en_path e)]) x), w2)
     | (None, w2) \<Rightarrow> writeEntries E path es w2))"

definition writeBundleTarGz :: "('w, 'x) bundle_env_scheme \<Rightarrow> string \<Rightarrow> bundleEntry list \<Rightarrow> 'w \<Rightarrow> go_err option \<times> 'w" where
  "writeBundleTarGz E path es w = (case be_Create E path w of
     (Some x, w1) \<Rightarrow> (Some (Errorw (Msg ''create bundle'') x), w1)
   | (None, w1) \<Rightarrow> (case writeEntries E path es w1 of (res, w2) \<Rightarrow> (res, be_CloseAll E path w2)))"

section \<open>Creating a bundle\<close>

definition vectorRel :: "string \<Rightarrow> string" where
  "vectorRel vectorPath = ''bundle/vectors/'' @ filepath_Base vectorPath"

text \<open>The loop over the vector files: the files and digests of the manifest, the input of the set digest, the entries.\<close>

record vector_state =
  vs_files :: "string list"
  vs_digests :: gomap
  vs_input :: "string list"
  vs_entries :: "bundleEntry list"

fun addVectors :: "('w, 'x) bundle_env_scheme \<Rightarrow> 'w \<Rightarrow> string list \<Rightarrow> vector_state \<Rightarrow> go_err + vector_state" where
  "addVectors E w [] s = Inr s"
| "addVectors E w (v # vs) s = (case be_ReadFile E v w of
     Inl e \<Rightarrow> Inl (Errorw (Sprintf ''read vector %s'' [FText v]) e)
   | Inr text \<Rightarrow>
      (let rel = vectorRel v; sum = sha256Hex E text in
       addVectors E w vs \<lparr>vs_files = vs_files s @ [rel], vs_digests = fmupd rel sum (vs_digests s),
         vs_input = vs_input s @ [rel @ '':'' @ sum],
         vs_entries = vs_entries s @ [\<lparr>en_path = rel, en_data = text, en_mode = 0x1A4\<rparr>]\<rparr>))"

definition readNamed :: "('w, 'x) bundle_env_scheme \<Rightarrow> 'w \<Rightarrow> string \<Rightarrow> string \<Rightarrow> go_err + string" where
  "readNamed E w what path = (case be_ReadFile E path w of Inl e \<Rightarrow> Inl (Errorw (Msg (''read '' @ what)) e) | Inr t \<Rightarrow> Inr t)"

text \<open>The four files every bundle has.\<close>

record core_files =
  cf_binary :: string
  cf_worker :: string
  cf_matrix :: string
  cf_profile :: string

definition readCore :: "('w, 'x) bundle_env_scheme \<Rightarrow> BundleOptions \<Rightarrow> 'w \<Rightarrow> go_err + core_files" where
  "readCore E opts w =
     (case readNamed E w ''binary'' (bo_BinaryPath opts) of Inl e \<Rightarrow> Inl e | Inr binary \<Rightarrow>
     (case readNamed E w ''worker'' (bo_WorkerPath opts) of Inl e \<Rightarrow> Inl e | Inr worker \<Rightarrow>
     (case readNamed E w ''matrix'' (bo_MatrixPath opts) of Inl e \<Rightarrow> Inl e | Inr matrix \<Rightarrow>
     (case readNamed E w ''profile'' (bo_ProfilePath opts) of Inl e \<Rightarrow> Inl e | Inr profile \<Rightarrow>
       Inr \<lparr>cf_binary = binary, cf_worker = worker, cf_matrix = matrix, cf_profile = profile\<rparr>))))"

definition coreEntries :: "core_files \<Rightarrow> bundleEntry list" where
  "coreEntries c =
     [\<lparr>en_path = ''bundle/jcs-canon'', en_data = cf_binary c, en_mode = 0x1ED\<rparr>,
      \<lparr>en_path = ''bundle/jcs-offline-worker'', en_data = cf_worker c, en_mode = 0x1ED\<rparr>,
      \<lparr>en_path = ''bundle/matrix.yaml'', en_data = cf_matrix c, en_mode = 0x1A4\<rparr>,
      \<lparr>en_path = ''bundle/profile.yaml'', en_data = cf_profile c, en_mode = 0x1A4\<rparr>]"

definition newManifest :: "('w, 'x) bundle_env_scheme \<Rightarrow> BundleOptions \<Rightarrow> core_files \<Rightarrow> vector_state \<Rightarrow> BundleManifest" where
  "newManifest E opts c s =
     \<lparr>bm_Version = (if bo_Version opts = [] then ''bundle.v1'' else bo_Version opts), bm_CreatedAtUTC = be_now E,
      bm_BinaryPath = ''bundle/jcs-canon'', bm_BinarySHA256 = sha256Hex E (cf_binary c),
      bm_WorkerPath = ''bundle/jcs-offline-worker'', bm_WorkerSHA256 = sha256Hex E (cf_worker c),
      bm_MatrixPath = ''bundle/matrix.yaml'', bm_MatrixSHA256 = sha256Hex E (cf_matrix c),
      bm_ProfilePath = ''bundle/profile.yaml'', bm_ProfileSHA256 = sha256Hex E (cf_profile c),
      bm_VectorFiles = sort (vs_files s), bm_VectorSHA256 = vs_digests s,
      bm_VectorSetSHA256 = sha256Hex E (Join (sort (vs_input s)) [CHR 0x0A])\<rparr>"

definition manifestEntry :: "string \<Rightarrow> bundleEntry" where
  "manifestEntry json = \<lparr>en_path = bundleManifestPath, en_data = json @ [CHR 0x0A], en_mode = 0x1A4\<rparr>"

definition bundleContents ::
  "('w, 'x) bundle_env_scheme \<Rightarrow> BundleOptions \<Rightarrow> 'w \<Rightarrow> go_err + BundleManifest \<times> bundleEntry list" where
  "bundleContents E opts w =
     (let glob = (if bo_VectorsGlob opts = [] then ''conformance/vectors/*.jsonl'' else bo_VectorsGlob opts) in
      case readCore E opts w of Inl e \<Rightarrow> Inl e | Inr c \<Rightarrow>
      (case be_Glob E glob w of Inl e \<Rightarrow> Inl (Errorw (Msg ''glob vectors'') e) | Inr found \<Rightarrow>
       if found = [] then Inl (errf ''no vector files matched %q'' [glob])
       else (case addVectors E w (sort found) \<lparr>vs_files = [], vs_digests = fmempty, vs_input = [], vs_entries = coreEntries c\<rparr> of
           Inl e \<Rightarrow> Inl e
         | Inr s \<Rightarrow> (case be_encode E (newManifest E opts c s) of Inl e \<Rightarrow> Inl (Errorw (Msg ''marshal bundle manifest'') e)
             | Inr json \<Rightarrow> Inr (newManifest E opts c s, sort_key en_path (vs_entries s @ [manifestEntry json]))))))"

definition CreateBundle :: "('w, 'x) bundle_env_scheme \<Rightarrow> BundleOptions \<Rightarrow> 'w \<Rightarrow> (go_err + BundleManifest) \<times> 'w" where
  "CreateBundle E opts w =
     (if bo_OutputPath opts = [] then (Inl (errf ''bundle output path is required'' []), w)
      else if bo_BinaryPath opts = [] \<or> bo_WorkerPath opts = [] \<or> bo_MatrixPath opts = [] \<or> bo_ProfilePath opts = []
      then (Inl (errf ''binary, worker, matrix, and profile paths are required'' []), w)
      else (case bundleContents E opts w of Inl e \<Rightarrow> (Inl e, w)
        | Inr (manifest, es) \<Rightarrow> (case writeBundleTarGz E (bo_OutputPath opts) es w of
            (Some e, w') \<Rightarrow> (Inl e, w') | (None, w') \<Rightarrow> (Inr manifest, w'))))"

section \<open>Reading a bundle\<close>

fun findManifest :: "('w, 'x) bundle_env_scheme \<Rightarrow> tar_item list \<Rightarrow> go_err + BundleManifest" where
  "findManifest E [] = Inl (errf ''bundle manifest entry %q not found'' [bundleManifestPath])"
| "findManifest E (TarError e # items) = Inl (Errorw (Msg ''read bundle tar'') e)"
| "findManifest E (TarEntry h body # items) =
     (if th_Name h \<noteq> bundleManifestPath then findManifest E items
      else (case body of Inl e \<Rightarrow> Inl (Errorw (Msg ''read bundle manifest entry'') e)
        | Inr text \<Rightarrow> (case be_decode E text of Inl e \<Rightarrow> Inl (Errorw (Msg ''decode bundle manifest'') e) | Inr m \<Rightarrow> Inr m)))"

definition ReadBundleManifest :: "('w, 'x) bundle_env_scheme \<Rightarrow> string \<Rightarrow> 'w \<Rightarrow> go_err + BundleManifest" where
  "ReadBundleManifest E bundlePath w = (case be_ReadFile E bundlePath w of
     Inl e \<Rightarrow> Inl (Errorw (Msg ''open bundle'') e)
   | Inr f \<Rightarrow> (case be_gunzip E f of Inl e \<Rightarrow> Inl (Errorw (Msg ''open bundle gzip stream'') e)
     | Inr items \<Rightarrow> findManifest E items))"

definition mapString :: "gomap \<Rightarrow> string \<Rightarrow> string" where
  "mapString m k = (case fmlookup m k of Some v \<Rightarrow> v | None \<Rightarrow> [])"

definition VerifyBundle :: "('w, 'x) bundle_env_scheme \<Rightarrow> string \<Rightarrow> 'w \<Rightarrow> go_err + BundleManifest \<times> string" where
  "VerifyBundle E bundlePath w = (case ReadBundleManifest E bundlePath w of Inl e \<Rightarrow> Inl e
   | Inr m \<Rightarrow> (case be_ReadFile E bundlePath w of Inl e \<Rightarrow> Inl (Errorw (Msg ''read bundle for sha256'') e)
     | Inr b \<Rightarrow>
        if bm_BinarySHA256 m = [] \<or> bm_WorkerSHA256 m = [] \<or> bm_MatrixSHA256 m = [] \<or> bm_ProfileSHA256 m = []
        then Inl (errf ''bundle manifest missing required checksums'' [])
        else if bm_VectorFiles m = [] then Inl (errf ''bundle manifest has no vector files'' [])
        else (case find (\<lambda>p. mapString (bm_VectorSHA256 m) p = []) (bm_VectorFiles m) of
            Some p \<Rightarrow> Inl (errf ''bundle manifest missing vector digest for %s'' [p])
          | None \<Rightarrow> Inr (m, sha256Hex E b))))"

end
