(* ===== verification/Worker.thy ===== *)
theory Worker
  imports Runtime Replay_Bundle Cli
begin

text \<open>
  The worker that runs inside a node (src/cmd/jcs-offline-worker/main.go): it unpacks a bundle, checks its digests,
  runs every test vector through jcs-canon, and writes the evidence of the run.

  The world \<open>'w\<close> holds the file system and the processes; \<open>worker_env\<close> has the calls the worker makes on it.
  SHA-256, the archive reader and the JSON decoders are library code and parameters.
\<close>

section \<open>Data\<close>

record vectorCase =
  vc_ID :: string
  vc_Mode :: string
  vc_Args :: "string list"
  vc_Input :: string
  vc_WantStdout :: "string option"
  vc_WantStderr :: "string option"
  vc_WantStderrContains :: "string option"
  vc_WantExit :: int

record cliResult =
  exitCode :: int
  res_stdout :: string
  res_stderr :: string

record workerArgs =
  wa_bundlePath :: string
  wa_evidencePath :: string
  wa_nodeID :: string
  wa_mode :: string
  wa_distro :: string
  wa_kernelFamily :: string
  wa_replayIndex :: int

datatype process_end = Exited cliResult | NotRun go_err

record 'w worker_env =
  we_startedAt :: string
  we_completedAt :: string
  we_sessionID :: "string \<Rightarrow> string"
  we_Sum256 :: "string \<Rightarrow> bytes"
  we_environ :: "string list"
  we_MkdirTemp :: "'w \<Rightarrow> (go_err + string) \<times> 'w"
  we_RemoveAll :: "string \<Rightarrow> 'w \<Rightarrow> 'w"
  we_readFile :: "string \<Rightarrow> 'w \<Rightarrow> go_err + string"
  we_openLines :: "string \<Rightarrow> 'w \<Rightarrow> go_err + string \<times> go_err option"
  we_gunzip :: "string \<Rightarrow> go_err + tar_item list"
  we_MkdirAll :: "string \<Rightarrow> 'w \<Rightarrow> go_err option \<times> 'w"
  we_Create :: "string \<Rightarrow> int \<Rightarrow> 'w \<Rightarrow> go_err option \<times> 'w"
  we_CopyN :: "string \<Rightarrow> go_err + string \<Rightarrow> int \<Rightarrow> 'w \<Rightarrow> go_err option \<times> 'w"
  we_Close :: "string \<Rightarrow> 'w \<Rightarrow> go_err option \<times> 'w"
  we_encodeRun :: "NodeRunEvidence \<Rightarrow> go_err + string"
  we_WriteFile :: "string \<Rightarrow> string \<Rightarrow> 'w \<Rightarrow> go_err option \<times> 'w"
  we_decodeVector :: "string \<Rightarrow> go_err + vectorCase"
  we_decodeManifest :: "string \<Rightarrow> go_err + BundleManifest"
  we_Start :: "string \<Rightarrow> string list \<Rightarrow> string \<Rightarrow> string list option \<Rightarrow> 'w \<Rightarrow> process_end \<times> 'w"

section \<open>Digests\<close>

text \<open>The four accumulators; each is the text collected so far.\<close>

record digests =
  canonicalAcc :: string
  verifyAcc :: string
  classAcc :: string
  exitAcc :: string

definition Add :: "string \<Rightarrow> string list \<Rightarrow> string" where
  "Add buf parts = buf @ Join parts [CHR 0x1F] @ [CHR 0x0A]"

definition Hex :: "('w, 'x) worker_env_scheme \<Rightarrow> string \<Rightarrow> string" where
  "Hex E buf = hexEncode (we_Sum256 E buf)"

definition failureClasses :: "string list" where
  "failureClasses = [''INVALID_UTF8'', ''INVALID_GRAMMAR'', ''DUPLICATE_KEY'', ''LONE_SURROGATE'', ''NONCHARACTER'',
     ''NUMBER_OVERFLOW'', ''NUMBER_NEGZERO'', ''NUMBER_UNDERFLOW'', ''BOUND_EXCEEDED'', ''NOT_CANONICAL'', ''CLI_USAGE'',
     ''INTERNAL_IO'', ''INTERNAL_ERROR'']"

definition extractFailureClass :: "string \<Rightarrow> string" where
  "extractFailureClass errText = (case find (Contains errText) failureClasses of Some c \<Rightarrow> c | None \<Rightarrow> ''UNKNOWN'')"

definition recordDigests :: "string \<Rightarrow> string \<Rightarrow> cliResult \<Rightarrow> digests \<Rightarrow> digests" where
  "recordDigests vectorID mode res d =
     (let exitStr = Itoa (exitCode res);
          d1 = d\<lparr>exitAcc := Add (exitAcc d) [vectorID, exitStr]\<rparr>;
          d2 = (if mode = ''canonicalize'' then d1\<lparr>canonicalAcc := Add (canonicalAcc d1) [vectorID, res_stdout res]\<rparr> else d1);
          d3 = (if mode = ''verify''
                then d2\<lparr>verifyAcc := Add (verifyAcc d2) [vectorID, exitStr, res_stdout res, res_stderr res]\<rparr> else d2);
          classToken = (if exitCode res \<noteq> 0 then extractFailureClass (res_stderr res) else ''OK'')
      in d3\<lparr>classAcc := Add (classAcc d3) [vectorID, classToken]\<rparr>)"

section \<open>Arguments\<close>

definition splitAssign :: "string \<Rightarrow> string \<times> string" where
  "splitAssign a = (takeWhile (\<lambda>c. c \<noteq> CHR ''='') a, drop 1 (dropWhile (\<lambda>c. c \<noteq> CHR ''='') a))"

fun worker_parseKV :: "(string \<Rightarrow> string option) \<Rightarrow> string list \<Rightarrow> go_err + (string \<Rightarrow> string option)" where
  "worker_parseKV fs [] = Inr fs"
| "worker_parseKV fs (arg # args) =
     (if \<not> HasPrefix arg ''--'' then Inl (errf ''unexpected argument %q'' [arg])
      else if Contains arg ''='' then (case splitAssign arg of (k, v) \<Rightarrow> worker_parseKV (fs(k \<mapsto> v)) args)
      else (case args of [] \<Rightarrow> Inl (errf ''flag %s requires value'' [arg])
        | v # more_args \<Rightarrow> worker_parseKV (fs(arg \<mapsto> v)) more_args))"

text \<open>What a Go map of strings returns, trimmed.\<close>

definition flagValue :: "(string \<Rightarrow> string option) \<Rightarrow> string \<Rightarrow> string" where
  "flagValue fs name = TrimSpace (case fs name of Some v \<Rightarrow> v | None \<Rightarrow> [])"

definition digits_value :: "string \<Rightarrow> int" where
  "digits_value s = foldl (\<lambda>v c. v * 10 + (int (of_char c) - 0x30)) 0 s"

definition is_digit :: "char \<Rightarrow> bool" where
  "is_digit c \<longleftrightarrow> 0x30 \<le> (of_char c :: nat) \<and> (of_char c :: nat) \<le> 0x39"

definition Atoi :: "string \<Rightarrow> int option" where
  "Atoi s = (let body = (if s \<noteq> [] \<and> (hd s = CHR ''+'' \<or> hd s = CHR ''-'') then tl s else s);
                 v = (if s \<noteq> [] \<and> hd s = CHR ''-'' then - digits_value body else digits_value body)
             in if body \<noteq> [] \<and> list_all is_digit body \<and> - (2 ^ 63) \<le> v \<and> v < 2 ^ 63 then Some v else None)"

definition validateRequiredWorkerFlags :: "workerArgs \<Rightarrow> string \<Rightarrow> go_err option" where
  "validateRequiredWorkerFlags cfg replayIndexRaw =
     (if [] \<in> set [wa_bundlePath cfg, wa_evidencePath cfg, wa_nodeID cfg, wa_mode cfg, wa_distro cfg, wa_kernelFamily cfg,
            replayIndexRaw]
      then Some (errf ''required flags: --bundle --evidence --node-id --mode --distro --kernel-family --replay-index'' [])
      else None)"

definition parseWorkerArgs :: "string list \<Rightarrow> go_err + workerArgs" where
  "parseWorkerArgs args = (case worker_parseKV (\<lambda>_. None) args of Inl e \<Rightarrow> Inl e
   | Inr fs \<Rightarrow>
     (let cfg = \<lparr>wa_bundlePath = flagValue fs ''--bundle'', wa_evidencePath = flagValue fs ''--evidence'',
            wa_nodeID = flagValue fs ''--node-id'', wa_mode = flagValue fs ''--mode'', wa_distro = flagValue fs ''--distro'',
            wa_kernelFamily = flagValue fs ''--kernel-family'', wa_replayIndex = 0\<rparr>;
          raw = flagValue fs ''--replay-index''
      in case validateRequiredWorkerFlags cfg raw of Some e \<Rightarrow> Inl e
         | None \<Rightarrow> (case Atoi raw of
             Some k \<Rightarrow> if k < 1 then Inl (errf ''invalid --replay-index %q'' [raw]) else Inr (cfg\<lparr>wa_replayIndex := k\<rparr>)
           | None \<Rightarrow> Inl (errf ''invalid --replay-index %q'' [raw]))))"

section \<open>Unpacking\<close>

definition safeTarMode :: "int \<Rightarrow> int" where
  "safeTarMode mode = (if mode < 0 \<or> mode > 2 ^ 32 - 1 then 0x180 else mode mod 0x200)"

definition tarTarget :: "string \<Rightarrow> string \<Rightarrow> go_err + string" where
  "tarTarget outDir name =
     (let clean = path_Clean name in
      if clean = ''.'' \<or> HasPrefix clean ''../'' \<or> HasPrefix clean ''/'' then Inl (errf ''unsafe tar path %q'' [name])
      else Inr (filepath_Join [outDir, clean]))"

definition copyTarContent :: "('w, 'x) worker_env_scheme \<Rightarrow> string \<Rightarrow> tar_header \<Rightarrow> go_err + string \<Rightarrow> 'w \<Rightarrow> go_err option \<times> 'w" where
  "copyTarContent E out h body w =
     (if th_Size h < 0 then (Some (Errorf (Sprintf ''invalid tar size %d'' [FInt (th_Size h)])), w)
      else (case we_CopyN E out body (th_Size h) w of
        (Some e, w') \<Rightarrow> (Some (Errorw (Msg ''copy tar payload'') e), w') | (None, w') \<Rightarrow> (None, w')))"

definition extractTarFile :: "('w, 'x) worker_env_scheme \<Rightarrow> string \<Rightarrow> tar_header \<Rightarrow> go_err + string \<Rightarrow> 'w
     \<Rightarrow> go_err option \<times> 'w" where
  "extractTarFile E outDir h body w = (case tarTarget outDir (th_Name h) of Inl e \<Rightarrow> (Some e, w)
   | Inr target \<Rightarrow> (case we_MkdirAll E (filepath_Dir target) w of
       (Some e, w1) \<Rightarrow> (Some (Errorw (Sprintf ''mkdir for %s'' [FText target]) e), w1)
     | (None, w1) \<Rightarrow> (case we_Create E target (safeTarMode (th_Mode h)) w1 of
         (Some e, w2) \<Rightarrow> (Some (Errorw (Sprintf ''open output %s'' [FText target]) e), w2)
       | (None, w2) \<Rightarrow> (case copyTarContent E target h body w2 of
           (Some e, w3) \<Rightarrow> (Some (Errorw (Sprintf ''copy tar content %s'' [FText target]) e), snd (we_Close E target w3))
         | (None, w3) \<Rightarrow> (case we_Close E target w3 of
             (Some e, w4) \<Rightarrow> (Some (Errorw (Sprintf ''close output %s'' [FText target]) e), w4)
           | (None, w4) \<Rightarrow> (None, w4))))))"

fun extractEntries :: "('w, 'x) worker_env_scheme \<Rightarrow> string \<Rightarrow> tar_item list \<Rightarrow> 'w \<Rightarrow> go_err option \<times> 'w" where
  "extractEntries E outDir [] w = (None, w)"
| "extractEntries E outDir (TarError e # items) w = (Some (Errorw (Msg ''read tar entry'') e), w)"
| "extractEntries E outDir (TarEntry h body # items) w =
     (if \<not> th_Regular h then extractEntries E outDir items w
      else (case extractTarFile E outDir h body w of
        (Some e, w') \<Rightarrow> (Some e, w') | (None, w') \<Rightarrow> extractEntries E outDir items w'))"

definition extractBundle ::
  "('w, 'x) worker_env_scheme \<Rightarrow> string \<Rightarrow> string \<Rightarrow> 'w \<Rightarrow> (go_err + BundleManifest) \<times> 'w" where
  "extractBundle E bundlePath outDir w = (case we_readFile E bundlePath w of
     Inl e \<Rightarrow> (Inl (Errorw (Msg ''open bundle'') e), w)
   | Inr f \<Rightarrow> (case we_gunzip E f of Inl e \<Rightarrow> (Inl (Errorw (Msg ''open gzip reader'') e), w)
   | Inr items \<Rightarrow> (case extractEntries E outDir items w of (Some e, w1) \<Rightarrow> (Inl e, w1)
     | (None, w1) \<Rightarrow> (case we_readFile E (filepath_Join [outDir, ''manifest.json'']) w1 of
         Inl e \<Rightarrow> (Inl (Errorw (Msg ''read manifest'') e), w1)
       | Inr text \<Rightarrow> (case we_decodeManifest E text of
           Inl e \<Rightarrow> (Inl (Errorw (Msg ''decode manifest'') e), w1) | Inr m \<Rightarrow> (Inr m, w1))))))"

section \<open>Checking the digests\<close>

definition fileSHA256 :: "('w, 'x) worker_env_scheme \<Rightarrow> string \<Rightarrow> 'w \<Rightarrow> go_err + string" where
  "fileSHA256 E path w = (case we_readFile E path w of
     Inl e \<Rightarrow> Inl (Errorw (Sprintf ''read file %s'' [FText path]) e) | Inr t \<Rightarrow> Inr (Hex E t))"

definition checkDigest :: "('w, 'x) worker_env_scheme \<Rightarrow> string \<Rightarrow> 'w \<Rightarrow> string \<Rightarrow> string \<Rightarrow> string \<Rightarrow> go_err option" where
  "checkDigest E rootDir w p want fmt = (case fileSHA256 E (filepath_Join [rootDir, p]) w of Inl e \<Rightarrow> Some e
   | Inr got \<Rightarrow> if got \<noteq> want then Some (errf fmt [p]) else None)"

text \<open>
  The four checks are a map literal: a path that occurs twice keeps the last digest. Go visits a map in any
  order, the model in increasing order; the order only matters for which error is reported.
\<close>

definition coreChecks :: "BundleManifest \<Rightarrow> gomap" where
  "coreChecks m = fmupd (bm_ProfilePath m) (bm_ProfileSHA256 m) (fmupd (bm_MatrixPath m) (bm_MatrixSHA256 m)
     (fmupd (bm_WorkerPath m) (bm_WorkerSHA256 m) (fmupd (bm_BinaryPath m) (bm_BinarySHA256 m) fmempty)))"

definition verifyCoreChecksums :: "('w, 'x) worker_env_scheme \<Rightarrow> string \<Rightarrow> BundleManifest \<Rightarrow> 'w \<Rightarrow> go_err option" where
  "verifyCoreChecksums E rootDir m w = first_error (map (\<lambda>p. let want = mapString (coreChecks m) p in
     if TrimSpace p = [] \<or> TrimSpace want = [] then Some (errf ''bundle manifest missing required digest for %q'' [p])
     else checkDigest E rootDir w p want ''checksum mismatch for %s'') (sortedKeys (coreChecks m)))"

definition verifyVectorChecksums :: "('w, 'x) worker_env_scheme \<Rightarrow> string \<Rightarrow> BundleManifest \<Rightarrow> 'w \<Rightarrow> go_err option" where
  "verifyVectorChecksums E rootDir m w = first_error (map (\<lambda>p. let want = mapString (bm_VectorSHA256 m) p in
     if want = [] then Some (errf ''missing vector checksum for %s'' [p])
     else checkDigest E rootDir w p want ''vector checksum mismatch for %s'') (bm_VectorFiles m))"

definition verifyVectorSetChecksum :: "('w, 'x) worker_env_scheme \<Rightarrow> BundleManifest \<Rightarrow> go_err option" where
  "verifyVectorSetChecksum E m =
     (let items = map (\<lambda>p. p @ '':'' @ mapString (bm_VectorSHA256 m) p) (bm_VectorFiles m) in
      if Hex E (Join (sort items) [CHR 0x0A]) \<noteq> bm_VectorSetSHA256 m then Some (errf ''vector_set checksum mismatch'' [])
      else None)"

definition verifyExtractedBundle :: "('w, 'x) worker_env_scheme \<Rightarrow> string \<Rightarrow> BundleManifest \<Rightarrow> 'w \<Rightarrow> go_err option" where
  "verifyExtractedBundle E rootDir m w =
     first_error [verifyCoreChecksums E rootDir m w, verifyVectorChecksums E rootDir m w, verifyVectorSetChecksum E m]"

section \<open>Running the vectors\<close>

definition runCLI ::
  "('w, 'x) worker_env_scheme \<Rightarrow> string \<Rightarrow> string list \<Rightarrow> string \<Rightarrow> gomap \<Rightarrow> 'w \<Rightarrow> (go_err + cliResult) \<times> 'w" where
  "runCLI E binaryPath args input overrides w =
     (case we_Start E binaryPath args input
         (if overrides = fmempty then None else Some (mergedEnviron (we_environ E) overrides)) w of
        (NotRun e, w') \<Rightarrow> (Inl (Errorw (Sprintf ''run %s %q'' (map FText (binaryPath # args))) e), w')
      | (Exited res, w') \<Rightarrow> (Inr res, w'))"

definition errVector :: "string \<Rightarrow> string \<Rightarrow> int \<Rightarrow> string list \<Rightarrow> message" where
  "errVector fmt rel lineNo args = Sprintf fmt ([FText rel, FInt lineNo] @ map FText args)"

definition vectorArgs :: "vectorCase \<Rightarrow> string \<Rightarrow> int \<Rightarrow> go_err + string list" where
  "vectorArgs v rel lineNo =
     (if vc_Args v \<noteq> [] then Inr (vc_Args v)
      else if TrimSpace (vc_Mode v) = [] then Inl (Errorf (errVector ''vector %s:%d id=%s missing mode and args'' rel lineNo [vc_ID v]))
      else Inr [vc_Mode v, ''-''])"

definition assertVectorResult :: "string \<Rightarrow> int \<Rightarrow> vectorCase \<Rightarrow> cliResult \<Rightarrow> go_err option" where
  "assertVectorResult rel lineNo v res = first_error
     [guard (exitCode res \<noteq> vc_WantExit v) (Errorf (Sprintf ''vector %s:%d id=%s exit mismatch got=%d want=%d''
        [FText rel, FInt lineNo, FText (vc_ID v), FInt (exitCode res), FInt (vc_WantExit v)])),
      guard (\<exists>t \<in> set_option (vc_WantStdout v). res_stdout res \<noteq> t)
        (Errorf (errVector ''vector %s:%d id=%s stdout mismatch'' rel lineNo [vc_ID v])),
      guard (\<exists>t \<in> set_option (vc_WantStderr v). res_stderr res \<noteq> t)
        (Errorf (errVector ''vector %s:%d id=%s stderr mismatch'' rel lineNo [vc_ID v])),
      guard (\<exists>t \<in> set_option (vc_WantStderrContains v). \<not> Contains (res_stderr res) t)
        (Errorf (errVector ''vector %s:%d id=%s stderr missing %q'' rel lineNo [vc_ID v]))]"

definition processVectorLine ::
  "('w, 'x) worker_env_scheme \<Rightarrow> string \<Rightarrow> string \<Rightarrow> int \<Rightarrow> string \<Rightarrow> digests \<Rightarrow> 'w \<Rightarrow> (go_err + digests) \<times> 'w" where
  "processVectorLine E binaryPath rel lineNo line d w = (case we_decodeVector E line of
     Inl e \<Rightarrow> (Inl (Errorw (errVector ''decode vector %s:%d'' rel lineNo []) e), w)
   | Inr v \<Rightarrow> (case vectorArgs v rel lineNo of Inl e \<Rightarrow> (Inl e, w)
     | Inr args \<Rightarrow> (case runCLI E binaryPath args (vc_Input v) fmempty w of
         (Inl e, w') \<Rightarrow> (Inl (Errorw (errVector ''run vector %s:%d id=%s'' rel lineNo [vc_ID v]) e), w')
       | (Inr res, w') \<Rightarrow> (case assertVectorResult rel lineNo v res of Some e \<Rightarrow> (Inl e, w')
         | None \<Rightarrow> (Inr (recordDigests (vc_ID v) (hd args) res d), w')))))"

definition maxVectorLineBytes :: nat where "maxVectorLineBytes = 4 * 1024 * 1024"

text \<open>
  \<^verbatim>\<open>bufio.Scanner\<close>: the lines of a text, without their line ends, up to the first that does not fit the buffer. The
  last line may lack its end.
\<close>

function splitLines :: "string \<Rightarrow> string list" where
  "splitLines s = (if s = [] then []
     else takeWhile (\<lambda>c. c \<noteq> CHR 0x0A) s # splitLines (drop 1 (dropWhile (\<lambda>c. c \<noteq> CHR 0x0A) s)))"
  by pat_completeness auto
termination
proof (relation "measure length", goal_cases)
  case (2 s)
  then show ?case using length_dropWhile_le [of "\<lambda>c. c \<noteq> CHR 0x0A" s] by (cases s) (auto simp: less_Suc_eq_le split: if_splits)
qed simp

declare splitLines.simps [simp del]

definition dropCR :: "string \<Rightarrow> string" where
  "dropCR s = (if s \<noteq> [] \<and> last s = CHR 0x0D then butlast s else s)"

definition scanLines :: "nat \<Rightarrow> string \<Rightarrow> go_err option \<Rightarrow> string list \<times> go_err option" where
  "scanLines limit text readErr =
     (let ls = splitLines text; ok = takeWhile (\<lambda>l. length l < limit) ls in
      (map dropCR ok, if length ok < length ls then Some (Opaque ''bufio.Scanner: token too long'') else readErr))"

text \<open>A line that is executed: neither empty nor a comment.\<close>

definition isCase :: "string \<Rightarrow> bool" where
  "isCase line \<longleftrightarrow> TrimSpace line \<noteq> [] \<and> \<not> HasPrefix (TrimSpace line) ''#''"

fun runLines ::
  "('w, 'x) worker_env_scheme \<Rightarrow> string \<Rightarrow> string \<Rightarrow> int \<Rightarrow> int \<Rightarrow> string list \<Rightarrow> digests \<Rightarrow> 'w
     \<Rightarrow> (go_err + int \<times> digests) \<times> 'w" where
  "runLines E binaryPath rel lineNo executed [] d w = (Inr (executed, d), w)"
| "runLines E binaryPath rel lineNo executed (l # ls) d w =
     (if \<not> isCase l then runLines E binaryPath rel (lineNo + 1) executed ls d w
      else (case processVectorLine E binaryPath rel (lineNo + 1) (TrimSpace l) d w of
          (Inl e, w') \<Rightarrow> (Inl e, w')
        | (Inr d', w') \<Rightarrow> runLines E binaryPath rel (lineNo + 1) (executed + 1) ls d' w'))"

definition runVectorFile ::
  "('w, 'x) worker_env_scheme \<Rightarrow> string \<Rightarrow> string \<Rightarrow> string \<Rightarrow> digests \<Rightarrow> 'w \<Rightarrow> (go_err + int \<times> digests) \<times> 'w" where
  "runVectorFile E binaryPath rootDir rel d w = (case we_openLines E (filepath_Join [rootDir, rel]) w of
     Inl e \<Rightarrow> (Inl (Errorw (Sprintf ''open vector %s'' [FText rel]) e), w)
   | Inr (text, readErr) \<Rightarrow> (case scanLines maxVectorLineBytes text readErr of (ls, err) \<Rightarrow>
       (case runLines E binaryPath rel 0 0 ls d w of (Inl e, w') \<Rightarrow> (Inl e, w')
        | (Inr x, w') \<Rightarrow> (case err of Some e \<Rightarrow> (Inl (Errorw (Sprintf ''scan vector %s'' [FText rel]) e), w')
          | None \<Rightarrow> (Inr x, w')))))"

fun runVectorFiles ::
  "('w, 'x) worker_env_scheme \<Rightarrow> string \<Rightarrow> string \<Rightarrow> string list \<Rightarrow> int \<Rightarrow> digests \<Rightarrow> 'w \<Rightarrow> (go_err + int \<times> digests) \<times> 'w" where
  "runVectorFiles E binaryPath rootDir [] totalCount d w = (Inr (totalCount, d), w)"
| "runVectorFiles E binaryPath rootDir (rel # rels) totalCount d w = (case runVectorFile E binaryPath rootDir rel d w of
     (Inl e, w') \<Rightarrow> (Inl e, w')
   | (Inr (caseCount, d'), w') \<Rightarrow> runVectorFiles E binaryPath rootDir rels (totalCount + caseCount) d' w')"

definition runVectors ::
  "('w, 'x) worker_env_scheme \<Rightarrow> string \<Rightarrow> string \<Rightarrow> BundleManifest \<Rightarrow> digests \<Rightarrow> 'w \<Rightarrow> (go_err + int \<times> digests) \<times> 'w" where
  "runVectors E binaryPath rootDir m d w = (case runVectorFiles E binaryPath rootDir (sort (bm_VectorFiles m)) 0 d w of
     (Inl e, w') \<Rightarrow> (Inl e, w')
   | (Inr (totalCount, d'), w') \<Rightarrow> if totalCount = 0 then (Inl (errf ''no vector cases executed'' []), w') else (Inr (totalCount, d'), w'))"

definition checkEnvironmentIndependence :: "('w, 'x) worker_env_scheme \<Rightarrow> string \<Rightarrow> 'w \<Rightarrow> go_err option \<times> 'w" where
  "checkEnvironmentIndependence E binaryPath w =
     (let input = ''{\"b\":1,\"a\":2}''; args = [''canonicalize'', ''-''];
          overrides = fmupd ''TZ'' ''UTC'' (fmupd ''LANG'' ''C'' (fmupd ''LC_ALL'' ''C'' fmempty)) in
      case runCLI E binaryPath args input fmempty w of (Inl e, w1) \<Rightarrow> (Some e, w1)
      | (Inr base, w1) \<Rightarrow> (case runCLI E binaryPath args input overrides w1 of (Inl e, w2) \<Rightarrow> (Some e, w2)
        | (Inr variant, w2) \<Rightarrow>
            (guard (exitCode base \<noteq> exitCode variant \<or> res_stdout base \<noteq> res_stdout variant \<or> res_stderr base \<noteq> res_stderr variant)
               (errf ''output drift under env variation'' []), w2)))"

section \<open>The command\<close>

definition no_digests :: digests where
  "no_digests = \<lparr>canonicalAcc = [], verifyAcc = [], classAcc = [], exitAcc = []\<rparr>"

definition workerEvidence :: "('w, 'x) worker_env_scheme \<Rightarrow> workerArgs \<Rightarrow> int \<Rightarrow> digests \<Rightarrow> NodeRunEvidence" where
  "workerEvidence E cfg caseCount d =
     \<lparr>re_NodeID = wa_nodeID cfg, re_Mode = wa_mode cfg, re_Distro = wa_distro cfg, re_KernelFamily = wa_kernelFamily cfg,
      re_ReplayIndex = wa_replayIndex cfg, re_SessionID = we_sessionID E (wa_nodeID cfg), re_StartedAtUTC = we_startedAt E,
      re_CompletedAtUTC = we_completedAt E, re_CaseCount = caseCount, re_Passed = True, re_CanonicalSHA256 = Hex E (canonicalAcc d),
      re_VerifySHA256 = Hex E (verifyAcc d), re_FailureClassSHA256 = Hex E (classAcc d), re_ExitCodeSHA256 = Hex E (exitAcc d)\<rparr>"

definition worker_writeEvidence :: "('w, 'x) worker_env_scheme \<Rightarrow> string \<Rightarrow> NodeRunEvidence \<Rightarrow> 'w \<Rightarrow> go_err option \<times> 'w" where
  "worker_writeEvidence E path r w = (case we_encodeRun E r of Inl e \<Rightarrow> (Some (Errorw (Msg ''encode evidence'') e), w)
   | Inr text \<Rightarrow> (case we_WriteFile E path (text @ [CHR 0x0A]) w of
       (Some e, w') \<Rightarrow> (Some (Errorw (Msg ''write evidence'') e), w') | (None, w') \<Rightarrow> (None, w')))"

text \<open>Everything between the temporary directory and the summary; it is removed whatever the outcome.\<close>

definition replayBundle ::
  "('w, 'x) worker_env_scheme \<Rightarrow> workerArgs \<Rightarrow> string \<Rightarrow> 'w \<Rightarrow> (go_err + int) \<times> 'w" where
  "replayBundle E cfg tmpDir w = (case extractBundle E (wa_bundlePath cfg) tmpDir w of
     (Inl e, w1) \<Rightarrow> (Inl (Errorw (Msg ''extract bundle'') e), w1)
   | (Inr m, w1) \<Rightarrow> (case verifyExtractedBundle E tmpDir m w1 of
       Some e \<Rightarrow> (Inl (Errorw (Msg ''verify bundle'') e), w1)
     | None \<Rightarrow>
       (let binaryPath = filepath_Join [tmpDir, bm_BinaryPath m] in
        case runVectors E binaryPath tmpDir m no_digests w1 of
          (Inl e, w2) \<Rightarrow> (Inl (Errorw (Msg ''replay vectors'') e), w2)
        | (Inr (caseCount, d), w2) \<Rightarrow> (case checkEnvironmentIndependence E binaryPath w2 of
            (Some e, w3) \<Rightarrow> (Inl (Errorw (Msg ''environment-independence check'') e), w3)
          | (None, w3) \<Rightarrow> (case worker_writeEvidence E (wa_evidencePath cfg) (workerEvidence E cfg caseCount d) w3 of
              (Some e, w4) \<Rightarrow> (Inl e, w4) | (None, w4) \<Rightarrow> (Inr caseCount, w4))))))"

text \<open>The text of an error is the parameter \<open>show\<close>; the exit code does not depend on whether it can be written.\<close>

definition writeErrorLine :: "(go_err \<Rightarrow> string) \<Rightarrow> writer \<Rightarrow> go_err \<Rightarrow> writer" where
  "writeErrorLine show w e = snd (writef w (''error: '' @ show e @ newline))"

definition worker_run ::
  "('w, 'x) worker_env_scheme \<Rightarrow> (go_err \<Rightarrow> string) \<Rightarrow> string list \<Rightarrow> writer \<Rightarrow> writer \<Rightarrow> 'w \<Rightarrow> int \<times> writer \<times> writer \<times> 'w" where
  "worker_run E show args stdout stderr w = (case parseWorkerArgs args of
     Inl e \<Rightarrow> (2, stdout, writeErrorLine show stderr e, w)
   | Inr cfg \<Rightarrow> (case we_MkdirTemp E w of
       (Inl e, w1) \<Rightarrow> (2, stdout, writeErrorLine show stderr (Errorw (Msg ''create temp dir'') e), w1)
     | (Inr tmpDir, w1) \<Rightarrow> (case replayBundle E cfg tmpDir w1 of
         (Inl e, w2) \<Rightarrow> (2, stdout, writeErrorLine show stderr e, we_RemoveAll E tmpDir w2)
       | (Inr caseCount, w2) \<Rightarrow>
          (case writef stdout (''ok node='' @ wa_nodeID cfg @ '' replay='' @ Itoa (wa_replayIndex cfg) @ '' cases='' @
              Itoa caseCount @ newline) of
             (Some e, out) \<Rightarrow> (2, out, stderr, we_RemoveAll E tmpDir w2)
           | (None, out) \<Rightarrow> (0, out, stderr, we_RemoveAll E tmpDir w2)))))"

end
