(* ===== verification/Replay_Evidence_Spec.thy ===== *)
theory Replay_Evidence_Spec
  imports Replay_Evidence
begin

text \<open>
  What \<open>ValidateEvidenceBundle\<close> guarantees: the exact set of bundles it accepts, and how far the comparison of the
  required suites can be trusted.
\<close>

section \<open>Accepted evidence\<close>

definition header_ok :: "EvidenceBundle \<Rightarrow> Matrix \<Rightarrow> Profile \<Rightarrow> EvidenceValidationOptions \<Rightarrow> bool" where
  "header_ok e m p opts \<longleftrightarrow> eb_SchemaVersion e = EvidenceSchemaVersion \<and> eb_ProfileName e = pf_Name p
     \<and> list_all (hex_token 64) (map snd (shaFields e)) \<and> hex_token 40 (eb_SourceGitCommit e)
     \<and> TrimSpace (eb_SourceGitTag e) \<noteq> [] \<and> set (TrimSpace (eb_SourceGitTag e)) \<inter> {CHR 0x20, CHR 0x09, CHR 0x0D, CHR 0x0A} = {}
     \<and> eb_Architecture e = expectedArch m opts
     \<and> list_all (\<lambda>(got, want). want = [] \<or> got = want)
         [(eb_BundleSHA256 e, vo_BundleSHA256 opts), (eb_ControlBinarySHA e, vo_ControlBinarySHA256 opts),
          (eb_MatrixSHA256 e, vo_MatrixSHA256 opts), (eb_ProfileSHA256 e, vo_ProfileSHA256 opts),
          (eb_SourceGitCommit e, TrimSpace (vo_SourceGitCommit opts)), (eb_SourceGitTag e, TrimSpace (vo_SourceGitTag opts))]
     \<and> eb_HardReleaseGate e \<and> eb_NodeReplays e \<noteq> []"

text \<open>The runs that count: those of required nodes.\<close>

definition required_runs :: "EvidenceBundle \<Rightarrow> Matrix \<Rightarrow> Profile \<Rightarrow> NodeRunEvidence set" where
  "required_runs e m p = {r \<in> set (eb_NodeReplays e). re_NodeID r \<in> required_set m p}"

definition evidence_ok :: "EvidenceBundle \<Rightarrow> Matrix \<Rightarrow> Profile \<Rightarrow> EvidenceValidationOptions \<Rightarrow> bool" where
  "evidence_ok e m p opts \<longleftrightarrow> header_ok e m p opts \<and> required_set m p \<subseteq> ns_ID ` set (mx_Nodes m)
     \<and> (\<forall>r\<in>set (eb_NodeReplays e). run_ok m r)
     \<and> (\<forall>n\<in>set (mx_Nodes m). ns_ID n \<in> required_set m p \<longrightarrow>
          (\<forall>k\<in>{1..max (ns_Replays n) (pf_MinColdReplays p)}. \<exists>r\<in>required_runs e m p. re_NodeID r = ns_ID n \<and> re_ReplayIndex r = k))
     \<and> required_runs e m p \<noteq> {} \<and> (\<forall>r\<in>required_runs e m p. run_digests r = aggregates e)
     \<and> Join (sort (eb_RequiredSuites e)) '','' = Join (sort (pf_RequiredSuites p)) '',''"

lemma validateGitTagToken_iff: "validateGitTagToken name s = None \<longleftrightarrow>
    TrimSpace s \<noteq> [] \<and> set (TrimSpace s) \<inter> {CHR 0x20, CHR 0x09, CHR 0x0D, CHR 0x0A} = {}"
  by (auto simp: validateGitTagToken_def ContainsAny_def list_ex_iff Let_def)

lemma checkHeader_iff: "checkHeader e m p opts = None \<longleftrightarrow> header_ok e m p opts"
proof -
  have "list_all (\<lambda>x. x = None) (map (\<lambda>(name, value). validateSHA256Token name value) xs)
      \<longleftrightarrow> list_all (hex_token 64) (map snd xs)" for xs
    by (induction xs) (auto simp: token_iffs)
  then show ?thesis
    by (simp add: checkHeader_def header_ok_def mismatch_def token_iffs validateGitTagToken_iff)
qed

lemma required_runs_concat:
  assumes "set ids = required_set m p"
  shows "set (concat (map (\<lambda>i. filter (\<lambda>r. re_NodeID r = i) (eb_NodeReplays e)) ids)) = required_runs e m p"
  using assms by (auto simp: required_runs_def)

lemma replays_complete_iff:
  assumes "distinct (map ns_ID (mx_Nodes m))" "required_set m p \<subseteq> ns_ID ` set (mx_Nodes m)"
  shows "(\<forall>i\<in>required_set m p. replays_ok (filter (\<lambda>r. re_NodeID r = i) (eb_NodeReplays e))
        (requiredReplayCount (at_id (matrixByID m) i) p)) \<longleftrightarrow>
      (\<forall>n\<in>set (mx_Nodes m). ns_ID n \<in> required_set m p \<longrightarrow>
        (\<forall>k\<in>{1..max (ns_Replays n) (pf_MinColdReplays p)}. \<exists>r\<in>required_runs e m p. re_NodeID r = ns_ID n \<and> re_ReplayIndex r = k))"
    (is "?l \<longleftrightarrow> ?r")
proof -
  let ?runs = "\<lambda>i. filter (\<lambda>r. re_NodeID r = i) (eb_NodeReplays e)"
  have at: "at_id (matrixByID m) (ns_ID n) = n" if "n \<in> set (mx_Nodes m)" for n
    using that matrixByID_iff [OF assms(1), of "ns_ID n" n] by (simp add: at_id_def)
  have "?l \<longleftrightarrow> (\<forall>n\<in>set (mx_Nodes m). ns_ID n \<in> required_set m p \<longrightarrow> replays_ok (?runs (ns_ID n)) (requiredReplayCount n p))"
    using assms(2) at by (auto simp: subset_iff image_iff)
  also have "\<dots> \<longleftrightarrow> ?r"
  proof -
    have "r \<in> set (?runs (ns_ID n)) \<longleftrightarrow> r \<in> required_runs e m p \<and> re_NodeID r = ns_ID n"
      if "ns_ID n \<in> required_set m p" for r and n :: NodeSpec
      using that by (auto simp: required_runs_def)
    then show ?thesis
      by (intro ball_cong imp_cong refl) (simp add: replays_ok_def requiredReplayCount_max Bex_def conj_assoc)
  qed
  finally show ?thesis .
qed

lemma evidence_iff:
  assumes "distinct (map ns_ID (mx_Nodes m))"
  shows "ValidateEvidenceBundle (Some e) (Some m) (Some p) opts = None \<longleftrightarrow> evidence_ok e m p opts"
proof (cases "checkHeader e m p opts = None \<and> required_set m p \<subseteq> ns_ID ` set (mx_Nodes m)
    \<and> (\<forall>r\<in>set (eb_NodeReplays e). checkRun (matrixByID m) r = None)")
  case False
  then have "ValidateEvidenceBundle (Some e) (Some m) (Some p) opts \<noteq> None"
    using requiredNodeIDs_iff [OF assms, of p] checkRuns_iff [of "matrixByID m" "\<lambda>_. []" "eb_NodeReplays e"]
    by (auto simp: ValidateEvidenceBundle_def split: option.splits sum.splits)
  moreover have "\<not> evidence_ok e m p opts"
    using False by (auto simp: evidence_ok_def checkHeader_iff checkRun_iff [OF assms])
  ultimately show ?thesis by simp
next
  case True
  define ids where "ids = sorted_list_of_set (required_set m p)"
  define byNode where "byNode = (\<lambda>i. filter (\<lambda>r. re_NodeID r = i) (eb_NodeReplays e))"
  define runs where "runs = concat (map byNode ids)"
  have fin: "finite (required_set m p)" using True finite_subset by blast
  then have ids: "set ids = required_set m p" by (simp add: ids_def)
  have runs: "set runs = required_runs e m p"
    using required_runs_concat [OF ids, of e] by (simp add: runs_def byNode_def)
  have "requiredNodeIDs m p = Inr ids" using requiredNodeIDs_iff [OF assms, of p ids] True by (simp add: ids_def)
  moreover have "checkRuns (matrixByID m) (\<lambda>_. []) (eb_NodeReplays e) = Inr byNode"
    using True by (simp add: checkRuns_iff byNode_def)
  ultimately have "ValidateEvidenceBundle (Some e) (Some m) (Some p) opts = None \<longleftrightarrow>
      (\<exists>b. checkNodes (matrixByID m) byNode p None ids = Inr b \<and> checkAggregates e b = None)
      \<and> Join (sort (eb_RequiredSuites e)) '','' = Join (sort (pf_RequiredSuites p)) '',''"
    using True by (auto simp: ValidateEvidenceBundle_def split: sum.split)
  also have "(\<exists>b. checkNodes (matrixByID m) byNode p None ids = Inr b \<and> checkAggregates e b = None) \<longleftrightarrow>
      (\<forall>i\<in>set ids. replays_ok (byNode i) (requiredReplayCount (at_id (matrixByID m) i) p))
      \<and> runs \<noteq> [] \<and> (\<forall>r\<in>set runs. run_digests r = aggregates e)"
    using digests_agree [of runs e] by (auto simp: checkNodes_iff runs_def)
  also have "(\<forall>i\<in>set ids. replays_ok (byNode i) (requiredReplayCount (at_id (matrixByID m) i) p)) \<longleftrightarrow>
      (\<forall>n\<in>set (mx_Nodes m). ns_ID n \<in> required_set m p \<longrightarrow>
        (\<forall>k\<in>{1..max (ns_Replays n) (pf_MinColdReplays p)}. \<exists>r\<in>required_runs e m p. re_NodeID r = ns_ID n \<and> re_ReplayIndex r = k))"
    unfolding ids byNode_def using True by (intro replays_complete_iff [OF assms]) simp
  also have "runs \<noteq> [] \<longleftrightarrow> required_runs e m p \<noteq> {}" using runs by (metis set_empty)
  finally show ?thesis
    using True runs by (auto simp: evidence_ok_def checkHeader_iff checkRun_iff [OF assms])
qed

section \<open>The comparison of suites\<close>

lemma Join_Cons: "Join (s # ss) sep = s @ (if ss = [] then [] else sep @ Join ss sep)"
  by (cases ss) auto

lemma Join_comma_inject:
  assumes "Join xs '','' = Join ys '',''" "xs \<noteq> []" "ys \<noteq> []" "\<forall>s\<in>set xs \<union> set ys. CHR '','' \<notin> set s"
  shows "xs = ys"
  using assms
proof (induction xs arbitrary: ys)
  case (Cons x xs)
  then obtain y ys' where y: "ys = y # ys'" by (cases ys) auto
  let ?tail = "\<lambda>ss. if ss = [] then [] else '','' @ Join ss '',''"
  have eq: "x @ ?tail xs = y @ ?tail ys'" using Cons.prems(1) by (simp add: y Join_Cons)
  have front: "takeWhile (\<lambda>c. c \<noteq> CHR '','') (s @ ?tail ss) = s" if "CHR '','' \<notin> set s" for s ss
    using that by (induction s) auto
  have "x = y" using front [of x xs] front [of y ys'] eq Cons.prems(4) by (simp add: y)
  with eq have t: "?tail xs = ?tail ys'" by simp
  show ?case
  proof (cases "xs = [] \<or> ys' = []")
    case True
    with t \<open>x = y\<close> y show ?thesis by (auto split: if_splits)
  next
    case False
    with t have "Join xs '','' = Join ys' '',''" by simp
    from Cons.IH [OF this] False Cons.prems(4) y \<open>x = y\<close> show ?thesis by auto
  qed
qed simp

lemma suites_agree:
  assumes "Join (sort xs) '','' = Join (sort ys) '',''" "ys \<noteq> []" "[] \<notin> set ys" "\<forall>s\<in>set xs \<union> set ys. CHR '','' \<notin> set s"
  shows "mset xs = mset ys"
proof -
  have "sort ys \<noteq> []" "[] \<notin> set (sort ys)" using assms(2,3) by (metis set_empty set_sort, simp)
  then have "Join (sort ys) '','' \<noteq> []" by (cases "sort ys") (auto simp: Join_Cons)
  then have "sort xs \<noteq> []" using assms(1) by auto
  from Join_comma_inject [OF assms(1) this \<open>sort ys \<noteq> []\<close>] assms(4) have "sort xs = sort ys" by auto
  then show ?thesis by (metis mset_sort)
qed

section \<open>A sample\<close>

definition digest_of :: "char \<Rightarrow> string" where "digest_of c = replicate 64 c"

definition sample_node :: "string \<Rightarrow> string \<Rightarrow> NodeSpec" where
  "sample_node i mode = \<lparr>ns_ID = i, ns_Mode = mode, ns_Distro = ''debian'', ns_KernelFamily = ''6.x'', ns_Replays = 1,
     ns_Runner = \<lparr>rc_Kind = mode, rc_Prepare = [], rc_Replay = [''run''], rc_Cleanup = [], rc_Env = fmempty\<rparr>\<rparr>"

definition sample_matrix :: Matrix where
  "sample_matrix = \<lparr>mx_Version = ''v1'', mx_Architecture = ''x86_64'',
     mx_Nodes = [sample_node ''c1'' NodeModeContainer, sample_node ''v1'' NodeModeVM]\<rparr>"

definition sample_profile :: "string list \<Rightarrow> Profile" where
  "sample_profile suites = \<lparr>pf_Version = ''v1'', pf_Name = ''max'', pf_RequiredNodes = [], pf_RequiredSuites = suites,
     pf_MinColdReplays = 1, pf_HardReleaseGate = True, pf_EvidenceRequired = True\<rparr>"

definition sample_run :: "string \<Rightarrow> string \<Rightarrow> int \<Rightarrow> NodeRunEvidence" where
  "sample_run i mode k = \<lparr>re_NodeID = i, re_Mode = mode, re_Distro = ''debian'', re_KernelFamily = ''6.x'', re_ReplayIndex = k,
     re_SessionID = ''s'', re_StartedAtUTC = ''t0'', re_CompletedAtUTC = ''t1'', re_CaseCount = 3, re_Passed = True,
     re_CanonicalSHA256 = digest_of CHR ''a'', re_VerifySHA256 = digest_of CHR ''b'',
     re_FailureClassSHA256 = digest_of CHR ''c'', re_ExitCodeSHA256 = digest_of CHR ''d''\<rparr>"

definition sample_evidence :: "string list \<Rightarrow> EvidenceBundle" where
  "sample_evidence suites = \<lparr>eb_SchemaVersion = ''evidence.v1'', eb_BundleSHA256 = digest_of CHR ''1'',
     eb_ControlBinarySHA = digest_of CHR ''2'', eb_MatrixSHA256 = digest_of CHR ''3'', eb_ProfileSHA256 = digest_of CHR ''4'',
     eb_SourceGitCommit = replicate 40 CHR ''0'', eb_SourceGitTag = ''untagged'', eb_GeneratedAtUTC = ''t'',
     eb_Orchestrator = ''o'', eb_ProfileName = ''max'', eb_Architecture = ''x86_64'', eb_RequiredSuites = suites,
     eb_HardReleaseGate = True, eb_NodeReplays = [sample_run ''c1'' NodeModeContainer 1, sample_run ''v1'' NodeModeVM 1],
     eb_AggregateCanonical = digest_of CHR ''a'', eb_AggregateVerify = digest_of CHR ''b'',
     eb_AggregateClass = digest_of CHR ''c'', eb_AggregateExitCode = digest_of CHR ''d''\<rparr>"

definition no_expectations :: EvidenceValidationOptions where
  "no_expectations = \<lparr>vo_BundleSHA256 = [], vo_ControlBinarySHA256 = [], vo_MatrixSHA256 = [], vo_ProfileSHA256 = [],
     vo_Architecture = [], vo_SourceGitCommit = [], vo_SourceGitTag = []\<rparr>"

lemma hex_token_replicate: "is_hex c \<Longrightarrow> hex_token n (replicate n c)"
  by (simp add: hex_token_def TrimSpace_hex list_all_iff)

lemma digest_token [simp]: "is_hex c \<Longrightarrow> hex_token 64 (digest_of c)"
  by (simp add: digest_of_def hex_token_replicate)

lemma sample_hex [simp]: "list_all is_hex ''01234abcd''"
  by code_simp

lemma sample_trim [simp]: "TrimSpace ''s'' = ''s''" "TrimSpace ''t0'' = ''t0''" "TrimSpace ''t1'' = ''t1''"
    "TrimSpace ''untagged'' = ''untagged''"
  by (rule TrimSpace_graphic, code_simp)+

lemmas sample_defs = sample_evidence_def sample_matrix_def sample_profile_def sample_node_def sample_run_def no_expectations_def

lemma sample_distinct: "distinct (map ns_ID (mx_Nodes sample_matrix))"
  by (simp add: sample_defs)

lemma sample_header: "header_ok (sample_evidence ss) sample_matrix (sample_profile ts) no_expectations"
  using sample_hex hex_token_replicate [of "CHR ''0''" 40]
  by (simp add: header_ok_def sample_defs shaFields_def EvidenceSchemaVersion_def expectedArch_def)

lemma sample_required: "required_set sample_matrix (sample_profile ts) = {''c1'', ''v1''}"
  by (simp add: required_set_def sample_defs)

lemma sample_runs_ok: "r \<in> set (eb_NodeReplays (sample_evidence ss)) \<Longrightarrow> run_ok sample_matrix r"
  using sample_hex by (auto simp: run_ok_def sample_defs run_digests_def)

lemma sample_evidence_ok:
  assumes "Join (sort ss) '','' = Join (sort ts) '',''"
  shows "evidence_ok (sample_evidence ss) sample_matrix (sample_profile ts) no_expectations"
proof -
  have "required_runs (sample_evidence ss) sample_matrix (sample_profile ts)
      = {sample_run ''c1'' NodeModeContainer 1, sample_run ''v1'' NodeModeVM 1}"
    by (auto simp: required_runs_def sample_required sample_evidence_def sample_run_def)
  then show ?thesis
    using sample_header [of ss ts] sample_required [of ts] sample_runs_ok [of _ ss] assms
    by (auto simp: evidence_ok_def sample_defs run_digests_def aggregates_def)
qed

section \<open>Properties\<close>

text \<open>
  C21: the evidence gate. With a valid matrix, \<open>ValidateEvidenceBundle\<close> accepts a bundle exactly when: its header
  has the schema, the profile's name, well-formed digests and the expected values; all required nodes exist;
  every run belongs to a node of the matrix, passed and is complete; every required node has a run for every
  replay index up to the number required; all runs of required nodes have the four digests of the
  bundle, so they agree; and the lists of suites match.
\<close>

theorem ValidateEvidenceBundle_spec:
  assumes "ValidateMatrix (Some m) = None"
  shows "ValidateEvidenceBundle (Some e) (Some m) (Some p) opts = None \<longleftrightarrow> evidence_ok e m p opts"
  using assms evidence_iff by (simp add: ValidateMatrix_iff matrix_ok_def)

lemma sample_matrix_valid: "ValidateMatrix (Some sample_matrix) = None"
  by (simp add: ValidateMatrix_iff matrix_ok_def node_ok_def sample_defs NodeModeContainer_def NodeModeVM_def)

theorem ValidateEvidenceBundle_spec_witness:
  "ValidateEvidenceBundle (Some (sample_evidence [''unit'', ''conf''])) (Some sample_matrix)
     (Some (sample_profile [''conf'', ''unit''])) no_expectations = None"
  using ValidateEvidenceBundle_spec [OF sample_matrix_valid] sample_evidence_ok [of "[''unit'', ''conf'']" "[''conf'', ''unit'']"]
  by simp

text \<open>
  The suites of accepted evidence are the suites of the profile, up to their order, if no name is empty or
  contains a comma.
\<close>

theorem accepted_suites:
  assumes "ValidateMatrix (Some m) = None" "ValidateProfile (Some p) = None"
    "ValidateEvidenceBundle (Some e) (Some m) (Some p) opts = None"
    "[] \<notin> set (pf_RequiredSuites p)" "\<forall>s\<in>set (eb_RequiredSuites e) \<union> set (pf_RequiredSuites p). CHR '','' \<notin> set s"
  shows "mset (eb_RequiredSuites e) = mset (pf_RequiredSuites p)"
proof (rule suites_agree [OF _ _ assms(4,5)])
  show "Join (sort (eb_RequiredSuites e)) '','' = Join (sort (pf_RequiredSuites p)) '',''"
    using assms(1,3) evidence_iff by (simp add: ValidateMatrix_iff matrix_ok_def evidence_ok_def)
  show "pf_RequiredSuites p \<noteq> []" using assms(2) by (simp add: ValidateProfile_iff profile_ok_def)
qed

theorem accepted_suites_witness: "mset [''unit'', ''conf''] = mset [''conf'', ''unit'']"
proof -
  let ?e = "sample_evidence [''unit'', ''conf'']" and ?p = "sample_profile [''conf'', ''unit'']"
  have "ValidateProfile (Some ?p) = None" by (simp add: ValidateProfile_iff profile_ok_def sample_defs)
  moreover have "ValidateEvidenceBundle (Some ?e) (Some sample_matrix) (Some ?p) no_expectations = None"
    using evidence_iff [OF sample_distinct] sample_evidence_ok [of "[''unit'', ''conf'']" "[''conf'', ''unit'']"] by simp
  ultimately have "mset (eb_RequiredSuites ?e) = mset (pf_RequiredSuites ?p)"
    by (rule accepted_suites [OF sample_matrix_valid]) (simp_all add: sample_defs)
  then show ?thesis by (simp add: sample_defs)
qed

lemma Join_longer: "s \<in> set xs \<Longrightarrow> 2 \<le> length xs \<Longrightarrow> length s < length (Join xs '','')"
proof (induction xs)
  case (Cons x xs)
  show ?case
  proof (cases "2 \<le> length xs")
    case True
    with Cons show ?thesis by (auto simp: Join_Cons)
  next
    case False
    with Cons.prems(2) obtain y where "xs = [y]" by (cases xs; cases "tl xs") auto
    with Cons.prems(1) show ?thesis by auto
  qed
qed simp

text \<open>
  C33: without that condition the gate can be passed with the wrong suites. Names are sorted and joined with commas
  before they are compared: whenever a bundle is accepted for a profile with at least two suites, the same bundle with
  the one suite that is called like the sorted list ("conf,unit" for "unit" and "conf") is accepted too, although no suite
  of the profile has this name.
\<close>

theorem comma_suites_accepted:
  assumes "ValidateMatrix (Some m) = None" "ValidateEvidenceBundle (Some e) (Some m) (Some p) opts = None"
    "2 \<le> length (pf_RequiredSuites p)"
  shows "let joined = Join (sort (pf_RequiredSuites p)) '','' in
     ValidateEvidenceBundle (Some (e\<lparr>eb_RequiredSuites := [joined]\<rparr>)) (Some m) (Some p) opts = None
   \<and> joined \<notin> set (pf_RequiredSuites p)"
proof -
  define joined where "joined = Join (sort (pf_RequiredSuites p)) '',''"
  have d: "distinct (map ns_ID (mx_Nodes m))" using assms(1) by (simp add: ValidateMatrix_iff matrix_ok_def)
  have "evidence_ok e m p opts" using assms(2) by (simp add: evidence_iff [OF d])
  then have "evidence_ok (e\<lparr>eb_RequiredSuites := [joined]\<rparr>) m p opts"
    by (simp add: evidence_ok_def header_ok_def shaFields_def required_runs_def aggregates_def joined_def)
  moreover have "length s < length joined" if "s \<in> set (pf_RequiredSuites p)" for s
    unfolding joined_def using that assms(3) by (intro Join_longer) simp_all
  ultimately show ?thesis unfolding Let_def joined_def [symmetric] by (auto simp: evidence_iff [OF d])
qed

theorem comma_suites_accepted_witness:
  "ValidateEvidenceBundle (Some (sample_evidence [''conf,unit''])) (Some sample_matrix)
     (Some (sample_profile [''unit'', ''conf''])) no_expectations = None"
proof -
  let ?e = "sample_evidence [''unit'', ''conf'']" and ?p = "sample_profile [''unit'', ''conf'']"
  have "ValidateEvidenceBundle (Some ?e) (Some sample_matrix) (Some ?p) no_expectations = None"
    using evidence_iff [OF sample_distinct] sample_evidence_ok by simp
  from comma_suites_accepted [OF sample_matrix_valid this] show ?thesis by (simp add: sample_defs)
qed

end
