(* ===== verification/Runtime_Spec.thy ===== *)
theory Runtime_Spec
  imports Runtime Replay_Evidence_Spec
begin

text \<open>
  What the replay loop does to the machine: which commands it starts, in which order and with which environment, and
  what a successful run guarantees.

  The locale \<open>command_adapter\<close> is the contract between \<open>RunMatrix\<close> and an adapter: every step is the
  configured command, or nothing if none is configured. Both runtimes fulfil it for every command runner.
\<close>

section \<open>The environment of a command\<close>

lemma sortedKeys_set [simp]: "set (sortedKeys env) = fmdom' env" "sorted (sortedKeys env)" "distinct (sortedKeys env)"
  by (simp_all add: sortedKeys_def fmdom'_alt_def sorted_list_of_fset.rep_eq)

text \<open>What a process sees for a variable: the value of the last assignment to it.\<close>

fun env_lookup :: "string list \<Rightarrow> string \<Rightarrow> string option" where
  "env_lookup [] k = None"
| "env_lookup (a # as) k = (case env_lookup as k of Some v \<Rightarrow> Some v
     | None \<Rightarrow> if HasPrefix a (k @ ''='') then Some (drop (length k + 1) a) else None)"

lemma env_lookup_append: "env_lookup (xs @ ys) k = (case env_lookup ys k of Some v \<Rightarrow> Some v | None \<Rightarrow> env_lookup xs k)"
  by (induction xs) (auto split: option.split)

lemma assignment_prefix:
  assumes "CHR ''='' \<notin> set k" "CHR ''='' \<notin> set i"
  shows "HasPrefix (assignment env i) (k @ ''='') \<longleftrightarrow> i = k"
proof
  assume "HasPrefix (assignment env i) (k @ ''='')"
  then obtain t where t: "i @ ''='' @ (case fmlookup env i of Some v \<Rightarrow> v | None \<Rightarrow> []) = k @ ''='' @ t"
    by (auto simp: HasPrefix_iff assignment_def)
  have "takeWhile (\<lambda>c. c \<noteq> CHR ''='') (s @ ''='' @ u) = s" if "CHR ''='' \<notin> set s" for s u
    using that by (induction s) auto
  with assms t show "i = k" by metis
qed (auto simp: HasPrefix_iff assignment_def)

lemma env_lookup_assignments:
  assumes "CHR ''='' \<notin> set k" "\<forall>i\<in>set ks. CHR ''='' \<notin> set i" "set ks \<subseteq> fmdom' env"
  shows "env_lookup (map (assignment env) ks) k = (if k \<in> set ks then fmlookup env k else None)"
  using assms(2,3)
proof (induction ks)
  case (Cons i ks)
  have "HasPrefix (assignment env i) (k @ ''='') \<longleftrightarrow> i = k" using assms(1) Cons.prems(1) by (simp add: assignment_prefix)
  moreover have "drop (length k + 1) (assignment env k) = v" if "fmlookup env k = Some v" for v
    using that by (simp add: assignment_def)
  ultimately show ?case using Cons fmlookup_dom'_iff [of k env] by (auto split: option.split)
qed simp

section \<open>Adapters\<close>

definition run_world :: "('w, 'x) CommandRunner_scheme \<Rightarrow> string list \<Rightarrow> gomap \<Rightarrow> 'w \<Rightarrow> 'w" where
  "run_world R argv env w = (if argv = [] then w else snd (Run R argv env w))"

locale command_adapter =
  fixes A :: "'w NodeAdapter"
    and R :: "'w CommandRunner"
    and env :: "NodeSpec \<Rightarrow> string \<Rightarrow> string \<Rightarrow> int \<Rightarrow> gomap"
  assumes prepare: "snd (ad_Prepare A n b k w) = run_world R (rc_Prepare (ns_Runner n)) (env n b [] k) w"
    and replay: "snd (ad_RunReplay A n b ev k w) = run_world R (rc_Replay (ns_Runner n)) (env n b ev k) w"
    and cleanup: "snd (ad_Cleanup A n k w) = run_world R (rc_Cleanup (ns_Runner n)) (env n [] [] k) w"
begin

text \<open>One replay: the preparation fails, or the replay and the cleanup both happen.\<close>

lemma replay_steps:
  assumes "runReplay E A b tmp n k w = (res, w')"
  shows "let w1 = run_world R (rc_Prepare (ns_Runner n)) (env n b [] k) w;
       w2 = run_world R (rc_Replay (ns_Runner n)) (env n b (evidencePath tmp (ns_ID n) k) k) w1;
       w3 = run_world R (rc_Cleanup (ns_Runner n)) (env n [] [] k) w2
     in w' = w3 \<or> (w' = w1 \<and> isl res)"
proof -
  let ?w1 = "run_world R (rc_Prepare (ns_Runner n)) (env n b [] k) w"
  obtain e1 where p: "ad_Prepare A n b k w = (e1, ?w1)" using prepare [of n b k w] by (metis prod.collapse)
  show ?thesis
  proof (cases e1)
    case (Some e)
    with p assms show ?thesis by (auto simp: runReplay_def Let_def)
  next
    case None
    let ?w2 = "run_world R (rc_Replay (ns_Runner n)) (env n b (evidencePath tmp (ns_ID n) k) k) ?w1"
    let ?w3 = "run_world R (rc_Cleanup (ns_Runner n)) (env n [] [] k) ?w2"
    obtain e2 where r: "ad_RunReplay A n b (evidencePath tmp (ns_ID n) k) k ?w1 = (e2, ?w2)"
      using replay [of n b "evidencePath tmp (ns_ID n) k" k ?w1] by (metis prod.collapse)
    obtain e3 where c: "ad_Cleanup A n k ?w2 = (e3, ?w3)" using cleanup [of n k ?w2] by (metis prod.collapse)
    have "w' = ?w3" using assms p r c None by (auto simp: runReplay_def Let_def split: option.splits sum.splits)
    then show ?thesis by (simp add: Let_def)
  qed
qed

end

interpretation container: command_adapter "container_Adapter R" R container_commandEnv for R
  by unfold_locales
    (auto simp: container_Adapter_def container_Prepare_def container_RunReplay_def container_Cleanup_def run_world_def
      split: prod.split option.split)

interpretation libvirt: command_adapter "libvirt_Adapter R" R libvirt_commandEnv for R
  by unfold_locales
    (auto simp: libvirt_Adapter_def libvirt_Prepare_def libvirt_RunReplay_def libvirt_Cleanup_def run_world_def
      split: prod.split option.split)

lemma commandEnv_same: "libvirt_commandEnv = container_commandEnv"
  by (intro ext) (simp add: libvirt_commandEnv_def container_commandEnv_def)

lemma adapterFactory_cases:
  "adapterFactory H n = Inr A \<Longrightarrow> A = container_Adapter (OSRunner H) \<or> A = libvirt_Adapter (OSRunner H)"
  by (auto simp: adapterFactory_def container_NewAdapter_def libvirt_NewAdapter_def Let_def split: if_splits)

section \<open>Traces\<close>

text \<open>
  A world may keep a trace of the commands that were started. \<open>records\<close> says that a runner adds one entry per
  command, and nothing else changes the trace.
\<close>

definition records ::
  "('w, 'x) CommandRunner_scheme \<Rightarrow> ('w \<Rightarrow> 'c list) \<Rightarrow> (string list \<Rightarrow> gomap \<Rightarrow> 'c) \<Rightarrow> bool" where
  "records R trace entry \<longleftrightarrow> (\<forall>argv env w. argv \<noteq> [] \<longrightarrow> trace (snd (Run R argv env w)) = trace w @ [entry argv env])"

definition command :: "(string list \<Rightarrow> gomap \<Rightarrow> 'c) \<Rightarrow> string list \<Rightarrow> gomap \<Rightarrow> 'c list" where
  "command entry argv env = (if argv = [] then [] else [entry argv env])"

type_synonym lane = "NodeSpec \<times> int"

definition prepare_commands :: "(string list \<Rightarrow> gomap \<Rightarrow> 'c) \<Rightarrow> string \<Rightarrow> lane \<Rightarrow> 'c list" where
  "prepare_commands entry b l = (case l of (n, k) \<Rightarrow> command entry (rc_Prepare (ns_Runner n)) (container_commandEnv n b [] k))"

definition lane_commands :: "(string list \<Rightarrow> gomap \<Rightarrow> 'c) \<Rightarrow> string \<Rightarrow> string \<Rightarrow> lane \<Rightarrow> 'c list" where
  "lane_commands entry b tmp l = prepare_commands entry b l @ (case l of (n, k) \<Rightarrow>
       command entry (rc_Replay (ns_Runner n)) (container_commandEnv n b (evidencePath tmp (ns_ID n) k) k)
     @ command entry (rc_Cleanup (ns_Runner n)) (container_commandEnv n [] [] k))"

lemma run_world_trace: "records R trace entry \<Longrightarrow> trace (run_world R argv env w) = trace w @ command entry argv env"
  by (simp add: records_def run_world_def command_def)

context command_adapter
begin

lemma replay_trace:
  assumes "records R trace entry" "env = container_commandEnv" "runReplay E A b tmp n k w = (res, w')"
  shows "trace w' = trace w @ lane_commands entry b tmp (n, k)
     \<or> (trace w' = trace w @ prepare_commands entry b (n, k) \<and> isl res)"
  using replay_steps [OF assms(3)] run_world_trace [OF assms(1)] assms(2)
  by (auto simp: Let_def lane_commands_def prepare_commands_def)

end

text \<open>
  How far the lanes of a list have come: some are done, and of the next one perhaps only the preparation; a
  successful end has done all of them.
\<close>

definition progress :: "(lane \<Rightarrow> 'c list) \<Rightarrow> (lane \<Rightarrow> 'c list) \<Rightarrow> lane list \<Rightarrow> 'c list \<Rightarrow> bool \<Rightarrow> bool" where
  "progress full part todo t success \<longleftrightarrow> (\<exists>completed later tail. todo = completed @ later
     \<and> t = concat (map full completed) @ tail \<and> (tail = [] \<or> (\<exists>l ls. later = l # ls \<and> tail = part l))
     \<and> (success \<longrightarrow> later = [] \<and> tail = []))"

lemma progress_Nil [simp]: "progress full part [] [] success"
  by (simp add: progress_def)

lemma progress_success: "progress full part todo t True \<longleftrightarrow> t = concat (map full todo)"
  by (auto simp: progress_def)

lemma progress_append: "progress full part ys t success \<Longrightarrow> progress full part (xs @ ys) (concat (map full xs) @ t) success"
  unfolding progress_def by (metis append.assoc concat_append map_append)

lemma progress_stop: "progress full part xs t False \<Longrightarrow> progress full part (xs @ ys) t False"
  unfolding progress_def by (metis append.assoc append_Cons)

lemma progress_weaken: "progress full part xs t s \<Longrightarrow> (s' \<Longrightarrow> s) \<Longrightarrow> progress full part xs t s'"
  unfolding progress_def by blast

lemma progress_full: "progress full part (l # ls) (full l) False"
  unfolding progress_def by (rule exI [of _ "[l]"]) simp

lemma progress_part: "progress full part (l # ls) (part l) False"
  unfolding progress_def by (rule exI [of _ "[]"]) (simp del: split_paired_Ex)

text \<open>An adapter of either runtime over a runner that records.\<close>

definition runtime_adapter :: "'w CommandRunner \<Rightarrow> 'w NodeAdapter \<Rightarrow> bool" where
  "runtime_adapter R A \<longleftrightarrow> A = container_Adapter R \<or> A = libvirt_Adapter R"

lemma runtime_adapter_trace:
  assumes "runtime_adapter R A" "records R trace entry" "runReplay E A b tmp n k w = (res, w')"
  shows "trace w' = trace w @ lane_commands entry b tmp (n, k)
     \<or> (trace w' = trace w @ prepare_commands entry b (n, k) \<and> isl res)"
  using assms(1) container.replay_trace [OF assms(2) refl] libvirt.replay_trace [OF assms(2) commandEnv_same] assms(3)
  unfolding runtime_adapter_def by blast

lemma runReplays_progress:
  assumes "runtime_adapter R A" "records R trace entry" "runReplays E A b tmp n ks acc w = (res, w')"
  shows "\<exists>t. trace w' = trace w @ t
     \<and> progress (lane_commands entry b tmp) (prepare_commands entry b) (map (Pair n) ks) t (\<not> isl res)"
  using assms(3)
proof (induction ks arbitrary: acc w)
  case (Cons k ks)
  let ?full = "lane_commands entry b tmp" and ?part = "prepare_commands entry b"
  obtain r w1 where r: "runReplay E A b tmp n k w = (r, w1)" by fastforce
  note tr = runtime_adapter_trace [OF assms(1,2) r]
  show ?case
  proof (cases r)
    case (Inl e)
    with Cons.prems r have res: "res = Inl e" "w' = w1" by auto
    with tr show ?thesis
      using progress_full [of ?full ?part "(n, k)" "map (Pair n) ks"] progress_part [of ?full ?part "(n, k)" "map (Pair n) ks"]
      by auto
  next
    case (Inr v)
    with Cons.prems r have "runReplays E A b tmp n ks (acc @ [v]) w1 = (res, w')" by simp
    from Cons.IH [OF this] obtain t where t: "trace w' = trace w1 @ t"
      "progress ?full ?part (map (Pair n) ks) t (\<not> isl res)" by blast
    moreover have "trace w1 = trace w @ ?full (n, k)" using tr Inr by simp
    ultimately show ?thesis using progress_append [OF t(2), of "[(n, k)]"] by auto
  qed
qed simp

definition node_lanes :: "Profile \<Rightarrow> NodeSpec \<Rightarrow> lane list" where
  "node_lanes p n = map (Pair n) [1..requiredReplayCount n p]"

lemma runNodes_progress:
  assumes "\<forall>n A. factory n = Inr A \<longrightarrow> runtime_adapter R A" "records R trace entry"
    "runNodes E m p factory b ge tmp ids acc w = (res, w')"
  shows "\<exists>t. trace w' = trace w @ t
     \<and> progress (lane_commands entry b tmp) (prepare_commands entry b) (concat (map (\<lambda>i. node_lanes p (laneNode m ge i)) ids)) t (\<not> isl res)"
  using assms(3)
proof (induction ids arbitrary: acc w)
  case (Cons i ids)
  let ?full = "lane_commands entry b tmp" and ?part = "prepare_commands entry b" and ?n = "laneNode m ge i"
  let ?rest = "concat (map (\<lambda>i. node_lanes p (laneNode m ge i)) ids)"
  show ?case
  proof (cases "factory ?n")
    case (Inl e)
    with Cons.prems have "w' = w" "isl res" by (auto simp: Let_def)
    then show ?thesis using progress_stop [of ?full ?part "[]" "[]"] by (intro exI [of _ "[]"]) simp
  next
    case (Inr A)
    obtain r w1 where r: "runReplays E A b tmp ?n [1..requiredReplayCount ?n p] acc w = (r, w1)" by fastforce
    from runReplays_progress [OF assms(1) [rule_format, OF Inr] assms(2) r] obtain t1 where
      t1: "trace w1 = trace w @ t1" "progress ?full ?part (node_lanes p ?n) t1 (\<not> isl r)"
      by (auto simp: node_lanes_def)
    show ?thesis
    proof (cases r)
      case e: (Inl e)
      with Cons.prems r Inr have "w' = w1" "isl res" by (auto simp: Let_def)
      with t1 e progress_stop [of ?full ?part "node_lanes p ?n" t1 ?rest] show ?thesis by auto
    next
      case v: (Inr acc')
      with Cons.prems r Inr have "runNodes E m p factory b ge tmp ids acc' w1 = (res, w')" by (simp add: Let_def)
      from Cons.IH [OF this] obtain t2 where t2: "trace w' = trace w1 @ t2" "progress ?full ?part ?rest t2 (\<not> isl res)"
        by blast
      moreover have "t1 = concat (map ?full (node_lanes p ?n))" using t1(2) v by (simp add: progress_success)
      ultimately show ?thesis using t1(1) progress_append [OF t2(2), of "node_lanes p ?n"] by auto
    qed
  qed
qed simp

section \<open>RunMatrix\<close>

text \<open>All replays a profile demands, in the order of the code.\<close>

definition schedule :: "Matrix \<Rightarrow> Profile \<Rightarrow> RunOptions \<Rightarrow> lane list" where
  "schedule m p opts =
     concat (map (\<lambda>i. node_lanes p (laneNode m (ro_GlobalEnv opts) i)) (sorted_list_of_set (required_set m p)))"

text \<open>
  What the environment must keep: the variables this process passes on do not change, starting a process adds one
  entry to the trace, the file operations add none.
\<close>

definition journals :: "('w, 'x) host_scheme \<Rightarrow> ('w \<Rightarrow> (string list \<times> string list) list) \<Rightarrow> string list \<Rightarrow> bool" where
  "journals H trace base \<longleftrightarrow> (\<forall>w. Environ H w = base)
     \<and> (\<forall>argv env w. trace (snd (Exec H argv env w)) = trace w @ [(argv, env)])"

definition quiet :: "('w, 'x) replay_env_scheme \<Rightarrow> ('w \<Rightarrow> 'c list) \<Rightarrow> bool" where
  "quiet E trace \<longleftrightarrow> (\<forall>w. trace (snd (MkdirTemp E w)) = trace w) \<and> (\<forall>d w. trace (RemoveAll E d w) = trace w)"

definition started :: "string list \<Rightarrow> string list \<Rightarrow> gomap \<Rightarrow> string list \<times> string list" where
  "started base argv env = (argv, mergedEnviron base env)"

lemma OSRunner_records: "journals H trace base \<Longrightarrow> records (OSRunner H) trace (started base)"
  unfolding records_def journals_def OSRunner_def OSRunner_Run_def started_def
  by (auto split: prod.split option.split simp: Let_def) (metis snd_conv)+

lemma adapterFactory_runtime: "adapterFactory H n = Inr A \<Longrightarrow> runtime_adapter (OSRunner H) A"
  using adapterFactory_cases by (simp add: runtime_adapter_def)

lemma RunMatrix_run:
  assumes "RunMatrix E (Some m) (Some p) (Some factory) opts w = (res, w')" "matrix_ok m" "profile_ok p"
    "required_set m p \<subseteq> ns_ID ` set (mx_Nodes m)" "MkdirTemp E w = (Inr tmp, w1)"
  shows "\<exists>r w2. runNodes E m p factory (ro_BundlePath opts) (ro_GlobalEnv opts) tmp
      (sorted_list_of_set (required_set m p)) [] w1 = (r, w2) \<and> w' = RemoveAll E tmp w2
      \<and> res = (case r of Inl e \<Rightarrow> Inl e | Inr runs \<Rightarrow> finishBundle (newBundle E m p opts) m p opts runs)"
proof -
  let ?ids = "sorted_list_of_set (required_set m p)"
  have "requiredNodeIDs m p = Inr ?ids" using requiredNodeIDs_iff [of m p ?ids] assms(2,4) by (simp add: matrix_ok_def)
  then show ?thesis
    using assms ValidateMatrix_iff [of m] ValidateProfile_iff [of p]
    by (cases "runNodes E m p factory (ro_BundlePath opts) (ro_GlobalEnv opts) tmp ?ids [] w1")
       (auto simp: RunMatrix_def split: sum.splits)
qed

lemma RunMatrix_Inr:
  assumes "RunMatrix E (Some m) (Some p) fo opts w = (Inr e, w')"
  shows "matrix_ok m" "profile_ok p" "required_set m p \<subseteq> ns_ID ` set (mx_Nodes m)"
    "\<exists>factory tmp w1. fo = Some factory \<and> MkdirTemp E w = (Inr tmp, w1)"
proof -
  show m: "matrix_ok m" and "profile_ok p"
    using assms ValidateMatrix_iff [of m] ValidateProfile_iff [of p] by (auto simp: RunMatrix_def split: option.splits)
  show "required_set m p \<subseteq> ns_ID ` set (mx_Nodes m)"
    using assms requiredNodeIDs_iff [of m p] m by (auto simp: RunMatrix_def matrix_ok_def split: option.splits sum.splits)
  show "\<exists>factory tmp w1. fo = Some factory \<and> MkdirTemp E w = (Inr tmp, w1)"
    using assms by (auto simp: RunMatrix_def split: option.splits sum.splits prod.splits)
qed

section \<open>Properties\<close>

text \<open>
  What a command sees. The variables of the configuration override those of this process, variables that are not
  configured keep their inherited value: for names without "=" the last assignment in the merged list decides.
\<close>

theorem mergedEnviron_lookup:
  assumes "CHR ''='' \<notin> set k" "\<forall>i\<in>fmdom' env. CHR ''='' \<notin> set i"
  shows "env_lookup (mergedEnviron inherited env) k
    = (case fmlookup env k of Some v \<Rightarrow> Some v | None \<Rightarrow> env_lookup inherited k)"
proof -
  have "env_lookup (map (assignment env) (sortedKeys env)) k = fmlookup env k"
    using env_lookup_assignments [OF assms(1), of "sortedKeys env" env] assms(2) fmdom'_notD [of k env] by auto
  then show ?thesis by (simp add: mergedEnviron_def env_lookup_append)
qed

theorem mergedEnviron_lookup_witness:
  "env_lookup (mergedEnviron [''PATH=/bin'', ''LANG=C''] (fmupd ''PATH'' ''/x'' fmempty)) ''PATH'' = Some ''/x''"
  by (subst mergedEnviron_lookup) (simp_all add: fmdom'_fmupd)

text \<open>The error an adapter reports, without its text: the error of the runner inside it, if there is one.\<close>

definition inner_error :: "go_err \<Rightarrow> go_err option" where
  "inner_error e = (case e of Errorw msg e' \<Rightarrow> Some e' | _ \<Rightarrow> None)"

text \<open>Two steps have the same effect and the same outcome: both succeed, or both fail for the same reason.\<close>

definition same_step :: "go_err option \<times> 'w \<Rightarrow> go_err option \<times> 'w \<Rightarrow> bool" where
  "same_step x y \<longleftrightarrow> snd x = snd y \<and> rel_option (\<lambda>e e'. inner_error e = inner_error e') (fst x) (fst y)"

text \<open>What the runner answers to a command, and whether it reports an error.\<close>

definition command_error :: "('w, 'x) CommandRunner_scheme \<Rightarrow> string list \<Rightarrow> gomap \<Rightarrow> 'w \<Rightarrow> go_err option" where
  "command_error R argv env w = snd (fst (Run R argv env w))"

lemmas step_defs = container_Adapter_def container_Prepare_def container_RunReplay_def container_Cleanup_def
  libvirt_Adapter_def libvirt_Prepare_def libvirt_RunReplay_def libvirt_Cleanup_def commandEnv_same

text \<open>
  C31: the two runtimes do the same: for every runner, a step through the container adapter and the same step through
  the libvirt adapter leave the same world, and either both succeed or both fail with the same error of the runner inside
  their own text. A preparation or a cleanup succeeds exactly when no command is configured or the runner reports no
  error, a replay exactly when a command is configured and the runner reports no error.
\<close>

theorem runtimes_agree:
  fixes R :: "'w CommandRunner"
  shows "let C = container_Adapter R; L = libvirt_Adapter R in
     same_step (ad_Prepare C n b k w) (ad_Prepare L n b k w)
   \<and> same_step (ad_RunReplay C n b ev k w) (ad_RunReplay L n b ev k w)
   \<and> same_step (ad_Cleanup C n k w) (ad_Cleanup L n k w)
   \<and> (fst (ad_Prepare C n b k w) = None \<longleftrightarrow>
        rc_Prepare (ns_Runner n) = [] \<or> command_error R (rc_Prepare (ns_Runner n)) (container_commandEnv n b [] k) w = None)
   \<and> (fst (ad_RunReplay C n b ev k w) = None \<longleftrightarrow>
        rc_Replay (ns_Runner n) \<noteq> [] \<and> command_error R (rc_Replay (ns_Runner n)) (container_commandEnv n b ev k) w = None)
   \<and> (fst (ad_Cleanup C n k w) = None \<longleftrightarrow>
        rc_Cleanup (ns_Runner n) = [] \<or> command_error R (rc_Cleanup (ns_Runner n)) (container_commandEnv n [] [] k) w = None)"
proof -
  let ?C = "container_Adapter R" and ?L = "libvirt_Adapter R"
  have "same_step (ad_Prepare ?C n b k w) (ad_Prepare ?L n b k w)"
    "same_step (ad_RunReplay ?C n b ev k w) (ad_RunReplay ?L n b ev k w)"
    "same_step (ad_Cleanup ?C n k w) (ad_Cleanup ?L n k w)"
    by (auto simp: step_defs same_step_def inner_error_def errf_def split: prod.split option.split)
  then show ?thesis
    by (auto simp: Let_def step_defs command_error_def split: prod.splits option.splits)
qed

end
