(* ===== verification/Replay_Run_Spec.thy ===== *)
theory Replay_Run_Spec
  imports Runtime_Spec
begin

text \<open>
  The properties of the replay loop: the commands it starts, what its result guarantees, when it must succeed, and
  that it cannot succeed for a profile without the release gate.
\<close>

section \<open>Results\<close>

lemma finishBundle_Inr:
  assumes "finishBundle b m p opts runs = Inr e"
  shows "ValidateEvidenceBundle (Some e) (Some m) (Some p) (runExpectations m opts) = None"
    "eb_NodeReplays e = sortReplays runs" "eb_HardReleaseGate e = eb_HardReleaseGate b"
  using assms by (auto simp: finishBundle_def Let_def split: list.splits option.splits)

section \<open>What is collected\<close>

text \<open>
  One lane, told step by step: the factory gives an adapter, and the adapter prepares, replays and cleans up without
  an error, and \<open>r\<close> is the evidence that can then be loaded from the path the replay was given.
\<close>

definition lane_run ::
  "('w, 'x) replay_env_scheme \<Rightarrow> 'w AdapterFactory \<Rightarrow> string \<Rightarrow> string \<Rightarrow> lane \<Rightarrow> NodeRunEvidence \<Rightarrow> 'w \<Rightarrow> 'w \<Rightarrow> bool" where
  "lane_run E factory b tmp l r w w3 \<longleftrightarrow> (case l of (n, k) \<Rightarrow> \<exists>A w1 w2. factory n = Inr A
     \<and> ad_Prepare A n b k w = (None, w1) \<and> ad_RunReplay A n b (evidencePath tmp (ns_ID n) k) k w1 = (None, w2)
     \<and> ad_Cleanup A n k w2 = (None, w3) \<and> LoadNodeRunEvidence E (evidencePath tmp (ns_ID n) k) w3 = Inr r)"

text \<open>The lanes of a list, each in the world the previous one left, and the evidence they gave.\<close>

inductive collected ::
  "('w, 'x) replay_env_scheme \<Rightarrow> 'w AdapterFactory \<Rightarrow> string \<Rightarrow> string \<Rightarrow> lane list \<Rightarrow> NodeRunEvidence list \<Rightarrow> 'w \<Rightarrow> 'w \<Rightarrow> bool"
  for E factory b tmp where
  no_lane: "collected E factory b tmp [] [] w w"
| next_lane: "lane_run E factory b tmp l r w w1 \<Longrightarrow> collected E factory b tmp ls rs w1 w' \<Longrightarrow>
    collected E factory b tmp (l # ls) (r # rs) w w'"

inductive_simps collected_Nil [simp]: "collected E factory b tmp [] rs w w'"
inductive_simps collected_Cons: "collected E factory b tmp (l # ls) rs w w'"

lemma collected_append:
  "collected E factory b tmp (xs @ ys) rs w w' \<longleftrightarrow>
     (\<exists>rs1 rs2 w1. rs = rs1 @ rs2 \<and> collected E factory b tmp xs rs1 w w1 \<and> collected E factory b tmp ys rs2 w1 w')"
proof (induction xs arbitrary: rs w)
  case (Cons x xs)
  have "collected E factory b tmp ((x # xs) @ ys) rs w w' \<longleftrightarrow> (\<exists>r rs0 w0. rs = r # rs0 \<and> lane_run E factory b tmp x r w w0
      \<and> (\<exists>rs1 rs2 w1. rs0 = rs1 @ rs2 \<and> collected E factory b tmp xs rs1 w0 w1 \<and> collected E factory b tmp ys rs2 w1 w'))"
    unfolding append_Cons collected_Cons Cons.IH by blast
  also have "\<dots> \<longleftrightarrow> (\<exists>rs1 rs2 w1. rs = rs1 @ rs2 \<and> collected E factory b tmp (x # xs) rs1 w w1 \<and> collected E factory b tmp ys rs2 w1 w')"
    unfolding collected_Cons by (safe, metis append_Cons, metis append_Cons)
  finally show ?case .
qed auto

lemma collected_length: "collected E factory b tmp ls rs w w' \<Longrightarrow> length rs = length ls"
  by (induction rule: collected.induct) simp_all

lemma lane_run_iff:
  "factory n = Inr A \<Longrightarrow> lane_run E factory b tmp (n, k) r w w' \<longleftrightarrow> runReplay E A b tmp n k w = (Inr r, w')"
  by (auto simp: lane_run_def runReplay_def Let_def split: prod.splits option.splits sum.splits)

lemma runReplays_collected:
  assumes "factory n = Inr A"
  shows "runReplays E A b tmp n ks acc w = (Inr rs, w') \<longleftrightarrow>
     (\<exists>rs'. rs = acc @ rs' \<and> collected E factory b tmp (map (Pair n) ks) rs' w w')"
proof (induction ks arbitrary: acc w)
  case (Cons k ks)
  show ?case
  proof (cases "runReplay E A b tmp n k w")
    case (Pair r w1)
    with Cons.IH show ?thesis by (cases r) (auto simp: collected_Cons lane_run_iff [where factory = factory and n = n, OF assms])
  qed
qed auto

lemma runNodes_collected:
  assumes "\<forall>i\<in>set ids. 1 \<le> requiredReplayCount (laneNode m ge i) p"
  shows "runNodes E m p factory b ge tmp ids acc w = (Inr rs, w') \<longleftrightarrow>
     (\<exists>rs'. rs = acc @ rs' \<and> collected E factory b tmp (concat (map (\<lambda>i. node_lanes p (laneNode m ge i)) ids)) rs' w w')"
  using assms
proof (induction ids arbitrary: acc w)
  case (Cons i ids)
  let ?n = "laneNode m ge i" and ?rest = "concat (map (\<lambda>i. node_lanes p (laneNode m ge i)) ids)"
  show ?case
  proof (cases "factory ?n")
    case (Inl e)
    have "(?n, 1) \<in> set (node_lanes p ?n)" using Cons.prems by (simp add: node_lanes_def)
    then obtain k ls where "node_lanes p ?n = (?n, k) # ls" by (cases "node_lanes p ?n") (auto simp: node_lanes_def)
    with Inl show ?thesis by (auto simp: collected_Cons lane_run_def)
  next
    case (Inr A)
    have IH: "runNodes E m p factory b ge tmp ids acc w = (Inr rs, w')
        \<longleftrightarrow> (\<exists>rs'. rs = acc @ rs' \<and> collected E factory b tmp ?rest rs' w w')" for acc w
      using Cons by simp
    obtain r w1 where r: "runReplays E A b tmp ?n [1..requiredReplayCount ?n p] acc w = (r, w1)" by fastforce
    have s: "(r = Inr rs1 \<and> w1 = w2) \<longleftrightarrow> (\<exists>rs'. rs1 = acc @ rs' \<and> collected E factory b tmp (node_lanes p ?n) rs' w w2)" for rs1 w2
      using runReplays_collected [where factory = factory and n = ?n, OF Inr, of E b tmp "[1..requiredReplayCount ?n p]" acc w rs1 w2] r by (auto simp: node_lanes_def)
    have "runNodes E m p factory b ge tmp (i # ids) acc w = (Inr rs, w')
        \<longleftrightarrow> (\<exists>rs1. r = Inr rs1 \<and> runNodes E m p factory b ge tmp ids rs1 w1 = (Inr rs, w'))"
      using Inr r by (cases r) (simp_all add: Let_def)
    also have "\<dots> \<longleftrightarrow> (\<exists>rs1 w2. (r = Inr rs1 \<and> w1 = w2) \<and> (\<exists>rs'. rs = rs1 @ rs' \<and> collected E factory b tmp ?rest rs' w2 w'))"
      using IH by auto
    finally show ?thesis unfolding s list.map concat.simps collected_append by (metis append.assoc)
  qed
qed auto

section \<open>When every lane delivers\<close>

text \<open>
  The evidence of a lane: it names the lane, has passed, and carries the four digests \<open>ds\<close>.
\<close>

definition lane_evidence :: "string list \<Rightarrow> lane \<Rightarrow> NodeRunEvidence \<Rightarrow> bool" where
  "lane_evidence ds l r \<longleftrightarrow> (case l of (n, k) \<Rightarrow> re_NodeID r = ns_ID n \<and> re_Mode r = ns_Mode n \<and> re_Distro r = ns_Distro n
     \<and> re_KernelFamily r = ns_KernelFamily n \<and> re_ReplayIndex r = k \<and> 1 \<le> re_CaseCount r \<and> re_Passed r
     \<and> TrimSpace (re_SessionID r) \<noteq> [] \<and> TrimSpace (re_StartedAtUTC r) \<noteq> [] \<and> TrimSpace (re_CompletedAtUTC r) \<noteq> []
     \<and> run_digests r = ds)"

text \<open>In an environment where the outcome of a lane does not depend on the world, all lanes are collected.\<close>

lemma collected_all:
  assumes "\<forall>l\<in>set ls. \<forall>w. \<exists>w'. lane_run E factory b tmp l (ev l) w w'"
  shows "\<exists>w'. collected E factory b tmp ls (map ev ls) w w'"
  using assms
proof (induction ls arbitrary: w)
  case (Cons l ls)
  then obtain w1 where "lane_run E factory b tmp l (ev l) w w1" by (metis list.set_intros(1))
  moreover obtain w' where "collected E factory b tmp ls (map ev ls) w1 w'" using Cons by fastforce
  ultimately show ?case by (auto simp: collected_Cons)
qed (auto intro: no_lane)

lemma laneNode_keeps [simp]:
  "ns_ID (laneNode m ge i) = ns_ID (at_id (matrixByID m) i)" "ns_Mode (laneNode m ge i) = ns_Mode (at_id (matrixByID m) i)"
  "ns_Distro (laneNode m ge i) = ns_Distro (at_id (matrixByID m) i)"
  "ns_KernelFamily (laneNode m ge i) = ns_KernelFamily (at_id (matrixByID m) i)"
  "requiredReplayCount (laneNode m ge i) p = requiredReplayCount (at_id (matrixByID m) i) p"
  by (simp_all add: laneNode_def Let_def requiredReplayCount_def)

lemma at_id_node:
  assumes "matrix_ok m" "i \<in> ns_ID ` set (mx_Nodes m)"
  shows "at_id (matrixByID m) i \<in> set (mx_Nodes m) \<and> ns_ID (at_id (matrixByID m) i) = i"
proof -
  have d: "distinct (map ns_ID (mx_Nodes m))" using assms(1) by (simp add: matrix_ok_def)
  from assms(2) obtain n where "n \<in> set (mx_Nodes m)" "ns_ID n = i" by auto
  moreover from this have "matrixByID m i = Some n" using matrixByID_iff [OF d] by simp
  ultimately show ?thesis by (simp add: at_id_def)
qed

lemma schedule_iff:
  assumes "required_set m p \<subseteq> ns_ID ` set (mx_Nodes m)"
  shows "(n, k) \<in> set (schedule m p opts) \<longleftrightarrow>
     (\<exists>i\<in>required_set m p. n = laneNode m (ro_GlobalEnv opts) i \<and> 1 \<le> k \<and> k \<le> requiredReplayCount n p)"
proof -
  have "finite (required_set m p)" using assms finite_subset by blast
  then show ?thesis by (fastforce simp: schedule_def node_lanes_def)
qed

text \<open>What the options of a run must be for a bundle to be acceptable at all.\<close>

definition run_options_ok :: "Matrix \<Rightarrow> RunOptions \<Rightarrow> bool" where
  "run_options_ok m opts \<longleftrightarrow> list_all (hex_token 64)
       [ro_BundleSHA256 opts, ro_ControlBinarySHA256 opts, ro_MatrixSHA256 opts, ro_ProfileSHA256 opts]
     \<and> hex_token 40 (sourceCommit opts) \<and> set (sourceTag opts) \<inter> {CHR 0x20, CHR 0x09, CHR 0x0D, CHR 0x0A} = {}
     \<and> TrimSpace (mx_Architecture m) = mx_Architecture m"

lemma untagged_trim: "TrimSpace ''untagged'' = ''untagged''" "TrimSpace untagged_commit = untagged_commit"
proof -
  show "TrimSpace ''untagged'' = ''untagged''" by (rule TrimSpace_graphic) code_simp
  have "is_hex CHR ''0''" by code_simp
  then show "TrimSpace untagged_commit = untagged_commit" by (simp add: untagged_commit_def TrimSpace_hex list_all_iff)
qed

lemma source_trim: "TrimSpace (sourceCommit opts) = sourceCommit opts" "TrimSpace (sourceTag opts) = sourceTag opts"
    "sourceTag opts \<noteq> []"
  by (auto simp: sourceCommit_def sourceTag_def Let_def untagged_trim)

lemma finish_header:
  assumes "run_options_ok m opts" "pf_HardReleaseGate p" "list_all (hex_token 64) (run_digests base)" "mx_Architecture m \<noteq> []"
    "rs \<noteq> []"
  shows "header_ok ((newBundle E m p opts)\<lparr>eb_NodeReplays := rs, eb_AggregateCanonical := re_CanonicalSHA256 base,
      eb_AggregateVerify := re_VerifySHA256 base, eb_AggregateClass := re_FailureClassSHA256 base,
      eb_AggregateExitCode := re_ExitCodeSHA256 base\<rparr>) m p (runExpectations m opts)"
  using assms source_trim [of opts]
  by (simp add: header_ok_def newBundle_def runExpectations_def shaFields_def expectedArch_def run_options_ok_def run_digests_def)

lemma scheduled_lane:
  assumes "matrix_ok m" "required_set m p \<subseteq> ns_ID ` set (mx_Nodes m)" "list_all (hex_token 64) ds"
    and l: "(n, k) \<in> set (schedule m p opts)" and r: "lane_evidence ds (n, k) r"
  shows "re_NodeID r \<in> required_set m p \<and> run_digests r = ds \<and> run_ok m r"
proof -
  from l obtain i where i: "i \<in> required_set m p" "n = laneNode m (ro_GlobalEnv opts) i" "1 \<le> k"
    using schedule_iff [OF assms(2), of n k opts] by blast
  let ?n = "at_id (matrixByID m) i"
  have node: "?n \<in> set (mx_Nodes m)" "ns_ID ?n = i" using at_id_node [OF assms(1)] assms(2) i(1) by blast+
  have "ns_ID ` set (mx_Nodes m) \<subseteq> - {[]}" using assms(1) by (auto simp: matrix_ok_def node_ok_def list_all_iff)
  then have "i \<noteq> []" using i(1) assms(2) by auto
  with node i r assms(3) show ?thesis by (auto simp: lane_evidence_def run_ok_def intro!: bexI [of _ ?n])
qed

lemma every_lane:
  assumes "matrix_ok m" "required_set m p \<subseteq> ns_ID ` set (mx_Nodes m)"
    "list_all2 (lane_evidence ds) (schedule m p opts) runs" "n \<in> set (mx_Nodes m)" "ns_ID n \<in> required_set m p"
    "k \<in> {1..max (ns_Replays n) (pf_MinColdReplays p)}"
  shows "\<exists>r\<in>set runs. re_NodeID r = ns_ID n \<and> re_ReplayIndex r = k"
proof -
  have d: "distinct (map ns_ID (mx_Nodes m))" using assms(1) by (simp add: matrix_ok_def)
  let ?l = "(laneNode m (ro_GlobalEnv opts) (ns_ID n), k)"
  have at: "at_id (matrixByID m) (ns_ID n) = n" using assms(4) matrixByID_iff [OF d, of "ns_ID n" n] by (simp add: at_id_def)
  then have "requiredReplayCount (laneNode m (ro_GlobalEnv opts) (ns_ID n)) p = max (ns_Replays n) (pf_MinColdReplays p)"
    by (metis laneNode_keeps(5) requiredReplayCount_max)
  with assms(5,6) schedule_iff [OF assms(2), of _ k opts] have "?l \<in> set (schedule m p opts)" by auto
  then obtain r where "r \<in> set runs" "lane_evidence ds ?l r"
    using assms(3) by (metis in_set_conv_nth list_all2_conv_all_nth)
  with at show ?thesis by (auto simp: lane_evidence_def)
qed

lemma lanes_validate:
  assumes "matrix_ok m" "profile_ok p" "pf_HardReleaseGate p" "required_set m p \<subseteq> ns_ID ` set (mx_Nodes m)"
    "run_options_ok m opts" "list_all (hex_token 64) ds" "list_all2 (lane_evidence ds) (schedule m p opts) runs"
    "required_set m p \<noteq> {}"
  shows "\<exists>e. finishBundle (newBundle E m p opts) m p opts runs = Inr e"
proof -
  define rs where "rs = sortReplays runs"
  have rs: "set rs = set runs" by (simp add: rs_def sortReplays_def)
  have dist: "distinct (map ns_ID (mx_Nodes m))" using assms(1) by (simp add: matrix_ok_def)
  have all: "re_NodeID r \<in> required_set m p \<and> run_digests r = ds \<and> run_ok m r" if r: "r \<in> set rs" for r
  proof -
    obtain n k where "(n, k) \<in> set (schedule m p opts)" "lane_evidence ds (n, k) r"
      using assms(7) r rs by (metis in_set_conv_nth list_all2_conv_all_nth surj_pair)
    then show ?thesis by (rule scheduled_lane [OF assms(1,4,6)])
  qed
  note each = every_lane [OF assms(1,4,7)]
  obtain i where "i \<in> required_set m p" using assms(8) by blast
  with assms(4) obtain n where "n \<in> set (mx_Nodes m)" "ns_ID n \<in> required_set m p" by auto
  moreover have "1 \<in> {1..max (ns_Replays n) (pf_MinColdReplays p)}" using assms(2) by (auto simp: profile_ok_def)
  ultimately have "rs \<noteq> []" using each [of n 1] rs by auto
  then obtain base others where b: "rs = base # others" by (cases rs) auto
  have base: "run_digests base = ds" using all b by simp
  let ?e = "(newBundle E m p opts)\<lparr>eb_NodeReplays := rs, eb_AggregateCanonical := re_CanonicalSHA256 base,
      eb_AggregateVerify := re_VerifySHA256 base, eb_AggregateClass := re_FailureClassSHA256 base,
      eb_AggregateExitCode := re_ExitCodeSHA256 base\<rparr>"
  have runs: "required_runs ?e m p = set rs" using all by (auto simp: required_runs_def)
  have agg: "aggregates ?e = ds" using base by (simp add: aggregates_def run_digests_def)
  have "header_ok ?e m p (runExpectations m opts)"
    using finish_header [of m opts p base rs E] assms(1,3,5,6) base \<open>rs \<noteq> []\<close> by (simp add: matrix_ok_def)
  then have "evidence_ok ?e m p (runExpectations m opts)"
    using runs agg all each \<open>rs \<noteq> []\<close> assms(4) rs by (auto simp: evidence_ok_def newBundle_def)
  then have "ValidateEvidenceBundle (Some ?e) (Some m) (Some p) (runExpectations m opts) = None"
    by (simp add: evidence_iff [OF dist])
  then show ?thesis using b by (simp add: finishBundle_def rs_def)
qed

lemma required_nonempty: "matrix_ok m \<Longrightarrow> required_set m p \<noteq> {}"
  by (auto simp: matrix_ok_def required_set_def)

lemma schedule_count: "profile_ok p \<Longrightarrow> 1 \<le> requiredReplayCount n p"
  by (auto simp: requiredReplayCount_max profile_ok_def)

lemma runNodes_schedule:
  assumes "profile_ok p"
  shows "runNodes E m p factory b (ro_GlobalEnv opts) tmp (sorted_list_of_set (required_set m p)) [] w = (Inr runs, w')
    \<longleftrightarrow> collected E factory b tmp (schedule m p opts) runs w w'"
  using schedule_count [OF assms] by (simp add: runNodes_collected schedule_def)

lemma RunMatrix_finish:
  assumes "RunMatrix E (Some m) (Some p) fo opts w = (Inr e, w')"
  shows "\<exists>factory tmp w1 runs w2. fo = Some factory \<and> MkdirTemp E w = (Inr tmp, w1)
     \<and> collected E factory (ro_BundlePath opts) tmp (schedule m p opts) runs w1 w2
     \<and> w' = RemoveAll E tmp w2 \<and> finishBundle (newBundle E m p opts) m p opts runs = Inr e"
proof -
  note v = RunMatrix_Inr [OF assms]
  from v(4) obtain factory tmp w1 where f: "fo = Some factory" "MkdirTemp E w = (Inr tmp, w1)" by blast
  let ?run = "runNodes E m p factory (ro_BundlePath opts) (ro_GlobalEnv opts) tmp (sorted_list_of_set (required_set m p)) [] w1"
  from RunMatrix_run [OF assms [unfolded f] v(1-3) f(2)] obtain r w2 where r: "?run = (r, w2)" "w' = RemoveAll E tmp w2"
    "Inr e = (case r of Inl e \<Rightarrow> Inl e | Inr runs \<Rightarrow> finishBundle (newBundle E m p opts) m p opts runs)" by blast
  then obtain runs where runs: "?run = (Inr runs, w2)" "finishBundle (newBundle E m p opts) m p opts runs = Inr e"
    by (cases r) simp_all
  have "collected E factory (ro_BundlePath opts) tmp (schedule m p opts) runs w1 w2"
    using runs(1) by (simp only: runNodes_schedule [OF v(2)])
  with f r(2) runs(2) show ?thesis by blast
qed

lemma RunMatrix_trace:
  assumes "journals H trace base" "quiet E trace" "RunMatrix E (Some m) (Some p) (Some (adapterFactory H)) opts w = (res, w')"
  shows "\<exists>tmp t. trace w' = trace w @ t \<and> progress (lane_commands (started base) (ro_BundlePath opts) tmp)
      (prepare_commands (started base) (ro_BundlePath opts)) (schedule m p opts) t (\<not> isl res)"
proof (cases "matrix_ok m \<and> profile_ok p \<and> required_set m p \<subseteq> ns_ID ` set (mx_Nodes m) \<and> (\<exists>tmp w1. MkdirTemp E w = (Inr tmp, w1))")
  case True
  then obtain tmp w1 where t: "MkdirTemp E w = (Inr tmp, w1)" by blast
  from RunMatrix_run [OF assms(3)] True t obtain r w2 where
    r: "runNodes E m p (adapterFactory H) (ro_BundlePath opts) (ro_GlobalEnv opts) tmp (sorted_list_of_set (required_set m p)) [] w1 = (r, w2)"
      "w' = RemoveAll E tmp w2" "res = (case r of Inl e \<Rightarrow> Inl e | Inr runs \<Rightarrow> finishBundle (newBundle E m p opts) m p opts runs)"
    by blast
  have "\<forall>n A. adapterFactory H n = Inr A \<longrightarrow> runtime_adapter (OSRunner H) A" using adapterFactory_runtime by blast
  from runNodes_progress [OF this OSRunner_records [OF assms(1)] r(1)] obtain u where
    u: "trace w2 = trace w1 @ u" "progress (lane_commands (started base) (ro_BundlePath opts) tmp)
      (prepare_commands (started base) (ro_BundlePath opts)) (schedule m p opts) u (\<not> isl r)"
    by (auto simp: schedule_def)
  have "trace w1 = trace w" "trace w' = trace w2" using assms(2) t r(2) by (auto simp: quiet_def dest: spec [of _ w])
  moreover have "isl r \<longrightarrow> isl res" using r(3) by (cases r) auto
  then have "progress (lane_commands (started base) (ro_BundlePath opts) tmp)
      (prepare_commands (started base) (ro_BundlePath opts)) (schedule m p opts) u (\<not> isl res)"
    by (intro progress_weaken [OF u(2)]) blast
  ultimately show ?thesis using u(1) by auto
next
  case False
  have "isl res" using False RunMatrix_Inr [of E m p _ opts w _ w'] assms(3) by (cases res) auto
  moreover have "trace w' = trace w"
  proof -
    have "w' = w \<or> w' = snd (MkdirTemp E w)"
      using False assms(3) ValidateMatrix_iff [of m] ValidateProfile_iff [of p] requiredNodeIDs_iff [of m p]
      by (auto simp: RunMatrix_def matrix_ok_def split: option.splits sum.splits prod.splits)
    then show ?thesis using assms(2) by (auto simp: quiet_def)
  qed
  ultimately show ?thesis using progress_stop [of _ _ "[]" "[]"] by auto
qed

lemma RunMatrix_collects:
  assumes "ValidateMatrix (Some m) = None" "ValidateProfile (Some p) = None" "pf_HardReleaseGate p"
    "required_set m p \<subseteq> ns_ID ` set (mx_Nodes m)" "run_options_ok m opts" "MkdirTemp E w = (Inr tmp, w1)"
    "collected E factory (ro_BundlePath opts) tmp (schedule m p opts) runs w1 w2"
    "list_all (hex_token 64) ds" "list_all2 (lane_evidence ds) (schedule m p opts) runs"
  shows "\<exists>e. RunMatrix E (Some m) (Some p) (Some factory) opts w = (Inr e, RemoveAll E tmp w2)
     \<and> mset (eb_NodeReplays e) = mset runs"
proof -
  have ok: "matrix_ok m" "profile_ok p" using assms(1,2) by (simp_all add: ValidateMatrix_iff ValidateProfile_iff)
  let ?ids = "sorted_list_of_set (required_set m p)"
  obtain res w' where res: "RunMatrix E (Some m) (Some p) (Some factory) opts w = (res, w')" by fastforce
  have "runNodes E m p factory (ro_BundlePath opts) (ro_GlobalEnv opts) tmp ?ids [] w1 = (Inr runs, w2)"
    using assms(7) by (simp only: runNodes_schedule [OF ok(2)])
  with RunMatrix_run [OF res ok assms(4,6)] have
    s: "w' = RemoveAll E tmp w2" "res = finishBundle (newBundle E m p opts) m p opts runs" by auto
  obtain e where e: "finishBundle (newBundle E m p opts) m p opts runs = Inr e"
    using lanes_validate [OF ok assms(3-5,8,9) required_nonempty [OF ok(1)]] by blast
  moreover have "mset (eb_NodeReplays e) = mset runs"
    using finishBundle_Inr(2) [OF e] by (simp add: sortReplays_def)
  ultimately show ?thesis using res s by auto
qed

section \<open>A sample\<close>

text \<open>A world that is nothing but the journal of the commands started.\<close>

type_synonym journal = "(string list \<times> string list) list"

definition quiet_host :: "journal host" where
  "quiet_host = \<lparr>Environ = (\<lambda>_. [''PATH=/bin'']), Exec = (\<lambda>argv env w. (([], None), w @ [(argv, env)]))\<rparr>"

definition sample_lane :: "lane \<Rightarrow> NodeRunEvidence" where
  "sample_lane l = sample_run (ns_ID (fst l)) (ns_Mode (fst l)) (snd l)"

definition sample_files :: "journal replay_env" where
  "sample_files = \<lparr>wallClockNow = ''now'', MkdirTemp = (\<lambda>w. (Inr ''/tmp/r'', w)), RemoveAll = (\<lambda>d w. w),
     readFile = (\<lambda>path w. Inr (if path = ''/tmp/r/c1-replay-001.json'' then [0] else [1])),
     decodeRun = (\<lambda>t. Inr (if t = [0] then sample_run ''c1'' NodeModeContainer 1 else sample_run ''v1'' NodeModeVM 1))\<rparr>"

definition sample_options :: RunOptions where
  "sample_options = \<lparr>ro_BundlePath = ''b.tgz'', ro_BundleSHA256 = digest_of CHR ''1'',
     ro_ControlBinarySHA256 = digest_of CHR ''2'', ro_MatrixSHA256 = digest_of CHR ''3'', ro_ProfileSHA256 = digest_of CHR ''4'',
     ro_SourceGitCommit = [], ro_SourceGitTag = [], ro_Orchestrator = [], ro_GlobalEnv = fmempty, ro_Now = None\<rparr>"

lemma sample_valid:
  "ValidateMatrix (Some sample_matrix) = None" "ValidateProfile (Some (sample_profile [''s''])) = None"
  "pf_HardReleaseGate (sample_profile [''s''])"
  "required_set sample_matrix (sample_profile [''s'']) \<subseteq> ns_ID ` set (mx_Nodes sample_matrix)"
  "run_options_ok sample_matrix sample_options"
proof -
  show "ValidateMatrix (Some sample_matrix) = None" by (rule sample_matrix_valid)
  show "ValidateProfile (Some (sample_profile [''s''])) = None" "pf_HardReleaseGate (sample_profile [''s''])"
    by (simp_all add: ValidateProfile_iff profile_ok_def sample_defs)
  show "required_set sample_matrix (sample_profile [''s'']) \<subseteq> ns_ID ` set (mx_Nodes sample_matrix)"
    by (simp add: required_set_def sample_defs)
  have "TrimSpace ''x86_64'' = ''x86_64''" by (rule TrimSpace_graphic) code_simp
  then show "run_options_ok sample_matrix sample_options"
    using sample_hex hex_token_replicate [of "CHR ''0''" 40]
    by (simp add: run_options_ok_def sample_options_def sample_defs sourceCommit_def sourceTag_def untagged_commit_def)
qed

lemma sample_temp: "MkdirTemp sample_files [] = (Inr ''/tmp/r'', [])"
  by (simp add: sample_files_def)

lemma sample_digests: "list_all (hex_token 64) [digest_of CHR ''a'', digest_of CHR ''b'', digest_of CHR ''c'', digest_of CHR ''d'']"
  using sample_hex by simp

lemma sample_paths: "evidencePath ''/tmp/r'' ''v1'' 1 = ''/tmp/r/v1-replay-001.json''"
    "evidencePath ''/tmp/r'' ''c1'' 1 = ''/tmp/r/c1-replay-001.json''"
  by code_simp+

lemma sample_nodes: "laneNode sample_matrix fmempty ''c1'' = sample_node ''c1'' NodeModeContainer"
    "laneNode sample_matrix fmempty ''v1'' = sample_node ''v1'' NodeModeVM"
  by (simp_all add: laneNode_def at_id_def matrixByID_def sample_defs)

lemma sample_schedule: "schedule sample_matrix (sample_profile ts) sample_options
    = [(sample_node ''c1'' NodeModeContainer, 1), (sample_node ''v1'' NodeModeVM, 1)]"
proof -
  have "sorted_list_of_set {''c1'', ''v1''} = [''c1'', ''v1'']" by code_simp
  moreover have "node_lanes (sample_profile ts) (sample_node i m) = [(sample_node i m, 1)]" for i m
    by (simp add: node_lanes_def requiredReplayCount_def sample_profile_def sample_node_def)
  ultimately show ?thesis
    by (simp add: schedule_def sample_required sample_nodes sample_options_def)
qed

lemma sample_lane_run:
  assumes "(i, m) \<in> {(''c1'', NodeModeContainer), (''v1'', NodeModeVM)}"
  shows "\<exists>w'. lane_run sample_files (adapterFactory quiet_host) b ''/tmp/r'' (sample_node i m, 1) (sample_lane (sample_node i m, 1)) w w'"
  using assms sample_paths
  by (auto simp: lane_run_def Let_def adapterFactory_def NodeModeContainer_def NodeModeVM_def HasPrefix_def
      container_NewAdapter_def libvirt_NewAdapter_def step_defs
      OSRunner_def OSRunner_Run_def quiet_host_def sample_node_def LoadNodeRunEvidence_def sample_files_def
      sample_lane_def)

abbreviation sample_ds :: "string list" where
  "sample_ds \<equiv> [digest_of CHR ''a'', digest_of CHR ''b'', digest_of CHR ''c'', digest_of CHR ''d'']"

lemma sample_collected:
  "\<exists>w'. collected sample_files (adapterFactory quiet_host) b ''/tmp/r'' (schedule sample_matrix (sample_profile ts) sample_options)
     (map sample_lane (schedule sample_matrix (sample_profile ts) sample_options)) w w'"
  by (rule collected_all) (auto simp: sample_schedule intro!: sample_lane_run)

lemma sample_lanes: "list_all2 (lane_evidence sample_ds) (schedule sample_matrix (sample_profile ts) sample_options)
    (map sample_lane (schedule sample_matrix (sample_profile ts) sample_options))"
  by (simp add: sample_schedule lane_evidence_def sample_lane_def sample_run_def sample_node_def run_digests_def)

lemma sample_journals: "journals quiet_host id [''PATH=/bin'']" "quiet sample_files id"
  by (simp_all add: journals_def quiet_def quiet_host_def sample_files_def)

lemma sample_replay: "\<exists>e w'. RunMatrix sample_files (Some sample_matrix) (Some (sample_profile [''s''])) (Some (adapterFactory quiet_host))
    sample_options [] = (Inr e, w')"
  using RunMatrix_collects [OF sample_valid(1-5) sample_temp _ sample_digests sample_lanes] sample_collected by blast

section \<open>Properties\<close>

text \<open>
  C27: the commands of a replay. Whatever fails, the commands started are those of the first lanes of the schedule in
  order, each lane complete with preparation, replay and cleanup, and then at most the preparation of the next
  lane: a replay that was started is always cleaned up. A successful run has completed the schedule.
\<close>

theorem RunMatrix_commands:
  assumes "journals H trace base" "quiet E trace" "RunMatrix E (Some m) (Some p) (Some (adapterFactory H)) opts w = (res, w')"
  shows "\<exists>tmp completed later tail. schedule m p opts = completed @ later
     \<and> trace w' = trace w @ concat (map (lane_commands (started base) (ro_BundlePath opts) tmp) completed) @ tail
     \<and> (tail = [] \<or> (\<exists>l ls. later = l # ls \<and> tail = prepare_commands (started base) (ro_BundlePath opts) l))
     \<and> (\<not> isl res \<longrightarrow> later = [] \<and> tail = [])"
  using RunMatrix_trace [OF assms] unfolding progress_def by metis

theorem RunMatrix_commands_witness:
  "\<exists>tmp. snd (RunMatrix sample_files (Some sample_matrix) (Some (sample_profile [''s''])) (Some (adapterFactory quiet_host)) sample_options [])
     = concat (map (lane_commands (started [''PATH=/bin'']) ''b.tgz'' tmp)
         [(sample_node ''c1'' NodeModeContainer, 1), (sample_node ''v1'' NodeModeVM, 1)])"
proof -
  obtain e w' where r: "RunMatrix sample_files (Some sample_matrix) (Some (sample_profile [''s''])) (Some (adapterFactory quiet_host))
    sample_options [] = (Inr e, w')" using sample_replay by blast
  have "ro_BundlePath sample_options = ''b.tgz''" by (simp add: sample_options_def)
  with RunMatrix_commands [OF sample_journals r] r show ?thesis by (auto simp: sample_schedule)
qed

text \<open>
  C20: what a successful replay guarantees. A temporary directory was made, every lane of the schedule was prepared,
  replayed and cleaned up without an error by the adapter of its node, each in the world the previous one left, and the
  directory was removed in the end. The records of the bundle are exactly the evidence these lanes left at their paths, one
  for each lane, sorted by node and index, and the bundle passes the evidence gate for the inputs of the run.
\<close>

theorem RunMatrix_sound:
  assumes "RunMatrix E (Some m) (Some p) fo opts w = (Inr e, w')"
  shows "(\<exists>factory tmp w1 runs w2. fo = Some factory \<and> MkdirTemp E w = (Inr tmp, w1)
       \<and> collected E factory (ro_BundlePath opts) tmp (schedule m p opts) runs w1 w2
       \<and> w' = RemoveAll E tmp w2 \<and> mset (eb_NodeReplays e) = mset runs)
     \<and> evidence_ok e m p (runExpectations m opts) \<and> length (eb_NodeReplays e) = length (schedule m p opts)
     \<and> sorted (map (\<lambda>r. (re_NodeID r, re_ReplayIndex r)) (eb_NodeReplays e))"
proof -
  note v = RunMatrix_Inr [OF assms]
  from RunMatrix_finish [OF assms] obtain factory tmp w1 runs w2 where
    r: "fo = Some factory" "MkdirTemp E w = (Inr tmp, w1)" "w' = RemoveAll E tmp w2"
      "collected E factory (ro_BundlePath opts) tmp (schedule m p opts) runs w1 w2"
      "finishBundle (newBundle E m p opts) m p opts runs = Inr e" by blast
  have "evidence_ok e m p (runExpectations m opts)"
    using finishBundle_Inr(1) [OF r(5)] evidence_iff [of m e p] v(1) by (simp add: matrix_ok_def)
  then show ?thesis using r finishBundle_Inr(2) [OF r(5)] collected_length [OF r(4)] by (auto simp: sortReplays_def)
qed

theorem RunMatrix_sound_witness:
  "\<exists>e runs w1 w2. evidence_ok e sample_matrix (sample_profile [''s'']) (runExpectations sample_matrix sample_options)
     \<and> collected sample_files (adapterFactory quiet_host) (ro_BundlePath sample_options) ''/tmp/r''
         [(sample_node ''c1'' NodeModeContainer, 1), (sample_node ''v1'' NodeModeVM, 1)] runs w1 w2
     \<and> mset (eb_NodeReplays e) = mset runs"
proof -
  obtain e w' where "RunMatrix sample_files (Some sample_matrix) (Some (sample_profile [''s''])) (Some (adapterFactory quiet_host))
    sample_options [] = (Inr e, w')" using sample_replay by blast
  from RunMatrix_sound [OF this] show ?thesis unfolding sample_schedule sample_temp by auto
qed

text \<open>
  C28: a replay succeeds when it should. If matrix and profile are valid and the profile sets the hard release gate (without
  it see C32), the required nodes exist, the digests and the source identity in the options are well formed, the temporary
  directory can be made, and every lane of the schedule in turn runs without an error and leaves evidence that
  names the lane and has passed, with the same four digests for all, then the result is a bundle with just these records.
\<close>

theorem RunMatrix_succeeds:
  assumes "ValidateMatrix (Some m) = None" "ValidateProfile (Some p) = None" "pf_HardReleaseGate p"
    "required_set m p \<subseteq> ns_ID ` set (mx_Nodes m)" "run_options_ok m opts" "MkdirTemp E w = (Inr tmp, w1)"
    "collected E factory (ro_BundlePath opts) tmp (schedule m p opts) runs w1 w2"
    "list_all (hex_token 64) ds" "list_all2 (lane_evidence ds) (schedule m p opts) runs"
  shows "\<exists>e. RunMatrix E (Some m) (Some p) (Some factory) opts w = (Inr e, RemoveAll E tmp w2)
     \<and> mset (eb_NodeReplays e) = mset runs"
  by (rule RunMatrix_collects [OF assms])

theorem RunMatrix_succeeds_witness:
  "\<exists>e w'. RunMatrix sample_files (Some sample_matrix) (Some (sample_profile [''s''])) (Some (adapterFactory quiet_host))
       sample_options [] = (Inr e, w')
     \<and> mset (eb_NodeReplays e) = mset (map sample_lane (schedule sample_matrix (sample_profile [''s'']) sample_options))"
  using RunMatrix_succeeds [OF sample_valid(1-5) sample_temp _ sample_digests sample_lanes] sample_collected by blast

text \<open>
  C32: a profile without the hard release gate is valid, yet no replay for it ever succeeds: the evidence copies the
  flag of the profile, and the check at the end insists that it is set.
\<close>

theorem RunMatrix_needs_gate:
  assumes "\<not> pf_HardReleaseGate p"
  shows "isl (fst (RunMatrix E mo (Some p) fo opts w))"
proof (rule ccontr)
  assume "\<not> isl (fst (RunMatrix E mo (Some p) fo opts w))"
  then obtain e w' where r: "RunMatrix E mo (Some p) fo opts w = (Inr e, w')"
    by (cases "fst (RunMatrix E mo (Some p) fo opts w)") (auto simp: prod_eq_iff)
  then obtain m where m: "mo = Some m" by (cases mo) (auto simp: RunMatrix_def)
  note v = RunMatrix_Inr [OF r [unfolded m]]
  from RunMatrix_finish [OF r [unfolded m]] obtain runs where
    fin: "finishBundle (newBundle E m p opts) m p opts runs = Inr e" by blast
  have "\<not> eb_HardReleaseGate e" using finishBundle_Inr(3) [OF fin] assms by (simp add: newBundle_def)
  moreover have "header_ok e m p (runExpectations m opts)"
    using finishBundle_Inr(1) [OF fin] evidence_iff [of m e p] v(1) by (simp add: matrix_ok_def evidence_ok_def)
  ultimately show False by (simp add: header_ok_def)
qed

theorem RunMatrix_needs_gate_witness:
  "ValidateProfile (Some ((sample_profile [''s''])\<lparr>pf_HardReleaseGate := False\<rparr>)) = None
   \<and> isl (fst (RunMatrix sample_files (Some sample_matrix) (Some ((sample_profile [''s''])\<lparr>pf_HardReleaseGate := False\<rparr>))
       (Some (adapterFactory quiet_host)) sample_options []))"
  using RunMatrix_needs_gate [of "(sample_profile [''s''])\<lparr>pf_HardReleaseGate := False\<rparr>"]
  by (simp add: ValidateProfile_iff profile_ok_def sample_defs)

end
