(* ===== verification/Worker_Spec.thy ===== *)
theory Worker_Spec
  imports Worker Replay_Evidence_Spec Replay_Run_Spec
begin

text \<open>
  What the worker guarantees: it writes only below its own directory, it runs nothing from a bundle whose digests do
  not match, a bundle made by \<open>CreateBundle\<close> passes that check, every vector of a successful run met its
  expectations, and the evidence it writes is of the form the gate accepts.
\<close>

section \<open>Paths\<close>

lemma split_slash_plain: "plain e \<Longrightarrow> split_slash e = [e]"
proof -
  have "CHR ''/'' \<notin> set e \<Longrightarrow> split_slash e = [e]" by (induction e) auto
  then show "plain e \<Longrightarrow> ?thesis" by (simp add: plain_def)
qed

lemma split_slash_append: "split_slash (a @ CHR ''/'' # b) = split_slash a @ split_slash b"
proof (induction a)
  case (Cons c a)
  have "split_slash a \<noteq> []" by (cases a) (auto split: list.split)
  with Cons show ?case by (auto split: list.split)
qed simp

lemma split_slash_Join: "es \<noteq> [] \<Longrightarrow> list_all plain es \<Longrightarrow> split_slash (Join es ''/'') = es"
proof (induction es)
  case (Cons e es)
  then show ?case using split_slash_append [of e "Join es ''/''"]
    by (cases "es = []") (auto simp: Join_slash split_slash_plain)
qed simp

lemma clean_plain: "list_all plain es \<Longrightarrow> clean_elems rooted acc es = rev acc @ es"
  by (induction es arbitrary: acc) (auto simp: plain_def)

text \<open>A directory as \<^verbatim>\<open>MkdirTemp\<close> returns it: absolute and cleaned.\<close>

definition abs_dir :: "string list \<Rightarrow> string" where
  "abs_dir ds = CHR ''/'' # Join ds ''/''"

lemma Join_abs_dir:
  assumes "list_all plain ds" "ds \<noteq> []" "list_all plain es" "es \<noteq> []"
  shows "filepath_Join [abs_dir ds, Join es ''/''] = abs_dir (ds @ es)"
proof -
  have "Join es ''/'' \<noteq> []" using assms(3,4) by (cases es) (auto simp: Join_slash plain_def)
  then have "filepath_Join [abs_dir ds, Join es ''/''] = path_Clean (abs_dir ds @ ''/'' @ Join es ''/'')"
    by (simp add: filepath_Join_def abs_dir_def)
  also have "\<dots> = ''/'' @ Join (clean_elems True [] ([] # ds @ es)) ''/''"
  proof -
    have "split_slash (abs_dir ds @ ''/'' @ Join es ''/'') = [] # ds @ es"
      using split_slash_append [of "[]" "Join ds ''/'' @ ''/'' @ Join es ''/''"]
        split_slash_append [of "Join ds ''/''" "Join es ''/''"] assms
      by (simp add: abs_dir_def split_slash_Join)
    then show ?thesis by (simp add: path_Clean_def abs_dir_def Let_def)
  qed
  also have "clean_elems True [] ([] # ds @ es) = ds @ es" using assms by (simp add: clean_plain)
  finally show ?thesis by (simp add: abs_dir_def)
qed

lemma tarTarget_cases:
  assumes "tarTarget (abs_dir ds) name = Inr t" "list_all plain ds" "ds \<noteq> []"
  shows "path_Clean name = ''..'' \<or> (\<exists>es. es \<noteq> [] \<and> list_all plain es \<and> t = abs_dir (ds @ es))"
proof -
  from assms(1) have g: "path_Clean name \<noteq> ''.''" "\<not> HasPrefix (path_Clean name) ''../''" "\<not> HasPrefix (path_Clean name) ''/''"
    and t: "t = filepath_Join [abs_dir ds, path_Clean name]"
    by (auto simp: tarTarget_def Let_def split: if_splits)
  from path_Clean_cases [of name] g have "path_Clean name = ''..'' \<or> confined (path_Clean name)" by blast
  then show ?thesis using t Join_abs_dir [OF assms(2,3)] by (auto simp: confined_def)
qed

section \<open>Digests of a bundle\<close>

lemma mapString_upd [simp]: "mapString (fmupd a b m) k = (if k = a then b else mapString m k)"
  by (simp add: mapString_def)

text \<open>A file has the digest \<open>d\<close>.\<close>

definition has_digest :: "('w, 'x) worker_env_scheme \<Rightarrow> string \<Rightarrow> 'w \<Rightarrow> string \<Rightarrow> string \<Rightarrow> bool" where
  "has_digest E rootDir w p d \<longleftrightarrow> (\<exists>t. we_readFile E (filepath_Join [rootDir, p]) w = Inr t \<and> Hex E t = d)"

lemma checkDigest_iff: "checkDigest E rootDir w p want fmt = None \<longleftrightarrow> has_digest E rootDir w p want"
  by (auto simp: checkDigest_def has_digest_def fileSHA256_def split: sum.splits)

definition bundle_digests_ok :: "('w, 'x) worker_env_scheme \<Rightarrow> string \<Rightarrow> BundleManifest \<Rightarrow> 'w \<Rightarrow> bool" where
  "bundle_digests_ok E rootDir m w \<longleftrightarrow>
     (\<forall>p\<in>{bm_BinaryPath m, bm_WorkerPath m, bm_MatrixPath m, bm_ProfilePath m}.
        TrimSpace p \<noteq> [] \<and> TrimSpace (mapString (coreChecks m) p) \<noteq> [] \<and> has_digest E rootDir w p (mapString (coreChecks m) p))
   \<and> (\<forall>p\<in>set (bm_VectorFiles m). mapString (bm_VectorSHA256 m) p \<noteq> [] \<and> has_digest E rootDir w p (mapString (bm_VectorSHA256 m) p))
   \<and> Hex E (Join (sort (map (\<lambda>p. p @ '':'' @ mapString (bm_VectorSHA256 m) p) (bm_VectorFiles m))) [CHR 0x0A]) = bm_VectorSetSHA256 m"

lemma coreChecks_dom: "fmdom' (coreChecks m) = {bm_BinaryPath m, bm_WorkerPath m, bm_MatrixPath m, bm_ProfilePath m}"
  by (auto simp: coreChecks_def fmdom'_fmupd)

lemma verify_iff: "verifyExtractedBundle E rootDir m w = None \<longleftrightarrow> bundle_digests_ok E rootDir m w"
proof -
  have 1: "verifyCoreChecksums E rootDir m w = None \<longleftrightarrow>
      (\<forall>p\<in>{bm_BinaryPath m, bm_WorkerPath m, bm_MatrixPath m, bm_ProfilePath m}.
        TrimSpace p \<noteq> [] \<and> TrimSpace (mapString (coreChecks m) p) \<noteq> [] \<and> has_digest E rootDir w p (mapString (coreChecks m) p))"
    unfolding verifyCoreChecksums_def first_error_map sortedKeys_set coreChecks_dom Let_def
    by (intro ball_cong refl) (simp add: checkDigest_iff)
  have 2: "verifyVectorChecksums E rootDir m w = None \<longleftrightarrow>
      (\<forall>p\<in>set (bm_VectorFiles m). mapString (bm_VectorSHA256 m) p \<noteq> [] \<and> has_digest E rootDir w p (mapString (bm_VectorSHA256 m) p))"
    unfolding verifyVectorChecksums_def first_error_map Let_def
    by (intro ball_cong refl) (simp add: checkDigest_iff)
  show ?thesis
    by (simp add: verifyExtractedBundle_def bundle_digests_ok_def 1 2 verifyVectorSetChecksum_def Let_def)
qed

section \<open>Created bundles\<close>

definition vectorEntry :: "string \<times> string \<Rightarrow> bundleEntry" where
  "vectorEntry vt = \<lparr>en_path = vectorRel (fst vt), en_data = snd vt, en_mode = 0x1A4\<rparr>"

lemma addVectors_Inr:
  "addVectors E w vs s = Inr s' \<Longrightarrow> \<exists>vts. map fst vts = vs \<and> vs_files s' = vs_files s @ map (vectorRel \<circ> fst) vts
     \<and> vs_entries s' = vs_entries s @ map vectorEntry vts
     \<and> vs_input s' = vs_input s @ map (\<lambda>(v, t). vectorRel v @ '':'' @ sha256Hex E t) vts
     \<and> vs_digests s' = fold (\<lambda>(v, t). fmupd (vectorRel v) (sha256Hex E t)) vts (vs_digests s)"
proof (induction vs arbitrary: s)
  case (Cons v vs)
  then obtain t where t: "be_ReadFile E v w = Inr t" by (auto split: sum.splits)
  let ?s = "\<lparr>vs_files = vs_files s @ [vectorRel v], vs_digests = fmupd (vectorRel v) (sha256Hex E t) (vs_digests s),
     vs_input = vs_input s @ [vectorRel v @ '':'' @ sha256Hex E t],
     vs_entries = vs_entries s @ [\<lparr>en_path = vectorRel v, en_data = t, en_mode = 0x1A4\<rparr>]\<rparr>"
  have "addVectors E w vs ?s = Inr s'" using Cons.prems t by (simp add: Let_def)
  from Cons.IH [OF this] obtain vts where "map fst vts = vs" "vs_files s' = vs_files ?s @ map (vectorRel \<circ> fst) vts"
    "vs_entries s' = vs_entries ?s @ map vectorEntry vts"
    "vs_input s' = vs_input ?s @ map (\<lambda>(v, t). vectorRel v @ '':'' @ sha256Hex E t) vts"
    "vs_digests s' = fold (\<lambda>(v, t). fmupd (vectorRel v) (sha256Hex E t)) vts (vs_digests ?s)" by blast
  then show ?case by (intro exI [of _ "(v, t) # vts"]) (simp add: vectorEntry_def)
qed simp

lemma fold_digests:
  "distinct (map (vectorRel \<circ> fst) vts) \<Longrightarrow> (v, t) \<in> set vts \<Longrightarrow>
     mapString (fold (\<lambda>(v, t). fmupd (vectorRel v) (sha256Hex E t)) vts m) (vectorRel v) = sha256Hex E t"
proof (induction vts arbitrary: m)
  case (Cons x vts)
  have keep: "vectorRel v \<notin> (vectorRel \<circ> fst) ` set vts \<Longrightarrow>
      mapString (fold (\<lambda>(v, t). fmupd (vectorRel v) (sha256Hex E t)) vts m) (vectorRel v) = mapString m (vectorRel v)" for v vts m
    by (induction vts arbitrary: m) auto
  show ?case
  proof (cases "x = (v, t)")
    case True
    with Cons.prems(1) keep [of v vts] show ?thesis by simp
  next
    case False
    with Cons show ?thesis by auto
  qed
qed simp

lemma sort_mset: "mset xs = mset ys \<Longrightarrow> sort xs = (sort ys :: string list)"
  by (metis sorted_list_of_multiset_mset)

text \<open>What a created bundle consists of.\<close>

lemma bundleContents_Inr:
  assumes "bundleContents E opts w = Inr (m, es)" "distinct (map en_path es)"
  shows "\<exists>c s vts json. m = newManifest E opts c s \<and> be_encode E m = Inr json
     \<and> mset es = mset (coreEntries c @ map vectorEntry vts @ [manifestEntry json])
     \<and> bm_VectorFiles m = sort (map (vectorRel \<circ> fst) vts) \<and> vts \<noteq> []
     \<and> (\<forall>(v, t)\<in>set vts. mapString (bm_VectorSHA256 m) (vectorRel v) = sha256Hex E t)
     \<and> bm_VectorSetSHA256 m = sha256Hex E (Join (sort (map (\<lambda>p. p @ '':'' @ mapString (bm_VectorSHA256 m) p) (bm_VectorFiles m))) [CHR 0x0A])"
proof -
  from assms(1) obtain c vs s json where
    vs: "vs \<noteq> []" and s: "addVectors E w (sort vs) \<lparr>vs_files = [], vs_digests = fmempty, vs_input = [], vs_entries = coreEntries c\<rparr> = Inr s"
    and m: "m = newManifest E opts c s" and j: "be_encode E m = Inr json" and es: "es = sort_key en_path (vs_entries s @ [manifestEntry json])"
    by (auto simp: bundleContents_def Let_def split: sum.splits if_splits)
  from addVectors_Inr [OF s] obtain vts where v: "map fst vts = sort vs" "vs_files s = map (vectorRel \<circ> fst) vts"
    "vs_entries s = coreEntries c @ map vectorEntry vts"
    "vs_input s = map (\<lambda>(v, t). vectorRel v @ '':'' @ sha256Hex E t) vts"
    "vs_digests s = fold (\<lambda>(v, t). fmupd (vectorRel v) (sha256Hex E t)) vts fmempty" by auto
  have e: "mset es = mset (coreEntries c @ map vectorEntry vts @ [manifestEntry json])" by (simp add: es v(3))
  then have "mset (map en_path es) = mset (map en_path (coreEntries c @ map vectorEntry vts @ [manifestEntry json]))"
    by (metis mset_map)
  with assms(2) have "distinct (map en_path (coreEntries c @ map vectorEntry vts @ [manifestEntry json]))"
    by (metis mset_eq_imp_distinct_iff)
  then have "distinct (map en_path (map vectorEntry vts))" by simp
  then have d: "distinct (map (vectorRel \<circ> fst) vts)" by (simp add: comp_def vectorEntry_def)
  have look: "\<forall>(v, t)\<in>set vts. mapString (bm_VectorSHA256 m) (vectorRel v) = sha256Hex E t"
    using fold_digests [OF d] by (auto simp: m newManifest_def v(5))
  then have "vs_input s = map (\<lambda>p. p @ '':'' @ mapString (bm_VectorSHA256 m) p) (vs_files s)" by (auto simp: v(2,4))
  then have "sort (vs_input s) = sort (map (\<lambda>p. p @ '':'' @ mapString (bm_VectorSHA256 m) p) (bm_VectorFiles m))"
    by (intro sort_mset) (simp add: m newManifest_def)
  then have "bm_VectorSetSHA256 m
      = sha256Hex E (Join (sort (map (\<lambda>p. p @ '':'' @ mapString (bm_VectorSHA256 m) p) (bm_VectorFiles m))) [CHR 0x0A])"
    by (simp add: m newManifest_def)
  moreover have "vts \<noteq> []" using vs v(1) by (metis list.map_disc_iff mset_sort mset_zero_iff_right)
  moreover have "bm_VectorFiles m = sort (map (vectorRel \<circ> fst) vts)" by (simp add: m newManifest_def v(2))
  ultimately show ?thesis using e look m j by blast
qed

lemma hexEncode_Nil: "hexEncode b = [] \<longleftrightarrow> b = []"
  by (metis length_0_conv length_hexEncode mult_eq_0_iff zero_neq_numeral)

lemma TrimSpace_digest: "TrimSpace (hexEncode b) = hexEncode b"
  by (rule TrimSpace_hex) (rule list_all_hexEncode)

text \<open>Files that are those of the bundle have the digests of its manifest.\<close>

lemma bundle_verifies:
  assumes "bundleContents E opts w = Inr (m, es)" "distinct (map en_path es)" "\<forall>t. be_Sum256 E t \<noteq> []"
    "we_Sum256 W = be_Sum256 E" "\<forall>e\<in>set es. we_readFile W (filepath_Join [rootDir, en_path e]) w' = Inr (en_data e)"
  shows "bundle_digests_ok W rootDir m w'"
proof -
  from bundleContents_Inr [OF assms(1,2)] obtain c s vts json where
    m: "m = newManifest E opts c s" and es: "mset es = mset (coreEntries c @ map vectorEntry vts @ [manifestEntry json])"
    and v: "bm_VectorFiles m = sort (map (vectorRel \<circ> fst) vts)"
      "\<forall>(v, t)\<in>set vts. mapString (bm_VectorSHA256 m) (vectorRel v) = sha256Hex E t"
      "bm_VectorSetSHA256 m = sha256Hex E (Join (sort (map (\<lambda>p. p @ '':'' @ mapString (bm_VectorSHA256 m) p) (bm_VectorFiles m))) [CHR 0x0A])"
    by blast
  have set: "set es = set (coreEntries c) \<union> vectorEntry ` set vts \<union> {manifestEntry json}"
    using mset_eq_setD [OF es] by auto
  have H: "Hex W t = sha256Hex E t" for t by (simp add: Hex_def sha256Hex_def assms(4))
  have ne: "sha256Hex E t \<noteq> [] \<and> TrimSpace (sha256Hex E t) \<noteq> []" for t
    using assms(3) by (simp add: sha256Hex_def TrimSpace_digest hexEncode_Nil)
  have dig: "has_digest W rootDir w' (en_path e) (sha256Hex E (en_data e))" if "e \<in> set es" for e
    using assms(5) that by (auto simp: has_digest_def H)
  have trim: "TrimSpace ''bundle/jcs-canon'' \<noteq> []" "TrimSpace ''bundle/jcs-offline-worker'' \<noteq> []"
    "TrimSpace ''bundle/matrix.yaml'' \<noteq> []" "TrimSpace ''bundle/profile.yaml'' \<noteq> []" by code_simp+
  have core: "\<forall>e\<in>set (coreEntries c). TrimSpace (en_path e) \<noteq> [] \<and> mapString (coreChecks m) (en_path e) = sha256Hex E (en_data e)"
    using trim by (simp add: coreEntries_def coreChecks_def m newManifest_def)
  have paths: "{bm_BinaryPath m, bm_WorkerPath m, bm_MatrixPath m, bm_ProfilePath m} = en_path ` set (coreEntries c)"
    by (simp add: coreEntries_def m newManifest_def)
  have "\<forall>p\<in>en_path ` set (coreEntries c). TrimSpace p \<noteq> [] \<and> TrimSpace (mapString (coreChecks m) p) \<noteq> []
      \<and> has_digest W rootDir w' p (mapString (coreChecks m) p)"
    using core ne dig set by auto
  moreover have "mapString (bm_VectorSHA256 m) p \<noteq> [] \<and> has_digest W rootDir w' p (mapString (bm_VectorSHA256 m) p)"
    if p: "p \<in> set (bm_VectorFiles m)" for p
  proof -
    from p v(1) obtain a t where a: "(a, t) \<in> set vts" "p = vectorRel a" by auto
    with v(2) have "mapString (bm_VectorSHA256 m) p = sha256Hex E t" by auto
    moreover have "vectorEntry (a, t) \<in> set es" using a(1) set by auto
    from dig [OF this] have "has_digest W rootDir w' p (sha256Hex E t)" by (simp add: vectorEntry_def a(2))
    ultimately show ?thesis using ne by simp
  qed
  ultimately show ?thesis unfolding bundle_digests_ok_def paths using v(3) by (simp add: H)
qed

section \<open>Vectors\<close>

text \<open>One executed vector: the case, its command, and what the program did.\<close>

type_synonym outcome = "vectorCase \<times> string \<times> cliResult"

definition meets :: "vectorCase \<Rightarrow> cliResult \<Rightarrow> bool" where
  "meets v res \<longleftrightarrow> exitCode res = vc_WantExit v \<and> vc_WantStdout v \<in> {None, Some (res_stdout res)}
     \<and> vc_WantStderr v \<in> {None, Some (res_stderr res)} \<and> (\<forall>t\<in>set_option (vc_WantStderrContains v). Contains (res_stderr res) t)"

lemma assertVectorResult_iff: "assertVectorResult rel n v res = None \<longleftrightarrow> meets v res"
  by (cases "vc_WantStdout v"; cases "vc_WantStderr v") (auto simp: assertVectorResult_def meets_def)

definition record_all :: "outcome list \<Rightarrow> digests \<Rightarrow> digests" where
  "record_all os = fold (\<lambda>(v, mode, res). recordDigests (vc_ID v) mode res) os"

definition vector_command :: "vectorCase \<Rightarrow> string list" where
  "vector_command v = (if vc_Args v \<noteq> [] then vc_Args v else [vc_Mode v, ''-''])"

text \<open>
  The outcomes of a list of lines: one per line that is a case, each with the case its line decodes to, and a result
  that a process started for this case gave and that is as the case expects.
\<close>

definition outcome_of :: "('w, 'x) worker_env_scheme \<Rightarrow> string \<Rightarrow> string \<Rightarrow> outcome \<Rightarrow> bool" where
  "outcome_of E bin l out \<longleftrightarrow> (case out of (v, mode, res) \<Rightarrow> we_decodeVector E (TrimSpace l) = Inr v \<and> meets v res
     \<and> mode = hd (vector_command v) \<and> (\<exists>w w'. we_Start E bin (vector_command v) (vc_Input v) None w = (Exited res, w')))"

definition outcomes_of :: "('w, 'x) worker_env_scheme \<Rightarrow> string \<Rightarrow> string list \<Rightarrow> outcome list \<Rightarrow> bool" where
  "outcomes_of E bin ls os \<longleftrightarrow> list_all2 (outcome_of E bin) (filter isCase ls) os"

text \<open>The program under test does not change the files of vectors.\<close>

definition keeps_vectors :: "('w, 'x) worker_env_scheme \<Rightarrow> bool" where
  "keeps_vectors E \<longleftrightarrow> (\<forall>bin args input env p w. we_openLines E p (snd (we_Start E bin args input env w)) = we_openLines E p w)"

lemma runCLI_Inr:
  assumes "runCLI E bin args input fmempty w = (Inr res, w')"
  shows "we_Start E bin args input None w = (Exited res, w')"
  using assms by (auto simp: runCLI_def split: prod.splits process_end.splits)

lemma runCLI_keeps: "keeps_vectors E \<Longrightarrow> we_openLines E p (snd (runCLI E bin args input ov w)) = we_openLines E p w"
  unfolding keeps_vectors_def runCLI_def by (auto split: prod.split process_end.split) (metis snd_conv)+

lemma processVectorLine_Inr:
  assumes "processVectorLine E bin rel n (TrimSpace l) d w = (Inr d', w')"
  shows "\<exists>v mode res. outcome_of E bin l (v, mode, res) \<and> d' = recordDigests (vc_ID v) mode res d"
    and "keeps_vectors E \<Longrightarrow> we_openLines E p w' = we_openLines E p w"
proof -
  from assms obtain v where v: "we_decodeVector E (TrimSpace l) = Inr v" by (auto simp: processVectorLine_def split: sum.splits)
  with assms obtain args where a: "vectorArgs v rel n = Inr args" by (auto simp: processVectorLine_def split: sum.splits)
  from v a assms obtain res where res: "runCLI E bin args (vc_Input v) fmempty w = (Inr res, w')"
    "assertVectorResult rel n v res = None" "d' = recordDigests (vc_ID v) (hd args) res d"
    by (auto simp: processVectorLine_def split: sum.splits option.splits prod.splits)
  have "args = vector_command v" using a by (auto simp: vectorArgs_def vector_command_def split: if_splits)
  with v res runCLI_Inr [OF res(1)] show "\<exists>v mode res. outcome_of E bin l (v, mode, res) \<and> d' = recordDigests (vc_ID v) mode res d"
    unfolding outcome_of_def assertVectorResult_iff by auto
  show "we_openLines E p w' = we_openLines E p w" if "keeps_vectors E" using runCLI_keeps [OF that] res(1) by (metis snd_conv)
qed

lemma runLines_Inr:
  "runLines E bin rel n x ls d w = (Inr (y, d'), w') \<Longrightarrow>
     (\<exists>os. outcomes_of E bin ls os \<and> y = x + int (length os) \<and> d' = record_all os d)
     \<and> (keeps_vectors E \<longrightarrow> we_openLines E p w' = we_openLines E p w)"
proof (induction ls arbitrary: n x d w)
  case Nil
  then show ?case by (auto simp: outcomes_of_def record_all_def)
next
  case (Cons l ls)
  show ?case
  proof (cases "isCase l")
    case False
    with Cons.prems have "runLines E bin rel (n + 1) x ls d w = (Inr (y, d'), w')" by simp
    from Cons.IH [OF this] False show ?thesis by (simp add: outcomes_of_def)
  next
    case True
    then obtain d1 w1 where p: "processVectorLine E bin rel (n + 1) (TrimSpace l) d w = (Inr d1, w1)"
      and r: "runLines E bin rel (n + 1) (x + 1) ls d1 w1 = (Inr (y, d'), w')"
      using Cons.prems by (auto split: prod.splits sum.splits)
    from processVectorLine_Inr(1) [OF p] obtain v mode res where
      v: "outcome_of E bin l (v, mode, res)" "d1 = recordDigests (vc_ID v) mode res d" by blast
    from Cons.IH [OF r] obtain os where os: "outcomes_of E bin ls os" "y = x + 1 + int (length os)" "d' = record_all os d1" by blast
    have "outcomes_of E bin (l # ls) ((v, mode, res) # os)" using True v os(1) by (simp add: outcomes_of_def)
    moreover have "y = x + int (length ((v, mode, res) # os))" using os(2) by simp
    moreover have "d' = record_all ((v, mode, res) # os) d" using os(3) v(2) by (simp add: record_all_def)
    moreover have "keeps_vectors E \<longrightarrow> we_openLines E p w' = we_openLines E p w"
      using Cons.IH [OF r] processVectorLine_Inr(2) [OF p] by simp
    ultimately show ?thesis by blast
  qed
qed

text \<open>A vector file that can be read to its end: all its lines fit the buffer.\<close>

definition readable :: "('w, 'x) worker_env_scheme \<Rightarrow> 'w \<Rightarrow> string \<Rightarrow> string \<Rightarrow> bool" where
  "readable E w path body \<longleftrightarrow> we_openLines E path w = Inr (body, None)
     \<and> list_all (\<lambda>l. length l < maxVectorLineBytes) (splitLines body)"

definition file_lines :: "string \<Rightarrow> string list" where
  "file_lines body = map dropCR (splitLines body)"

lemma scanLines_None:
  "scanLines k body readErr = (ls, None) \<longleftrightarrow> list_all (\<lambda>l. length l < k) (splitLines body) \<and> readErr = None
     \<and> ls = map dropCR (splitLines body)"
proof -
  let ?P = "\<lambda>l :: string. length l < k"
  have eq: "\<not> length (takeWhile ?P xs) < length xs \<longleftrightarrow> list_all ?P xs" for xs by (induction xs) auto
  have tk: "takeWhile ?P xs = xs" if "list_all ?P xs" for xs using that by (simp add: takeWhile_eq_all_conv list_all_iff)
  show ?thesis
  proof (cases "list_all ?P (splitLines body)")
    case True
    show ?thesis unfolding scanLines_def Let_def tk [OF True] using True by auto
  next
    case False
    with eq [of "splitLines body"] show ?thesis by (auto simp: scanLines_def Let_def)
  qed
qed

lemma runVectorFile_Inr:
  assumes "runVectorFile E bin rootDir rel d w = (Inr (c, d1), w1)"
  shows "\<exists>body os. readable E w (filepath_Join [rootDir, rel]) body \<and> outcomes_of E bin (file_lines body) os
     \<and> c = int (length os) \<and> d1 = record_all os d"
    and "keeps_vectors E \<Longrightarrow> we_openLines E p w1 = we_openLines E p w"
proof -
  from assms obtain body readErr where f: "we_openLines E (filepath_Join [rootDir, rel]) w = Inr (body, readErr)"
    by (auto simp: runVectorFile_def split: sum.splits)
  obtain ls err where sc: "scanLines maxVectorLineBytes body readErr = (ls, err)" by fastforce
  with assms f have r: "runLines E bin rel 0 0 ls d w = (Inr (c, d1), w1)" and e: "err = None"
    by (auto simp: runVectorFile_def split: sum.splits prod.splits option.splits)
  from sc e have "readErr = None" "ls = file_lines body" "list_all (\<lambda>l. length l < maxVectorLineBytes) (splitLines body)"
    by (auto simp: scanLines_None file_lines_def)
  with f r runLines_Inr [OF r] show "\<exists>body os. readable E w (filepath_Join [rootDir, rel]) body
      \<and> outcomes_of E bin (file_lines body) os \<and> c = int (length os) \<and> d1 = record_all os d"
    by (auto simp: readable_def)
  show "we_openLines E p w1 = we_openLines E p w" if "keeps_vectors E" using runLines_Inr [OF r] that by blast
qed

lemma outcomes_append: "outcomes_of E bin xs os \<Longrightarrow> outcomes_of E bin ys ps \<Longrightarrow> outcomes_of E bin (xs @ ys) (os @ ps)"
  by (simp add: outcomes_of_def list_all2_appendI)

lemma runVectorFiles_Inr:
  assumes "keeps_vectors E"
  shows "runVectorFiles E bin rootDir rels x d w = (Inr (y, d'), w') \<Longrightarrow>
     \<exists>fs os. list_all2 (\<lambda>rel. readable E w (filepath_Join [rootDir, rel])) rels fs
       \<and> outcomes_of E bin (concat (map file_lines fs)) os \<and> y = x + int (length os) \<and> d' = record_all os d"
proof (induction rels arbitrary: x d w)
  case Nil
  then show ?case by (intro exI [of _ "[]"]) (simp add: outcomes_of_def record_all_def)
next
  case (Cons rel rels)
  then obtain c d1 w1 where f: "runVectorFile E bin rootDir rel d w = (Inr (c, d1), w1)"
    and r: "runVectorFiles E bin rootDir rels (x + c) d1 w1 = (Inr (y, d'), w')"
    by (auto split: prod.splits sum.splits)
  from runVectorFile_Inr(1) [OF f] obtain body os where b: "readable E w (filepath_Join [rootDir, rel]) body"
    and os: "outcomes_of E bin (file_lines body) os" "c = int (length os)" "d1 = record_all os d" by blast
  have keep: "readable E w1 p t \<longleftrightarrow> readable E w p t" for p t using runVectorFile_Inr(2) [OF f assms] by (simp add: readable_def)
  from Cons.IH [OF r] obtain fs ps where
    ps: "list_all2 (\<lambda>rel. readable E w (filepath_Join [rootDir, rel])) rels fs"
      "outcomes_of E bin (concat (map file_lines fs)) ps" "y = x + c + int (length ps)" "d' = record_all ps d1"
    unfolding keep by blast
  show ?case
  proof (intro exI conjI)
    show "list_all2 (\<lambda>rel. readable E w (filepath_Join [rootDir, rel])) (rel # rels) (body # fs)" using b ps(1) by simp
    show "outcomes_of E bin (concat (map file_lines (body # fs))) (os @ ps)" using outcomes_append [OF os(1) ps(2)] by simp
    show "y = x + int (length (os @ ps))" using ps(3) os(2) by simp
    show "d' = record_all (os @ ps) d" using ps(4) os(3) by (simp add: record_all_def)
  qed
qed

text \<open>All vectors of a manifest have been run and met: the number and the digests are those of the outcomes.\<close>

definition vectors_met ::
  "('w, 'x) worker_env_scheme \<Rightarrow> string \<Rightarrow> string \<Rightarrow> BundleManifest \<Rightarrow> digests \<Rightarrow> 'w \<Rightarrow> int \<Rightarrow> digests \<Rightarrow> bool" where
  "vectors_met E bin rootDir m d w n d' \<longleftrightarrow> (\<exists>fs os.
     list_all2 (\<lambda>rel. readable E w (filepath_Join [rootDir, rel])) (sort (bm_VectorFiles m)) fs
     \<and> outcomes_of E bin (concat (map file_lines fs)) os
     \<and> n = int (length (filter isCase (concat (map file_lines fs)))) \<and> 0 < n \<and> d' = record_all os d)"

lemma runVectors_Inr:
  assumes "keeps_vectors E" "runVectors E bin rootDir m d w = (Inr (n, d'), w')"
  shows "vectors_met E bin rootDir m d w n d'"
proof -
  from assms(2) have r: "runVectorFiles E bin rootDir (sort (bm_VectorFiles m)) 0 d w = (Inr (n, d'), w')" "n \<noteq> 0"
    by (auto simp: runVectors_def split: prod.splits sum.splits if_splits)
  from runVectorFiles_Inr [OF assms(1) r(1)] obtain fs os where
    f: "list_all2 (\<lambda>rel. readable E w (filepath_Join [rootDir, rel])) (sort (bm_VectorFiles m)) fs"
    and os: "outcomes_of E bin (concat (map file_lines fs)) os" "n = int (length os)" "d' = record_all os d" by auto
  have "length (filter isCase (concat (map file_lines fs))) = length os"
    using os(1) by (simp add: outcomes_of_def list_all2_lengthD)
  with f os r(2) show ?thesis unfolding vectors_met_def by (intro exI [of _ fs] exI [of _ os]) simp
qed

section \<open>Extraction\<close>

text \<open>The paths at or below a directory.\<close>

definition below :: "string list \<Rightarrow> string \<Rightarrow> bool" where
  "below ds p \<longleftrightarrow> (\<exists>es. list_all plain es \<and> p = abs_dir (ds @ es))"

lemma split_slash_end: "split_slash (a @ ''/'') = split_slash a @ [[]]"
  using split_slash_append [of a "[]"] by simp

lemma Dir_abs_dir:
  assumes "list_all plain ds" "ds \<noteq> []" "plain e"
  shows "filepath_Dir (abs_dir (ds @ [e])) = abs_dir ds"
proof -
  have j: "Join (ds @ [e]) ''/'' = Join ds ''/'' @ ''/'' @ e"
    using assms(2) by (induction ds) (auto simp: Join_slash)
  have "takeWhile (\<lambda>c. c \<noteq> CHR ''/'') (rev e) = rev e" "dropWhile (\<lambda>c. c \<noteq> CHR ''/'') (rev e) = []"
    using assms(3) by (auto simp: plain_def takeWhile_eq_all_conv dropWhile_eq_Nil_conv)
  then have "dropWhile (\<lambda>c. c \<noteq> CHR ''/'') (rev (abs_dir (ds @ [e]))) = CHR ''/'' # rev (abs_dir ds)"
    by (simp add: abs_dir_def j dropWhile_append)
  then have "filepath_Dir (abs_dir (ds @ [e])) = path_Clean (abs_dir ds @ ''/'')" by (simp add: filepath_Dir_def)
  also have "\<dots> = ''/'' @ Join (clean_elems True [] ([] # ds @ [[]])) ''/''"
    using split_slash_append [of "[]" "Join ds ''/''"] assms split_slash_end [of "abs_dir ds"]
    by (simp add: path_Clean_def abs_dir_def Let_def split_slash_Join)
  also have "clean_elems True [] ([] # ds @ [[]]) = ds"
  proof -
    have "clean_elems True acc (ds @ [[]]) = rev acc @ ds" for acc
      using assms(1) by (induction ds arbitrary: acc) (auto simp: plain_def)
    from this [of "[]"] show ?thesis by simp
  qed
  finally show ?thesis by (simp add: abs_dir_def)
qed

lemma below_child: "list_all plain es \<Longrightarrow> below ds (abs_dir (ds @ es))"
  by (auto simp: below_def)

text \<open>The target of an entry and its directory.\<close>

lemma tarTarget_below:
  assumes "tarTarget (abs_dir ds) name = Inr t" "list_all plain ds" "ds \<noteq> []" "path_Clean name \<noteq> ''..''"
  shows "below ds t \<and> below ds (filepath_Dir t)"
proof -
  from tarTarget_cases [OF assms(1-3)] assms(4) obtain es where es: "es \<noteq> []" "list_all plain es" "t = abs_dir (ds @ es)" by blast
  then obtain fs f where f: "es = fs @ [f]" by (metis append_butlast_last_id)
  then have "filepath_Dir t = abs_dir (ds @ fs)"
    using es Dir_abs_dir [of "ds @ fs" f] assms(2,3) by (simp add: append_assoc)
  then show ?thesis using es f by (auto intro: below_child)
qed

text \<open>The guard lets one name through that leaves the directory: ".." leads to the parent.\<close>

lemma tarTarget_dotdot: "tarTarget ''/tmp/out'' ''..'' = Inr ''/tmp''"
  by code_simp

definition regular_names :: "tar_item list \<Rightarrow> bool" where
  "regular_names items \<longleftrightarrow> (\<forall>h body. TarEntry h body \<in> set items \<longrightarrow> path_Clean (th_Name h) \<noteq> ''..'')"

lemma extractTarFile_keeps:
  assumes "list_all plain ds" "ds \<noteq> []" "path_Clean (th_Name h) \<noteq> ''..''"
    and keep: "\<forall>p w. below ds p \<and> P w \<longrightarrow> P (snd (we_MkdirAll E p w))" "\<forall>p k w. below ds p \<and> P w \<longrightarrow> P (snd (we_Create E p k w))"
      "\<forall>p b n w. below ds p \<and> P w \<longrightarrow> P (snd (we_CopyN E p b n w))" "\<forall>p w. below ds p \<and> P w \<longrightarrow> P (snd (we_Close E p w))"
    and "P w"
  shows "P (snd (extractTarFile E (abs_dir ds) h body w))"
proof (cases "tarTarget (abs_dir ds) (th_Name h)")
  case (Inl e)
  with assms show ?thesis by (simp add: extractTarFile_def)
next
  case (Inr t)
  have b: "below ds t" "below ds (filepath_Dir t)" using tarTarget_below [OF Inr assms(1-3)] by auto
  have m: "P w1" if "we_MkdirAll E (filepath_Dir t) w = (r, w1)" for r w1 using keep(1) b(2) \<open>P w\<close> that by (metis snd_conv)
  have c: "P w2" if "we_Create E t k w1 = (r, w2)" "P w1" for k r w1 w2 using keep(2) b(1) that by (metis snd_conv)
  have y: "P w3" if "copyTarContent E t h body w2 = (r, w3)" "P w2" for r w2 w3
  proof -
    from keep(3) b(1) that(2) have "P (snd (we_CopyN E t body (th_Size h) w2))" by blast
    then show ?thesis using that by (auto simp: copyTarContent_def split: if_splits prod.splits option.splits)
  qed
  have z: "P (snd (we_Close E t w3))" if "P w3" for w3 using keep(4) b(1) that by blast
  have z': "P w4" if "we_Close E t w3 = (r, w4)" "P w3" for r w3 w4 using z [OF that(2)] that(1) by simp
  show ?thesis
    unfolding extractTarFile_def Inr sum.case
    by (auto split: prod.split option.split dest: m c y z' intro: z)
qed

lemma extractEntries_keeps:
  assumes "list_all plain ds" "ds \<noteq> []"
    and keep: "\<forall>p w. below ds p \<and> P w \<longrightarrow> P (snd (we_MkdirAll E p w))" "\<forall>p k w. below ds p \<and> P w \<longrightarrow> P (snd (we_Create E p k w))"
      "\<forall>p b n w. below ds p \<and> P w \<longrightarrow> P (snd (we_CopyN E p b n w))" "\<forall>p w. below ds p \<and> P w \<longrightarrow> P (snd (we_Close E p w))"
  shows "regular_names items \<Longrightarrow> P w \<Longrightarrow> P (snd (extractEntries E (abs_dir ds) items w))"
proof (induction items arbitrary: w)
  case (Cons it items)
  have r: "regular_names items" using Cons.prems(1) by (auto simp: regular_names_def)
  show ?case
  proof (cases it)
    case (TarEntry h body)
    have "path_Clean (th_Name h) \<noteq> ''..''" using Cons.prems(1) TarEntry by (auto simp: regular_names_def)
    from extractTarFile_keeps [OF assms(1,2) this keep Cons.prems(2)] Cons.IH [OF r] Cons.prems(2) TarEntry
    show ?thesis by (auto split: prod.splits option.splits) (metis snd_conv)+
  qed (use Cons.prems in simp)
qed simp

section \<open>From a created bundle to a verified directory\<close>

lemma confined_head: "confined p \<Longrightarrow> p \<noteq> [] \<and> hd p \<noteq> CHR ''/''"
proof -
  assume "confined p"
  then obtain es where es: "es \<noteq> []" "list_all plain es" "p = Join es ''/''" by (auto simp: confined_def)
  then obtain e fs where e: "es = e # fs" by (cases es) auto
  then have "e \<noteq> []" "CHR ''/'' \<notin> set e" using es by (auto simp: plain_def)
  then have "hd e \<noteq> CHR ''/''" by (metis hd_in_set)
  then show ?thesis using es e \<open>e \<noteq> []\<close> by (simp add: Join_slash)
qed

lemma Clean_confined: "confined p \<Longrightarrow> path_Clean p = p"
proof -
  assume "confined p"
  then obtain es where es: "es \<noteq> []" "list_all plain es" "p = Join es ''/''" by (auto simp: confined_def)
  have ne: "p \<noteq> []" "hd p \<noteq> CHR ''/''" using confined_head \<open>confined p\<close> by auto
  then have "path_Clean p = (let r = Join (clean_elems False [] (split_slash p)) ''/'' in if r = [] then ''.'' else r)"
    by (simp add: path_Clean_def Let_def)
  also have "split_slash p = es" using es split_slash_Join by simp
  finally show ?thesis using es ne by (simp add: clean_plain Let_def)
qed

lemma confined_target:
  assumes "confined p" "list_all plain ds" "ds \<noteq> []"
  shows "tarTarget (abs_dir ds) p = Inr (filepath_Join [abs_dir ds, p])"
    and "\<exists>es. es \<noteq> [] \<and> list_all plain es \<and> p = Join es ''/'' \<and> filepath_Join [abs_dir ds, p] = abs_dir (ds @ es)"
proof -
  from assms(1) obtain es where es: "es \<noteq> []" "list_all plain es" "p = Join es ''/''" by (auto simp: confined_def)
  then show "\<exists>es. es \<noteq> [] \<and> list_all plain es \<and> p = Join es ''/'' \<and> filepath_Join [abs_dir ds, p] = abs_dir (ds @ es)"
    using Join_abs_dir [OF assms(2,3)] by auto

  have "\<not> HasPrefix p ''../''"
  proof
    assume "HasPrefix p ''../''"
    then obtain s where s: "p = ''..'' @ CHR ''/'' # s" by (auto simp: HasPrefix_iff)
    have "split_slash p = ''..'' # split_slash s" using split_slash_append [of "''..''" s] by (simp add: s)
    with split_slash_Join [OF es(1,2)] es(2,3) show False by (auto simp: plain_def)
  qed
  moreover have "p \<noteq> ''.''" using assms(1) dotdot_confined by auto
  moreover have "\<not> HasPrefix p ''/''" using confined_head [OF assms(1)] by (auto simp: HasPrefix_iff)
  ultimately show "tarTarget (abs_dir ds) p = Inr (filepath_Join [abs_dir ds, p])"
    using Clean_confined [OF assms(1)] by (simp add: tarTarget_def Let_def)
qed

lemma abs_dir_inject: "list_all plain xs \<Longrightarrow> list_all plain ys \<Longrightarrow> xs \<noteq> [] \<Longrightarrow> ys \<noteq> [] \<Longrightarrow> abs_dir xs = abs_dir ys \<Longrightarrow> xs = ys"
  by (metis abs_dir_def list.inject split_slash_Join)

lemma Join_confined_inject:
  assumes "confined p" "confined q" "list_all plain ds" "ds \<noteq> []" "filepath_Join [abs_dir ds, p] = filepath_Join [abs_dir ds, q]"
  shows "p = q"
proof -
  from confined_target(2) [OF assms(1,3,4)] confined_target(2) [OF assms(2,3,4)] obtain es fs where
    "es \<noteq> []" "list_all plain es" "p = Join es ''/''" "fs \<noteq> []" "list_all plain fs" "q = Join fs ''/''"
    "abs_dir (ds @ es) = abs_dir (ds @ fs)" using assms(5) by metis
  with abs_dir_inject [of "ds @ es" "ds @ fs"] assms(3,4) show ?thesis by simp
qed

text \<open>
  What the calls on files promise when they succeed, for paths below the directory: a call changes the file it names
  and no other; a created file is empty, and \<^verbatim>\<open>CopyN\<close> appends what it copies.
\<close>

definition file_laws :: "('w, 'x) worker_env_scheme \<Rightarrow> string list \<Rightarrow> bool" where
  "file_laws E ds \<longleftrightarrow>
     (\<forall>d w w' q. we_MkdirAll E d w = (None, w') \<and> below ds q \<longrightarrow> we_readFile E q w' = we_readFile E q w)
   \<and> (\<forall>p k w w' q. we_Create E p k w = (None, w') \<and> below ds p \<and> below ds q
        \<longrightarrow> we_readFile E q w' = (if q = p then Inr [] else we_readFile E q w))
   \<and> (\<forall>p t n w w' q. we_CopyN E p (Inr t) n w = (None, w') \<and> we_readFile E p w = Inr [] \<and> below ds p \<and> below ds q
        \<longrightarrow> we_readFile E q w' = (if q = p then Inr (take (nat n) t) else we_readFile E q w))
   \<and> (\<forall>p w w' q. we_Close E p w = (None, w') \<and> below ds q \<longrightarrow> we_readFile E q w' = we_readFile E q w)"

text \<open>The item of an archive that a written entry is read back as.\<close>

definition tar_of :: "bundleEntry \<Rightarrow> tar_item" where
  "tar_of e = TarEntry (tarHeader e) (Inr (en_data e))"

lemma extractTarFile_reads:
  assumes "file_laws E ds" "list_all plain ds" "ds \<noteq> []" "confined (en_path e)"
    "extractTarFile E (abs_dir ds) (tarHeader e) (Inr (en_data e)) w = (None, w')" "below ds q"
  shows "we_readFile E q w' = (if q = filepath_Join [abs_dir ds, en_path e] then Inr (en_data e) else we_readFile E q w)"
proof -
  let ?t = "filepath_Join [abs_dir ds, en_path e]"
  have tar: "tarTarget (abs_dir ds) (en_path e) = Inr ?t" by (rule confined_target(1) [OF assms(4,2,3)])
  have b: "below ds ?t" using confined_target(2) [OF assms(4,2,3)] by (auto intro: below_child)
  from assms(5) tar obtain w1 w2 w3 where s: "we_MkdirAll E (filepath_Dir ?t) w = (None, w1)"
    "we_Create E ?t (safeTarMode (en_mode e)) w1 = (None, w2)"
    "we_CopyN E ?t (Inr (en_data e)) (int (length (en_data e))) w2 = (None, w3)" "we_Close E ?t w3 = (None, w')"
    by (auto simp: extractTarFile_def tarHeader_def copyTarContent_def split: prod.splits option.splits)
  have 1: "we_readFile E q w1 = we_readFile E q w" using s(1) assms(1,6) unfolding file_laws_def by blast
  have 2: "we_readFile E p w2 = (if p = ?t then Inr [] else we_readFile E p w1)" if "below ds p" for p
    using s(2) assms(1) b that unfolding file_laws_def by blast
  have 3: "we_readFile E q w3 = (if q = ?t then Inr (take (nat (int (length (en_data e)))) (en_data e)) else we_readFile E q w2)"
  proof -
    have "we_readFile E ?t w2 = Inr []" using 2 [OF b] by simp
    then show ?thesis using s(3) assms(1,6) b unfolding file_laws_def by blast
  qed
  have 4: "we_readFile E q w' = we_readFile E q w3" using s(4) assms(1,6) unfolding file_laws_def by blast
  show ?thesis using 1 2 [OF assms(6)] 3 4 by simp
qed

lemma extractEntries_reads:
  assumes "file_laws E ds" "list_all plain ds" "ds \<noteq> []"
  shows "\<forall>e\<in>set es. confined (en_path e) \<Longrightarrow> distinct (map en_path es) \<Longrightarrow>
    extractEntries E (abs_dir ds) (map tar_of es) w = (None, w') \<Longrightarrow>
    (\<forall>e\<in>set es. we_readFile E (filepath_Join [abs_dir ds, en_path e]) w' = Inr (en_data e))
    \<and> (\<forall>q. below ds q \<and> q \<notin> (\<lambda>e. filepath_Join [abs_dir ds, en_path e]) ` set es \<longrightarrow> we_readFile E q w' = we_readFile E q w)"
proof (induction es arbitrary: w)
  case (Cons e es)
  let ?f = "\<lambda>e. filepath_Join [abs_dir ds, en_path e]"
  have reg: "th_Regular (tarHeader e)" by (simp add: tarHeader_def)
  from Cons.prems(3) obtain w1 where e: "extractTarFile E (abs_dir ds) (tarHeader e) (Inr (en_data e)) w = (None, w1)"
    and r: "extractEntries E (abs_dir ds) (map tar_of es) w1 = (None, w')"
    by (cases "extractTarFile E (abs_dir ds) (tarHeader e) (Inr (en_data e)) w")
      (auto simp: tar_of_def [of e] reg split: option.splits)
  have c: "confined (en_path e)" "\<forall>e\<in>set es. confined (en_path e)" "distinct (map en_path es)" using Cons.prems(1,2) by auto
  note IH = Cons.IH [OF c(2,3) r]
  note step = extractTarFile_reads [OF assms c(1) e]
  have b: "below ds (?f e)" using confined_target(2) [OF c(1) assms(2,3)] by (auto intro: below_child)
  have "?f e \<notin> ?f ` set es"
  proof
    assume "?f e \<in> ?f ` set es"
    then obtain x where "x \<in> set es" "?f e = ?f x" by auto
    with Join_confined_inject [OF c(1) _ assms(2,3)] c(2) Cons.prems(2) show False by force
  qed
  then have "we_readFile E (?f e) w' = Inr (en_data e)" using IH b step [OF b] by auto
  then show ?case using IH step by auto
qed simp

lemma created_confined:
  assumes "bundleContents E opts w = Inr (m, es)" "distinct (map en_path es)" "\<forall>p\<in>set (bm_VectorFiles m). confined p"
  shows "\<forall>e\<in>set es. confined (en_path e)"
proof -
  from bundleContents_Inr [OF assms(1,2)] obtain c s vts json where
    es: "mset es = mset (coreEntries c @ map vectorEntry vts @ [manifestEntry json])"
    and v: "bm_VectorFiles m = sort (map (vectorRel \<circ> fst) vts)" by blast
  have c: "confined (''bundle/'' @ x)" if "plain x" for x
    unfolding confined_def using that by (intro exI [of _ "[''bundle'', x]"]) (auto simp: plain_def)
  have "confined ''manifest.json''"
    unfolding confined_def by (intro exI [of _ "[''manifest.json'']"]) (auto simp: plain_def)
  moreover have "\<forall>e\<in>set (coreEntries c). confined (en_path e)"
    using c [of "''jcs-canon''"] c [of "''jcs-offline-worker''"] c [of "''matrix.yaml''"] c [of "''profile.yaml''"]
    by (auto simp: coreEntries_def plain_def)
  moreover have "\<forall>x\<in>set vts. confined (en_path (vectorEntry x))" using assms(3) v by (auto simp: vectorEntry_def)
  ultimately show ?thesis using mset_eq_setD [OF es] by (auto simp: manifestEntry_def bundleManifestPath_def)
qed

lemma created_bundle_extracts:
  assumes "bundleContents E opts w0 = Inr (m, es)" "distinct (map en_path es)" "\<forall>p\<in>set (bm_VectorFiles m). confined p"
    "\<forall>t. be_Sum256 E t \<noteq> []" "we_Sum256 W = be_Sum256 E"
    "we_readFile W bundle w = Inr f" "we_gunzip W f = Inr (map tar_of es)"
    "\<forall>j. be_encode E m = Inr j \<longrightarrow> we_decodeManifest W (j @ [CHR 0x0A]) = Inr m"
    "list_all plain ds" "ds \<noteq> []" "file_laws W ds" "extractEntries W (abs_dir ds) (map tar_of es) w = (None, w')"
  shows "extractBundle W bundle (abs_dir ds) w = (Inr m, w')" "verifyExtractedBundle W (abs_dir ds) m w' = None"
proof -
  from bundleContents_Inr [OF assms(1,2)] obtain c s vts json where j: "be_encode E m = Inr json"
    and es: "mset es = mset (coreEntries c @ map vectorEntry vts @ [manifestEntry json])" by blast
  have r: "\<forall>e\<in>set es. we_readFile W (filepath_Join [abs_dir ds, en_path e]) w' = Inr (en_data e)"
    using extractEntries_reads [OF assms(11,9,10) created_confined [OF assms(1-3)] assms(2,12)] by blast
  have "manifestEntry json \<in> set es" using mset_eq_setD [OF es] by auto
  with r have "we_readFile W (filepath_Join [abs_dir ds, ''manifest.json'']) w' = Inr (json @ [CHR 0x0A])"
    by (auto simp: manifestEntry_def bundleManifestPath_def)
  then show "extractBundle W bundle (abs_dir ds) w = (Inr m, w')"
    using assms(6,7,8,12) j by (simp add: extractBundle_def)
  show "verifyExtractedBundle W (abs_dir ds) m w' = None"
    unfolding verify_iff by (rule bundle_verifies [OF assms(1,2,4,5) r])
qed

section \<open>The evidence\<close>

lemma parseWorkerArgs_Inr:
  assumes "parseWorkerArgs args = Inr cfg"
  shows "wa_nodeID cfg \<noteq> [] \<and> wa_mode cfg \<noteq> [] \<and> wa_distro cfg \<noteq> [] \<and> wa_kernelFamily cfg \<noteq> []
     \<and> wa_bundlePath cfg \<noteq> [] \<and> wa_evidencePath cfg \<noteq> [] \<and> 1 \<le> wa_replayIndex cfg"
  using assms by (auto simp: parseWorkerArgs_def validateRequiredWorkerFlags_def Let_def split: sum.splits option.splits if_splits)

lemma replayBundle_Inr:
  assumes "replayBundle E cfg tmpDir w = (Inr n, w')"
  shows "\<exists>m w1 d w2 w3. extractBundle E (wa_bundlePath cfg) tmpDir w = (Inr m, w1) \<and> bundle_digests_ok E tmpDir m w1
     \<and> runVectors E (filepath_Join [tmpDir, bm_BinaryPath m]) tmpDir m no_digests w1 = (Inr (n, d), w2)
     \<and> checkEnvironmentIndependence E (filepath_Join [tmpDir, bm_BinaryPath m]) w2 = (None, w3)
     \<and> worker_writeEvidence E (wa_evidencePath cfg) (workerEvidence E cfg n d) w3 = (None, w')"
proof -
  from assms obtain m w1 where 1: "extractBundle E (wa_bundlePath cfg) tmpDir w = (Inr m, w1)"
    "verifyExtractedBundle E tmpDir m w1 = None"
    by (auto simp: replayBundle_def split: prod.splits sum.splits option.splits)
  with assms obtain k d w2 where 2: "runVectors E (filepath_Join [tmpDir, bm_BinaryPath m]) tmpDir m no_digests w1 = (Inr (k, d), w2)"
    by (auto simp: replayBundle_def Let_def split: prod.splits sum.splits)
  with assms 1 show ?thesis
    by (auto simp: replayBundle_def Let_def verify_iff split: prod.splits option.splits)
qed

text \<open>The cases of a successful run are counted from one file on, so there is one at least.\<close>

lemma runVectors_pos:
  assumes "runVectors E bin rootDir m d w = (Inr (n, d'), w')"
  shows "1 \<le> n"
proof -
  have f: "0 \<le> y" if "runVectorFile E bin rootDir rel d w = (Inr (y, d'), w')" for rel d w y d' w'
    using runVectorFile_Inr(1) [OF that] by auto
  have "x \<le> y" if "runVectorFiles E bin rootDir rels x d w = (Inr (y, d'), w')" for rels x d w y d' w'
    using that
  proof (induction rels arbitrary: x d w)
    case (Cons rel rels)
    then obtain c d1 w1 where "runVectorFile E bin rootDir rel d w = (Inr (c, d1), w1)"
      "runVectorFiles E bin rootDir rels (x + c) d1 w1 = (Inr (y, d'), w')" by (auto split: prod.splits sum.splits)
    with f Cons.IH show ?case by fastforce
  qed simp
  then have "0 \<le> n" "n \<noteq> 0" using assms by (auto simp: runVectors_def split: prod.splits sum.splits if_splits)
  then show ?thesis by simp
qed

section \<open>Failure classes\<close>

definition all_classes :: "FailureClass list" where
  "all_classes = [InvalidUTF8, InvalidGrammar, DuplicateKey, LoneSurrogate, Noncharacter, NumberOverflow, NumberNegZero,
     NumberUnderflow, BoundExceeded, NotCanonical, CLIUsage, InternalIO, InternalError]"

lemma all_classes: "c \<in> set all_classes"
  by (cases c) (simp_all add: all_classes_def)

lemma failureClasses_names: "failureClasses = map class_name all_classes"
  by (simp add: failureClasses_def all_classes_def)

lemma names_apart: "Contains (class_name c) (class_name k) \<longleftrightarrow> k = c"
proof -
  have "list_all (\<lambda>c. list_all (\<lambda>k. Contains (class_name c) (class_name k) \<longleftrightarrow> k = c) all_classes) all_classes"
    by code_simp
  then show ?thesis using all_classes by (auto simp: list_all_iff)
qed

lemma names_chars: "class_name k \<noteq> [] \<and> CHR '' '' \<notin> set (class_name k) \<and> CHR '':'' \<notin> set (class_name k) \<and> CHR 0x0A \<notin> set (class_name k)"
  by (cases k) simp_all

lemma Contains_sep:
  assumes "c \<notin> set t" "t \<noteq> []"
  shows "Contains (a @ c # b) t \<longleftrightarrow> Contains a t \<or> Contains b t"
proof
  assume "Contains (a @ c # b) t"
  then obtain x y where e: "a @ c # b = x @ t @ y" by (auto simp: Contains_iff)
  show "Contains a t \<or> Contains b t"
  proof (cases "length x \<le> length a")
    case True
    then obtain us where a: "a = x @ us" using e by (metis append_eq_append_conv_if append_take_drop_id)
    with e have u: "us @ c # b = t @ y" by simp
    have "length t \<le> length us"
    proof (rule ccontr)
      assume "\<not> length t \<le> length us"
      then have "t ! length us = c" using u by (metis nth_append nth_append_length not_le_imp_less)
      with \<open>\<not> length t \<le> length us\<close> assms(1) show False by (metis not_le_imp_less nth_mem)
    qed
    then have "us = t @ drop (length t) us" using u by (metis append_eq_append_conv_if append_take_drop_id)
    with a show ?thesis unfolding Contains_iff by blast
  next
    case False
    then obtain us where us: "x = a @ us" "c # b = us @ t @ y" "us \<noteq> []"
      using e append_eq_append_conv2 [of a "c # b" x "t @ y"] by auto
    then have "b = tl us @ t @ y" by (cases us) auto
    then show ?thesis unfolding Contains_iff by blast
  qed
next
  assume "Contains a t \<or> Contains b t"
  then obtain x y where "a = x @ t @ y \<or> b = x @ t @ y" by (auto simp: Contains_iff)
  then have "a @ c # b = x @ t @ (y @ c # b) \<or> a @ c # b = (a @ c # x) @ t @ y" by auto
  then show "Contains (a @ c # b) t" unfolding Contains_iff by blast
qed

lemma find_unique: "x \<in> set xs \<Longrightarrow> P x \<Longrightarrow> \<forall>y\<in>set xs. P y \<longrightarrow> y = x \<Longrightarrow> find P xs = Some x"
proof (induction xs)
  case (Cons a xs)
  show ?case
  proof (cases "P a")
    case True
    then have "a = x" using Cons.prems(3) by (metis list.set_intros(1))
    with True show ?thesis by simp
  next
    case False
    then have "x \<in> set xs" "\<forall>y\<in>set xs. P y \<longrightarrow> y = x" using Cons.prems by (metis set_ConsD, metis list.set_intros(2))
    with Cons.IH [OF _ Cons.prems(2)] False show ?thesis by simp
  qed
qed simp

text \<open>A text in which no class is named.\<close>

definition unnamed :: "string \<Rightarrow> bool" where
  "unnamed s \<longleftrightarrow> (\<forall>k. \<not> Contains s (class_name k))"

lemma names_in_sep:
  "Contains (a @ CHR '' '' # b) (class_name k) \<longleftrightarrow> Contains a (class_name k) \<or> Contains b (class_name k)"
  "Contains (a @ CHR '':'' # b) (class_name k) \<longleftrightarrow> Contains a (class_name k) \<or> Contains b (class_name k)"
  "Contains (a @ CHR 0x0A # b) (class_name k) \<longleftrightarrow> Contains a (class_name k) \<or> Contains b (class_name k)"
  using names_chars [of k] by (simp_all add: Contains_sep)

lemma unnamed_words: "unnamed ''error'' \<and> unnamed ''jcserr'' \<and> unnamed ''at'' \<and> unnamed ''byte'' \<and> unnamed ''''"
proof -
  have "list_all (\<lambda>s. list_all (\<lambda>k. \<not> Contains s (class_name k)) all_classes) [''error'', ''jcserr'', ''at'', ''byte'', '''']"
    by code_simp
  then show ?thesis using all_classes by (auto simp: list_all_iff unnamed_def)
qed

lemma error_line_class:
  assumes "unnamed (dec off)" "unnamed (rend msg)" "\<forall>x\<in>set_option cause. unnamed (cause_string rend dec x)"
  shows "extractFailureClass (''error: '' @ error_string rend dec (Error c off msg cause) @ newline) = class_name c"
proof -
  let ?tail = "(case cause of None \<Rightarrow> [] | Some x \<Rightarrow> '': '' @ cause_string rend dec x) @ newline"
  let ?pos = "if off \<ge> 0 then '' at byte '' @ dec off else []"
  have line: "''error: '' @ error_string rend dec (Error c off msg cause) @ newline
      = ''error'' @ CHR '':'' # [] @ CHR '' '' # ''jcserr'' @ CHR '':'' # [] @ CHR '' '' # (class_name c @ ?pos @ CHR '':'' # [] @ CHR '' '' # (rend msg @ ?tail))"
    by (simp add: Let_def split: option.split)
  have tail: "Contains (rend msg @ ?tail) (class_name k) \<longleftrightarrow> False" for k
  proof (cases cause)
    case None
    then show ?thesis using names_in_sep(3) [of "rend msg" "[]" k] assms(2) unnamed_words
      by (simp add: newline_def unnamed_def)
  next
    case (Some x)
    have "rend msg @ ?tail = rend msg @ CHR '':'' # [] @ CHR '' '' # cause_string rend dec x @ CHR 0x0A # []"
      by (simp add: Some newline_def)
    moreover have "\<not> Contains (rend msg @ CHR '':'' # [] @ CHR '' '' # cause_string rend dec x @ CHR 0x0A # []) (class_name k)"
      using assms(2,3) Some unnamed_words by (simp only: names_in_sep) (auto simp: unnamed_def)
    ultimately show ?thesis by metis
  qed
  have pos: "Contains (class_name c @ ?pos) (class_name k) \<longleftrightarrow> k = c" for k
  proof (cases "off \<ge> 0")
    case True
    then have "class_name c @ ?pos = class_name c @ CHR '' '' # ''at'' @ CHR '' '' # ''byte'' @ CHR '' '' # dec off" by simp
    then show ?thesis using assms(1) unnamed_words by (simp only: names_in_sep names_apart) (auto simp: unnamed_def)
  qed (simp add: names_apart)
  have "Contains (''error: '' @ error_string rend dec (Error c off msg cause) @ newline) (class_name k) \<longleftrightarrow> k = c" for k
  proof -
    have "Contains ((class_name c @ ?pos) @ CHR '':'' # [] @ CHR '' '' # (rend msg @ ?tail)) (class_name k) \<longleftrightarrow> k = c"
      using unnamed_words by (simp only: names_in_sep pos tail) (auto simp: unnamed_def)
    then show ?thesis unfolding line append_assoc [of "class_name c", symmetric]
      using unnamed_words by (simp only: names_in_sep) (auto simp: unnamed_def)
  qed
  then have "find (Contains (''error: '' @ error_string rend dec (Error c off msg cause) @ newline)) failureClasses = Some (class_name c)"
    using all_classes [of c] by (intro find_unique) (auto simp: failureClasses_names)
  then show ?thesis by (simp add: extractFailureClass_def)
qed

lemma hex_token_Hex: "length (we_Sum256 E t) = 32 \<Longrightarrow> hex_token 64 (Hex E t)"
  by (simp add: hex_token_def Hex_def TrimSpace_digest list_all_hexEncode)

end
