(* ===== verification/Worker_Claims.thy ===== *)
theory Worker_Claims
  imports Worker_Spec
begin

text \<open>
  The properties of the worker and of the way a bundle takes from its creation to the evidence of a replay, with a
  small concrete environment on which they are applied.
\<close>

section \<open>A concrete environment\<close>

text \<open>
  Files are a map; the archive, the manifest, the decoded vector and the result of a process are fixed.
\<close>

type_synonym files = "string \<Rightarrow> string option"

definition stub_env :: "tar_item list \<Rightarrow> BundleManifest \<Rightarrow> vectorCase \<Rightarrow> cliResult \<Rightarrow> files worker_env" where
  "stub_env items m v res = \<lparr>we_startedAt = ''2026-01-01T00:00:00Z'', we_completedAt = ''2026-01-01T00:00:01Z'',
     we_sessionID = (\<lambda>n. n), we_Sum256 = (\<lambda>t. replicate 32 (of_nat (length t))), we_environ = [],
     we_MkdirTemp = (\<lambda>w. (Inr ''/tmp/d'', w)), we_RemoveAll = (\<lambda>d w q. if HasPrefix q d then None else w q),
     we_readFile = (\<lambda>p w. case w p of None \<Rightarrow> Inl (Opaque ''no such file'') | Some t \<Rightarrow> Inr t),
     we_openLines = (\<lambda>p w. case w p of None \<Rightarrow> Inl (Opaque ''no such file'') | Some t \<Rightarrow> Inr (t, None)),
     we_gunzip = (\<lambda>_. Inr items), we_MkdirAll = (\<lambda>_ w. (None, w)), we_Create = (\<lambda>p _ w. (None, w(p \<mapsto> []))),
     we_CopyN = (\<lambda>p b n w. case b of Inl e \<Rightarrow> (Some e, w)
        | Inr t \<Rightarrow> (None, w(p \<mapsto> (case w p of None \<Rightarrow> [] | Some x \<Rightarrow> x) @ take (nat n) t))),
     we_Close = (\<lambda>_ w. (None, w)), we_encodeRun = (\<lambda>_. Inr ''{}''), we_WriteFile = (\<lambda>p t w. (None, w(p \<mapsto> t))),
     we_decodeVector = (\<lambda>_. Inr v), we_decodeManifest = (\<lambda>_. Inr m), we_Start = (\<lambda>_ _ _ _ w. (Exited res, w))\<rparr>"

lemma stub_laws: "file_laws (stub_env items m v res) ds"
  by (auto simp: file_laws_def stub_env_def split: option.splits)

lemma stub_keeps: "keeps_vectors (stub_env items m v res)"
  by (simp add: keeps_vectors_def stub_env_def)

lemma stub_extracts:
  assumes "list_all plain ds" "ds \<noteq> []"
  shows "\<forall>e\<in>set es. confined (en_path e) \<Longrightarrow>
    \<exists>w'. extractEntries (stub_env items m v res) (abs_dir ds) (map tar_of es) w = (None, w')"
proof (induction es arbitrary: w)
  case (Cons e es)
  have "confined (en_path e)" using Cons.prems by simp
  from confined_target(1) [OF this assms]
  obtain w1 where "extractTarFile (stub_env items m v res) (abs_dir ds) (tarHeader e) (Inr (en_data e)) w = (None, w1)"
    by (simp add: extractTarFile_def tarHeader_def copyTarContent_def stub_env_def)
  moreover have "th_Regular (tarHeader e)" by (simp add: tarHeader_def)
  ultimately show ?case using Cons.IH [of w1] Cons.prems by (simp add: tar_of_def [of e])
qed simp

section \<open>Unpacking\<close>

text \<open>
  C24: unpacking writes only at or below the directory it is given. Whatever holds of the file system and is kept by
  calls on such paths still holds afterwards, for every archive, whether it is unpacked or rejected. The one name the
  guard lets through that is excluded here is ".." (see \<open>tarTarget_dotdot\<close>).
\<close>

theorem extraction_confined:
  assumes "list_all plain ds" "ds \<noteq> []" "regular_names items"
    "\<forall>p w. below ds p \<and> P w \<longrightarrow> P (snd (we_MkdirAll E p w))"
    "\<forall>p k w. below ds p \<and> P w \<longrightarrow> P (snd (we_Create E p k w))"
    "\<forall>p b n w. below ds p \<and> P w \<longrightarrow> P (snd (we_CopyN E p b n w))"
    "\<forall>p w. below ds p \<and> P w \<longrightarrow> P (snd (we_Close E p w))"
    "P w"
  shows "P (snd (extractEntries E (abs_dir ds) items w))"
  by (rule extractEntries_keeps [OF assms(1,2,4-7,3,8)])

definition sample_vector :: vectorCase where
  "sample_vector = \<lparr>vc_ID = ''v1'', vc_Mode = ''canonicalize'', vc_Args = [], vc_Input = ''1.0'', vc_WantStdout = Some ''1'',
     vc_WantStderr = None, vc_WantStderrContains = None, vc_WantExit = 0\<rparr>"

definition sample_result :: cliResult where
  "sample_result = \<lparr>exitCode = 0, res_stdout = ''1'', res_stderr = []\<rparr>"

definition sample_manifest :: BundleManifest where
  "sample_manifest = \<lparr>bm_Version = ''bundle.v1'', bm_CreatedAtUTC = [], bm_BinaryPath = ''b'', bm_BinarySHA256 = [],
     bm_WorkerPath = ''k'', bm_WorkerSHA256 = [], bm_MatrixPath = ''m'', bm_MatrixSHA256 = [], bm_ProfilePath = ''p'',
     bm_ProfileSHA256 = [], bm_VectorFiles = [''v.jsonl''], bm_VectorSHA256 = fmempty, bm_VectorSetSHA256 = []\<rparr>"

definition entry_item :: "string \<Rightarrow> tar_item" where
  "entry_item name = tar_of \<lparr>en_path = name, en_data = ''x'', en_mode = 0x1A4\<rparr>"

theorem extraction_confined_witness:
  "snd (extractEntries (stub_env [] sample_manifest sample_vector sample_result) (abs_dir [''tmp'', ''d''])
     [entry_item ''bin/x'', entry_item ''a/../../../etc/passwd''] (\<lambda>_. None)) ''/etc/passwd'' = None"
proof -
  have n: "\<not> below [''tmp'', ''d''] ''/etc/passwd''"
  proof
    assume "below [''tmp'', ''d''] ''/etc/passwd''"
    then obtain es where "''/etc/passwd'' = abs_dir ([''tmp'', ''d''] @ es)" by (auto simp: below_def)
    then show False by (simp add: abs_dir_def Join_slash)
  qed
  have "path_Clean ''bin/x'' \<noteq> ''..''" "path_Clean ''a/../../../etc/passwd'' \<noteq> ''..''" by code_simp+
  then have "regular_names [entry_item ''bin/x'', entry_item ''a/../../../etc/passwd'']"
    by (auto simp: regular_names_def entry_item_def tar_of_def tarHeader_def)
  moreover have "list_all plain [''tmp'', ''d'']" by (auto simp: plain_def)
  ultimately show ?thesis
    using n by (intro extraction_confined [where P = "\<lambda>w. w ''/etc/passwd'' = None"])
      (auto simp: stub_env_def split: sum.split)
qed

section \<open>Bundles\<close>

text \<open>
  C22: a created bundle survives the way to the worker. If the archive is read back entry by entry, the JSON coder
  reads what it wrote, and the calls on files keep their contracts, then unpacking returns the manifest of
  \<open>CreateBundle\<close> and every digest check of the worker passes.
\<close>

theorem created_bundle_verifies:
  assumes "bundleContents E opts w0 = Inr (m, es)" "distinct (map en_path es)" "\<forall>p\<in>set (bm_VectorFiles m). confined p"
    "\<forall>t. be_Sum256 E t \<noteq> []" "we_Sum256 W = be_Sum256 E"
    "we_readFile W bundle w = Inr f" "we_gunzip W f = Inr (map tar_of es)"
    "\<forall>j. be_encode E m = Inr j \<longrightarrow> we_decodeManifest W (j @ [CHR 0x0A]) = Inr m"
    "list_all plain ds" "ds \<noteq> []" "file_laws W ds" "extractEntries W (abs_dir ds) (map tar_of es) w = (None, w')"
  shows "extractBundle W bundle (abs_dir ds) w = (Inr m, w') \<and> verifyExtractedBundle W (abs_dir ds) m w' = None"
  using created_bundle_extracts [OF assms] by blast

definition create_env :: "unit bundle_env" where
  "create_env = \<lparr>be_now = [], be_Sum256 = (\<lambda>t. replicate 32 (of_nat (length t))), be_ReadFile = (\<lambda>p w. Inr p),
     be_Glob = (\<lambda>g w. Inr [''v/b.jsonl'', ''v/a.jsonl'']), be_encode = (\<lambda>m. Inr ''{}''), be_decode = (\<lambda>t. Inl (Opaque [])),
     be_gunzip = (\<lambda>t. Inl (Opaque [])), be_Create = (\<lambda>p w. (None, w)), be_WriteHeader = (\<lambda>p h w. (None, w)),
     be_WriteData = (\<lambda>p t w. (None, w)), be_CloseAll = (\<lambda>p w. w)\<rparr>"

definition create_opts :: BundleOptions where
  "create_opts = \<lparr>bo_OutputPath = ''o'', bo_BinaryPath = ''b'', bo_WorkerPath = ''k'', bo_MatrixPath = ''m'', bo_ProfilePath = ''p'',
     bo_VectorsGlob = [], bo_Version = []\<rparr>"

text \<open>The contents of the sample bundle.\<close>

definition sample_bundle :: "BundleManifest \<times> bundleEntry list" where
  "sample_bundle = projr (bundleContents create_env create_opts ())"

lemma sample_bundle_facts:
  "bundleContents create_env create_opts () = Inr sample_bundle" "distinct (map en_path (snd sample_bundle))"
  "set (bm_VectorFiles (fst sample_bundle)) = {''bundle/vectors/a.jsonl'', ''bundle/vectors/b.jsonl''}"
  "\<lparr>en_path = ''bundle/vectors/a.jsonl'', en_data = ''v/a.jsonl'', en_mode = 0x1A4\<rparr> \<in> set (snd sample_bundle)"
  "\<lparr>en_path = ''bundle/vectors/b.jsonl'', en_data = ''v/b.jsonl'', en_mode = 0x1A4\<rparr> \<in> set (snd sample_bundle)"
proof -
  have s: "sort [''v/b.jsonl'', ''v/a.jsonl''] = [''v/a.jsonl'', ''v/b.jsonl'']" by code_simp
  have r: "vectorRel ''v/a.jsonl'' = ''bundle/vectors/a.jsonl''" "vectorRel ''v/b.jsonl'' = ''bundle/vectors/b.jsonl''"
    by code_simp+
  note defs = bundleContents_def create_env_def create_opts_def readCore_def readNamed_def s r Let_def sample_bundle_def
  show "bundleContents create_env create_opts () = Inr sample_bundle" by (simp add: defs)
  have "distinct (map en_path (sort_key en_path es)) \<longleftrightarrow> distinct (map en_path es)" for es :: "bundleEntry list"
    by (metis mset_eq_imp_distinct_iff mset_map mset_sort)
  then show "distinct (map en_path (snd sample_bundle))"
    by (simp add: defs coreEntries_def manifestEntry_def bundleManifestPath_def)
  show "set (bm_VectorFiles (fst sample_bundle)) = {''bundle/vectors/a.jsonl'', ''bundle/vectors/b.jsonl''}"
    by (simp add: defs newManifest_def insert_commute)
  show "\<lparr>en_path = ''bundle/vectors/a.jsonl'', en_data = ''v/a.jsonl'', en_mode = 0x1A4\<rparr> \<in> set (snd sample_bundle)"
    "\<lparr>en_path = ''bundle/vectors/b.jsonl'', en_data = ''v/b.jsonl'', en_mode = 0x1A4\<rparr> \<in> set (snd sample_bundle)"
    by (simp_all add: defs)
qed

abbreviation sample_worker :: "files worker_env" where
  "sample_worker \<equiv> stub_env (map tar_of (snd sample_bundle)) (fst sample_bundle) sample_vector sample_result"

theorem created_bundle_verifies_witness:
  "\<exists>w'. extractBundle sample_worker ''/b.tgz'' (abs_dir [''tmp'', ''d'']) [''/b.tgz'' \<mapsto> ''z''] = (Inr (fst sample_bundle), w')
     \<and> verifyExtractedBundle sample_worker (abs_dir [''tmp'', ''d'']) (fst sample_bundle) w' = None"
proof -
  let ?w = "[''/b.tgz'' \<mapsto> ''z''] :: files"
  have p: "list_all plain [''tmp'', ''d'']" by (auto simp: plain_def)
  have c: "confined (''bundle/vectors/'' @ x)" if "plain x" for x
    unfolding confined_def using that by (intro exI [of _ "[''bundle'', ''vectors'', x]"]) (auto simp: plain_def)
  have conf: "\<forall>p\<in>set (bm_VectorFiles (fst sample_bundle)). confined p"
    using c [of "''a.jsonl''"] c [of "''b.jsonl''"] by (auto simp: sample_bundle_facts plain_def)
  have b: "bundleContents create_env create_opts () = Inr (fst sample_bundle, snd sample_bundle)"
    by (simp add: sample_bundle_facts)
  from stub_extracts [OF p _ created_confined [OF b sample_bundle_facts(2) conf]]
  obtain w' where "extractEntries sample_worker (abs_dir [''tmp'', ''d'']) (map tar_of (snd sample_bundle)) ?w = (None, w')" by blast
  note created_bundle_verifies [OF b sample_bundle_facts(2) conf _ _ _ _ _ p _ stub_laws this, of "''/b.tgz''" "''z''"]
  then show ?thesis by (intro exI [of _ w']) (simp add: create_env_def stub_env_def)
qed

text \<open>
  C25: nothing of a bundle is executed before its digests are checked. Once a bundle is unpacked, the worker stops with
  a verification error, in the very world that unpacking left, exactly when some file does not have the digest of the
  manifest or the digest of the vector set is wrong; so a process is only started from verified files.
\<close>

theorem unverified_bundle_not_run:
  assumes "extractBundle E (wa_bundlePath cfg) tmpDir w = (Inr m, w1)"
  shows "(\<exists>e. replayBundle E cfg tmpDir w = (Inl (Errorw (Msg ''verify bundle'') e), w1)) \<longleftrightarrow> \<not> bundle_digests_ok E tmpDir m w1"
proof (cases "verifyExtractedBundle E tmpDir m w1")
  case None
  then have "\<nexists>e. replayBundle E cfg tmpDir w = (Inl (Errorw (Msg ''verify bundle'') e), w1)"
    using assms by (auto simp: replayBundle_def Let_def worker_writeEvidence_def split: prod.splits sum.splits option.splits)
  with None show ?thesis unfolding verify_iff [symmetric] by simp
next
  case (Some e)
  then show ?thesis using assms by (simp add: replayBundle_def verify_iff [symmetric])
qed

definition sample_cfg :: workerArgs where
  "sample_cfg = \<lparr>wa_bundlePath = ''/b.tgz'', wa_evidencePath = ''/e.json'', wa_nodeID = ''n1'', wa_mode = ''container'',
     wa_distro = ''debian'', wa_kernelFamily = ''host'', wa_replayIndex = 1\<rparr>"

abbreviation manifest_only :: "files worker_env" where
  "manifest_only \<equiv> stub_env [tar_of (manifestEntry ''{}'')] sample_manifest sample_vector sample_result"

theorem unverified_bundle_not_run_witness:
  "\<exists>e. fst (replayBundle manifest_only sample_cfg ''/tmp/d'' [''/b.tgz'' \<mapsto> ''z'']) = Inl (Errorw (Msg ''verify bundle'') e)"
proof -
  have t: "tarTarget ''/tmp/d'' ''manifest.json'' = Inr ''/tmp/d/manifest.json''"
    "filepath_Join [''/tmp/d'', ''manifest.json''] = ''/tmp/d/manifest.json''" "filepath_Join [''/tmp/d'', ''b''] = ''/tmp/d/b''"
    by code_simp+
  let ?w = "[''/b.tgz'' \<mapsto> ''z'', ''/tmp/d/manifest.json'' \<mapsto> ''{}'' @ [CHR 0x0A]] :: files"
  have x: "extractBundle manifest_only (wa_bundlePath sample_cfg) ''/tmp/d'' [''/b.tgz'' \<mapsto> ''z''] = (Inr sample_manifest, ?w)"
    by (simp add: extractBundle_def stub_env_def sample_cfg_def tar_of_def tarHeader_def manifestEntry_def bundleManifestPath_def
        extractTarFile_def copyTarContent_def t fun_eq_iff)
  have "\<not> bundle_digests_ok manifest_only ''/tmp/d'' sample_manifest ?w"
    by (simp add: bundle_digests_ok_def has_digest_def sample_manifest_def stub_env_def t)
  with unverified_bundle_not_run [OF x] show ?thesis by (metis fst_conv)
qed

section \<open>Vectors\<close>

text \<open>
  C23: a successful replay ran everything. If the program under test leaves the vector files alone, then every vector
  file of the manifest was readable to its end, in sorted order, every line that is neither empty nor a comment was
  decoded and run with the command of its case, each result was as the case expects, the reported number is the number
  of these lines and is not 0, and the digests are those of the results in this order.
\<close>

theorem runVectors_complete:
  assumes "keeps_vectors E" "runVectors E bin rootDir m d w = (Inr (n, d'), w')"
  shows "vectors_met E bin rootDir m d w n d'"
  by (rule runVectors_Inr [OF assms])

theorem runVectors_complete_witness:
  "\<exists>d. vectors_met manifest_only ''/b'' ''/t'' sample_manifest no_digests [''/t/v.jsonl'' \<mapsto> ''{x}'' @ [CHR 0x0A] @ ''#y''] 1 d"
proof -
  let ?w = "[''/t/v.jsonl'' \<mapsto> ''{x}'' @ [CHR 0x0A] @ ''#y''] :: files"
  have l: "scanLines maxVectorLineBytes (''{x}'' @ [CHR 0x0A] @ ''#y'') None = ([''{x}'', ''#y''], None)"
    by (simp add: scanLines_def maxVectorLineBytes_def Let_def splitLines.simps dropCR_def)
  have c: "isCase ''{x}''" "\<not> isCase ''#y''" "filepath_Join [''/t'', ''v.jsonl''] = ''/t/v.jsonl''" "TrimSpace ''canonicalize'' \<noteq> []"
    by code_simp+
  have "\<exists>d. runVectors manifest_only ''/b'' ''/t'' sample_manifest no_digests ?w = (Inr (1, d), ?w)"
    using l by (simp add: runVectors_def sample_manifest_def runVectorFile_def c stub_env_def processVectorLine_def vectorArgs_def
        sample_vector_def runCLI_def assertVectorResult_def sample_result_def guard_def)
  then show ?thesis using runVectors_complete [OF stub_keeps] by metis
qed

section \<open>Failure classes and evidence\<close>

text \<open>
  C30: the class digest records the class jcs-canon failed with. When the standard error of a run is the line
  jcs-canon writes for a structured error, and neither the message, the offset nor the cause happens to name a class,
  the class that is added to the digest is the class of the error.
\<close>

theorem failure_class_recorded:
  assumes "unnamed (dec off)" "unnamed (rend msg)" "\<forall>x\<in>set_option cause. unnamed (cause_string rend dec x)"
    "res_stderr res = ''error: '' @ error_string rend dec (Error c off msg cause) @ newline" "exitCode res = ExitCode c"
  shows "classAcc (recordDigests vectorID mode res d) = Add (classAcc d) [vectorID, class_name c]"
proof -
  have "exitCode res \<noteq> 0" using assms(5) by (simp add: ExitCode_cases)
  then show ?thesis using error_line_class [OF assms(1-3), of c] by (simp add: recordDigests_def Let_def assms(4))
qed

lemma unnamed_sample: "unnamed ''3'' \<and> unnamed ''duplicate object key''"
proof -
  have "list_all (\<lambda>s. list_all (\<lambda>k. \<not> Contains s (class_name k)) all_classes) [''3'', ''duplicate object key'']" by code_simp
  then show ?thesis using all_classes by (auto simp: list_all_iff unnamed_def)
qed

theorem failure_class_recorded_witness:
  "classAcc (recordDigests ''v2'' ''verify'' \<lparr>exitCode = 2, res_stdout = [],
     res_stderr = ''error: jcserr: DUPLICATE_KEY at byte 3: duplicate object key'' @ newline\<rparr> no_digests)
   = ''v2'' @ [CHR 0x1F] @ ''DUPLICATE_KEY'' @ [CHR 0x0A]"
  using failure_class_recorded [of "\<lambda>_. ''3''" 3 "\<lambda>_. ''duplicate object key''" "Msg []" None
      "\<lparr>exitCode = 2, res_stdout = [], res_stderr = ''error: jcserr: DUPLICATE_KEY at byte 3: duplicate object key'' @ newline\<rparr>"
      DuplicateKey "''v2''" "''verify''" no_digests] unnamed_sample
  by (simp add: no_digests_def Add_def)

text \<open>A message that names a class earlier in the list is classified by that name.\<close>

lemma class_by_message:
  "extractFailureClass ''error: jcserr: CLI_USAGE: unknown command INVALID_UTF8'' = ''INVALID_UTF8''"
  by code_simp

text \<open>
  C26: the evidence of a successful worker is accepted by the gate. If the arguments name a node of the matrix with its
  mode, distribution and kernel family, and the digest has 32 bytes, then the run the worker writes at the evidence path
  passes the checks of \<open>ValidateEvidenceBundle\<close> for a single run: a positive number of cases and of the replay, four
  hexadecimal digests, and no field missing.
\<close>

theorem worker_evidence_accepted:
  assumes "parseWorkerArgs args = Inr cfg" "replayBundle E cfg tmpDir w = (Inr n, w')"
    "distinct (map ns_ID (mx_Nodes m))" "node \<in> set (mx_Nodes m)" "ns_ID node = wa_nodeID cfg" "ns_Mode node = wa_mode cfg"
    "ns_Distro node = wa_distro cfg" "ns_KernelFamily node = wa_kernelFamily cfg"
    "\<forall>t. length (we_Sum256 E t) = 32" "TrimSpace (we_sessionID E (wa_nodeID cfg)) \<noteq> []"
    "TrimSpace (we_startedAt E) \<noteq> []" "TrimSpace (we_completedAt E) \<noteq> []"
  shows "\<exists>d w3. worker_writeEvidence E (wa_evidencePath cfg) (workerEvidence E cfg n d) w3 = (None, w')
     \<and> checkRun (matrixByID m) (workerEvidence E cfg n d) = None"
proof -
  from replayBundle_Inr [OF assms(2)] obtain bm w1 d w2 w3 where
    r: "runVectors E (filepath_Join [tmpDir, bm_BinaryPath bm]) tmpDir bm no_digests w1 = (Inr (n, d), w2)"
    and e: "worker_writeEvidence E (wa_evidencePath cfg) (workerEvidence E cfg n d) w3 = (None, w')" by blast
  have "hex_token 64 (Hex E t)" for t by (rule hex_token_Hex) (use assms(9) in blast)
  then have "run_ok m (workerEvidence E cfg n d)"
    using assms(3-12) parseWorkerArgs_Inr [OF assms(1)] runVectors_pos [OF r]
    by (auto simp: run_ok_def workerEvidence_def run_digests_def)
  then show ?thesis using e checkRun_iff [OF assms(3)] by blast
qed

text \<open>The sample bundle is replayed to the end by the stub environment.\<close>

lemma stub_runs:
  "\<forall>rel\<in>set rels. \<exists>t l. w (filepath_Join [rootDir, rel]) = Some t \<and> scanLines maxVectorLineBytes t None = ([l], None) \<and> isCase l \<Longrightarrow>
     \<exists>d'. runVectorFiles (stub_env items m sample_vector sample_result) bin rootDir rels x d w = (Inr (x + int (length rels), d'), w)"
proof (induction rels arbitrary: x d)
  case (Cons rel rels)
  then obtain t l where t: "w (filepath_Join [rootDir, rel]) = Some t" "scanLines maxVectorLineBytes t None = ([l], None)" "isCase l"
    by auto
  have "TrimSpace ''canonicalize'' \<noteq> []" by code_simp
  with t have "\<exists>d1. runVectorFile (stub_env items m sample_vector sample_result) bin rootDir rel d w = (Inr (1, d1), w)"
    by (simp add: runVectorFile_def stub_env_def processVectorLine_def vectorArgs_def
        sample_vector_def runCLI_def assertVectorResult_def sample_result_def guard_def)
  then obtain d1 where d1: "runVectorFile (stub_env items m sample_vector sample_result) bin rootDir rel d w = (Inr (1, d1), w)" by blast
  have ih: "\<exists>d'. runVectorFiles (stub_env items m sample_vector sample_result) bin rootDir rels (x + 1) d1 w
      = (Inr (x + 1 + int (length rels), d'), w)"
    using Cons.IH [of "x + 1" d1] Cons.prems by simp
  with d1 show ?case by (auto simp: algebra_simps)
qed simp

lemma stub_replay:
  "\<exists>n w'. replayBundle sample_worker sample_cfg (abs_dir [''tmp'', ''d'']) [''/b.tgz'' \<mapsto> ''z''] = (Inr n, w')"
proof -
  let ?ds = "[''tmp'', ''d'']" and ?m = "fst sample_bundle" and ?w = "[''/b.tgz'' \<mapsto> ''z''] :: files"
  have p: "list_all plain ?ds" by (auto simp: plain_def)
  have c: "confined (''bundle/vectors/'' @ x)" if "plain x" for x
    unfolding confined_def using that by (intro exI [of _ "[''bundle'', ''vectors'', x]"]) (auto simp: plain_def)
  have conf: "\<forall>p\<in>set (bm_VectorFiles ?m). confined p"
    using c [of "''a.jsonl''"] c [of "''b.jsonl''"] by (auto simp: sample_bundle_facts plain_def)
  have b: "bundleContents create_env create_opts () = Inr (?m, snd sample_bundle)" by (simp add: sample_bundle_facts)
  note cc = created_confined [OF b sample_bundle_facts(2) conf]
  from stub_extracts [OF p _ cc] obtain w1 where x:
    "extractEntries sample_worker (abs_dir ?ds) (map tar_of (snd sample_bundle)) ?w = (None, w1)" by blast
  note e = created_bundle_extracts [OF b sample_bundle_facts(2) conf _ _ _ _ _ p _ stub_laws x, of "''/b.tgz''" "''z''"]
  have e1: "extractBundle sample_worker (wa_bundlePath sample_cfg) (abs_dir ?ds) ?w = (Inr ?m, w1)"
    and e2: "verifyExtractedBundle sample_worker (abs_dir ?ds) ?m w1 = None"
    using e by (simp_all add: create_env_def stub_env_def sample_cfg_def)
  have "\<forall>e\<in>set (snd sample_bundle). we_readFile sample_worker (filepath_Join [abs_dir ?ds, en_path e]) w1 = Inr (en_data e)"
    using extractEntries_reads [OF stub_laws p _ cc sample_bundle_facts(2) x] by blast
  then have f: "\<forall>e\<in>set (snd sample_bundle). w1 (filepath_Join [abs_dir ?ds, en_path e]) = Some (en_data e)"
    by (auto simp: stub_env_def split: option.splits)
  have v: "\<exists>t l. w1 (filepath_Join [abs_dir ?ds, rel]) = Some t \<and> scanLines maxVectorLineBytes t None = ([l], None) \<and> isCase l"
    if "rel \<in> set (sort (bm_VectorFiles ?m))" for rel
  proof -
    have "scanLines maxVectorLineBytes s None = ([s], None) \<and> isCase s" if "s = ''v/a.jsonl'' \<or> s = ''v/b.jsonl''" for s
    proof -
      have "isCase ''v/a.jsonl''" "isCase ''v/b.jsonl''" by code_simp+
      then show ?thesis using that by (auto simp: scanLines_def maxVectorLineBytes_def Let_def splitLines.simps dropCR_def)
    qed
    moreover have "\<exists>s. (s = ''v/a.jsonl'' \<or> s = ''v/b.jsonl'') \<and> \<lparr>en_path = rel, en_data = s, en_mode = 0x1A4\<rparr> \<in> set (snd sample_bundle)"
      using that sample_bundle_facts(4,5) by (auto simp: sample_bundle_facts(3))
    ultimately show ?thesis using f by (metis bundleEntry.select_convs(1,2))
  qed
  from stub_runs [of "sort (bm_VectorFiles ?m)" w1 "abs_dir ?ds"] v obtain d where
    r: "runVectorFiles sample_worker (filepath_Join [abs_dir ?ds, bm_BinaryPath ?m]) (abs_dir ?ds) (sort (bm_VectorFiles ?m)) 0 no_digests w1
      = (Inr (0 + int (length (sort (bm_VectorFiles ?m))), d), w1)" by blast
  have l: "bm_VectorFiles ?m \<noteq> []" by (metis empty_not_insert list.set(1) sample_bundle_facts(3))
  have rv: "runVectors sample_worker (filepath_Join [abs_dir ?ds, bm_BinaryPath ?m]) (abs_dir ?ds) ?m no_digests w1
      = (Inr (int (length (bm_VectorFiles ?m)), d), w1)"
    using r l by (simp add: runVectors_def)
  have ck: "checkEnvironmentIndependence sample_worker bin w1 = (None, w1)" for bin
    by (simp add: checkEnvironmentIndependence_def runCLI_def stub_env_def guard_def Let_def)
  have we: "\<exists>w2. worker_writeEvidence sample_worker q ev w1 = (None, w2)" for q ev
    by (simp add: worker_writeEvidence_def stub_env_def)
  then obtain w2 where "worker_writeEvidence sample_worker (wa_evidencePath sample_cfg)
      (workerEvidence sample_worker sample_cfg (int (length (bm_VectorFiles ?m))) d) w1 = (None, w2)" by blast
  then show ?thesis by (simp add: replayBundle_def e1 e2 rv ck Let_def)
qed

definition sample_args :: "string list" where
  "sample_args = [''--bundle'', ''/b.tgz'', ''--evidence=/e.json'', ''--node-id=n1'', ''--mode=container'', ''--distro=debian'',
     ''--kernel-family=host'', ''--replay-index'', ''1'']"

definition one_node :: Matrix where
  "one_node = \<lparr>mx_Version = ''v1'', mx_Architecture = ''x86_64'', mx_Nodes = [\<lparr>ns_ID = ''n1'', ns_Mode = ''container'',
     ns_Distro = ''debian'', ns_KernelFamily = ''host'', ns_Replays = 1,
     ns_Runner = \<lparr>rc_Kind = [], rc_Prepare = [], rc_Replay = [], rc_Cleanup = [], rc_Env = fmempty\<rparr>\<rparr>]\<rparr>"

theorem worker_evidence_accepted_witness:
  "\<exists>n d w w'. worker_writeEvidence sample_worker ''/e.json'' (workerEvidence sample_worker sample_cfg n d) w = (None, w')
     \<and> checkRun (matrixByID one_node) (workerEvidence sample_worker sample_cfg n d) = None"
proof -
  have ch: "Contains s [c] \<longleftrightarrow> c \<in> set s" for s c unfolding Contains_iff by (simp add: in_set_conv_decomp)
  have f: "TrimSpace ''/b.tgz'' = ''/b.tgz''" "TrimSpace ''/e.json'' = ''/e.json''" "TrimSpace ''n1'' = ''n1''"
    "TrimSpace ''container'' = ''container''" "TrimSpace ''debian'' = ''debian''" "TrimSpace ''host'' = ''host''" "TrimSpace ''1'' = ''1''"
    by (rule TrimSpace_graphic, simp add: graphic_def)+
  have "Atoi ''1'' = Some 1" by code_simp
  then have a: "parseWorkerArgs sample_args = Inr sample_cfg"
    by (simp add: parseWorkerArgs_def sample_args_def sample_cfg_def HasPrefix_def ch splitAssign_def flagValue_def f
        validateRequiredWorkerFlags_def Let_def)
  have t: "TrimSpace ''n1'' \<noteq> []" "TrimSpace ''2026-01-01T00:00:00Z'' \<noteq> []" "TrimSpace ''2026-01-01T00:00:01Z'' \<noteq> []"
    by code_simp+
  from stub_replay obtain n w' where
    r: "replayBundle sample_worker sample_cfg (abs_dir [''tmp'', ''d'']) [''/b.tgz'' \<mapsto> ''z''] = (Inr n, w')" by blast
  from worker_evidence_accepted [OF a r, of one_node "hd (mx_Nodes one_node)"] t
  show ?thesis by (auto simp: one_node_def sample_cfg_def stub_env_def)
qed

end
