(* ===== verification/Offline_Io.thy ===== *)
theory Offline_Io
  imports Worker
begin

text \<open>
  What the operator tools use of the outside world, on top of Cli_Io: a process state with its open writers, Go's
  \<^verbatim>\<open>io.MultiWriter\<close>, \<^verbatim>\<open>io.Discard\<close> and buffers, and the composition of steps that may fail.

  A writer of the tools is the list of the open streams it passes its text on to: a single stream, the several of a
  \<^verbatim>\<open>MultiWriter\<close>, or none for \<^verbatim>\<open>io.Discard\<close>. The first stream that fails ends the write.
\<close>

section \<open>Steps that may fail\<close>

type_synonym ('s, 'a) io = "'s \<Rightarrow> (go_err + 'a) \<times> 's"

definition io_return :: "'a \<Rightarrow> ('s, 'a) io" where
  "io_return x = (\<lambda>s. (Inr x, s))"

definition io_fail :: "go_err \<Rightarrow> ('s, 'a) io" where
  "io_fail e = (\<lambda>s. (Inl e, s))"

definition io_bind :: "('s, 'a) io \<Rightarrow> ('a \<Rightarrow> ('s, 'b) io) \<Rightarrow> ('s, 'b) io" where
  "io_bind m f = (\<lambda>s. case m s of (Inl e, s') \<Rightarrow> (Inl e, s') | (Inr x, s') \<Rightarrow> f x s')"

text \<open>An error wrapped with a message on its way up.\<close>

definition io_wrap :: "message \<Rightarrow> ('s, 'a) io \<Rightarrow> ('s, 'a) io" where
  "io_wrap msg m = (\<lambda>s. case m s of (Inl e, s') \<Rightarrow> (Inl (Errorw msg e), s') | (Inr x, s') \<Rightarrow> (Inr x, s'))"

definition io_lift :: "go_err + 'a \<Rightarrow> ('s, 'a) io" where
  "io_lift r = (\<lambda>s. (r, s))"

text \<open>A guard that ends the function with an error.\<close>

definition io_reject :: "bool \<Rightarrow> go_err \<Rightarrow> ('s, unit) io" where
  "io_reject b e = (\<lambda>s. (if b then Inl e else Inr (), s))"

text \<open>A deferred call runs whatever the outcome.\<close>

definition io_finally :: "('s \<Rightarrow> 's) \<Rightarrow> ('s, 'a) io \<Rightarrow> ('s, 'a) io" where
  "io_finally g m = (\<lambda>s. case m s of (r, s') \<Rightarrow> (r, g s'))"

named_theorems io_iff

lemma io_return_iff [io_iff]: "io_return x s = (Inr y, s') \<longleftrightarrow> y = x \<and> s' = s"
  by (auto simp: io_return_def)

lemma io_fail_iff [io_iff]: "io_fail e s = (Inr y, s') \<longleftrightarrow> False"
  by (simp add: io_fail_def)

lemma io_bind_iff [io_iff]: "io_bind m f s = (Inr y, s') \<longleftrightarrow> (\<exists>x s1. m s = (Inr x, s1) \<and> f x s1 = (Inr y, s'))"
  by (auto simp: io_bind_def split: prod.splits sum.splits)

lemma io_wrap_iff [io_iff]: "io_wrap msg m s = (Inr y, s') \<longleftrightarrow> m s = (Inr y, s')"
  by (auto simp: io_wrap_def split: prod.splits sum.splits)

lemma io_lift_iff [io_iff]: "io_lift r s = (Inr y, s') \<longleftrightarrow> r = Inr y \<and> s' = s"
  by (auto simp: io_lift_def)

lemma io_reject_iff [io_iff]: "io_reject b e s = (Inr y, s') \<longleftrightarrow> \<not> b \<and> s' = s"
  by (auto simp: io_reject_def)

lemma io_finally_iff [io_iff]: "io_finally g m s = (Inr y, s') \<longleftrightarrow> (\<exists>s1. m s = (Inr y, s1) \<and> s' = g s1)"
  by (auto simp: io_finally_def split: prod.splits)

section \<open>The process\<close>

text \<open>The state of the outside world \<open>'f\<close>, and the open streams.\<close>

record 'f sys =
  sy_host :: 'f
  sy_writers :: "writer list"

type_synonym io_writer = "nat list"

definition Discard :: io_writer where "Discard = []"

definition MultiWriter :: "io_writer list \<Rightarrow> io_writer" where "MultiWriter ws = concat ws"

fun put :: "io_writer \<Rightarrow> string \<Rightarrow> ('f sys, unit) io" where
  "put [] t = io_return ()"
| "put (h # hs) t = (\<lambda>s. case Write (sy_writers s ! h) (ascii t) of
     (Some e, st) \<Rightarrow> (Inl (Opaque e), s\<lparr>sy_writers := (sy_writers s)[h := st]\<rparr>)
   | (None, st) \<Rightarrow> put hs t (s\<lparr>sy_writers := (sy_writers s)[h := st]\<rparr>))"

text \<open>A call on the outside world.\<close>

definition on_host :: "('f, 'a) io \<Rightarrow> ('f sys, 'a) io" where
  "on_host m = (\<lambda>s. case m (sy_host s) of (r, f) \<Rightarrow> (r, s\<lparr>sy_host := f\<rparr>))"

definition ask_host :: "('f \<Rightarrow> 'a) \<Rightarrow> ('f sys, 'a) io" where
  "ask_host q = (\<lambda>s. (Inr (q (sy_host s)), s))"

definition act_host :: "('f \<Rightarrow> go_err option \<times> 'f) \<Rightarrow> ('f sys, unit) io" where
  "act_host m = (\<lambda>s. case m (sy_host s) of (None, f) \<Rightarrow> (Inr (), s\<lparr>sy_host := f\<rparr>) | (Some e, f) \<Rightarrow> (Inl e, s\<lparr>sy_host := f\<rparr>))"

text \<open>A new stream: a buffer that takes everything, or the file a call returned.\<close>

definition open_stream :: "writer \<Rightarrow> ('f sys, io_writer) io" where
  "open_stream st = (\<lambda>s. (Inr [length (sy_writers s)], s\<lparr>sy_writers := sy_writers s @ [st]\<rparr>))"

definition buffer_text :: "io_writer \<Rightarrow> 'f sys \<Rightarrow> string" where
  "buffer_text b s = concat (map (\<lambda>h. map (char_of \<circ> uint) (sent (sy_writers s ! h))) b)"

lemma on_host_iff [io_iff]: "on_host m s = (Inr y, s') \<longleftrightarrow> (\<exists>f. m (sy_host s) = (Inr y, f) \<and> s' = s\<lparr>sy_host := f\<rparr>)"
  by (auto simp: on_host_def split: prod.splits)

lemma ask_host_iff [io_iff]: "ask_host q s = (Inr y, s') \<longleftrightarrow> y = q (sy_host s) \<and> s' = s"
  by (auto simp: ask_host_def)

lemma act_host_iff [io_iff]: "act_host m s = (Inr y, s') \<longleftrightarrow> (\<exists>f. m (sy_host s) = (None, f) \<and> s' = s\<lparr>sy_host := f\<rparr>)"
  by (auto simp: act_host_def split: prod.splits option.splits)

lemma put_host: "put out t s = (r, s') \<Longrightarrow> sy_host s' = sy_host s"
  by (induction out arbitrary: s) (fastforce simp: io_return_def split: prod.splits option.splits)+

section \<open>Lines\<close>

definition offline_writef :: "io_writer \<Rightarrow> string \<Rightarrow> ('f sys, unit) io" where
  "offline_writef out t = io_wrap (Msg ''write stream'') (put out t)"

definition offline_writeLine :: "io_writer \<Rightarrow> string \<Rightarrow> ('f sys, unit) io" where
  "offline_writeLine out msg = offline_writef out (msg @ newline)"

text \<open>Consecutive calls of \<^verbatim>\<open>writef\<close>, each with a line, up to the first failure.\<close>

fun offline_writeLines :: "io_writer \<Rightarrow> string list \<Rightarrow> ('f sys, unit) io" where
  "offline_writeLines out [] = io_return ()"
| "offline_writeLines out (l # ls) = io_bind (offline_writeLine out l) (\<lambda>_. offline_writeLines out ls)"

lemma writef_host: "offline_writef out t s = (r, s') \<Longrightarrow> sy_host s' = sy_host s"
  using put_host [of out t s] by (auto simp: offline_writef_def io_wrap_def split: prod.splits sum.splits)

lemma writeLine_host: "offline_writeLine out t s = (r, s') \<Longrightarrow> sy_host s' = sy_host s"
  by (auto simp: offline_writeLine_def dest: writef_host)

lemma writeLines_host: "offline_writeLines out ls s = (r, s') \<Longrightarrow> sy_host s' = sy_host s"
  by (induction ls arbitrary: s) (auto simp: io_return_def io_bind_def split: prod.splits sum.splits dest!: writeLine_host)

end
