(* ===== verification/Offline_Cmds.thy ===== *)
theory Offline_Cmds
  imports Offline_Io
begin

text \<open>
  The commands of jcs-offline-replay (src/cmd/jcs-offline-replay/main.go): flags, the identity of the sources, and the
  subcommands prepare, run, verify-evidence, report and inspect-matrix. \<open>LoadEvidence\<close> and \<open>WriteEvidence\<close> of
  src/offline/replay/evidence.go are here because they need the file system.

  \<open>offline_env\<close> holds the calls on the outside world. A timeout is a number of nanoseconds. The context with
  its deadline only reaches the child processes and is left out.
\<close>

section \<open>The outside world\<close>

record 'f offline_env =
  oe_bundle :: "'f bundle_env"
  oe_replay :: "'f replay_env"
  oe_processes :: "'f host"
  oe_matrices :: "'f \<Rightarrow> Matrix document_source"
  oe_profiles :: "'f \<Rightarrow> Profile document_source"
  oe_decodeEvidence :: "string \<Rightarrow> go_err + EvidenceBundle"
  oe_encodeEvidence :: "EvidenceBundle \<Rightarrow> go_err + string"
  oe_encodeMatrix :: "Matrix \<Rightarrow> go_err + string"
  oe_WriteFile :: "string \<Rightarrow> string \<Rightarrow> 'f \<Rightarrow> go_err option \<times> 'f"
  oe_MkdirTemp :: "string \<Rightarrow> 'f \<Rightarrow> (go_err + string) \<times> 'f"
  oe_Remove :: "string \<Rightarrow> 'f \<Rightarrow> 'f"
  oe_ParseDuration :: "string \<Rightarrow> int option"
  oe_LookupEnv :: "string \<Rightarrow> 'f \<Rightarrow> string option"
  oe_quote :: "string \<Rightarrow> string"
  oe_show :: "go_err \<Rightarrow> string"

definition fileText :: "('f, 'x) offline_env_scheme \<Rightarrow> string \<Rightarrow> 'f \<Rightarrow> go_err + string" where
  "fileText E path f = be_ReadFile (oe_bundle E) path f"

definition offline_fileSHA256 :: "('f, 'x) offline_env_scheme \<Rightarrow> string \<Rightarrow> 'f \<Rightarrow> go_err + string" where
  "offline_fileSHA256 E path f = (case fileText E path f of
     Inl e \<Rightarrow> Inl (Errorw (Sprintf ''read file %s'' [FText path]) e) | Inr t \<Rightarrow> Inr (sha256Hex (oe_bundle E) t))"

definition runCommandCapture :: "('f, 'x) offline_env_scheme \<Rightarrow> string list \<Rightarrow> ('f sys, string \<times> go_err option) io" where
  "runCommandCapture E argv = (\<lambda>s. case Exec (oe_processes E) argv (Environ (oe_processes E) (sy_host s)) (sy_host s) of
     ((out, e), f) \<Rightarrow> (Inr (TrimSpace out, e), s\<lparr>sy_host := f\<rparr>))"

definition lookupEnvTrimmed :: "('f, 'x) offline_env_scheme \<Rightarrow> string \<Rightarrow> 'f \<Rightarrow> string" where
  "lookupEnvTrimmed E name f = (case oe_LookupEnv E name f of None \<Rightarrow> [] | Some v \<Rightarrow> TrimSpace v)"

section \<open>Evidence files\<close>

definition LoadEvidence :: "('f, 'x) offline_env_scheme \<Rightarrow> string \<Rightarrow> 'f \<Rightarrow> go_err + EvidenceBundle" where
  "LoadEvidence E path f = (case fileText E path f of Inl e \<Rightarrow> Inl (Errorw (Msg ''read evidence'') e)
   | Inr t \<Rightarrow> (case oe_decodeEvidence E t of Inl e \<Rightarrow> Inl (Errorw (Msg ''decode evidence'') e) | Inr b \<Rightarrow> Inr b))"

definition WriteEvidence :: "('f, 'x) offline_env_scheme \<Rightarrow> string \<Rightarrow> EvidenceBundle option \<Rightarrow> 'f \<Rightarrow> go_err option \<times> 'f" where
  "WriteEvidence E path eo f = (case eo of None \<Rightarrow> (Some (errf ''evidence bundle is nil'' []), f)
   | Some b \<Rightarrow> (case oe_encodeEvidence E b of Inl e \<Rightarrow> (Some (Errorw (Msg ''marshal evidence'') e), f)
     | Inr t \<Rightarrow> (case oe_WriteFile E path (t @ newline) f of
         (Some e, f') \<Rightarrow> (Some (Errorw (Msg ''write evidence file'') e), f') | (None, f') \<Rightarrow> (None, f'))))"

section \<open>Flags\<close>

type_synonym flag_map = "string \<Rightarrow> string option"

definition boolTrue :: string where "boolTrue = ''true''"

definition boolFlags :: "string list" where
  "boolFlags = [''--local-no-rocky'', ''--skip-preflight'', ''--skip-release-gate'', ''--run-official-vectors'',
     ''--run-official-es6-100m'', ''--strict'', ''--no-strict'']"

fun offline_parseKV :: "flag_map \<Rightarrow> string list \<Rightarrow> go_err + flag_map" where
  "offline_parseKV fs [] = Inr fs"
| "offline_parseKV fs (arg # args) =
     (if arg = ''--help'' \<or> arg = ''-h'' then offline_parseKV (fs(arg \<mapsto> boolTrue)) args
      else if \<not> HasPrefix arg ''--'' then Inl (errf ''unexpected argument %q'' [arg])
      else if Contains arg ''='' then (case splitAssign arg of (k, v) \<Rightarrow> offline_parseKV (fs(k \<mapsto> v)) args)
      else if arg \<in> set boolFlags \<and> (args = [] \<or> HasPrefix (hd args) ''--'') then offline_parseKV (fs(arg \<mapsto> boolTrue)) args
      else (case args of [] \<Rightarrow> Inl (errf ''flag %s requires value'' [arg])
        | v # more_args \<Rightarrow> offline_parseKV (fs(arg \<mapsto> v)) more_args))"

definition requireFlag :: "flag_map \<Rightarrow> string \<Rightarrow> string" where
  "requireFlag fs name = TrimSpace (case fs name of Some v \<Rightarrow> v | None \<Rightarrow> [])"

text \<open>
  Lower case for the ASCII letters. No other rune folds to or lowers to a letter of the tokens it is compared with.
\<close>

definition ToLower :: "string \<Rightarrow> string" where
  "ToLower s = map (\<lambda>c. if 0x41 \<le> (of_char c :: nat) \<and> (of_char c :: nat) \<le> 0x5A then char_of (of_char c + 0x20 :: nat) else c) s"

definition helpRequested :: "flag_map \<Rightarrow> bool" where
  "helpRequested fs \<longleftrightarrow> ToLower (requireFlag fs ''--help'') = boolTrue \<or> ToLower (requireFlag fs ''-h'') = boolTrue"

definition defaultTimeout :: int where "defaultTimeout = 12 * 3600 * 1000000000"

definition parseTimeout :: "('f, 'x) offline_env_scheme \<Rightarrow> flag_map \<Rightarrow> go_err + int" where
  "parseTimeout E fs = (let raw = requireFlag fs ''--timeout'' in
     if raw = [] then Inr defaultTimeout
     else (case oe_ParseDuration E raw of None \<Rightarrow> Inl (errf ''invalid --timeout value %q'' [raw])
       | Some d \<Rightarrow> if d \<le> 0 then Inl (errf ''invalid --timeout value %q'' [raw]) else Inr d))"

section \<open>The identity of the sources\<close>

text \<open>The commit that is checked out; the two callers differ in the text of the error.\<close>

definition gitCommit :: "('f, 'x) offline_env_scheme \<Rightarrow> string \<Rightarrow> ('f sys, string) io" where
  "gitCommit E fmt = io_bind (runCommandCapture E [''git'', ''rev-parse'', ''HEAD'']) (\<lambda>(out, err). case err of
     Some e \<Rightarrow> io_fail (Errorw (Sprintf fmt [FText out]) e) | None \<Rightarrow> io_return (TrimSpace out))"

definition gitTag :: "('f, 'x) offline_env_scheme \<Rightarrow> ('f sys, string) io" where
  "gitTag E = io_bind (runCommandCapture E [''git'', ''describe'', ''--tags'', ''--exact-match'']) (\<lambda>(out, err).
     io_return (if err = None then TrimSpace out else []))"

definition firstNonEmpty :: "string \<Rightarrow> string \<Rightarrow> string" where
  "firstNonEmpty a b = (if a \<noteq> [] then a else b)"

text \<open>The given commit or that of git, then the given tag (looked up after git was asked) or that of git.\<close>

definition identity_from ::
  "('f, 'x) offline_env_scheme \<Rightarrow> string \<Rightarrow> string \<Rightarrow> ('f \<Rightarrow> string) \<Rightarrow> ('f sys, string \<times> string) io" where
  "identity_from E fmt commit tagOf =
     io_bind (if commit \<noteq> [] then io_return commit else gitCommit E fmt) (\<lambda>c.
     io_bind (ask_host tagOf) (\<lambda>tag.
     io_bind (if tag \<noteq> [] then io_return tag else gitTag E) (\<lambda>t.
       io_return (c, firstNonEmpty t ''untagged''))))"

definition resolveSourceIdentity :: "('f, 'x) offline_env_scheme \<Rightarrow> flag_map \<Rightarrow> ('f sys, string \<times> string) io" where
  "resolveSourceIdentity E fs =
     io_bind (ask_host (lookupEnvTrimmed E ''JCS_OFFLINE_SOURCE_GIT_COMMIT'')) (\<lambda>envCommit.
       identity_from E ''resolve source git commit (set --source-git-commit or JCS_OFFLINE_SOURCE_GIT_COMMIT): %w (%s)''
         (firstNonEmpty (requireFlag fs ''--source-git-commit'') envCommit)
         (\<lambda>f. firstNonEmpty (requireFlag fs ''--source-git-tag'') (lookupEnvTrimmed E ''JCS_OFFLINE_SOURCE_GIT_TAG'' f)))"

definition resolveExpectedSourceIdentity :: "('f, 'x) offline_env_scheme \<Rightarrow> flag_map \<Rightarrow> 'f \<Rightarrow> string \<times> string" where
  "resolveExpectedSourceIdentity E fs f =
     (TrimSpace (firstNonEmpty (requireFlag fs ''--source-git-commit'') (lookupEnvTrimmed E ''JCS_OFFLINE_EXPECTED_GIT_COMMIT'' f)),
      TrimSpace (firstNonEmpty (requireFlag fs ''--source-git-tag'') (lookupEnvTrimmed E ''JCS_OFFLINE_EXPECTED_GIT_TAG'' f)))"

section \<open>prepare\<close>

definition requirePrepareFlags :: "flag_map \<Rightarrow> go_err + string \<times> string \<times> string \<times> string" where
  "requirePrepareFlags fs =
     (let m = requireFlag fs ''--matrix''; p = requireFlag fs ''--profile''; b = requireFlag fs ''--bundle'';
          x = requireFlag fs ''--binary''
      in if m = [] \<or> p = [] \<or> b = [] \<or> x = [] then Inl (errf ''prepare requires --matrix, --profile, --binary, --bundle'' [])
         else Inr (m, p, b, x))"

definition buildWorkerBinary :: "('f, 'x) offline_env_scheme \<Rightarrow> ('f sys, string) io" where
  "buildWorkerBinary E =
     io_bind (io_wrap (Msg ''create worker temp dir'') (on_host (oe_MkdirTemp E ''jcs-offline-worker-*''))) (\<lambda>tmpDir.
     let out = filepath_Join [tmpDir, ''jcs-offline-worker''] in
     (\<lambda>s. case Exec (oe_processes E) [''go'', ''build'', ''-trimpath'', ''-buildvcs=false'', ''-ldflags=-s -w -buildid='', ''-o'',
          out, ''./cmd/jcs-offline-worker''] (Environ (oe_processes E) (sy_host s) @ [''CGO_ENABLED=0'']) (sy_host s) of
        ((buf, Some e), f) \<Rightarrow> (Inl (Errorw (Sprintf ''build worker binary: %w: %s'' [FText (TrimSpace buf)]) e), s\<lparr>sy_host := f\<rparr>)
      | ((buf, None), f) \<Rightarrow> (Inr out, s\<lparr>sy_host := f\<rparr>)))"

text \<open>The path of the worker, and what the deferred cleanup does.\<close>

definition resolveWorkerPath :: "('f, 'x) offline_env_scheme \<Rightarrow> flag_map \<Rightarrow> ('f sys, string \<times> ('f sys \<Rightarrow> 'f sys)) io" where
  "resolveWorkerPath E fs = (let path = requireFlag fs ''--worker'' in
     if path \<noteq> [] then io_return (path, \<lambda>s. s)
     else io_bind (buildWorkerBinary E) (\<lambda>p. io_return (p, \<lambda>s. s\<lparr>sy_host := oe_Remove E p (sy_host s)\<rparr>)))"

definition writePrepareSummary :: "io_writer \<Rightarrow> string \<Rightarrow> BundleManifest \<Rightarrow> ('f sys, unit) io" where
  "writePrepareSummary out bundlePath m = offline_writeLines out
     [''bundle: '' @ bundlePath, ''binary_sha256: '' @ bm_BinarySHA256 m, ''worker_sha256: '' @ bm_WorkerSHA256 m,
      ''vector_set_sha256: '' @ bm_VectorSetSHA256 m]"

definition loadMatrix :: "('f, 'x) offline_env_scheme \<Rightarrow> string \<Rightarrow> ('f sys, Matrix) io" where
  "loadMatrix E path = io_wrap (Msg ''load matrix'') (\<lambda>s. (LoadMatrix (oe_matrices E (sy_host s)) path, s))"

definition loadProfile :: "('f, 'x) offline_env_scheme \<Rightarrow> string \<Rightarrow> ('f sys, Profile) io" where
  "loadProfile E path = io_wrap (Msg ''load profile'') (\<lambda>s. (LoadProfile (oe_profiles E (sy_host s)) path, s))"

definition loadEvidence :: "('f, 'x) offline_env_scheme \<Rightarrow> string \<Rightarrow> ('f sys, EvidenceBundle) io" where
  "loadEvidence E path = io_wrap (Msg ''load evidence'') (\<lambda>s. (LoadEvidence E path (sy_host s), s))"

definition cmdPrepare :: "('f, 'x) offline_env_scheme \<Rightarrow> flag_map \<Rightarrow> io_writer \<Rightarrow> ('f sys, unit) io" where
  "cmdPrepare E fs out =
     io_bind (io_lift (requirePrepareFlags fs)) (\<lambda>(matrixPath, profilePath, bundlePath, binaryPath).
     io_bind (loadMatrix E matrixPath) (\<lambda>_.
     io_bind (loadProfile E profilePath) (\<lambda>_.
     io_bind (resolveWorkerPath E fs) (\<lambda>(workerPath, cleanupWorker).
     io_finally cleanupWorker (
       io_bind (io_wrap (Msg ''create bundle'') (on_host (CreateBundle (oe_bundle E)
         \<lparr>bo_OutputPath = bundlePath, bo_BinaryPath = binaryPath, bo_WorkerPath = workerPath, bo_MatrixPath = matrixPath,
          bo_ProfilePath = profilePath, bo_VectorsGlob = ''conformance/vectors/*.jsonl'', bo_Version = ''bundle.v1''\<rparr>))) (\<lambda>manifest.
       writePrepareSummary out bundlePath manifest))))))"

section \<open>run\<close>

record run_inputs =
  ri_matrix :: Matrix
  ri_profile :: Profile
  ri_manifest :: BundleManifest
  ri_bundleSHA :: string
  ri_matrixSHA :: string
  ri_profileSHA :: string

definition loadRunInputs :: "('f, 'x) offline_env_scheme \<Rightarrow> string \<Rightarrow> string \<Rightarrow> string \<Rightarrow> ('f sys, run_inputs) io" where
  "loadRunInputs E matrixPath profilePath bundlePath =
     io_bind (loadMatrix E matrixPath) (\<lambda>m.
     io_bind (loadProfile E profilePath) (\<lambda>p.
     io_bind (io_wrap (Msg ''verify bundle'') (\<lambda>s. (VerifyBundle (oe_bundle E) bundlePath (sy_host s), s))) (\<lambda>(manifest, bundleSHA).
     io_bind (\<lambda>s. (offline_fileSHA256 E matrixPath (sy_host s), s)) (\<lambda>matrixSHA.
     io_bind (\<lambda>s. (offline_fileSHA256 E profilePath (sy_host s), s)) (\<lambda>profileSHA.
       io_return \<lparr>ri_matrix = m, ri_profile = p, ri_manifest = manifest, ri_bundleSHA = bundleSHA, ri_matrixSHA = matrixSHA,
         ri_profileSHA = profileSHA\<rparr>)))))"

definition writeRunSummary :: "io_writer \<Rightarrow> string \<Rightarrow> EvidenceBundle \<Rightarrow> ('f sys, unit) io" where
  "writeRunSummary out path b = offline_writeLines out
     [''evidence: '' @ path, ''runs: '' @ Itoa (int (length (eb_NodeReplays b))),
      ''aggregate_canonical_sha256: '' @ eb_AggregateCanonical b]"

definition runOptions :: "string \<Rightarrow> run_inputs \<Rightarrow> string \<Rightarrow> string \<Rightarrow> RunOptions" where
  "runOptions bundlePath i commit tag =
     \<lparr>ro_BundlePath = bundlePath, ro_BundleSHA256 = ri_bundleSHA i, ro_ControlBinarySHA256 = bm_BinarySHA256 (ri_manifest i),
      ro_MatrixSHA256 = ri_matrixSHA i, ro_ProfileSHA256 = ri_profileSHA i, ro_SourceGitCommit = commit, ro_SourceGitTag = tag,
      ro_Orchestrator = ''jcs-offline-replay'', ro_GlobalEnv = fmempty, ro_Now = None\<rparr>"

definition cmdRun :: "('f, 'x) offline_env_scheme \<Rightarrow> flag_map \<Rightarrow> io_writer \<Rightarrow> ('f sys, unit) io" where
  "cmdRun E fs out =
     (let matrixPath = requireFlag fs ''--matrix''; profilePath = requireFlag fs ''--profile'';
          bundlePath = requireFlag fs ''--bundle''; evPath = requireFlag fs ''--evidence'' in
      io_bind (io_reject (matrixPath = [] \<or> profilePath = [] \<or> bundlePath = [] \<or> evPath = [])
        (errf ''run requires --matrix, --profile, --bundle, --evidence'' [])) (\<lambda>_.
      io_bind (io_wrap (Msg ''load run inputs'') (loadRunInputs E matrixPath profilePath bundlePath)) (\<lambda>i.
      io_bind (io_lift (parseTimeout E fs)) (\<lambda>timeout.
      io_bind (resolveSourceIdentity E fs) (\<lambda>(commit, tag).
      io_bind (io_wrap (Msg ''run replay matrix'') (on_host (RunMatrix (oe_replay E) (Some (ri_matrix i)) (Some (ri_profile i))
        (Some (adapterFactory (oe_processes E))) (runOptions bundlePath i commit tag)))) (\<lambda>evidence.
      io_bind (io_wrap (Msg ''write evidence'') (act_host (WriteEvidence E evPath (Some evidence)))) (\<lambda>_.
      writeRunSummary out evPath evidence)))))))"

section \<open>verify-evidence\<close>

definition defaultEvidenceArtifactPaths :: "string \<Rightarrow> string \<times> string" where
  "defaultEvidenceArtifactPaths evPath = (let base = filepath_Dir evPath in
     (filepath_Join [base, ''offline-bundle.tgz''], filepath_Join [base, ''bin'', ''jcs-canon'']))"

definition resolveVerifyPaths :: "flag_map \<Rightarrow> string \<Rightarrow> string \<times> string" where
  "resolveVerifyPaths fs evPath = (case defaultEvidenceArtifactPaths evPath of (bundle, control) \<Rightarrow>
     (firstNonEmpty (requireFlag fs ''--bundle'') bundle, firstNonEmpty (requireFlag fs ''--control-binary'') control))"

text \<open>The digests of the bundle, the program, the matrix and the profile, in this order.\<close>

definition loadVerificationDigests ::
  "('f, 'x) offline_env_scheme \<Rightarrow> string \<Rightarrow> string \<Rightarrow> string \<Rightarrow> string \<Rightarrow> 'f \<Rightarrow> go_err + string \<times> string \<times> string \<times> string" where
  "loadVerificationDigests E bundlePath controlBinaryPath matrixPath profilePath f =
     (case offline_fileSHA256 E bundlePath f of Inl e \<Rightarrow> Inl (Errorw (Msg ''resolve bundle sha256'') e) | Inr b \<Rightarrow>
     (case offline_fileSHA256 E controlBinaryPath f of Inl e \<Rightarrow> Inl (Errorw (Msg ''resolve control binary sha256'') e) | Inr c \<Rightarrow>
     (case offline_fileSHA256 E matrixPath f of Inl e \<Rightarrow> Inl (Errorw (Msg ''resolve matrix sha256'') e) | Inr m \<Rightarrow>
     (case offline_fileSHA256 E profilePath f of Inl e \<Rightarrow> Inl (Errorw (Msg ''resolve profile sha256'') e) | Inr p \<Rightarrow>
       Inr (b, c, m, p)))))"

definition verifyOptions :: "string \<times> string \<times> string \<times> string \<Rightarrow> Matrix \<Rightarrow> string \<times> string \<Rightarrow> EvidenceValidationOptions" where
  "verifyOptions ds m identity = (case ds of (b, c, ms, ps) \<Rightarrow>
     \<lparr>vo_BundleSHA256 = b, vo_ControlBinarySHA256 = c, vo_MatrixSHA256 = ms, vo_ProfileSHA256 = ps,
      vo_Architecture = mx_Architecture m, vo_SourceGitCommit = fst identity, vo_SourceGitTag = snd identity\<rparr>)"

definition cmdVerifyEvidence :: "('f, 'x) offline_env_scheme \<Rightarrow> flag_map \<Rightarrow> io_writer \<Rightarrow> ('f sys, unit) io" where
  "cmdVerifyEvidence E fs out =
     (let matrixPath = requireFlag fs ''--matrix''; profilePath = requireFlag fs ''--profile''; evPath = requireFlag fs ''--evidence'' in
      io_bind (io_reject (matrixPath = [] \<or> profilePath = [] \<or> evPath = [])
        (errf ''verify-evidence requires --matrix, --profile, --evidence'' [])) (\<lambda>_.
      case resolveVerifyPaths fs evPath of (bundlePath, controlBinaryPath) \<Rightarrow>
      io_bind (loadMatrix E matrixPath) (\<lambda>m.
      io_bind (loadProfile E profilePath) (\<lambda>p.
      io_bind (loadEvidence E evPath) (\<lambda>ev.
      io_bind (io_wrap (Msg ''load verification digests'')
        (\<lambda>s. (loadVerificationDigests E bundlePath controlBinaryPath matrixPath profilePath (sy_host s), s))) (\<lambda>ds.
      io_bind (ask_host (resolveExpectedSourceIdentity E fs)) (\<lambda>identity.
      io_bind (case ValidateEvidenceBundle (Some ev) (Some m) (Some p) (verifyOptions ds m identity) of
          Some e \<Rightarrow> io_fail (Errorw (Msg ''validate evidence bundle'') e) | None \<Rightarrow> io_return ()) (\<lambda>_.
      offline_writeLine out ''ok''))))))))"

section \<open>report and inspect-matrix\<close>

definition writeReportHeader :: "io_writer \<Rightarrow> EvidenceBundle \<Rightarrow> ('f sys, unit) io" where
  "writeReportHeader out b = offline_writeLines out
     [''schema: '' @ eb_SchemaVersion b, ''profile: '' @ eb_ProfileName b, ''architecture: '' @ eb_Architecture b,
      ''source git commit: '' @ eb_SourceGitCommit b, ''source git tag: '' @ eb_SourceGitTag b,
      ''runs: '' @ Itoa (int (length (eb_NodeReplays b))), ''aggregate canonical: '' @ eb_AggregateCanonical b]"

text \<open>The nodes that occur, sorted.\<close>

definition node_ids :: "EvidenceBundle \<Rightarrow> string list" where
  "node_ids b = sort (remdups (map re_NodeID (eb_NodeReplays b)))"

definition runs_of :: "EvidenceBundle \<Rightarrow> string \<Rightarrow> NodeRunEvidence list" where
  "runs_of b i = filter (\<lambda>r. re_NodeID r = i) (eb_NodeReplays b)"

definition writeReportNodeBreakdown :: "io_writer \<Rightarrow> EvidenceBundle \<Rightarrow> ('f sys, unit) io" where
  "writeReportNodeBreakdown out b = offline_writeLines out
     (map (\<lambda>i. ''node '' @ i @ '': '' @ Itoa (int (length (runs_of b i))) @ '' replays'') (node_ids b))"

definition cmdReport :: "('f, 'x) offline_env_scheme \<Rightarrow> flag_map \<Rightarrow> io_writer \<Rightarrow> ('f sys, unit) io" where
  "cmdReport E fs out = (let evPath = requireFlag fs ''--evidence'' in
     io_bind (io_reject (evPath = []) (errf ''report requires --evidence'' [])) (\<lambda>_.
     io_bind (loadEvidence E evPath) (\<lambda>ev.
     io_bind (writeReportHeader out ev) (\<lambda>_.
     writeReportNodeBreakdown out ev))))"

definition cmdInspectMatrix :: "('f, 'x) offline_env_scheme \<Rightarrow> flag_map \<Rightarrow> io_writer \<Rightarrow> ('f sys, unit) io" where
  "cmdInspectMatrix E fs out = (let matrixPath = requireFlag fs ''--matrix'' in
     io_bind (io_reject (matrixPath = []) (errf ''inspect-matrix requires --matrix'' [])) (\<lambda>_.
     io_bind (loadMatrix E matrixPath) (\<lambda>m.
     io_wrap (Msg ''encode matrix'') (io_bind (io_lift (oe_encodeMatrix E m)) (\<lambda>t. put out (t @ newline))))))"

section \<open>Usage and errors\<close>

definition offline_writeUsage :: "io_writer \<Rightarrow> ('f sys, unit) io" where
  "offline_writeUsage out = offline_writeLines out
     [''usage: jcs-offline-replay <prepare|run|preflight|audit-summary|run-suite|cross-arch|verify-evidence|report|inspect-matrix> [flags]'',
      ''  prepare --matrix <path> --profile <path> --binary <path> --bundle <path> [--worker <path>]'',
      ''  run --matrix <path> --profile <path> --bundle <path> --evidence <path> [--timeout 12h] [--source-git-commit <sha>] [--source-git-tag <tag>]'',
      ''  preflight --matrix <path> [--strict] [--no-strict]'',
      ''  audit-summary --matrix <path> --profile <path> --evidence <path> [--output-dir <path>]'',
      ''  run-suite --matrix <path> --profile <path> [--output-dir <path>] [--timeout 12h] [--version v0.0.0-dev] [--skip-preflight] [--skip-release-gate]'',
      ''  cross-arch [--x86-matrix <path>] [--x86-profile <path>] [--arm64-matrix <path>] [--arm64-profile <path>] [--local-no-rocky] [--output-dir <path>] [--timeout 12h] [--run-official-vectors] [--run-official-es6-100m]'',
      ''  verify-evidence --matrix <path> --profile <path> --evidence <path> [--bundle <path>] [--control-binary <path>] [--source-git-commit <sha>] [--source-git-tag <tag>]'',
      ''  report --evidence <path>'',
      ''  inspect-matrix --matrix <path>'']"

definition offline_writeErrorLine :: "('f, 'x) offline_env_scheme \<Rightarrow> io_writer \<Rightarrow> go_err \<Rightarrow> 'f sys \<Rightarrow> int \<times> 'f sys" where
  "offline_writeErrorLine E stderr e s = (2, snd (offline_writef stderr (''error: '' @ oe_show E e @ newline) s))"

end
