(* ===== verification/Harness_Data.thy ===== *)
theory Harness_Data
  imports Offline_Cmds
begin

text \<open>
  The data of the replay harness and its pure functions (src/cmd/jcs-offline-replay/offline_harness.go): options, the
  audit summary of an evidence bundle, the comparison of two architectures, their Markdown texts, and the small parsers.

  A Go map that is filled and then only read is a finite map; the sorted keys of a map are its domain in increasing order.
  The runs of a node are sorted by their index with a stable sort, where \<^verbatim>\<open>sort.Slice\<close> may exchange runs with the same
  index; only the listed case counts of such runs can differ, no verdict depends on their order.
\<close>

section \<open>Options and reports\<close>

definition defaultMatrixPath :: string where "defaultMatrixPath = ''offline/matrix.yaml''"
definition defaultProfilePath :: string where "defaultProfilePath = ''offline/profiles/maximal.yaml''"
definition defaultARMMatrixPath :: string where "defaultARMMatrixPath = ''offline/matrix.arm64.yaml''"
definition defaultARMProfilePath :: string where "defaultARMProfilePath = ''offline/profiles/maximal.arm64.yaml''"
definition defaultBuildVersion :: string where "defaultBuildVersion = ''v0.0.0-dev''"
definition resultPass :: string where "resultPass = ''PASS''"
definition resultFail :: string where "resultFail = ''FAIL''"

record runSuiteOptions =
  so_MatrixPath :: string
  so_ProfilePath :: string
  so_OutputDir :: string
  so_Timeout :: int
  so_Version :: string
  so_SkipPreflight :: bool
  so_SkipReleaseGate :: bool

record runSuiteArtifacts =
  sa_OutputDir :: string
  sa_BundlePath :: string
  sa_EvidencePath :: string
  sa_ControllerPath :: string
  sa_CanonicalPath :: string
  sa_MatrixPath :: string
  sa_ProfilePath :: string
  sa_MatrixAbsPath :: string
  sa_ProfileAbsPath :: string

record auditSummary =
  as_GeneratedAtUTC :: string
  as_MatrixPath :: string
  as_ProfilePath :: string
  as_EvidencePath :: string
  as_SchemaVersion :: string
  as_ProfileName :: string
  as_Architecture :: string
  as_HardReleaseGate :: bool
  as_NodeCount :: int
  as_RunCount :: int
  as_RequiredSuites :: "string list"
  as_Aggregate :: gomap
  as_DigestSets :: "(string, string list) fmap"
  as_NodeReplayCounts :: "(string, int) fmap"
  as_NodeReplayCaseCount :: "(string, int list) fmap"
  as_Parity :: "(string, bool) fmap"
  as_Result :: string

record crossArchCheck =
  cc_Field :: string
  cc_Label :: string
  cc_X86 :: string
  cc_Arm64 :: string
  cc_Match :: bool

record crossArchReport =
  cr_GeneratedAtUTC :: string
  cr_X86Evidence :: string
  cr_Arm64Evidence :: string
  cr_Result :: string
  cr_Checks :: "crossArchCheck list"

record vmLane =
  vl_NodeID :: string
  vl_Domain :: string
  vl_Snapshot :: string
  vl_SSHTarget :: string
  vl_SSHOptions :: string

section \<open>Flags\<close>

definition parseBoolToken :: "string \<Rightarrow> go_err + bool" where
  "parseBoolToken raw = (let t = ToLower (TrimSpace raw) in
     if t \<in> {''1'', ''true'', ''yes'', ''on''} then Inr True
     else if t \<in> {''0'', ''false'', ''no'', ''off''} then Inr False
     else Inl (errf ''invalid boolean value %q'' [raw]))"

definition parseBoolFlag :: "flag_map \<Rightarrow> string \<Rightarrow> go_err + bool" where
  "parseBoolFlag fs name = (let raw = requireFlag fs name in if raw = [] then Inr False else parseBoolToken raw)"

definition defaultString :: "flag_map \<Rightarrow> string \<Rightarrow> string \<Rightarrow> string" where
  "defaultString fs key fallback = firstNonEmpty (requireFlag fs key) fallback"

text \<open>\<^verbatim>\<open>strict\<close> of the preflight: on unless switched off.\<close>

definition preflightStrict :: "flag_map \<Rightarrow> go_err + bool" where
  "preflightStrict fs =
     (case (if requireFlag fs ''--strict'' = [] then Inr True else parseBoolToken (requireFlag fs ''--strict'')) of
        Inl e \<Rightarrow> Inl (Errorw (Msg ''parse --strict'') e)
      | Inr strict \<Rightarrow> (case parseBoolFlag fs ''--no-strict'' of
          Inl e \<Rightarrow> Inl (Errorw (Msg ''parse --no-strict'') e)
        | Inr off \<Rightarrow> Inr (if off then False else strict)))"

definition parseRunSuiteOptions :: "('f, 'x) offline_env_scheme \<Rightarrow> flag_map \<Rightarrow> string \<Rightarrow> go_err + runSuiteOptions" where
  "parseRunSuiteOptions E fs stamp =
     (case parseBoolFlag fs ''--skip-preflight'' of Inl e \<Rightarrow> Inl e | Inr skipPreflight \<Rightarrow>
     (case parseBoolFlag fs ''--skip-release-gate'' of Inl e \<Rightarrow> Inl e | Inr skipReleaseGate \<Rightarrow>
     (case parseTimeout E fs of Inl e \<Rightarrow> Inl e | Inr timeout \<Rightarrow>
       Inr \<lparr>so_MatrixPath = defaultString fs ''--matrix'' defaultMatrixPath,
         so_ProfilePath = defaultString fs ''--profile'' defaultProfilePath,
         so_OutputDir = firstNonEmpty (requireFlag fs ''--output-dir'') (filepath_Join [''offline'', ''runs'', stamp]),
         so_Timeout = timeout, so_Version = defaultString fs ''--version'' defaultBuildVersion,
         so_SkipPreflight = skipPreflight, so_SkipReleaseGate = skipReleaseGate\<rparr>)))"

section \<open>Paths and texts\<close>

definition is_abs :: "string \<Rightarrow> bool" where
  "is_abs p \<longleftrightarrow> HasPrefix p ''/''"

fun drop_common :: "string list \<Rightarrow> string list \<Rightarrow> string list \<times> string list" where
  "drop_common (a # as) (b # bs) = (if a = b then drop_common as bs else (a # as, b # bs))"
| "drop_common as bs = (as, bs)"

definition path_elems :: "string \<Rightarrow> string list" where
  "path_elems p = filter (\<lambda>e. e \<noteq> []) (split_slash p)"

text \<open>\<^verbatim>\<open>filepath.Rel\<close> on Unix.\<close>

definition filepath_Rel :: "string \<Rightarrow> string \<Rightarrow> go_err + string" where
  "filepath_Rel basepath targpath =
     (let base = path_Clean basepath; targ = path_Clean targpath; cannot = Inl (Opaque ''Rel: cannot make relative'') in
      if targ = base then Inr ''.''
      else (let b = (if base = ''.'' then [] else base) in
        if is_abs b \<noteq> is_abs targ then cannot
        else (case drop_common (path_elems b) (path_elems targ) of (up, down) \<Rightarrow>
          if up \<noteq> [] \<and> hd up = ''..'' then cannot
          else Inr (Join (replicate (length up) ''..'' @ down) ''/''))))"

definition toRepoRelative :: "string \<Rightarrow> string \<Rightarrow> string" where
  "toRepoRelative repoRoot absPath =
     (if \<not> is_abs absPath then absPath
      else (case filepath_Rel repoRoot absPath of Inl _ \<Rightarrow> absPath | Inr rel \<Rightarrow> rel))"

text \<open>\<^verbatim>\<open>strings.Split\<close> at line ends and \<^verbatim>\<open>strings.Fields\<close>.\<close>

fun split_lines :: "string \<Rightarrow> string list" where
  "split_lines [] = [[]]"
| "split_lines (c # s) = (if c = CHR 0x0A then [] # split_lines s
     else (case split_lines s of [] \<Rightarrow> [[c]] | l # ls \<Rightarrow> (c # l) # ls))"

definition containsLine :: "string \<Rightarrow> string \<Rightarrow> bool" where
  "containsLine body want \<longleftrightarrow> list_ex (\<lambda>line. TrimSpace line = TrimSpace want) (split_lines body)"

definition space_prefix :: "string \<Rightarrow> string option" where
  "space_prefix s = find (HasPrefix s) spaces"

text \<open>The characters up to the next space, and what follows.\<close>

fun field_end :: "string \<Rightarrow> string \<times> string" where
  "field_end [] = ([], [])"
| "field_end (c # s) = (if space_prefix (c # s) \<noteq> None then ([], c # s)
     else (case field_end s of (a, b) \<Rightarrow> (c # a, b)))"

lemma field_end_length: "length (snd (field_end s)) \<le> length s"
  by (induction s) (auto split: prod.splits)

lemma strip_length: "length (strip ps s) \<le> length s"
proof (induction ps s rule: strip.induct)
  case (1 ps s)
  show ?case
  proof (cases "find (\<lambda>p. p \<noteq> [] \<and> HasPrefix s p) ps")
    case None
    then show ?thesis by (simp add: strip.simps [of ps s])
  next
    case (Some p)
    with 1 show ?thesis by (simp add: strip.simps [of ps s])
  qed
qed

text \<open>A field starts with what follows the spaces and goes up to the next space; every field takes a character.\<close>

function Fields :: "string \<Rightarrow> string list" where
  "Fields s = (case strip spaces s of [] \<Rightarrow> [] | c # t \<Rightarrow> (c # fst (field_end t)) # Fields (snd (field_end t)))"
  by pat_completeness auto
termination
proof (relation "measure length", goal_cases)
  case (2 s c t)
  then show ?case using strip_length [of spaces s] field_end_length [of t] by simp
qed simp

declare Fields.simps [simp del]

definition bool_text :: "bool \<Rightarrow> string" where
  "bool_text b = (if b then ''true'' else ''false'')"

definition ints_text :: "int list \<Rightarrow> string" where
  "ints_text ks = ''['' @ Join (map Itoa ks) '' '' @ '']''"

section \<open>The audit summary\<close>

definition mapKeys :: "(string, 'v) fmap \<Rightarrow> string list" where
  "mapKeys m = sorted_list_of_fset (fmdom m)"

text \<open>The digests of one kind that occur, sorted.\<close>

definition digest_set :: "(NodeRunEvidence \<Rightarrow> string) \<Rightarrow> EvidenceBundle \<Rightarrow> string list" where
  "digest_set d b = sort (remdups (filter (\<lambda>x. x \<noteq> []) (map d (eb_NodeReplays b))))"

definition parityOf :: "EvidenceBundle \<Rightarrow> (string, bool) fmap" where
  "parityOf b = fmap_of_list
     [(''canonical_single_digest'', length (digest_set re_CanonicalSHA256 b) = 1),
      (''verify_single_digest'', length (digest_set re_VerifySHA256 b) = 1),
      (''failure_class_single_digest'', length (digest_set re_FailureClassSHA256 b) = 1),
      (''exit_code_single_digest'', length (digest_set re_ExitCodeSHA256 b) = 1)]"

definition buildAuditSummary :: "EvidenceBundle \<Rightarrow> string \<Rightarrow> string \<Rightarrow> string \<Rightarrow> string \<Rightarrow> auditSummary" where
  "buildAuditSummary b matrixPath profilePath evPath now =
     (let parity = parityOf b in
      \<lparr>as_GeneratedAtUTC = now, as_MatrixPath = matrixPath, as_ProfilePath = profilePath, as_EvidencePath = evPath,
       as_SchemaVersion = eb_SchemaVersion b, as_ProfileName = eb_ProfileName b, as_Architecture = eb_Architecture b,
       as_HardReleaseGate = eb_HardReleaseGate b, as_NodeCount = int (length (node_ids b)),
       as_RunCount = int (length (eb_NodeReplays b)), as_RequiredSuites = eb_RequiredSuites b,
       as_Aggregate = fmap_of_list [(''canonical'', eb_AggregateCanonical b), (''verify'', eb_AggregateVerify b),
         (''failure_class'', eb_AggregateClass b), (''exit_code'', eb_AggregateExitCode b)],
       as_DigestSets = fmap_of_list [(''canonical_unique'', digest_set re_CanonicalSHA256 b),
         (''verify_unique'', digest_set re_VerifySHA256 b), (''failure_class_unique'', digest_set re_FailureClassSHA256 b),
         (''exit_code_unique'', digest_set re_ExitCodeSHA256 b)],
       as_NodeReplayCounts = fmap_of_list (map (\<lambda>i. (i, int (length (runs_of b i)))) (node_ids b)),
       as_NodeReplayCaseCount =
         fmap_of_list (map (\<lambda>i. (i, map re_CaseCount (sort_key re_ReplayIndex (runs_of b i)))) (node_ids b)),
       as_Parity = parity,
       as_Result = (if list_all (\<lambda>k. fmlookup parity k = Some True) (mapKeys parity) then resultPass else resultFail)\<rparr>)"

text \<open>A line of the Markdown text.\<close>

definition md_field :: "string \<Rightarrow> string \<Rightarrow> string" where
  "md_field name value = ''- '' @ name @ '': `'' @ value @ ''`''"

definition md_map :: "('v \<Rightarrow> string) \<Rightarrow> (string, 'v) fmap \<Rightarrow> string list" where
  "md_map show_value m = map (\<lambda>k. md_field k (case fmlookup m k of Some v \<Rightarrow> show_value v | None \<Rightarrow> [])) (mapKeys m)"

definition renderAuditSummaryMarkdown :: "auditSummary \<Rightarrow> string" where
  "renderAuditSummaryMarkdown s = Join
     ([''# Offline Replay Audit Summary'', [], ''- Result: **'' @ as_Result s @ ''**'', md_field ''Evidence'' (as_EvidencePath s),
       md_field ''Matrix'' (as_MatrixPath s), md_field ''Profile'' (as_ProfilePath s), md_field ''Schema'' (as_SchemaVersion s),
       md_field ''Profile Name'' (as_ProfileName s), md_field ''Architecture'' (as_Architecture s),
       md_field ''Hard Release Gate'' (bool_text (as_HardReleaseGate s)), md_field ''Node Count'' (Itoa (as_NodeCount s)),
       md_field ''Replay Rows'' (Itoa (as_RunCount s)), [], ''## Aggregate Digests'', []]
      @ md_map (\<lambda>v. v) (as_Aggregate s) @ [[], ''## Parity Checks'', []]
      @ md_map bool_text (as_Parity s) @ [[], ''## Node Replay Counts'', []]
      @ md_map Itoa (as_NodeReplayCounts s) @ [[], ''## Node Case Counts By Replay Index'', []]
      @ md_map ints_text (as_NodeReplayCaseCount s) @ [[]]) newline"

section \<open>The comparison of two architectures\<close>

definition crossCheck :: "string \<Rightarrow> string \<Rightarrow> string \<Rightarrow> string \<Rightarrow> crossArchCheck" where
  "crossCheck field label x86 arm = \<lparr>cc_Field = field, cc_Label = label, cc_X86 = x86, cc_Arm64 = arm, cc_Match = (x86 = arm)\<rparr>"

definition buildCrossArchReport ::
  "EvidenceBundle \<Rightarrow> EvidenceBundle \<Rightarrow> string \<Rightarrow> string \<Rightarrow> string \<Rightarrow> crossArchReport" where
  "buildCrossArchReport x a x86Path armPath now =
     (let checks =
        [crossCheck ''aggregate_canonical_sha256'' ''canonical'' (eb_AggregateCanonical x) (eb_AggregateCanonical a),
         crossCheck ''aggregate_verify_sha256'' ''verify'' (eb_AggregateVerify x) (eb_AggregateVerify a),
         crossCheck ''aggregate_failure_class_sha256'' ''failure_class'' (eb_AggregateClass x) (eb_AggregateClass a),
         crossCheck ''aggregate_exit_code_sha256'' ''exit_code'' (eb_AggregateExitCode x) (eb_AggregateExitCode a)]
      in \<lparr>cr_GeneratedAtUTC = now, cr_X86Evidence = x86Path, cr_Arm64Evidence = armPath,
          cr_Result = (if list_all cc_Match checks then resultPass else resultFail), cr_Checks = checks\<rparr>)"

definition crossArchMarkdown :: "crossArchReport \<Rightarrow> string" where
  "crossArchMarkdown r = Join
     ([''# Cross-Arch Replay Comparison'', [], ''- Result: **'' @ cr_Result r @ ''**'', md_field ''x86 evidence'' (cr_X86Evidence r),
       md_field ''arm64 evidence'' (cr_Arm64Evidence r), [], ''| Field | x86_64 | arm64 | Match |'', ''|---|---|---|---|'']
      @ map (\<lambda>c. ''| '' @ cc_Field c @ '' | `'' @ cc_X86 c @ ''` | `'' @ cc_Arm64 c @ ''` | `'' @ bool_text (cc_Match c) @ ''` |'')
          (cr_Checks r) @ [[]]) newline"

section \<open>Lanes\<close>

definition vmLaneFromNode :: "NodeSpec \<Rightarrow> vmLane" where
  "vmLaneFromNode node =
     (let cmd = rc_Replay (ns_Runner node);
          domain = (if 1 < length cmd then TrimSpace (cmd ! 1) else []);
          snapshot = firstNonEmpty (if 2 < length cmd then TrimSpace (cmd ! 2) else []) ''snapshot-cold'';
          env = (\<lambda>k. TrimSpace (mapString (rc_Env (ns_Runner node)) k))
      in \<lparr>vl_NodeID = ns_ID node, vl_Domain = domain, vl_Snapshot = snapshot,
          vl_SSHTarget = firstNonEmpty (env ''JCS_VM_SSH_TARGET'') (''root@'' @ domain),
          vl_SSHOptions = firstNonEmpty (env ''JCS_VM_SSH_OPTIONS'') ''-''\<rparr>)"

definition containerImageFromNode :: "NodeSpec \<Rightarrow> string" where
  "containerImageFromNode node = (let cmd = rc_Replay (ns_Runner node) in if 1 < length cmd then TrimSpace (cmd ! 1) else [])"

definition sshProbeArgs :: "string \<Rightarrow> string \<Rightarrow> string list" where
  "sshProbeArgs target options =
     (if TrimSpace options \<noteq> [] \<and> TrimSpace options \<noteq> ''-'' then Fields options else [])
     @ [''-o'', ''BatchMode=yes'', ''-o'', ''ConnectTimeout=5'', target, ''true'']"

definition checksumLine :: "string \<Rightarrow> string \<Rightarrow> string" where
  "checksumLine digest relPath = digest @ ''  '' @ relPath @ newline"

definition runIndexText :: "runSuiteArtifacts \<Rightarrow> string \<Rightarrow> string" where
  "runIndexText a repoRoot = Join
     [''offline_cold_replay_run_dir='' @ toRepoRelative repoRoot (sa_OutputDir a), ''matrix='' @ sa_MatrixPath a,
      ''profile='' @ sa_ProfilePath a, ''bundle='' @ toRepoRelative repoRoot (sa_BundlePath a),
      ''evidence='' @ toRepoRelative repoRoot (sa_EvidencePath a), ''controller='' @ toRepoRelative repoRoot (sa_ControllerPath a),
      ''canonicalizer='' @ toRepoRelative repoRoot (sa_CanonicalPath a),
      ''audit_markdown='' @ toRepoRelative repoRoot (filepath_Join [sa_OutputDir a, ''audit'', ''audit-summary.md'']),
      ''audit_json='' @ toRepoRelative repoRoot (filepath_Join [sa_OutputDir a, ''audit'', ''audit-summary.json''])] newline @ newline"

end
