(* ===== verification/Harness.thy ===== *)
theory Harness
  imports Harness_Data
begin

text \<open>
  The steps of the replay harness (src/cmd/jcs-offline-replay/offline_harness.go): logged steps, the preflight, the
  audit outputs, the suite and the comparison of two architectures, and the dispatch of jcs-offline-replay
  (src/cmd/jcs-offline-replay/main.go).

  A child process is a call that returns the chunks it printed and its error; they are passed on to the writer in
  order. A writer that fails ends the copying, but does not reach the child, whose chunks and outcome are given; in Go the
  closed pipe may change how the child ends. Either way the command fails. Log files stay open streams; closing them changes nothing that is modelled.
\<close>

record 'f harness_env = "'f offline_env" +
  he_MkdirAll :: "string \<Rightarrow> 'f \<Rightarrow> go_err option \<times> 'f"
  he_Create :: "string \<Rightarrow> 'f \<Rightarrow> (go_err + writer) \<times> 'f"
  he_Getwd :: "'f \<Rightarrow> go_err + string"
  he_LookPath :: "string \<Rightarrow> 'f \<Rightarrow> bool"
  he_Stream :: "string list \<Rightarrow> string list \<Rightarrow> 'f \<Rightarrow> (string list \<times> go_err option) \<times> 'f"
  he_now :: "'f \<Rightarrow> string"
  he_stamp :: "'f \<Rightarrow> string"
  he_encodeSummary :: "auditSummary \<Rightarrow> go_err + string"
  he_encodeReport :: "crossArchReport \<Rightarrow> go_err + string"
  he_durationText :: "int \<Rightarrow> string"

section \<open>Logged steps\<close>

definition runLoggedStep ::
  "('f, 'x) harness_env_scheme \<Rightarrow> string \<Rightarrow> io_writer \<Rightarrow> (io_writer \<Rightarrow> ('f sys, 'a) io) \<Rightarrow> ('f sys, 'a) io" where
  "runLoggedStep E logPath out fn =
     (if logPath = [] then fn out
      else io_bind (io_wrap (Msg ''create log dir'') (act_host (he_MkdirAll E (filepath_Dir logPath)))) (\<lambda>_.
        io_bind (io_wrap (Msg ''create log file'') (on_host (he_Create E logPath))) (\<lambda>st.
        io_bind (open_stream st) (\<lambda>fd. fn (MultiWriter [fd, out])))))"

definition runLoggedStepCapture ::
  "('f, 'x) harness_env_scheme \<Rightarrow> string \<Rightarrow> io_writer \<Rightarrow> (io_writer \<Rightarrow> ('f sys, unit) io) \<Rightarrow> ('f sys, string) io" where
  "runLoggedStepCapture E logPath out fn =
     io_bind (open_stream \<lparr>sent = [], script = []\<rparr>) (\<lambda>buf.
     io_bind (runLoggedStep E logPath out (\<lambda>w. fn (MultiWriter [w, buf]))) (\<lambda>_.
     (\<lambda>s. (Inr (buffer_text buf s), s))))"

definition mergedEnv :: "('f, 'x) harness_env_scheme \<Rightarrow> gomap \<Rightarrow> 'f \<Rightarrow> string list" where
  "mergedEnv E overrides f =
     (if overrides = fmempty then Environ (oe_processes E) f
      else Environ (oe_processes E) f @ map (assignment overrides) (sortedKeys overrides))"

text \<open>The chunks of a process on their way to the writer; an error of the process comes before one of the writer.\<close>

fun feed :: "io_writer \<Rightarrow> string list \<Rightarrow> ('f sys, unit) io" where
  "feed out [] = io_return ()"
| "feed out (t # ts) = io_bind (put out t) (\<lambda>_. feed out ts)"

definition runCommandToWriter ::
  "('f, 'x) harness_env_scheme \<Rightarrow> io_writer \<Rightarrow> io_writer option \<Rightarrow> gomap \<Rightarrow> string list \<Rightarrow> ('f sys, unit) io" where
  "runCommandToWriter E logw mirror env argv =
     (let writer = (case mirror of None \<Rightarrow> logw | Some m \<Rightarrow> MultiWriter [logw, m]) in
      (\<lambda>s. case he_Stream E argv (mergedEnv E env (sy_host s)) (sy_host s) of
        ((chunks, err), f) \<Rightarrow> (case feed writer chunks (s\<lparr>sy_host := f\<rparr>) of (r, s') \<Rightarrow>
          (case (err, r) of
             (Some e, _) \<Rightarrow> (Inl (Errorw (Sprintf ''run %s %v'' (map FText argv)) e), s')
           | (None, Inl e) \<Rightarrow> (Inl (Errorw (Sprintf ''run %s %v'' (map FText argv)) e), s')
           | (None, Inr _) \<Rightarrow> (Inr (), s')))))"

definition runGoCommandLogged ::
  "('f, 'x) harness_env_scheme \<Rightarrow> string \<Rightarrow> io_writer \<Rightarrow> gomap \<Rightarrow> string list \<Rightarrow> ('f sys, unit) io" where
  "runGoCommandLogged E logPath mirror env args =
     (if logPath = [] then runCommandToWriter E Discard (Some mirror) env (''go'' # args)
      else io_bind (io_wrap (Msg ''create log dir'') (act_host (he_MkdirAll E (filepath_Dir logPath)))) (\<lambda>_.
        io_bind (io_wrap (Sprintf ''create log file %s'' [FText logPath]) (on_host (he_Create E logPath))) (\<lambda>st.
        io_bind (open_stream st) (\<lambda>fd. runCommandToWriter E fd (Some mirror) env (''go'' # args)))))"

definition cgo_off :: gomap where "cgo_off = fmupd ''CGO_ENABLED'' ''0'' fmempty"

definition buildCanonicalizer ::
  "('f, 'x) harness_env_scheme \<Rightarrow> string \<Rightarrow> string \<Rightarrow> string \<Rightarrow> io_writer \<Rightarrow> ('f sys, unit) io" where
  "buildCanonicalizer E outputPath ver logPath out =
     io_bind (offline_writeLine out ''[run] build jcs-canon'') (\<lambda>_.
       runGoCommandLogged E logPath out cgo_off
         [''build'', ''-trimpath'', ''-buildvcs=false'', ''-ldflags=-s -w -buildid= -X main.version='' @ ver, ''-o'', outputPath,
          ''./cmd/jcs-canon''])"

definition buildController :: "('f, 'x) harness_env_scheme \<Rightarrow> string \<Rightarrow> string \<Rightarrow> io_writer \<Rightarrow> ('f sys, unit) io" where
  "buildController E outputPath logPath out =
     io_bind (offline_writeLine out ''[run] build jcs-offline-replay'') (\<lambda>_.
       runGoCommandLogged E logPath out cgo_off
         [''build'', ''-trimpath'', ''-buildvcs=false'', ''-ldflags=-s -w -buildid='', ''-o'', outputPath, ''./cmd/jcs-offline-replay''])"

definition runOfflineReleaseGate ::
  "('f, 'x) harness_env_scheme \<Rightarrow> string \<Rightarrow> string \<Rightarrow> string \<Rightarrow> string \<Rightarrow> string \<Rightarrow> string \<Rightarrow> io_writer \<Rightarrow> ('f sys, unit) io" where
  "runOfflineReleaseGate E matrixPath profilePath evPath commit tag logPath out =
     io_bind (offline_writeLine out ''[run] release gate test'') (\<lambda>_.
       let env = fmupd ''JCS_OFFLINE_PROFILE'' profilePath
             (fmupd ''JCS_OFFLINE_MATRIX'' matrixPath (fmupd ''JCS_OFFLINE_EVIDENCE'' evPath fmempty));
           env1 = (if TrimSpace commit \<noteq> [] then fmupd ''JCS_OFFLINE_EXPECTED_GIT_COMMIT'' commit env else env);
           env2 = (if TrimSpace tag \<noteq> [] then fmupd ''JCS_OFFLINE_EXPECTED_GIT_TAG'' tag env1 else env1)
       in runGoCommandLogged E logPath out env2
         [''test'', ''./offline/conformance'', ''-run'', ''TestOfflineReplayEvidenceReleaseGate'', ''-count=1'', ''-v''])"

definition runOfficialVectorGates :: "('f, 'x) harness_env_scheme \<Rightarrow> string \<Rightarrow> io_writer \<Rightarrow> ('f sys, unit) io" where
  "runOfficialVectorGates E outputDir out =
     io_bind (offline_writeLine out ''[cross-arch] run official vector gates (10K set)'') (\<lambda>_.
       runGoCommandLogged E (filepath_Join [outputDir, ''logs'', ''official-vectors.log'']) out fmempty
         [''test'', ''./conformance'', ''-run'',
          ''TestOfficialCyberphoneCanonicalPairs|TestOfficialRFC8785Vectors|TestOfficialES6CorpusChecksums10K'', ''-count=1'',
          ''-timeout=30m''])"

definition runOfficialES6100MGate :: "('f, 'x) harness_env_scheme \<Rightarrow> string \<Rightarrow> io_writer \<Rightarrow> ('f sys, unit) io" where
  "runOfficialES6100MGate E outputDir out =
     io_bind (offline_writeLine out ''[cross-arch] run official ES6 100M gate'') (\<lambda>_.
       runGoCommandLogged E (filepath_Join [outputDir, ''logs'', ''official-es6-100m.log'']) out
         (fmupd ''JCS_OFFICIAL_ES6_ENABLE_100M'' ''1'' fmempty)
         [''test'', ''./conformance'', ''-run'', ''TestOfficialES6CorpusChecksums100M'', ''-count=1'', ''-timeout=6h''])"

definition resolveOfflineSourceIdentity :: "('f, 'x) harness_env_scheme \<Rightarrow> ('f sys, string \<times> string) io" where
  "resolveOfflineSourceIdentity E =
     io_bind (ask_host (lookupEnvTrimmed E ''JCS_OFFLINE_SOURCE_GIT_COMMIT'')) (\<lambda>commit.
       identity_from E ''resolve source git commit (set JCS_OFFLINE_SOURCE_GIT_COMMIT): %w (%s)'' commit
         (lookupEnvTrimmed E ''JCS_OFFLINE_SOURCE_GIT_TAG''))"

definition resolveRepoRoot :: "('f, 'x) harness_env_scheme \<Rightarrow> ('f sys, string) io" where
  "resolveRepoRoot E = io_bind (runCommandCapture E [''git'', ''rev-parse'', ''--show-toplevel'']) (\<lambda>(out, err).
     if err = None then io_return (TrimSpace out)
     else ask_host (\<lambda>f. case he_Getwd E f of Inl _ \<Rightarrow> ''.'' | Inr cwd \<Rightarrow> cwd))"

definition filepath_Abs :: "('f, 'x) harness_env_scheme \<Rightarrow> string \<Rightarrow> ('f sys, string) io" where
  "filepath_Abs E p = (if is_abs p then io_return (path_Clean p)
     else (\<lambda>s. (case he_Getwd E (sy_host s) of Inl e \<Rightarrow> Inl e | Inr cwd \<Rightarrow> Inr (filepath_Join [cwd, p]), s)))"

section \<open>Preflight\<close>

record preflightReporter =
  pr_failures :: int
  pr_warnings :: int

type_synonym 'f rep = "preflightReporter \<times> 'f sys"

definition pr_fail :: "preflightReporter \<Rightarrow> preflightReporter" where
  "pr_fail r = r\<lparr>pr_failures := pr_failures r + 1\<rparr>"

text \<open>A line of the report; a line that cannot be written is a failure.\<close>

definition pr_info :: "io_writer \<Rightarrow> string \<Rightarrow> 'f rep \<Rightarrow> 'f rep" where
  "pr_info out msg st = (case offline_writeLine out msg (snd st) of
     (Inl _, s') \<Rightarrow> (pr_fail (fst st), s') | (Inr _, s') \<Rightarrow> (fst st, s'))"

definition pr_passf :: "io_writer \<Rightarrow> string \<Rightarrow> 'f rep \<Rightarrow> 'f rep" where
  "pr_passf out msg st = pr_info out (''[PASS] '' @ msg) st"

definition pr_warnf :: "io_writer \<Rightarrow> string \<Rightarrow> 'f rep \<Rightarrow> 'f rep" where
  "pr_warnf out msg st = pr_info out (''[WARN] '' @ msg) ((fst st)\<lparr>pr_warnings := pr_warnings (fst st) + 1\<rparr>, snd st)"

definition pr_failf :: "io_writer \<Rightarrow> string \<Rightarrow> 'f rep \<Rightarrow> 'f rep" where
  "pr_failf out msg st = pr_info out (''[FAIL] '' @ msg) (pr_fail (fst st), snd st)"

text \<open>A command of the preflight: its trimmed output, whether it failed, and the state after it.\<close>

definition pr_capture :: "('f, 'x) harness_env_scheme \<Rightarrow> string list \<Rightarrow> 'f rep \<Rightarrow> string \<times> bool \<times> 'f rep" where
  "pr_capture E argv st = (case runCommandCapture E argv (snd st) of
     (Inr (out, err), s') \<Rightarrow> (out, err \<noteq> None, (fst st, s')) | (Inl _, s') \<Rightarrow> ([], True, (fst st, s')))"

definition checkTools :: "('f, 'x) harness_env_scheme \<Rightarrow> io_writer \<Rightarrow> string list \<Rightarrow> 'f rep \<Rightarrow> 'f rep" where
  "checkTools E out cmds = fold (\<lambda>cmd st.
     if \<not> he_LookPath E cmd (sy_host (snd st)) then pr_failf out (''missing command: '' @ cmd) st
     else pr_passf out (''command available: '' @ cmd) st) cmds"

definition checkBaseTooling :: "('f, 'x) harness_env_scheme \<Rightarrow> io_writer \<Rightarrow> 'f rep \<Rightarrow> 'f rep" where
  "checkBaseTooling E out st = checkTools E out [''go'', ''tar''] (pr_info out ''[preflight] checking base toolchain'' st)"

definition detectContainerEngine :: "('f, 'x) harness_env_scheme \<Rightarrow> 'f \<Rightarrow> string" where
  "detectContainerEngine E f =
     (let engine = lookupEnvTrimmed E ''JCS_CONTAINER_ENGINE'' f in
      if engine \<noteq> [] then engine else if he_LookPath E ''podman'' f then ''podman''
      else if he_LookPath E ''docker'' f then ''docker'' else [])"

definition checkImage :: "('f, 'x) harness_env_scheme \<Rightarrow> io_writer \<Rightarrow> string \<Rightarrow> NodeSpec \<Rightarrow> 'f rep \<Rightarrow> 'f rep" where
  "checkImage E out engine node st = (let image = containerImageFromNode node in
     if image = [] then pr_failf out (''container node '' @ ns_ID node @ '' has empty image in matrix'') st
     else (case pr_capture E [engine, ''image'', ''inspect'', image] st of (text_, failed, st') \<Rightarrow>
       if failed then pr_failf out (''container image missing/unreachable: '' @ ns_ID node @ '' -> '' @ image @ '' ('' @ text_ @ '')'') st'
       else pr_passf out (''container image present: '' @ ns_ID node @ '' -> '' @ image) st'))"

definition checkContainerLanes :: "('f, 'x) harness_env_scheme \<Rightarrow> io_writer \<Rightarrow> NodeSpec list \<Rightarrow> 'f rep \<Rightarrow> 'f rep" where
  "checkContainerLanes E out nodes st =
     (let containerNodes = filter (\<lambda>n. ns_Mode n = NodeModeContainer) nodes;
          engine = detectContainerEngine E (sy_host (snd st)) in
      if containerNodes = [] then pr_warnf out ''no container nodes found in matrix'' st
      else if engine = [] then pr_failf out ''container lanes exist but no container engine found (podman/docker)'' st
      else if \<not> he_LookPath E engine (sy_host (snd st)) then pr_failf out (''container engine not executable: '' @ engine) st
      else (case pr_capture E [engine, ''info''] st of (text_, failed, st1) \<Rightarrow>
        if failed then pr_failf out (''container engine not reachable: '' @ engine @ '' ('' @ text_ @ '')'') st1
        else fold (checkImage E out engine) containerNodes
          (pr_info out ''[preflight] checking offline container images''
            (pr_passf out (''container engine reachable: '' @ engine) st1))))"

definition checkSnapshot :: "('f, 'x) harness_env_scheme \<Rightarrow> io_writer \<Rightarrow> vmLane \<Rightarrow> 'f rep \<Rightarrow> 'f rep" where
  "checkSnapshot E out lane st =
     (if vl_Snapshot lane = ''-'' then st
      else (case pr_capture E [''virsh'', ''snapshot-list'', ''--name'', vl_Domain lane] st of (snaps, failed, st') \<Rightarrow>
        if failed then pr_failf out (''snapshot check failed: '' @ vl_Domain lane @ ''/'' @ vl_Snapshot lane @ '' ('' @ snaps @ '')'') st'
        else if containsLine snaps (vl_Snapshot lane)
        then pr_passf out (''snapshot exists: '' @ vl_Domain lane @ ''/'' @ vl_Snapshot lane) st'
        else pr_failf out (''snapshot missing: '' @ vl_Domain lane @ ''/'' @ vl_Snapshot lane) st'))"

definition checkVMLane :: "('f, 'x) harness_env_scheme \<Rightarrow> io_writer \<Rightarrow> vmLane \<Rightarrow> 'f rep \<Rightarrow> 'f rep" where
  "checkVMLane E out lane st =
     (if vl_Domain lane = [] then pr_failf out (''vm node '' @ vl_NodeID lane @ '' has empty domain in matrix'') st
      else (case pr_capture E [''virsh'', ''dominfo'', vl_Domain lane] st of (_, failed, st1) \<Rightarrow>
        if failed then pr_failf out (''libvirt domain missing/unreachable: '' @ vl_NodeID lane @ '' -> '' @ vl_Domain lane) st1
        else (let st2 = checkSnapshot E out lane
                (pr_passf out (''libvirt domain exists: '' @ vl_NodeID lane @ '' -> '' @ vl_Domain lane) st1) in
          case pr_capture E (''ssh'' # sshProbeArgs (vl_SSHTarget lane) (vl_SSHOptions lane)) st2 of (text_, bad, st3) \<Rightarrow>
            if bad then pr_failf out (''vm ssh unreachable: '' @ vl_NodeID lane @ '' -> '' @ vl_SSHTarget lane @ '' ('' @ text_ @ '')'') st3
            else pr_passf out (''vm ssh reachable: '' @ vl_NodeID lane @ '' -> '' @ vl_SSHTarget lane) st3)))"

definition checkVMLanes :: "('f, 'x) harness_env_scheme \<Rightarrow> io_writer \<Rightarrow> NodeSpec list \<Rightarrow> 'f rep \<Rightarrow> 'f rep" where
  "checkVMLanes E out nodes st =
     (let lanes = map vmLaneFromNode (filter (\<lambda>n. ns_Mode n = NodeModeVM) nodes) in
      if lanes = [] then pr_warnf out ''no vm nodes found in matrix'' st
      else fold (checkVMLane E out) lanes
        (checkTools E out [''virsh'', ''ssh'', ''scp''] (pr_info out ''[preflight] checking vm/libvirt dependencies'' st)))"

text \<open>All checks, from a reporter without failures and warnings.\<close>

definition preflightChecks :: "('f, 'x) harness_env_scheme \<Rightarrow> io_writer \<Rightarrow> NodeSpec list \<Rightarrow> ('f sys, preflightReporter) io" where
  "preflightChecks E out nodes = (\<lambda>s.
     case checkVMLanes E out nodes (checkContainerLanes E out nodes (checkBaseTooling E out (\<lparr>pr_failures = 0, pr_warnings = 0\<rparr>, s)))
     of (r, s') \<Rightarrow> (Inr r, s'))"

definition runPreflight :: "('f, 'x) harness_env_scheme \<Rightarrow> string \<Rightarrow> bool \<Rightarrow> io_writer \<Rightarrow> ('f sys, unit) io" where
  "runPreflight E matrixPath strict out =
     io_bind (io_wrap (Msg ''resolve working directory'') (\<lambda>s. (he_Getwd E (sy_host s), s))) (\<lambda>cwd.
     io_bind (offline_writeLine out (''[preflight] repo: '' @ cwd)) (\<lambda>_.
     io_bind (offline_writeLine out (''[preflight] matrix: '' @ matrixPath)) (\<lambda>_.
     io_bind (loadMatrix E matrixPath) (\<lambda>m.
     io_bind (preflightChecks E out (mx_Nodes m)) (\<lambda>r.
     io_bind (offline_writeLine out
       (''[preflight] failures='' @ Itoa (pr_failures r) @ '' warnings='' @ Itoa (pr_warnings r))) (\<lambda>_.
     if pr_failures r > 0 then
       io_bind (offline_writeLine out ''[preflight] RESULT=FAIL'') (\<lambda>_.
         io_fail (Errorf (Sprintf ''preflight failed: failures=%d warnings=%d'' [FInt (pr_failures r), FInt (pr_warnings r)])))
     else if strict \<and> pr_warnings r > 0 then
       io_bind (offline_writeLine out ''[preflight] RESULT=FAIL (strict mode: warnings present)'') (\<lambda>_.
         io_fail (Errorf (Sprintf ''preflight failed in strict mode: warnings=%d'' [FInt (pr_warnings r)])))
     else offline_writeLine out ''[preflight] RESULT=PASS''))))))"

definition cmdPreflight :: "('f, 'x) harness_env_scheme \<Rightarrow> flag_map \<Rightarrow> io_writer \<Rightarrow> ('f sys, unit) io" where
  "cmdPreflight E fs out =
     io_bind (io_lift (preflightStrict fs)) (\<lambda>strict. runPreflight E (defaultString fs ''--matrix'' defaultMatrixPath) strict out)"

section \<open>Audit\<close>

definition flags_of :: "(string \<times> string) list \<Rightarrow> flag_map" where
  "flags_of kvs = map_of kvs"

text \<open>The three files of an audit.\<close>

definition writeAuditFiles ::
  "('f, 'x) harness_env_scheme \<Rightarrow> string \<Rightarrow> auditSummary \<Rightarrow> string \<Rightarrow> string \<Rightarrow> ('f sys, string \<times> string \<times> string) io" where
  "writeAuditFiles E outputDir summary markdown controllerReport =
     (let jsonPath = filepath_Join [outputDir, ''audit-summary.json'']; mdPath = filepath_Join [outputDir, ''audit-summary.md''];
          reportPath = filepath_Join [outputDir, ''controller-report.txt''] in
      io_bind (io_wrap (Msg ''create audit output dir'') (act_host (he_MkdirAll E outputDir))) (\<lambda>_.
      io_bind (io_wrap (Msg ''marshal audit summary'') (io_lift (he_encodeSummary E summary))) (\<lambda>encoded.
      io_bind (io_wrap (Msg ''write audit summary json'') (act_host (oe_WriteFile E jsonPath (encoded @ newline)))) (\<lambda>_.
      io_bind (io_wrap (Msg ''write audit summary markdown'') (act_host (oe_WriteFile E mdPath markdown))) (\<lambda>_.
      io_bind (io_wrap (Msg ''write controller report'') (act_host (oe_WriteFile E reportPath controllerReport))) (\<lambda>_.
        io_return (jsonPath, mdPath, reportPath)))))))"

definition wroteLines :: "string \<times> string \<times> string \<Rightarrow> string list" where
  "wroteLines paths = (case paths of (j, m, r) \<Rightarrow> map (\<lambda>p. ''[audit] wrote: '' @ p) [j, m, r])"

definition buildAuditOutputs ::
  "('f, 'x) harness_env_scheme \<Rightarrow> string \<Rightarrow> string \<Rightarrow> string \<Rightarrow> string \<Rightarrow> ('f sys, string \<times> auditSummary \<times> string) io" where
  "buildAuditOutputs E matrixPath profilePath evPath repoRoot =
     io_bind (cmdVerifyEvidence E (flags_of [(''--matrix'', matrixPath), (''--profile'', profilePath), (''--evidence'', evPath)]) Discard) (\<lambda>_.
     io_bind (runLoggedStepCapture E [] Discard (cmdReport E (flags_of [(''--evidence'', evPath)]))) (\<lambda>reportOut.
     io_bind (loadEvidence E evPath) (\<lambda>ev.
     io_bind (ask_host (he_now E)) (\<lambda>now.
       let summary = buildAuditSummary ev matrixPath profilePath (toRepoRelative repoRoot evPath) now in
       io_return (reportOut, summary, renderAuditSummaryMarkdown summary)))))"

definition writeAuditOutputs ::
  "('f, 'x) harness_env_scheme \<Rightarrow> string \<Rightarrow> string \<Rightarrow> string \<Rightarrow> string \<Rightarrow> string \<Rightarrow> string \<Rightarrow> io_writer
     \<Rightarrow> ('f sys, auditSummary \<times> string \<times> string) io" where
  "writeAuditOutputs E matrixPath profilePath evPath outputDir controllerReport repoRoot out =
     io_bind (loadEvidence E evPath) (\<lambda>ev.
     io_bind (ask_host (he_now E)) (\<lambda>now.
     let summary = buildAuditSummary ev matrixPath profilePath (toRepoRelative repoRoot evPath) now;
         markdown = renderAuditSummaryMarkdown summary in
     io_bind (writeAuditFiles E outputDir summary markdown controllerReport) (\<lambda>paths.
     io_bind (offline_writef out markdown) (\<lambda>_.
     io_bind (offline_writeLines out (wroteLines paths)) (\<lambda>_.
       io_return (summary, fst paths, fst (snd paths)))))))"

definition cmdAuditSummary :: "('f, 'x) harness_env_scheme \<Rightarrow> flag_map \<Rightarrow> io_writer \<Rightarrow> ('f sys, unit) io" where
  "cmdAuditSummary E fs out =
     (let matrixPath = requireFlag fs ''--matrix''; profilePath = requireFlag fs ''--profile''; evPath = requireFlag fs ''--evidence'';
          outputDir = requireFlag fs ''--output-dir'' in
      io_bind (io_reject (matrixPath = [] \<or> profilePath = [] \<or> evPath = [])
        (errf ''audit-summary requires --matrix, --profile, --evidence'' [])) (\<lambda>_.
      io_bind (resolveRepoRoot E) (\<lambda>repoRoot.
      io_bind (buildAuditOutputs E matrixPath profilePath evPath repoRoot) (\<lambda>(controllerReport, summary, markdown).
      io_bind (offline_writef out markdown) (\<lambda>_.
      if outputDir = [] then io_return ()
      else io_bind (writeAuditFiles E outputDir summary markdown controllerReport) (\<lambda>paths.
        offline_writeLines out (wroteLines paths)))))))"

section \<open>The suite\<close>

definition writeChecksumFile :: "('f, 'x) harness_env_scheme \<Rightarrow> string \<Rightarrow> string \<Rightarrow> string \<Rightarrow> ('f sys, unit) io" where
  "writeChecksumFile E outputPath artifactPath repoRoot =
     io_bind (\<lambda>s. (offline_fileSHA256 E artifactPath (sy_host s), s)) (\<lambda>digest.
       io_wrap (Sprintf ''write checksum file %s'' [FText outputPath])
         (act_host (oe_WriteFile E outputPath (checksumLine digest (toRepoRelative repoRoot artifactPath)))))"

definition writeRunIndex :: "('f, 'x) harness_env_scheme \<Rightarrow> string \<Rightarrow> runSuiteArtifacts \<Rightarrow> string \<Rightarrow> ('f sys, unit) io" where
  "writeRunIndex E path artifacts repoRoot =
     io_wrap (Msg ''write run index'') (act_host (oe_WriteFile E path (runIndexText artifacts repoRoot)))"

definition suiteArtifacts :: "runSuiteOptions \<Rightarrow> string \<Rightarrow> string \<Rightarrow> string \<Rightarrow> runSuiteArtifacts" where
  "suiteArtifacts opts dir matrixAbs profileAbs =
     \<lparr>sa_OutputDir = dir, sa_BundlePath = filepath_Join [dir, ''offline-bundle.tgz''],
      sa_EvidencePath = filepath_Join [dir, ''offline-evidence.json''],
      sa_ControllerPath = filepath_Join [dir, ''bin'', ''jcs-offline-replay''], sa_CanonicalPath = filepath_Join [dir, ''bin'', ''jcs-canon''],
      sa_MatrixPath = so_MatrixPath opts, sa_ProfilePath = so_ProfilePath opts, sa_MatrixAbsPath = matrixAbs,
      sa_ProfileAbsPath = profileAbs\<rparr>"

text \<open>The directories and the paths of a run.\<close>

definition suiteDirs :: "('f, 'x) harness_env_scheme \<Rightarrow> runSuiteOptions \<Rightarrow> ('f sys, runSuiteArtifacts) io" where
  "suiteDirs E opts =
     io_bind (io_wrap (Msg ''resolve output dir'') (filepath_Abs E (so_OutputDir opts))) (\<lambda>dir.
     io_bind (io_wrap (Msg ''create bin dir'') (act_host (he_MkdirAll E (filepath_Join [dir, ''bin''])))) (\<lambda>_.
     io_bind (io_wrap (Msg ''create logs dir'') (act_host (he_MkdirAll E (filepath_Join [dir, ''logs''])))) (\<lambda>_.
     io_bind (io_wrap (Msg ''create audit dir'') (act_host (he_MkdirAll E (filepath_Join [dir, ''audit''])))) (\<lambda>_.
     io_bind (io_wrap (Msg ''resolve matrix path'') (filepath_Abs E (so_MatrixPath opts))) (\<lambda>matrixAbs.
     io_bind (io_wrap (Msg ''resolve profile path'') (filepath_Abs E (so_ProfilePath opts))) (\<lambda>profileAbs.
       io_return (suiteArtifacts opts dir matrixAbs profileAbs)))))))"

definition suiteDefaults :: "runSuiteOptions \<Rightarrow> runSuiteOptions" where
  "suiteDefaults opts0 =
     (let opts1 = (if so_Timeout opts0 \<le> 0 then opts0\<lparr>so_Timeout := defaultTimeout\<rparr> else opts0)
      in if TrimSpace (so_Version opts1) = [] then opts1\<lparr>so_Version := defaultBuildVersion\<rparr> else opts1)"

definition suiteLog :: "runSuiteArtifacts \<Rightarrow> string \<Rightarrow> string" where
  "suiteLog a name = filepath_Join [sa_OutputDir a, ''logs'', name]"

text \<open>Up to the preflight: the head of the output, the identity of the sources, the two programs.\<close>

definition suiteBuild ::
  "('f, 'x) harness_env_scheme \<Rightarrow> runSuiteOptions \<Rightarrow> runSuiteArtifacts \<Rightarrow> io_writer \<Rightarrow> ('f sys, string \<times> string) io" where
  "suiteBuild E opts a out =
     io_bind (offline_writeLines out [''[run] matrix: '' @ so_MatrixPath opts, ''[run] profile: '' @ so_ProfilePath opts,
       ''[run] output: '' @ sa_OutputDir a]) (\<lambda>_.
     io_bind (resolveOfflineSourceIdentity E) (\<lambda>(commit, tag).
     io_bind (buildCanonicalizer E (sa_CanonicalPath a) (so_Version opts) (suiteLog a ''build-jcs-canon.log'') out) (\<lambda>_.
     io_bind (buildController E (sa_ControllerPath a) (suiteLog a ''build-jcs-offline-replay.log'') out) (\<lambda>_.
     io_bind (runLoggedStep E (suiteLog a ''preflight.log'') out
       (if \<not> so_SkipPreflight opts then runPreflight E (so_MatrixPath opts) True
        else (\<lambda>w. offline_writeLine w ''[run] preflight skipped''))) (\<lambda>_.
       io_return (commit, tag))))))"

text \<open>The steps that replay and check, each with its log file: prepare, run, verify; then report, audit, release gate.\<close>

definition suiteInputs :: "runSuiteOptions \<Rightarrow> (string \<times> string) list" where
  "suiteInputs opts = [(''--matrix'', so_MatrixPath opts), (''--profile'', so_ProfilePath opts)]"

definition runFlags ::
  "('f, 'x) harness_env_scheme \<Rightarrow> runSuiteOptions \<Rightarrow> runSuiteArtifacts \<Rightarrow> string \<Rightarrow> string \<Rightarrow> flag_map" where
  "runFlags E opts a commit tag = flags_of (suiteInputs opts @
     [(''--bundle'', sa_BundlePath a), (''--evidence'', sa_EvidencePath a), (''--timeout'', he_durationText E (so_Timeout opts)),
      (''--source-git-commit'', commit), (''--source-git-tag'', tag)])"

definition verifyFlags :: "runSuiteOptions \<Rightarrow> runSuiteArtifacts \<Rightarrow> flag_map" where
  "verifyFlags opts a = flags_of (suiteInputs opts @ [(''--evidence'', sa_EvidencePath a)])"

definition suitePrepare ::
  "('f, 'x) harness_env_scheme \<Rightarrow> runSuiteOptions \<Rightarrow> runSuiteArtifacts \<Rightarrow> io_writer \<Rightarrow> ('f sys, unit) io" where
  "suitePrepare E opts a out = runLoggedStep E (suiteLog a ''prepare.log'') out
     (cmdPrepare E (flags_of (suiteInputs opts @ [(''--binary'', sa_CanonicalPath a), (''--bundle'', sa_BundlePath a)])))"

definition suiteReplay ::
  "('f, 'x) harness_env_scheme \<Rightarrow> runSuiteOptions \<Rightarrow> runSuiteArtifacts \<Rightarrow> string \<Rightarrow> string \<Rightarrow> io_writer \<Rightarrow> ('f sys, unit) io" where
  "suiteReplay E opts a commit tag out = runLoggedStep E (suiteLog a ''run.log'') out (cmdRun E (runFlags E opts a commit tag))"

definition suiteVerify ::
  "('f, 'x) harness_env_scheme \<Rightarrow> runSuiteOptions \<Rightarrow> runSuiteArtifacts \<Rightarrow> io_writer \<Rightarrow> ('f sys, unit) io" where
  "suiteVerify E opts a out = runLoggedStep E (suiteLog a ''verify-evidence.log'') out (cmdVerifyEvidence E (verifyFlags opts a))"

definition suiteReports ::
  "('f, 'x) harness_env_scheme \<Rightarrow> runSuiteOptions \<Rightarrow> runSuiteArtifacts \<Rightarrow> string \<Rightarrow> string \<Rightarrow> string \<Rightarrow> io_writer \<Rightarrow> ('f sys, unit) io" where
  "suiteReports E opts a commit tag repoRoot out =
     io_bind (runLoggedStepCapture E (suiteLog a ''report.log'') out (cmdReport E (flags_of [(''--evidence'', sa_EvidencePath a)]))) (\<lambda>controllerReport.
     io_bind (runLoggedStep E (suiteLog a ''audit.log'') out
       (writeAuditOutputs E (so_MatrixPath opts) (so_ProfilePath opts) (sa_EvidencePath a) (filepath_Join [sa_OutputDir a, ''audit''])
          controllerReport repoRoot)) (\<lambda>_.
     if \<not> so_SkipReleaseGate opts
     then runOfflineReleaseGate E (sa_MatrixAbsPath a) (sa_ProfileAbsPath a) (sa_EvidencePath a) commit tag (suiteLog a ''release-gate.log'') out
     else runLoggedStep E (suiteLog a ''release-gate.log'') out (\<lambda>w. offline_writeLine w ''[run] release gate skipped by flag'')))"

definition suiteSteps ::
  "('f, 'x) harness_env_scheme \<Rightarrow> runSuiteOptions \<Rightarrow> runSuiteArtifacts \<Rightarrow> string \<Rightarrow> string \<Rightarrow> string \<Rightarrow> io_writer \<Rightarrow> ('f sys, unit) io" where
  "suiteSteps E opts a commit tag repoRoot out =
     io_bind (suitePrepare E opts a out) (\<lambda>_.
     io_bind (suiteReplay E opts a commit tag out) (\<lambda>_.
     io_bind (suiteVerify E opts a out) (\<lambda>_.
       suiteReports E opts a commit tag repoRoot out)))"

text \<open>The checksums, the index and the last lines.\<close>

definition suiteFinish :: "('f, 'x) harness_env_scheme \<Rightarrow> runSuiteArtifacts \<Rightarrow> string \<Rightarrow> io_writer \<Rightarrow> ('f sys, unit) io" where
  "suiteFinish E a repoRoot out =
     (let audit = (\<lambda>name. filepath_Join [sa_OutputDir a, ''audit'', name]); index = filepath_Join [sa_OutputDir a, ''RUN_INDEX.txt''] in
      io_bind (writeChecksumFile E (audit ''bundle.sha256'') (sa_BundlePath a) repoRoot) (\<lambda>_.
      io_bind (writeChecksumFile E (audit ''evidence.sha256'') (sa_EvidencePath a) repoRoot) (\<lambda>_.
      io_bind (writeRunIndex E index (a\<lparr>sa_MatrixAbsPath := [], sa_ProfileAbsPath := []\<rparr>) repoRoot) (\<lambda>_.
        offline_writeLines out [''[run] RESULT=PASS'', ''[run] inspect: '' @ index]))))"

definition runSuite :: "('f, 'x) harness_env_scheme \<Rightarrow> runSuiteOptions \<Rightarrow> io_writer \<Rightarrow> ('f sys, runSuiteArtifacts) io" where
  "runSuite E opts0 out =
     (let opts = suiteDefaults opts0 in
      io_bind (resolveRepoRoot E) (\<lambda>repoRoot.
      io_bind (suiteDirs E opts) (\<lambda>a.
      io_bind (suiteBuild E opts a out) (\<lambda>(commit, tag).
      io_bind (suiteSteps E opts a commit tag repoRoot out) (\<lambda>_.
      io_bind (suiteFinish E a repoRoot out) (\<lambda>_.
        io_return a))))))"

definition cmdRunSuite :: "('f, 'x) harness_env_scheme \<Rightarrow> flag_map \<Rightarrow> io_writer \<Rightarrow> ('f sys, unit) io" where
  "cmdRunSuite E fs out =
     io_bind (\<lambda>s. (parseRunSuiteOptions E fs (he_stamp E (sy_host s)), s)) (\<lambda>opts.
     io_bind (runSuite E opts out) (\<lambda>_. io_return ()))"

section \<open>Two architectures\<close>

definition writeCrossArchReport :: "('f, 'x) harness_env_scheme \<Rightarrow> crossArchReport \<Rightarrow> string \<Rightarrow> string \<Rightarrow> ('f sys, unit) io" where
  "writeCrossArchReport E report jsonPath mdPath =
     io_bind (io_wrap (Msg ''marshal cross-arch report'') (io_lift (he_encodeReport E report))) (\<lambda>encoded.
     io_bind (io_wrap (Msg ''write cross-arch json report'') (act_host (oe_WriteFile E jsonPath (encoded @ newline)))) (\<lambda>_.
       io_wrap (Msg ''write cross-arch markdown report'') (act_host (oe_WriteFile E mdPath (crossArchMarkdown report)))))"

definition compareCrossArchEvidence ::
  "('f, 'x) harness_env_scheme \<Rightarrow> string \<Rightarrow> string \<Rightarrow> string \<Rightarrow> string \<Rightarrow> string \<Rightarrow> ('f sys, crossArchReport) io" where
  "compareCrossArchEvidence E x86Path armPath jsonPath mdPath repoRoot =
     io_bind (io_wrap (Msg ''load x86 evidence'') (\<lambda>s. (LoadEvidence E x86Path (sy_host s), s))) (\<lambda>x.
     io_bind (io_wrap (Msg ''load arm64 evidence'') (\<lambda>s. (LoadEvidence E armPath (sy_host s), s))) (\<lambda>a.
     io_bind (ask_host (he_now E)) (\<lambda>now.
     let report = buildCrossArchReport x a (toRepoRelative repoRoot x86Path) (toRepoRelative repoRoot armPath) now in
     io_bind (writeCrossArchReport E report jsonPath mdPath) (\<lambda>_.
     io_bind (io_reject (cr_Result report \<noteq> resultPass) (errf ''cross-arch digest comparison failed'' [])) (\<lambda>_.
       io_return report)))))"

record crossArchFlags =
  xf_skipPreflight :: bool
  xf_skipReleaseGate :: bool
  xf_localNoRocky :: bool
  xf_officialVectors :: bool
  xf_officialES6100M :: bool

definition parseCrossArchFlags :: "flag_map \<Rightarrow> go_err + crossArchFlags" where
  "parseCrossArchFlags fs =
     (case parseBoolFlag fs ''--skip-preflight'' of Inl e \<Rightarrow> Inl e | Inr a \<Rightarrow>
     (case parseBoolFlag fs ''--skip-release-gate'' of Inl e \<Rightarrow> Inl e | Inr b \<Rightarrow>
     (case parseBoolFlag fs ''--local-no-rocky'' of Inl e \<Rightarrow> Inl e | Inr c \<Rightarrow>
     (case parseBoolFlag fs ''--run-official-vectors'' of Inl e \<Rightarrow> Inl e | Inr d \<Rightarrow>
     (case parseBoolFlag fs ''--run-official-es6-100m'' of Inl e \<Rightarrow> Inl e | Inr x \<Rightarrow>
       Inr \<lparr>xf_skipPreflight = a, xf_skipReleaseGate = b, xf_localNoRocky = c, xf_officialVectors = d, xf_officialES6100M = x\<rparr>)))))"

text \<open>The directory of the comparison, and what the two suites are run with.\<close>

definition crossDir :: "('f, 'x) harness_env_scheme \<Rightarrow> flag_map \<Rightarrow> 'f \<Rightarrow> string" where
  "crossDir E fs f = firstNonEmpty (requireFlag fs ''--output-dir'') (filepath_Join [''offline'', ''runs'', ''cross-arch-'' @ he_stamp E f])"

definition crossSuite :: "crossArchFlags \<Rightarrow> flag_map \<Rightarrow> int \<Rightarrow> string \<Rightarrow> string \<Rightarrow> string \<Rightarrow> runSuiteOptions" where
  "crossSuite xf fs timeout dir matrix profile = \<lparr>so_MatrixPath = matrix, so_ProfilePath = profile, so_OutputDir = dir, so_Timeout = timeout,
     so_Version = defaultString fs ''--version'' defaultBuildVersion, so_SkipPreflight = xf_skipPreflight xf,
     so_SkipReleaseGate = xf_skipReleaseGate xf\<rparr>"

definition x86Suite :: "crossArchFlags \<Rightarrow> flag_map \<Rightarrow> int \<Rightarrow> string \<Rightarrow> runSuiteOptions" where
  "x86Suite xf fs timeout dir = crossSuite xf fs timeout (filepath_Join [dir, ''x86_64''])
     (if xf_localNoRocky xf then ''offline/matrix.local-no-rocky.yaml'' else defaultString fs ''--x86-matrix'' defaultMatrixPath)
     (defaultString fs ''--x86-profile'' defaultProfilePath)"

definition armSuite :: "crossArchFlags \<Rightarrow> flag_map \<Rightarrow> int \<Rightarrow> string \<Rightarrow> runSuiteOptions" where
  "armSuite xf fs timeout dir = crossSuite xf fs timeout (filepath_Join [dir, ''arm64''])
     (if xf_localNoRocky xf then ''offline/matrix.local-no-rocky.arm64.yaml'' else defaultString fs ''--arm64-matrix'' defaultARMMatrixPath)
     (defaultString fs ''--arm64-profile'' defaultARMProfilePath)"

definition cmdCrossArch :: "('f, 'x) harness_env_scheme \<Rightarrow> flag_map \<Rightarrow> io_writer \<Rightarrow> ('f sys, unit) io" where
  "cmdCrossArch E fs out =
     io_bind (io_lift (parseCrossArchFlags fs)) (\<lambda>xf.
     io_bind (io_lift (parseTimeout E fs)) (\<lambda>timeout.
     io_bind (ask_host (crossDir E fs)) (\<lambda>outDir.
     io_bind (io_wrap (Msg ''resolve output dir'') (filepath_Abs E outDir)) (\<lambda>dir.
     io_bind (io_wrap (Msg ''create output dir'') (act_host (he_MkdirAll E dir))) (\<lambda>_.
     io_bind (offline_writeLine out ''[cross-arch] running x86_64 harness'') (\<lambda>_.
     io_bind (runSuite E (x86Suite xf fs timeout dir) out) (\<lambda>x86Run.
     io_bind (offline_writeLine out ''[cross-arch] running arm64 harness'') (\<lambda>_.
     io_bind (runSuite E (armSuite xf fs timeout dir) out) (\<lambda>armRun.
     io_bind (resolveRepoRoot E) (\<lambda>repoRoot.
     let compareJSON = filepath_Join [dir, ''cross-arch-compare.json'']; compareMD = filepath_Join [dir, ''cross-arch-compare.md''] in
     io_bind (compareCrossArchEvidence E (sa_EvidencePath x86Run) (sa_EvidencePath armRun) compareJSON compareMD repoRoot) (\<lambda>report.
     io_bind (if xf_officialVectors xf then runOfficialVectorGates E dir out else io_return ()) (\<lambda>_.
     io_bind (if xf_officialES6100M xf then runOfficialES6100MGate E dir out else io_return ()) (\<lambda>_.
       offline_writeLines out [''[cross-arch] compare report: '' @ compareMD, ''[cross-arch] compare json: '' @ compareJSON,
         ''[cross-arch] RESULT='' @ cr_Result report])))))))))))))"

section \<open>Dispatch\<close>

text \<open>The exit code of a subcommand that did not fail.\<close>

definition dispatchSubcommand ::
  "('f, 'x) harness_env_scheme \<Rightarrow> string \<Rightarrow> flag_map \<Rightarrow> io_writer \<Rightarrow> io_writer \<Rightarrow> ('f sys, int) io" where
  "dispatchSubcommand E sub fs out err =
     (let ok = (\<lambda>m. io_bind m (\<lambda>_. io_return 0)) in
      if helpRequested fs then ok (offline_writeUsage out)
      else if sub = ''prepare'' then ok (cmdPrepare E fs out)
      else if sub = ''run'' then ok (cmdRun E fs out)
      else if sub = ''preflight'' then ok (cmdPreflight E fs out)
      else if sub = ''audit-summary'' then ok (cmdAuditSummary E fs out)
      else if sub = ''run-suite'' then ok (cmdRunSuite E fs out)
      else if sub = ''cross-arch'' then ok (cmdCrossArch E fs out)
      else if sub = ''verify-evidence'' then ok (cmdVerifyEvidence E fs out)
      else if sub = ''report'' then ok (cmdReport E fs out)
      else if sub = ''inspect-matrix'' then ok (cmdInspectMatrix E fs out)
      else io_bind (offline_writeLine err (''error: unknown subcommand '' @ oe_quote E sub)) (\<lambda>_.
        io_bind (offline_writeUsage err) (\<lambda>_. io_return 2)))"

definition offline_run :: "('f, 'x) harness_env_scheme \<Rightarrow> string list \<Rightarrow> io_writer \<Rightarrow> io_writer \<Rightarrow> 'f sys \<Rightarrow> int \<times> 'f sys" where
  "offline_run E args out err s = (case args of
     [] \<Rightarrow> (case offline_writeUsage out s of (Inl _, s') \<Rightarrow> (2, s') | (Inr _, s') \<Rightarrow> (0, s'))
   | sub # params \<Rightarrow>
       if sub = ''--help'' \<or> sub = ''-h'' then (case offline_writeUsage out s of (Inl _, s') \<Rightarrow> (2, s') | (Inr _, s') \<Rightarrow> (0, s'))
       else (case offline_parseKV (\<lambda>_. None) params of
          Inl e \<Rightarrow> offline_writeErrorLine E err e s
        | Inr fs \<Rightarrow> (case dispatchSubcommand E sub fs out err s of
            (Inl e, s') \<Rightarrow> offline_writeErrorLine E err e s' | (Inr code, s') \<Rightarrow> (code, s'))))"

end
