(* ===== verification/Offline_Spec.thy ===== *)
theory Offline_Spec
  imports Harness Replay_Evidence_Spec
begin

text \<open>
  What the operator tools guarantee: the verdicts of the audit and of the comparison of architectures, what a
  successful verification, suite or preflight has established, and the exit codes.
\<close>

section \<open>Digest sets\<close>

lemma distinct_singleton: "distinct xs \<Longrightarrow> set xs = {x} \<Longrightarrow> xs = [x]"
proof (cases xs)
  case (Cons y ys)
  assume a: "distinct xs" "set xs = {x}"
  then have "y = x" "x \<notin> set ys" "set ys \<subseteq> {x}" using Cons by auto
  then have "set ys = {}" by (metis insertI1 subset_singletonD)
  with Cons \<open>y = x\<close> show ?thesis by simp
qed simp

lemma set_digest_set: "set (digest_set d b) = d ` set (eb_NodeReplays b) - {[]}"
  by (auto simp: digest_set_def)

lemma distinct_digest_set: "distinct (digest_set d b)"
  by (simp add: digest_set_def)

lemma digest_set_single:
  assumes "eb_NodeReplays b \<noteq> []" "\<forall>r\<in>set (eb_NodeReplays b). d r = x" "x \<noteq> []"
  shows "digest_set d b = [x]"
proof (rule distinct_singleton [OF distinct_digest_set])
  have "d ` set (eb_NodeReplays b) = {x}" using assms(1,2) by (cases "eb_NodeReplays b") auto
  then show "set (digest_set d b) = {x}" using assms(3) by (simp add: set_digest_set)
qed

lemma digest_set_one: "length (digest_set d b) = 1 \<longleftrightarrow> (\<exists>x. set (digest_set d b) = {x})"
proof
  assume "\<exists>x. set (digest_set d b) = {x}"
  then show "length (digest_set d b) = 1" using distinct_singleton [OF distinct_digest_set] by fastforce
qed (auto simp: length_Suc_conv)

definition one_digest_each :: "EvidenceBundle \<Rightarrow> bool" where
  "one_digest_each b \<longleftrightarrow> list_all (\<lambda>d. length (digest_set d b) = 1)
     [re_CanonicalSHA256, re_VerifySHA256, re_FailureClassSHA256, re_ExitCodeSHA256]"

lemma audit_result_iff: "as_Result (buildAuditSummary b mp pp ep now) = resultPass \<longleftrightarrow> one_digest_each b"
proof -
  let ?xs = "[(''canonical_single_digest'', length (digest_set re_CanonicalSHA256 b) = 1),
      (''verify_single_digest'', length (digest_set re_VerifySHA256 b) = 1),
      (''failure_class_single_digest'', length (digest_set re_FailureClassSHA256 b) = 1),
      (''exit_code_single_digest'', length (digest_set re_ExitCodeSHA256 b) = 1)]"
  have "list_all (\<lambda>k. fmlookup (parityOf b) k = Some True) (mapKeys (parityOf b))
      \<longleftrightarrow> (\<forall>k\<in>fset (fmdom (parityOf b)). fmlookup (parityOf b) k = Some True)"
    by (simp add: list_all_iff mapKeys_def)
  also have "\<dots> \<longleftrightarrow> (\<forall>k\<in>dom (map_of ?xs). map_of ?xs k = Some True)"
    by (simp only: parityOf_def fmlookup_of_list fmdom.rep_eq)
  also have "\<dots> \<longleftrightarrow> one_digest_each b"
    unfolding dom_map_of_conv_image_fst by (simp add: one_digest_each_def)
  finally show ?thesis by (simp add: buildAuditSummary_def Let_def resultPass_def resultFail_def)
qed

text \<open>An audit that passes has seen the same four digests in all complete runs.\<close>

lemma digest_set_agree:
  "length (digest_set d b) = 1 \<Longrightarrow> q \<in> set (eb_NodeReplays b) \<Longrightarrow> r \<in> set (eb_NodeReplays b) \<Longrightarrow> d q \<noteq> [] \<Longrightarrow> d r \<noteq> [] \<Longrightarrow> d q = d r"
  unfolding digest_set_one set_digest_set by (metis Diff_iff empty_iff imageI singletonD)

lemma one_digest_each_agree:
  assumes "one_digest_each b" "q \<in> set (eb_NodeReplays b)" "r \<in> set (eb_NodeReplays b)" "run_ok m q" "run_ok m r"
  shows "run_digests q = run_digests r"
proof -
  have "\<forall>x\<in>set (run_digests q) \<union> set (run_digests r). x \<noteq> []" using assms(4,5) by (auto simp: run_ok_def hex_token_def list_all_iff)
  with assms(1) digest_set_agree [OF _ assms(2,3)] show ?thesis by (simp add: one_digest_each_def run_digests_def)
qed

text \<open>When every node is required, the gate sees all runs.\<close>

lemma hex_token_nonempty: "hex_token 64 x \<Longrightarrow> x \<noteq> []"
  by (auto simp: hex_token_def)

lemma accepted_digest_sets:
  assumes "evidence_ok e m p opts" "pf_RequiredNodes p = []"
  shows "digest_set re_CanonicalSHA256 e = [eb_AggregateCanonical e]" "digest_set re_VerifySHA256 e = [eb_AggregateVerify e]"
    "digest_set re_FailureClassSHA256 e = [eb_AggregateClass e]" "digest_set re_ExitCodeSHA256 e = [eb_AggregateExitCode e]"
proof -
  have "required_runs e m p = set (eb_NodeReplays e)"
  proof -
    have "re_NodeID r \<in> required_set m p" if "r \<in> set (eb_NodeReplays e)" for r
    proof -
      from assms(1) that have "run_ok m r" by (simp add: evidence_ok_def)
      then show ?thesis using assms(2) by (force simp: run_ok_def required_set_def)
    qed
    then show ?thesis by (auto simp: required_runs_def)
  qed
  then have d: "\<forall>r\<in>set (eb_NodeReplays e). run_digests r = aggregates e" "eb_NodeReplays e \<noteq> []"
    using assms(1) by (auto simp: evidence_ok_def header_ok_def)
  moreover have "list_all (hex_token 64) (aggregates e)"
    using assms(1) by (simp add: evidence_ok_def header_ok_def shaFields_def aggregates_def)
  then have "[] \<notin> set (aggregates e)" using hex_token_nonempty by (auto simp: list_all_iff)
  ultimately show "digest_set re_CanonicalSHA256 e = [eb_AggregateCanonical e]"
    "digest_set re_VerifySHA256 e = [eb_AggregateVerify e]" "digest_set re_FailureClassSHA256 e = [eb_AggregateClass e]"
    "digest_set re_ExitCodeSHA256 e = [eb_AggregateExitCode e]"
    by (auto simp: run_digests_def aggregates_def intro!: digest_set_single)
qed

lemma accepted_audit:
  assumes "evidence_ok e m p opts" "pf_RequiredNodes p = []"
  shows "one_digest_each e"
  by (simp add: one_digest_each_def accepted_digest_sets [OF assms])

lemma cross_result_iff: "cr_Result (buildCrossArchReport x a px pa now) = resultPass \<longleftrightarrow> aggregates x = aggregates a"
  by (auto simp: buildCrossArchReport_def crossCheck_def aggregates_def resultPass_def resultFail_def Let_def)

section \<open>Verified evidence\<close>

text \<open>
  What verify-evidence establishes in a world: the three files are named and can be loaded, and the gate accepts the
  evidence for the digests of the artifacts in this world.
\<close>

definition evidence_verified ::
  "('f, 'x) offline_env_scheme \<Rightarrow> flag_map \<Rightarrow> string \<Rightarrow> string \<Rightarrow> string \<Rightarrow> 'f \<Rightarrow> bool" where
  "evidence_verified E fs matrixPath profilePath evPath f \<longleftrightarrow> matrixPath \<noteq> [] \<and> profilePath \<noteq> [] \<and> evPath \<noteq> [] \<and> (\<exists>m p ev ds.
     LoadMatrix (oe_matrices E f) matrixPath = Inr m \<and> LoadProfile (oe_profiles E f) profilePath = Inr p
   \<and> LoadEvidence E evPath f = Inr ev
   \<and> loadVerificationDigests E (fst (resolveVerifyPaths fs evPath)) (snd (resolveVerifyPaths fs evPath)) matrixPath profilePath f = Inr ds
   \<and> ValidateEvidenceBundle (Some ev) (Some m) (Some p) (verifyOptions ds m (resolveExpectedSourceIdentity E fs f)) = None)"

lemma cmdVerifyEvidence_Inr:
  assumes "cmdVerifyEvidence E fs out s = (Inr u, s')"
  shows "evidence_verified E fs (requireFlag fs ''--matrix'') (requireFlag fs ''--profile'') (requireFlag fs ''--evidence'') (sy_host s)"
  using assms
  by (auto simp: cmdVerifyEvidence_def evidence_verified_def Let_def io_iff loadMatrix_def loadProfile_def loadEvidence_def
      split: prod.splits option.splits)

text \<open>Conversely, such evidence is reported as verified if the line can be written.\<close>

lemma cmdVerifyEvidence_verified:
  assumes "evidence_verified E fs (requireFlag fs ''--matrix'') (requireFlag fs ''--profile'') (requireFlag fs ''--evidence'') (sy_host s)"
  shows "cmdVerifyEvidence E fs out s = offline_writeLine out ''ok'' s"
proof -
  from assms obtain m p ev ds where
    "LoadMatrix (oe_matrices E (sy_host s)) (requireFlag fs ''--matrix'') = Inr m"
    "LoadProfile (oe_profiles E (sy_host s)) (requireFlag fs ''--profile'') = Inr p"
    "LoadEvidence E (requireFlag fs ''--evidence'') (sy_host s) = Inr ev"
    "loadVerificationDigests E (fst (resolveVerifyPaths fs (requireFlag fs ''--evidence'')))
       (snd (resolveVerifyPaths fs (requireFlag fs ''--evidence''))) (requireFlag fs ''--matrix'') (requireFlag fs ''--profile'') (sy_host s) = Inr ds"
    "ValidateEvidenceBundle (Some ev) (Some m) (Some p) (verifyOptions ds m (resolveExpectedSourceIdentity E fs (sy_host s))) = None"
    by (auto simp: evidence_verified_def)
  moreover have "requireFlag fs ''--matrix'' \<noteq> []" "requireFlag fs ''--profile'' \<noteq> []" "requireFlag fs ''--evidence'' \<noteq> []"
    using assms by (simp_all add: evidence_verified_def)
  ultimately show ?thesis
    by (cases "resolveVerifyPaths fs (requireFlag fs ''--evidence'')")
      (simp add: cmdVerifyEvidence_def Let_def io_bind_def io_reject_def io_wrap_def io_return_def ask_host_def
        loadMatrix_def loadProfile_def loadEvidence_def)
qed

section \<open>A suite that succeeds\<close>

text \<open>
  What the command run does between two states: the matrix, the profile and the bundle are loaded, the identity of the
  sources is determined, the replay of this matrix with this bundle returns evidence, and just this evidence is written to
  the given path; nothing happens to the files after that.
\<close>

definition replay_written ::
  "('f, 'x) offline_env_scheme \<Rightarrow> flag_map \<Rightarrow> string \<Rightarrow> string \<Rightarrow> string \<Rightarrow> string \<Rightarrow> 'f sys \<Rightarrow> 'f sys \<Rightarrow> bool" where
  "replay_written E fs matrixPath profilePath bundlePath evPath s s' \<longleftrightarrow> (\<exists>i commit tag s1 ev f.
     loadRunInputs E matrixPath profilePath bundlePath s = (Inr i, s)
   \<and> resolveSourceIdentity E fs s = (Inr (commit, tag), s1)
   \<and> RunMatrix (oe_replay E) (Some (ri_matrix i)) (Some (ri_profile i)) (Some (adapterFactory (oe_processes E)))
       (runOptions bundlePath i commit tag) (sy_host s1) = (Inr ev, f)
   \<and> WriteEvidence E evPath (Some ev) f = (None, sy_host s'))"

lemma loadRunInputs_state: "loadRunInputs E mp pp bp s = (Inr i, s') \<Longrightarrow> s' = s"
  by (auto simp: loadRunInputs_def io_iff loadMatrix_def loadProfile_def split: prod.splits)

lemma cmdRun_Inr:
  assumes "cmdRun E fs out s = (Inr u, s')"
  shows "replay_written E fs (requireFlag fs ''--matrix'') (requireFlag fs ''--profile'') (requireFlag fs ''--bundle'')
    (requireFlag fs ''--evidence'') s s'"
proof -
  from assms obtain i commit tag s1 s2 ev f g where i: "loadRunInputs E (requireFlag fs ''--matrix'') (requireFlag fs ''--profile'')
        (requireFlag fs ''--bundle'') s = (Inr i, s2)" "resolveSourceIdentity E fs s2 = (Inr (commit, tag), s1)"
    and r: "RunMatrix (oe_replay E) (Some (ri_matrix i)) (Some (ri_profile i)) (Some (adapterFactory (oe_processes E)))
        (runOptions (requireFlag fs ''--bundle'') i commit tag) (sy_host s1) = (Inr ev, f)"
      "WriteEvidence E (requireFlag fs ''--evidence'') (Some ev) f = (None, g)"
    and out: "writeRunSummary out (requireFlag fs ''--evidence'') ev (s1\<lparr>sy_host := f, sy_host := g\<rparr>) = (Inr u, s')"
    by (auto simp: cmdRun_def Let_def io_iff)
  have "sy_host s' = g" using writeLines_host [OF out [unfolded writeRunSummary_def]] by simp
  with r i loadRunInputs_state [OF i(1)] show ?thesis unfolding replay_written_def by blast
qed

text \<open>A step with a log file starts when the directory and the file of the log have been made, and changes nothing else.\<close>

definition log_opened :: "('f, 'x) harness_env_scheme \<Rightarrow> string \<Rightarrow> 'f \<Rightarrow> 'f \<Rightarrow> bool" where
  "log_opened E path f f' \<longleftrightarrow> (\<exists>g st. he_MkdirAll E (filepath_Dir path) f = (None, g) \<and> he_Create E path g = (Inr st, f'))"

lemma runLoggedStep_Inr:
  assumes "runLoggedStep E path out fn s = (Inr y, s')" "path \<noteq> []"
  shows "\<exists>w s1. log_opened E path (sy_host s) (sy_host s1) \<and> fn w s1 = (Inr y, s')"
proof -
  from assms obtain g st f w s1 where "he_MkdirAll E (filepath_Dir path) (sy_host s) = (None, g)" "he_Create E path g = (Inr st, f)"
    "open_stream st (s\<lparr>sy_host := g, sy_host := f\<rparr>) = (Inr w, s1)" "fn (MultiWriter [w, out]) s1 = (Inr y, s')"
    by (auto simp: runLoggedStep_def io_iff)
  moreover have "sy_host s1 = f" using \<open>open_stream _ _ = _\<close> by (auto simp: open_stream_def)
  ultimately show ?thesis unfolding log_opened_def by blast
qed

lemma suiteLog_nonempty: "suiteLog a name \<noteq> []"
  by (auto simp: suiteLog_def filepath_Join_def path_Clean_def Let_def split: list.split)

text \<open>
  The states a suite passes through on its way to success: \<open>s1\<close> before the replay, \<open>s2\<close> after it and before the
  verification.
\<close>

definition suite_passes ::
  "('f, 'x) harness_env_scheme \<Rightarrow> runSuiteOptions \<Rightarrow> io_writer \<Rightarrow> runSuiteArtifacts \<Rightarrow> string \<Rightarrow> string
     \<Rightarrow> 'f sys \<Rightarrow> 'f sys \<Rightarrow> 'f sys \<Rightarrow> 'f sys \<Rightarrow> bool" where
  "suite_passes E opts out a commit tag s s1 s2 s' \<longleftrightarrow> (\<exists>repoRoot r1 r2 r3 r4 r5.
     resolveRepoRoot E s = (Inr repoRoot, r1) \<and> suiteDirs E opts r1 = (Inr a, r2)
   \<and> suiteBuild E opts a out r2 = (Inr (commit, tag), r3) \<and> suitePrepare E opts a out r3 = (Inr (), s1)
   \<and> suiteReplay E opts a commit tag out s1 = (Inr (), s2) \<and> suiteVerify E opts a out s2 = (Inr (), r4)
   \<and> suiteReports E opts a commit tag repoRoot out r4 = (Inr (), r5) \<and> suiteFinish E a repoRoot out r5 = (Inr (), s'))"

text \<open>The artifacts are in the output directory of the options, resolved when the suite has asked git for the repository.\<close>

definition suite_directory :: "('f, 'x) harness_env_scheme \<Rightarrow> runSuiteOptions \<Rightarrow> runSuiteArtifacts \<Rightarrow> 'f sys \<Rightarrow> bool" where
  "suite_directory E opts a s \<longleftrightarrow> (\<exists>repoRoot r. resolveRepoRoot E s = (Inr repoRoot, r)
     \<and> fst (filepath_Abs E (so_OutputDir opts) r) = Inr (sa_OutputDir a)
     \<and> sa_BundlePath a = filepath_Join [sa_OutputDir a, ''offline-bundle.tgz'']
     \<and> sa_EvidencePath a = filepath_Join [sa_OutputDir a, ''offline-evidence.json''])"

text \<open>
  What a suite from \<open>s\<close> to \<open>s'\<close> has established: between two states it passed through, a replay has written its
  evidence into the output directory; then only the log of the verification was opened, and in that world the file
  was loaded from the same place and accepted by the gate.
\<close>

definition suite_verified ::
  "('f, 'x) harness_env_scheme \<Rightarrow> runSuiteOptions \<Rightarrow> io_writer \<Rightarrow> runSuiteArtifacts \<Rightarrow> 'f sys \<Rightarrow> 'f sys \<Rightarrow> bool" where
  "suite_verified E opts out a s s' \<longleftrightarrow> suite_directory E opts a s \<and> (\<exists>commit tag s1 s2 r f.
     suite_passes E opts out a commit tag s s1 s2 s'
   \<and> log_opened E (suiteLog a ''run.log'') (sy_host s1) (sy_host r)
   \<and> replay_written E (runFlags E opts a commit tag) (TrimSpace (so_MatrixPath opts)) (TrimSpace (so_ProfilePath opts))
       (TrimSpace (sa_BundlePath a)) (TrimSpace (sa_EvidencePath a)) r s2
   \<and> log_opened E (suiteLog a ''verify-evidence.log'') (sy_host s2) f
   \<and> evidence_verified E (verifyFlags opts a) (TrimSpace (so_MatrixPath opts)) (TrimSpace (so_ProfilePath opts))
       (TrimSpace (sa_EvidencePath a)) f)"

lemma suiteDirs_Inr:
  assumes "suiteDirs E opts s = (Inr a, s')"
  shows "fst (filepath_Abs E (so_OutputDir opts) s) = Inr (sa_OutputDir a)"
    "sa_BundlePath a = filepath_Join [sa_OutputDir a, ''offline-bundle.tgz'']"
    "sa_EvidencePath a = filepath_Join [sa_OutputDir a, ''offline-evidence.json'']"
  using assms by (auto simp: suiteDirs_def io_iff suiteArtifacts_def)

lemma suite_flags:
  "requireFlag (runFlags E opts a commit tag) ''--matrix'' = TrimSpace (so_MatrixPath opts)"
  "requireFlag (runFlags E opts a commit tag) ''--profile'' = TrimSpace (so_ProfilePath opts)"
  "requireFlag (runFlags E opts a commit tag) ''--bundle'' = TrimSpace (sa_BundlePath a)"
  "requireFlag (runFlags E opts a commit tag) ''--evidence'' = TrimSpace (sa_EvidencePath a)"
  "requireFlag (verifyFlags opts a) ''--matrix'' = TrimSpace (so_MatrixPath opts)"
  "requireFlag (verifyFlags opts a) ''--profile'' = TrimSpace (so_ProfilePath opts)"
  "requireFlag (verifyFlags opts a) ''--evidence'' = TrimSpace (sa_EvidencePath a)"
  by (simp_all add: requireFlag_def runFlags_def verifyFlags_def suiteInputs_def flags_of_def)

lemma runSuite_Inr:
  assumes "runSuite E opts out s = (Inr a, s')"
  shows "suite_verified E (suiteDefaults opts) out a s s'"
proof -
  define o1 where "o1 = suiteDefaults opts"
  from assms obtain root_dir r1 r2 commit tag r3 s1 s2 r4 r5 where
    d: "resolveRepoRoot E s = (Inr root_dir, r1)" "suiteDirs E o1 r1 = (Inr a, r2)"
    and p: "suiteBuild E o1 a out r2 = (Inr (commit, tag), r3)" "suitePrepare E o1 a out r3 = (Inr (), s1)"
    and rep: "suiteReplay E o1 a commit tag out s1 = (Inr (), s2)" and ver: "suiteVerify E o1 a out s2 = (Inr (), r4)"
    and fin: "suiteReports E o1 a commit tag root_dir out r4 = (Inr (), r5)" "suiteFinish E a root_dir out r5 = (Inr (), s')"
    unfolding runSuite_def Let_def o1_def [symmetric] suiteSteps_def by (auto simp: io_iff split: prod.splits)
  have "suite_passes E o1 out a commit tag s s1 s2 s'" unfolding suite_passes_def using d p rep ver fin by blast
  moreover have "suite_directory E o1 a s"
    using suiteDirs_Inr [OF d(2)] d(1) by (auto simp: suite_directory_def)
  moreover obtain w r where r: "log_opened E (suiteLog a ''run.log'') (sy_host s1) (sy_host r)"
      "cmdRun E (runFlags E o1 a commit tag) w r = (Inr (), s2)"
    using runLoggedStep_Inr [OF rep [unfolded suiteReplay_def] suiteLog_nonempty] by blast
  moreover obtain w' r' where r': "log_opened E (suiteLog a ''verify-evidence.log'') (sy_host s2) (sy_host r')"
      "cmdVerifyEvidence E (verifyFlags o1 a) w' r' = (Inr (), r4)"
    using runLoggedStep_Inr [OF ver [unfolded suiteVerify_def] suiteLog_nonempty] by blast
  ultimately show ?thesis
    using cmdRun_Inr [OF r(2)] cmdVerifyEvidence_Inr [OF r'(2)]
    unfolding suite_flags suite_verified_def o1_def by blast
qed

section \<open>Two architectures\<close>

lemma compareCrossArchEvidence_Inr:
  assumes "compareCrossArchEvidence E xp ap jsonPath mdPath repoRoot s = (Inr r, s')"
  shows "\<exists>x a. LoadEvidence E xp (sy_host s) = Inr x \<and> LoadEvidence E ap (sy_host s) = Inr a \<and> aggregates x = aggregates a
     \<and> cr_Result r = resultPass"
  using assms unfolding compareCrossArchEvidence_def Let_def by (fastforce simp: io_iff cross_result_iff)

text \<open>
  What a comparison started in \<open>s\<close> has established when it succeeds: in the directory of the flags, one suite ran with
  the x86_64 options and after it one with the arm64 options, each from the state the step before it left, both verified; and
  when both were done, their two evidence files were loaded and have the same four aggregates.
\<close>

definition cross_verified :: "('f, 'x) harness_env_scheme \<Rightarrow> flag_map \<Rightarrow> io_writer \<Rightarrow> 'f sys \<Rightarrow> bool" where
  "cross_verified E fs out s \<longleftrightarrow> (\<exists>xf timeout dir f s1 ax s2 s3 aa s4 repoRoot s5 x a.
     parseCrossArchFlags fs = Inr xf \<and> parseTimeout E fs = Inr timeout
   \<and> filepath_Abs E (crossDir E fs (sy_host s)) s = (Inr dir, s) \<and> he_MkdirAll E dir (sy_host s) = (None, f)
   \<and> offline_writeLine out ''[cross-arch] running x86_64 harness'' (s\<lparr>sy_host := f\<rparr>) = (Inr (), s1)
   \<and> runSuite E (x86Suite xf fs timeout dir) out s1 = (Inr ax, s2) \<and> suite_verified E (suiteDefaults (x86Suite xf fs timeout dir)) out ax s1 s2
   \<and> offline_writeLine out ''[cross-arch] running arm64 harness'' s2 = (Inr (), s3)
   \<and> runSuite E (armSuite xf fs timeout dir) out s3 = (Inr aa, s4) \<and> suite_verified E (suiteDefaults (armSuite xf fs timeout dir)) out aa s3 s4
   \<and> resolveRepoRoot E s4 = (Inr repoRoot, s5)
   \<and> LoadEvidence E (sa_EvidencePath ax) (sy_host s5) = Inr x \<and> LoadEvidence E (sa_EvidencePath aa) (sy_host s5) = Inr a
   \<and> aggregates x = aggregates a)"

lemma filepath_Abs_state: "filepath_Abs E p s = (r, s') \<Longrightarrow> s' = s"
  by (auto simp: filepath_Abs_def io_return_def split: if_splits)

lemma cmdCrossArch_Inr:
  assumes "cmdCrossArch E fs out s = (Inr u, s')"
  shows "cross_verified E fs out s"
proof -
  from assms obtain xf timeout dir r f s1 ax s2 s3 aa s4 repo s5 rep s6 where
    fl: "parseCrossArchFlags fs = Inr xf" "parseTimeout E fs = Inr timeout"
    and dir: "filepath_Abs E (crossDir E fs (sy_host s)) s = (Inr dir, r)" "he_MkdirAll E dir (sy_host r) = (None, f)"
    and x: "offline_writeLine out ''[cross-arch] running x86_64 harness'' (r\<lparr>sy_host := f\<rparr>) = (Inr (), s1)"
      "runSuite E (x86Suite xf fs timeout dir) out s1 = (Inr ax, s2)"
    and a: "offline_writeLine out ''[cross-arch] running arm64 harness'' s2 = (Inr (), s3)"
      "runSuite E (armSuite xf fs timeout dir) out s3 = (Inr aa, s4)"
    and c: "resolveRepoRoot E s4 = (Inr repo, s5)"
      "compareCrossArchEvidence E (sa_EvidencePath ax) (sa_EvidencePath aa) (filepath_Join [dir, ''cross-arch-compare.json''])
         (filepath_Join [dir, ''cross-arch-compare.md'']) repo s5 = (Inr rep, s6)"
    unfolding cmdCrossArch_def Let_def by (auto simp: io_iff)
  from compareCrossArchEvidence_Inr [OF c(2)] fl dir filepath_Abs_state [OF dir(1)] x a c(1) runSuite_Inr [OF x(2)] runSuite_Inr [OF a(2)]
  show ?thesis unfolding cross_verified_def by blast
qed

section \<open>Preflight\<close>

text \<open>The counters of the reporter only grow; a check that reports a failure makes the count positive.\<close>

definition pr_le :: "'f rep \<Rightarrow> 'f rep \<Rightarrow> bool" where
  "pr_le a b \<longleftrightarrow> pr_failures (fst a) \<le> pr_failures (fst b) \<and> pr_warnings (fst a) \<le> pr_warnings (fst b)"

lemma pr_le_refl [simp]: "pr_le a a"
  by (simp add: pr_le_def)

lemma pr_le_trans [trans]: "pr_le a b \<Longrightarrow> pr_le b c \<Longrightarrow> pr_le a c"
  by (auto simp: pr_le_def)

lemma pr_info_le: "pr_le st (pr_info out msg st)"
  by (auto simp: pr_le_def pr_info_def pr_fail_def split: prod.split sum.split)

lemma pr_passf_le: "pr_le st (pr_passf out msg st)"
  by (simp add: pr_passf_def pr_info_le)

lemma pr_failf_grows: "pr_failures (fst st) < pr_failures (fst (pr_failf out msg st))"
  and pr_failf_le: "pr_le st (pr_failf out msg st)"
  using pr_info_le [of "(pr_fail (fst st), snd st)" out "''[FAIL] '' @ msg"]
  by (auto simp: pr_failf_def pr_fail_def pr_le_def)

lemma pr_warnf_grows: "pr_warnings (fst st) < pr_warnings (fst (pr_warnf out msg st))"
  and pr_warnf_le: "pr_le st (pr_warnf out msg st)"
  using pr_info_le [of "((fst st)\<lparr>pr_warnings := pr_warnings (fst st) + 1\<rparr>, snd st)" out "''[WARN] '' @ msg"]
  by (auto simp: pr_warnf_def pr_le_def)

lemma pr_capture_le: "pr_capture E argv st = (t, failed, st') \<Longrightarrow> pr_le a st \<Longrightarrow> pr_le a st'"
  by (auto simp: pr_capture_def pr_le_def split: prod.splits sum.splits)

lemmas report_mono = pr_le_trans [OF _ pr_info_le] pr_le_trans [OF _ pr_passf_le] pr_le_trans [OF _ pr_failf_le]
  pr_le_trans [OF _ pr_warnf_le]

lemma fold_le: "(\<And>x st. pr_le st (f x st)) \<Longrightarrow> pr_le st (fold f xs st)"
proof (induction xs arbitrary: st)
  case (Cons x xs)
  have "pr_le st (f x st)" by (rule Cons.prems)
  also note Cons.IH [OF Cons.prems]
  finally show ?case by simp
qed simp

text \<open>
  The contract of a check of the preflight: it only adds to the counters, and it reports a failure for a bad item
  whatever the state. Over a list of items one bad item leaves a failure behind.
\<close>

locale preflight_check =
  fixes check :: "'n \<Rightarrow> 'f rep \<Rightarrow> 'f rep" and bad :: "'n \<Rightarrow> bool"
  assumes keeps: "pr_le st (check n st)"
    and fails: "bad n \<Longrightarrow> pr_failures (fst st) < pr_failures (fst (check n st))"
begin

lemma all_keep: "pr_le st (fold check ns st)"
  by (rule fold_le) (rule keeps)

lemma one_fails: "n \<in> set ns \<Longrightarrow> bad n \<Longrightarrow> pr_failures (fst st) < pr_failures (fst (fold check ns st))"
proof (induction ns arbitrary: st)
  case (Cons x ns)
  show ?case
  proof (cases "x = n")
    case True
    with fails [OF Cons.prems(2), of st] all_keep [of "check n st" ns] show ?thesis by (simp add: pr_le_def)
  next
    case False
    with Cons have "pr_failures (fst (check x st)) < pr_failures (fst (fold check ns (check x st)))" by auto
    with keeps [of st x] show ?thesis by (auto simp: pr_le_def)
  qed
qed simp

end

lemma checkTools_le: "pr_le st (checkTools E out cmds st)"
  unfolding checkTools_def by (rule fold_le) (simp add: pr_failf_le pr_passf_le)

lemma checkBaseTooling_le: "pr_le st (checkBaseTooling E out st)"
  unfolding checkBaseTooling_def by (rule pr_le_trans [OF pr_info_le checkTools_le])

lemma checkImage_le: "pr_le st (checkImage E out engine node st)"
  by (auto simp: checkImage_def Let_def split: prod.split intro!: report_mono elim: pr_capture_le)

lemma checkSnapshot_le: "pr_le st (checkSnapshot E out lane st)"
  by (auto simp: checkSnapshot_def split: prod.split intro!: report_mono elim: pr_capture_le)

lemma checkVMLane_le: "pr_le st (checkVMLane E out lane st)"
  by (auto simp: checkVMLane_def Let_def split: prod.split
      intro!: report_mono pr_le_trans [OF _ checkSnapshot_le] elim!: pr_capture_le)

interpretation images: preflight_check "checkImage E out engine" "\<lambda>n. containerImageFromNode n = []" for E out engine
  by unfold_locales (rule checkImage_le, simp add: checkImage_def pr_failf_grows)

interpretation machines: preflight_check "checkVMLane E out" "\<lambda>l. vl_Domain l = []" for E out
  by unfold_locales (rule checkVMLane_le, simp add: checkVMLane_def pr_failf_grows)

lemma checkContainerLanes_le: "pr_le st (checkContainerLanes E out nodes st)"
  by (auto simp: checkContainerLanes_def Let_def split: prod.split
      intro!: report_mono pr_le_trans [OF _ images.all_keep] elim: pr_capture_le)

lemma checkVMLanes_le: "pr_le st (checkVMLanes E out nodes st)"
  by (auto simp: checkVMLanes_def Let_def
      intro!: report_mono pr_le_trans [OF _ machines.all_keep] pr_le_trans [OF _ checkTools_le])

lemmas preflight_le = checkBaseTooling_le checkContainerLanes_le checkVMLanes_le

text \<open>A lane whose node names no image, or no domain.\<close>

definition lane_named :: "NodeSpec \<Rightarrow> bool" where
  "lane_named n \<longleftrightarrow> (ns_Mode n = NodeModeContainer \<longrightarrow> containerImageFromNode n \<noteq> [])
     \<and> (ns_Mode n = NodeModeVM \<longrightarrow> vl_Domain (vmLaneFromNode n) \<noteq> [])"


lemma pr_le_less: "pr_failures (fst a) < pr_failures (fst b) \<Longrightarrow> pr_le b c \<Longrightarrow> pr_failures (fst a) < pr_failures (fst c)"
  and pr_less_le: "pr_le a b \<Longrightarrow> pr_failures (fst b) < pr_failures (fst c) \<Longrightarrow> pr_failures (fst a) < pr_failures (fst c)"
  by (auto simp: pr_le_def)

lemma checkContainerLanes_fails:
  assumes "n \<in> set nodes" "ns_Mode n = NodeModeContainer" "containerImageFromNode n = []"
  shows "pr_failures (fst st) < pr_failures (fst (checkContainerLanes E out nodes st))"
proof -
  let ?ns = "filter (\<lambda>n. ns_Mode n = NodeModeContainer) nodes"
  have n: "n \<in> set ?ns" using assms by simp
  then have ne: "?ns \<noteq> []" by (metis empty_iff list.set(1))
  have f: "pr_failures (fst st1) < pr_failures (fst (fold (checkImage E out engine) ?ns st1))" for engine st1
    by (rule images.one_fails [OF n assms(3)])
  show ?thesis using ne
    by (auto simp: checkContainerLanes_def Let_def pr_failf_grows split: prod.split
        intro!: pr_less_le [OF _ f] pr_less_le [OF _ pr_failf_grows] report_mono elim: pr_capture_le)
qed

lemma checkVMLanes_fails:
  assumes "n \<in> set nodes" "ns_Mode n = NodeModeVM" "vl_Domain (vmLaneFromNode n) = []"
  shows "pr_failures (fst st) < pr_failures (fst (checkVMLanes E out nodes st))"
proof -
  let ?ls = "map vmLaneFromNode (filter (\<lambda>n. ns_Mode n = NodeModeVM) nodes)"
  have n: "vmLaneFromNode n \<in> set ?ls" using assms by simp
  then have ne: "?ls \<noteq> []" by (metis empty_iff list.set(1))
  have f: "pr_failures (fst st1) < pr_failures (fst (fold (checkVMLane E out) ?ls st1))" for st1
    by (rule machines.one_fails [OF n assms(3)])
  show ?thesis using ne unfolding checkVMLanes_def Let_def
    by (auto intro!: pr_less_le [OF _ f] pr_le_trans [OF _ checkTools_le] report_mono simp del: fold_map)
qed

lemma runPreflight_Inr:
  assumes "runPreflight E path strict out s = (Inr u, s')"
  shows "\<exists>m f. LoadMatrix (oe_matrices E f) path = Inr m \<and> (\<forall>n\<in>set (mx_Nodes m). lane_named n)"
proof -
  from assms obtain m r s1 s2 where m: "LoadMatrix (oe_matrices E (sy_host s1)) path = Inr m"
    and r: "preflightChecks E out (mx_Nodes m) s1 = (Inr r, s2)" and z: "\<not> pr_failures r > 0"
    by (auto simp: runPreflight_def io_iff loadMatrix_def split: if_splits)
  define st0 where "st0 = checkBaseTooling E out (\<lparr>pr_failures = 0, pr_warnings = 0\<rparr>, s1)"
  have r': "r = fst (checkVMLanes E out (mx_Nodes m) (checkContainerLanes E out (mx_Nodes m) st0))"
    using r by (auto simp: preflightChecks_def st0_def split: prod.splits)
  have "0 \<le> pr_failures (fst st0)"
    using checkBaseTooling_le [of "(\<lparr>pr_failures = 0, pr_warnings = 0\<rparr>, s1)" E out] by (simp add: pr_le_def st0_def)
  moreover have "pr_failures (fst st0) < pr_failures r" if "n \<in> set (mx_Nodes m)" "\<not> lane_named n" for n
  proof (cases "ns_Mode n = NodeModeContainer \<and> containerImageFromNode n = []")
    case True
    with checkContainerLanes_fails [OF that(1)] checkVMLanes_le show ?thesis unfolding r' by (blast intro: pr_le_less)
  next
    case False
    with that(2) have "ns_Mode n = NodeModeVM" "vl_Domain (vmLaneFromNode n) = []" by (auto simp: lane_named_def)
    from checkVMLanes_fails [OF that(1) this] checkContainerLanes_le show ?thesis unfolding r' by (blast intro: pr_less_le)
  qed
  ultimately have "\<forall>n\<in>set (mx_Nodes m). lane_named n" using z by (meson le_less_trans)
  with m show ?thesis by blast
qed

section \<open>Exit codes and flags\<close>

lemma dispatch_code: "dispatchSubcommand E sub fs out err s = (Inr c, s') \<Longrightarrow> c = 0 \<or> c = 2"
  by (auto simp: dispatchSubcommand_def Let_def io_iff split: if_splits)

lemma offline_run_code: "fst (offline_run E args out err s) = 0 \<or> fst (offline_run E args out err s) = 2"
  by (auto simp: offline_run_def offline_writeErrorLine_def split: list.split prod.split sum.split dest: dispatch_code)

text \<open>An assignment on the command line, and what it sets.\<close>

definition assign :: "string \<times> string \<Rightarrow> string" where
  "assign kv = fst kv @ ''='' @ snd kv"

definition flag_name :: "string \<Rightarrow> bool" where
  "flag_name k \<longleftrightarrow> HasPrefix k ''--'' \<and> CHR ''='' \<notin> set k"

lemma splitAssign_assign: "flag_name k \<Longrightarrow> splitAssign (assign (k, v)) = (k, v)"
proof -
  assume "flag_name k"
  then have "\<forall>c\<in>set k. c \<noteq> CHR ''=''" by (auto simp: flag_name_def)
  then have "takeWhile (\<lambda>c. c \<noteq> CHR ''='') (k @ CHR ''='' # v) = k" "dropWhile (\<lambda>c. c \<noteq> CHR ''='') (k @ CHR ''='' # v) = CHR ''='' # v"
    by (induction k) auto
  then show ?thesis by (simp add: splitAssign_def assign_def)
qed

lemma parseKV_assigns:
  "list_all flag_name (map fst kvs) \<Longrightarrow>
     offline_parseKV fs (map assign kvs) = Inr (foldl (\<lambda>f kv. f(fst kv \<mapsto> snd kv)) fs kvs)"
proof (induction kvs arbitrary: fs)
  case (Cons kv kvs)
  obtain k v where kv: "kv = (k, v)" by fastforce
  with Cons.prems have k: "flag_name k" by auto
  then obtain t where t: "k = ''--'' @ t" by (auto simp: flag_name_def HasPrefix_iff)
  have "CHR ''='' \<in> set (assign kv)" by (simp add: assign_def)
  moreover have "CHR ''='' \<notin> set ''--help''" "CHR ''='' \<notin> set ''-h''" by simp_all
  ultimately have h: "assign kv \<noteq> ''--help''" "assign kv \<noteq> ''-h''" by metis+
  have "assign kv = k @ ''='' @ v" by (simp add: kv assign_def)
  then have c: "Contains (assign kv) ''=''" unfolding Contains_iff by blast
  have "HasPrefix (assign kv) ''--''" by (simp add: kv t assign_def HasPrefix_iff)
  note a = this c h
  have "splitAssign (assign kv) = (k, v)" using splitAssign_assign [OF k] kv by simp
  with a have "offline_parseKV fs (map assign (kv # kvs)) = offline_parseKV (fs(k \<mapsto> v)) (map assign kvs)"
    by (simp del: fun_upd_apply)
  also have "\<dots> = Inr (foldl (\<lambda>f kv. f(fst kv \<mapsto> snd kv)) (fs(k \<mapsto> v)) kvs)"
    by (rule Cons.IH) (use Cons.prems in simp)
  finally show ?case by (simp only: kv foldl_Cons fst_conv snd_conv)
qed simp

end
