(* ===== verification/Offline_Total.thy ===== *)
theory Offline_Total
  imports Offline_Spec Worker_Claims
begin

text \<open>
  Total correctness of the steps of the operator tools: rules that a step succeeds when the calls it makes do, and
  whatever it writes goes to streams that accept everything. A sample environment in which a whole run of the suite
  succeeds shows that the theorems on successful runs have instances.
\<close>

section \<open>Steps that succeed\<close>

text \<open>The open streams accept everything, and the first \<open>n\<close> of them are there.\<close>

definition calm :: "nat \<Rightarrow> 'f sys \<Rightarrow> bool" where
  "calm n s \<longleftrightarrow> n \<le> length (sy_writers s) \<and> list_all (\<lambda>w. script w = []) (sy_writers s)"

definition succeeds :: "nat \<Rightarrow> ('f sys, 'a) io \<Rightarrow> ('a \<Rightarrow> bool) \<Rightarrow> bool" where
  "succeeds n m Q \<longleftrightarrow> (\<forall>s. calm n s \<longrightarrow> (\<exists>x s'. m s = (Inr x, s') \<and> Q x \<and> calm n s'))"

lemma succeedsI: "(\<And>s. calm n s \<Longrightarrow> \<exists>x s'. m s = (Inr x, s') \<and> Q x \<and> calm n s') \<Longrightarrow> succeeds n m Q"
  by (simp add: succeeds_def)

lemma succeedsE: "succeeds n m Q \<Longrightarrow> calm n s \<Longrightarrow> (\<And>x s'. m s = (Inr x, s') \<Longrightarrow> Q x \<Longrightarrow> calm n s' \<Longrightarrow> P) \<Longrightarrow> P"
  by (auto simp: succeeds_def)

lemma succeeds_run: "succeeds n m Q \<Longrightarrow> calm n s \<Longrightarrow> \<exists>x s'. m s = (Inr x, s') \<and> Q x"
  by (auto simp: succeeds_def)

lemma calm_start [simp]: "calm 0 \<lparr>sy_host = f, sy_writers = []\<rparr>"
  by (simp add: calm_def)

lemma calm_host [simp]: "calm n (s\<lparr>sy_host := f\<rparr>) = calm n s"
  by (simp add: calm_def)

lemma calm_less: "calm n s \<Longrightarrow> m \<le> n \<Longrightarrow> calm m s"
  by (simp add: calm_def)

named_theorems total_intro

lemma succeeds_return [total_intro]: "Q x \<Longrightarrow> succeeds n (io_return x) Q"
  by (simp add: succeeds_def io_return_def)

lemma succeeds_bind:
  assumes "succeeds n m R" "\<And>x. R x \<Longrightarrow> succeeds n (f x) Q"
  shows "succeeds n (io_bind m f) Q"
proof (rule succeedsI, goal_cases)
  case (1 s)
  with assms(1) obtain x s1 where a: "m s = (Inr x, s1)" "R x" "calm n s1" by (blast elim: succeedsE)
  from assms(2) [OF a(2)] a(3) obtain y s2 where "f x s1 = (Inr y, s2)" "Q y" "calm n s2" by (blast elim: succeedsE)
  with a(1) show ?case by (simp add: io_bind_def)
qed

lemma succeeds_seq: "succeeds n m (\<lambda>_. True) \<Longrightarrow> (\<And>x. succeeds n (f x) Q) \<Longrightarrow> succeeds n (io_bind m f) Q"
  by (rule succeeds_bind)

lemma succeeds_wrap [total_intro]: "succeeds n m Q \<Longrightarrow> succeeds n (io_wrap msg m) Q"
  by (rule succeedsI) (auto simp: io_wrap_def elim: succeedsE)

lemma succeeds_lift [total_intro]: "r = Inr x \<Longrightarrow> Q x \<Longrightarrow> succeeds n (io_lift r) Q"
  by (rule succeedsI) (simp add: io_lift_def)

lemma succeeds_reject [total_intro]: "\<not> b \<Longrightarrow> succeeds n (io_reject b e) (\<lambda>_. True)"
  by (rule succeedsI) (simp add: io_reject_def)

lemma succeeds_finally:
  assumes "succeeds n m Q" "\<And>s. calm n s \<Longrightarrow> calm n (g s)"
  shows "succeeds n (io_finally g m) Q"
proof (rule succeedsI, goal_cases)
  case (1 s)
  with assms(1) obtain x s1 where "m s = (Inr x, s1)" "Q x" "calm n s1" by (blast elim: succeedsE)
  with assms(2) show ?case by (simp add: io_finally_def)
qed

lemma succeeds_query [total_intro]: "(\<And>f. q f = Inr x) \<Longrightarrow> Q x \<Longrightarrow> succeeds n (\<lambda>s. (q (sy_host s), s)) Q"
  by (rule succeedsI) simp

lemma succeeds_ask: "(\<And>f. Q (q f)) \<Longrightarrow> succeeds n (ask_host q) Q"
  by (rule succeedsI) (simp add: ask_host_def)

lemma succeeds_act [total_intro]: "(\<And>f. fst (m f) = None) \<Longrightarrow> succeeds n (act_host m) (\<lambda>_. True)"
proof (rule succeedsI, goal_cases)
  case (1 s)
  obtain f where "m (sy_host s) = (None, f)" using 1(1) [of "sy_host s"] by (metis prod.collapse)
  with 1(2) show ?case by (simp add: act_host_def)
qed

lemma succeeds_host:
  assumes "\<And>f. \<exists>x f'. m f = (Inr x, f') \<and> Q x"
  shows "succeeds n (on_host m) Q"
proof (rule succeedsI, goal_cases)
  case (1 s)
  moreover obtain x f' where "m (sy_host s) = (Inr x, f')" "Q x" using assms by blast
  ultimately show ?case by (simp add: on_host_def)
qed

lemma succeeds_weaken: "succeeds n m R \<Longrightarrow> (\<And>x. R x \<Longrightarrow> Q x) \<Longrightarrow> succeeds n m Q"
  by (fastforce simp: succeeds_def)

section \<open>Writing\<close>

definition opened :: "nat \<Rightarrow> io_writer \<Rightarrow> bool" where
  "opened n out \<longleftrightarrow> list_all (\<lambda>h. h < n) out"

lemma opened_Discard [simp]: "opened n Discard"
  by (simp add: opened_def Discard_def)

lemma opened_MultiWriter [simp]: "opened n (MultiWriter ws) \<longleftrightarrow> list_all (opened n) ws"
  by (induction ws) (auto simp: opened_def MultiWriter_def)

lemma opened_Suc: "opened n out \<Longrightarrow> n \<le> m \<Longrightarrow> opened m out"
  by (auto simp: opened_def list_all_iff)

lemma succeeds_put [total_intro]: "opened n out \<Longrightarrow> succeeds n (put out t) (\<lambda>_. True)"
proof (induction out)
  case (Cons h hs)
  show ?case
  proof (rule succeedsI, goal_cases)
    case s: (1 s)
    let ?w = "(sy_writers s ! h)\<lparr>sent := sent (sy_writers s ! h) @ ascii t\<rparr>"
    from Cons.prems s have h: "h < length (sy_writers s)" "script (sy_writers s ! h) = []"
      by (auto simp: opened_def calm_def list_all_length)
    have "calm n (s\<lparr>sy_writers := (sy_writers s)[h := ?w]\<rparr>)"
      using s h by (auto simp: calm_def list_all_length nth_list_update)
    moreover have "opened n hs" using Cons.prems by (simp add: opened_def)
    note Cons.IH [OF this]
    ultimately obtain s' where "put hs t (s\<lparr>sy_writers := (sy_writers s)[h := ?w]\<rparr>) = (Inr (), s')" "calm n s'"
      by (auto elim: succeedsE)
    with h show ?case by (simp add: Write_def)
  qed
qed (simp add: total_intro)

lemma succeeds_writef [total_intro]: "opened n out \<Longrightarrow> succeeds n (offline_writef out t) (\<lambda>_. True)"
  by (simp add: offline_writef_def total_intro)

lemma succeeds_writeLine [total_intro]: "opened n out \<Longrightarrow> succeeds n (offline_writeLine out t) (\<lambda>_. True)"
  by (simp add: offline_writeLine_def total_intro)

lemma succeeds_writeLines [total_intro]: "opened n out \<Longrightarrow> succeeds n (offline_writeLines out ls) (\<lambda>_. True)"
  by (induction ls) (auto intro!: total_intro succeeds_bind)

lemma succeeds_open:
  assumes "script st = []" "\<And>h. n \<le> h \<Longrightarrow> succeeds (Suc h) (k [h]) Q"
  shows "succeeds n (io_bind (open_stream st) k) Q"
proof (rule succeedsI, goal_cases)
  case s: (1 s)
  let ?h = "length (sy_writers s)" and ?s = "s\<lparr>sy_writers := sy_writers s @ [st]\<rparr>"
  have "n \<le> ?h" "calm (Suc ?h) ?s" using s assms(1) by (simp_all add: calm_def)
  with assms(2) obtain x s' where "k [?h] ?s = (Inr x, s')" "Q x" "calm (Suc ?h) s'" by (blast elim: succeedsE)
  with \<open>n \<le> ?h\<close> show ?case
    by (auto simp: io_bind_def open_stream_def intro: calm_less)
qed

end
