(* ===== verification/Offline_Sample.thy ===== *)
theory Offline_Sample
  imports Offline_Total
begin

text \<open>
  A sample environment for the operator tools: the world is the journal of the commands started, every command and
  every call on files succeeds, and the matrix, the profile and the evidence are given. A whole run of the suite
  succeeds in it.
\<close>

section \<open>The environment\<close>

definition source_of :: "'a \<Rightarrow> 'a document_source" where
  "source_of x = \<lparr>ReadFile = (\<lambda>_. Inr []), Decode = (\<lambda>t. Inr (x, t)), NextToken = (\<lambda>_. AtEOF)\<rparr>"

abbreviation zeros :: string where "zeros \<equiv> digest_of CHR ''0''"

definition suite_manifest :: BundleManifest where
  "suite_manifest = sample_manifest\<lparr>bm_BinarySHA256 := zeros, bm_WorkerSHA256 := zeros, bm_MatrixSHA256 := zeros,
     bm_ProfileSHA256 := zeros, bm_VectorSHA256 := fmupd ''v.jsonl'' zeros fmempty\<rparr>"

definition sample_bundles :: "journal bundle_env" where
  "sample_bundles = \<lparr>be_now = ''t'', be_Sum256 = (\<lambda>_. replicate 32 0), be_ReadFile = (\<lambda>p w. Inr p),
     be_Glob = (\<lambda>g w. Inr [''v.jsonl'']), be_encode = (\<lambda>m. Inr ''{}''), be_decode = (\<lambda>t. Inr suite_manifest),
     be_gunzip = (\<lambda>t. Inr [tar_of (manifestEntry ''{}'')]), be_Create = (\<lambda>p w. (None, w)), be_WriteHeader = (\<lambda>p h w. (None, w)),
     be_WriteData = (\<lambda>p t w. (None, w)), be_CloseAll = (\<lambda>p w. w)\<rparr>"

definition sample_harness :: "Matrix \<Rightarrow> EvidenceBundle \<Rightarrow> journal harness_env" where
  "sample_harness m e = \<lparr>oe_bundle = sample_bundles, oe_replay = sample_files, oe_processes = quiet_host,
     oe_matrices = (\<lambda>_. source_of m), oe_profiles = (\<lambda>_. source_of (sample_profile [''s''])),
     oe_decodeEvidence = (\<lambda>_. Inr e), oe_encodeEvidence = (\<lambda>_. Inr ''{}''), oe_encodeMatrix = (\<lambda>_. Inr ''{}''),
     oe_WriteFile = (\<lambda>p t w. (None, w)), oe_MkdirTemp = (\<lambda>p w. (Inr ''/tmp/w'', w)), oe_Remove = (\<lambda>p w. w),
     oe_ParseDuration = (\<lambda>_. Some 1),
     oe_LookupEnv = (\<lambda>name w. if name = ''JCS_OFFLINE_SOURCE_GIT_COMMIT'' then Some (replicate 40 CHR ''0'') else None),
     oe_quote = (\<lambda>t. t), oe_show = (\<lambda>_. []),
     he_MkdirAll = (\<lambda>p w. (None, w)), he_Create = (\<lambda>p w. (Inr \<lparr>sent = [], script = []\<rparr>, w)), he_Getwd = (\<lambda>w. Inr ''/''),
     he_LookPath = (\<lambda>_ _. True), he_Stream = (\<lambda>argv env w. (([], None), w @ [(argv, env)])), he_now = (\<lambda>_. ''t''),
     he_stamp = (\<lambda>_. ''s''), he_encodeSummary = (\<lambda>_. Inr ''{}''), he_encodeReport = (\<lambda>_. Inr ''{}''),
     he_durationText = (\<lambda>_. ''1ns'')\<rparr>"

lemma sample_harness_simps [simp]:
  "oe_bundle (sample_harness m e) = sample_bundles" "oe_replay (sample_harness m e) = sample_files"
  "oe_processes (sample_harness m e) = quiet_host" "oe_matrices (sample_harness m e) f = source_of m"
  "oe_profiles (sample_harness m e) f = source_of (sample_profile [''s''])" "oe_decodeEvidence (sample_harness m e) t = Inr e"
  "oe_encodeEvidence (sample_harness m e) x = Inr ''{}''" "oe_WriteFile (sample_harness m e) p t w = (None, w)"
  "oe_MkdirTemp (sample_harness m e) p w = (Inr ''/tmp/w'', w)" "oe_Remove (sample_harness m e) p w = w"
  "oe_ParseDuration (sample_harness m e) d = Some 1" "he_MkdirAll (sample_harness m e) p w = (None, w)"
  "he_Create (sample_harness m e) p w = (Inr \<lparr>sent = [], script = []\<rparr>, w)" "he_Getwd (sample_harness m e) w = Inr ''/''"
  "he_Stream (sample_harness m e) argv env w = (([], None), w @ [(argv, env)])"
  "he_encodeSummary (sample_harness m e) s = Inr ''{}''" "he_durationText (sample_harness m e) ns = ''1ns''"
  by (simp_all add: sample_harness_def)

lemma sample_commit: "TrimSpace (replicate 40 CHR ''0'') = replicate 40 CHR ''0''"
  using sample_hex by (simp add: TrimSpace_hex list_all_iff)

lemma sample_lookups [simp]:
  "lookupEnvTrimmed (sample_harness m e) ''JCS_OFFLINE_SOURCE_GIT_COMMIT'' f = replicate 40 CHR ''0''"
  "lookupEnvTrimmed (sample_harness m e) ''JCS_OFFLINE_SOURCE_GIT_TAG'' f = []"
  "lookupEnvTrimmed (sample_harness m e) ''JCS_OFFLINE_EXPECTED_GIT_COMMIT'' f = []"
  "lookupEnvTrimmed (sample_harness m e) ''JCS_OFFLINE_EXPECTED_GIT_TAG'' f = []"
  using sample_commit by (simp_all add: lookupEnvTrimmed_def sample_harness_def)

lemma sample_sums [simp]: "sha256Hex sample_bundles t = zeros"
  by (simp add: sha256Hex_def sample_bundles_def) code_simp

lemma sample_files_read [simp]: "fileText (sample_harness m e) p f = Inr p" "offline_fileSHA256 (sample_harness m e) p f = Inr zeros"
proof -
  show f: "fileText (sample_harness m e) p f = Inr p" by (simp add: fileText_def) (simp add: sample_bundles_def)
  show "offline_fileSHA256 (sample_harness m e) p f = Inr zeros" by (simp add: offline_fileSHA256_def f)
qed

lemma sample_loads [simp]:
  "ValidateMatrix (Some m) = None \<Longrightarrow> LoadMatrix (source_of m) p = Inr m"
  "LoadProfile (source_of (sample_profile [''s''])) p = Inr (sample_profile [''s''])"
  "LoadEvidence (sample_harness m e) p f = Inr e"
  using sample_valid(2) by (simp_all add: LoadMatrix_def LoadProfile_def LoadEvidence_def source_of_def ensureSingleJSONDocument_def)

text \<open>Evidence about the artifacts of this environment.\<close>

definition audited :: EvidenceBundle where
  "audited = (sample_evidence [''s''])\<lparr>eb_BundleSHA256 := zeros, eb_ControlBinarySHA := zeros, eb_MatrixSHA256 := zeros,
     eb_ProfileSHA256 := zeros\<rparr>"

lemma audited_ok: "evidence_ok audited sample_matrix (sample_profile [''s''])
    (verifyOptions (zeros, zeros, zeros, zeros) sample_matrix ([], []))"
proof -
  note ok = sample_evidence_ok [of "[''s'']" "[''s'']", OF refl]
  have x: "TrimSpace ''x86_64'' = ''x86_64''" by (rule TrimSpace_graphic) code_simp
  have "required_runs audited sample_matrix (sample_profile [''s'']) = required_runs (sample_evidence [''s'']) sample_matrix (sample_profile [''s''])"
    "aggregates audited = aggregates (sample_evidence [''s''])"
    by (simp_all add: required_runs_def audited_def aggregates_def)
  moreover have "header_ok audited sample_matrix (sample_profile [''s''])
      (verifyOptions (zeros, zeros, zeros, zeros) sample_matrix ([], []))"
    using ok sample_hex x by (simp add: evidence_ok_def header_ok_def verifyOptions_def audited_def shaFields_def expectedArch_def
        sample_evidence_def sample_matrix_def sample_profile_def no_expectations_def)
  ultimately show ?thesis using ok by (simp add: evidence_ok_def audited_def)
qed

lemma audited_accepted: "ValidateEvidenceBundle (Some audited) (Some sample_matrix) (Some (sample_profile [''s'']))
    (verifyOptions (zeros, zeros, zeros, zeros) sample_matrix ([], [])) = None"
  using evidence_iff [OF sample_distinct] audited_ok by simp

abbreviation quiet_tools :: "journal harness_env" where
  "quiet_tools \<equiv> sample_harness sample_matrix audited"

lemma quiet_matrix [simp]: "LoadMatrix (source_of sample_matrix) p = Inr sample_matrix"
  by (rule sample_loads) (rule sample_matrix_valid)

section \<open>Commands and files\<close>

lemma total_capture: "succeeds n (runCommandCapture (sample_harness m e) argv) (\<lambda>r. r = ([], None))"
proof -
  have "TrimSpace [] = []" by code_simp
  then show ?thesis by (intro succeedsI) (simp add: runCommandCapture_def quiet_host_def)
qed

lemma total_stream: "succeeds n (runCommandToWriter (sample_harness m e) lw mirror env argv) (\<lambda>_. True)"
  by (rule succeedsI) (simp add: runCommandToWriter_def io_return_def)

lemma total_dir: "succeeds n (io_wrap msg (act_host (he_MkdirAll (sample_harness m e) d))) (\<lambda>_. True)"
  and total_create: "succeeds n (io_wrap msg (on_host (he_Create (sample_harness m e) path))) (\<lambda>st. st = \<lparr>sent = [], script = []\<rparr>)"
  and total_file: "succeeds n (act_host (oe_WriteFile (sample_harness m e) path t)) (\<lambda>_. True)"
  by (auto intro!: total_intro succeeds_host)

lemma total_go: "succeeds n (runGoCommandLogged (sample_harness m e) path out env args) (\<lambda>_. True)"
  by (auto simp: runGoCommandLogged_def
      intro!: total_stream succeeds_bind [OF total_dir] succeeds_bind [OF total_create] succeeds_open)

lemma total_build:
  assumes "opened n out"
  shows "succeeds n (buildCanonicalizer (sample_harness m e) o1 ver path out) (\<lambda>_. True)"
    "succeeds n (buildController (sample_harness m e) o1 path out) (\<lambda>_. True)"
  unfolding buildCanonicalizer_def buildController_def
  by (rule succeeds_bind [OF succeeds_writeLine [OF assms]], rule total_go)+

lemma total_logged:
  assumes "opened n out" "\<And>k w. n \<le> k \<Longrightarrow> opened k w \<Longrightarrow> succeeds k (fn w) (\<lambda>_. True)"
  shows "succeeds n (runLoggedStep (sample_harness m e) path out fn) (\<lambda>_. True)"
proof (cases "path = []")
  case True
  with assms show ?thesis by (simp add: runLoggedStep_def)
next
  case False
  have "succeeds (Suc h) (fn (MultiWriter [[h], out])) (\<lambda>_. True)" if "n \<le> h" for h
  proof (rule assms(2))
    show "opened (Suc h) (MultiWriter [[h], out])" using that opened_Suc [OF assms(1), of "Suc h"] by (simp add: opened_def [of _ "[h]"])
  qed (use that in simp)
  then have open_it: "succeeds n (io_bind (open_stream \<lparr>sent = [], script = []\<rparr>) (\<lambda>fd. fn (MultiWriter [fd, out]))) (\<lambda>_. True)"
    by (intro succeeds_open) simp_all
  with open_it show ?thesis unfolding runLoggedStep_def if_not_P [OF False]
    by (auto intro!: succeeds_bind [OF total_dir] succeeds_bind [OF total_create])
qed

lemma total_loads:
  "succeeds n (loadMatrix quiet_tools p) (\<lambda>m. m = sample_matrix)"
  "succeeds n (loadProfile quiet_tools p) (\<lambda>m. m = sample_profile [''s''])"
  "succeeds n (loadEvidence quiet_tools p) (\<lambda>m. m = audited)"
  by (auto simp: loadMatrix_def loadProfile_def loadEvidence_def io_wrap_def intro!: succeedsI)

lemma bind_lift [simp]: "io_bind (io_lift (Inr x)) f = f x"
  by (simp add: io_bind_def io_lift_def)

lemma bind_return [simp]: "io_bind (io_return x) f = f x"
  by (simp add: io_bind_def io_return_def)

section \<open>The commands\<close>

lemma sample_bundles_simps [simp]:
  "be_ReadFile sample_bundles p w = Inr p" "be_Glob sample_bundles g w = Inr [''v.jsonl'']" "be_encode sample_bundles m = Inr ''{}''"
  "be_Create sample_bundles p w = (None, w)" "be_WriteHeader sample_bundles p h w = (None, w)"
  "be_WriteData sample_bundles p t w = (None, w)" "be_CloseAll sample_bundles p w = w"
  "be_gunzip sample_bundles t = Inr [tar_of (manifestEntry ''{}'')]" "be_decode sample_bundles t = Inr suite_manifest"
  by (simp_all add: sample_bundles_def)

lemma sample_writes: "writeEntries sample_bundles path es w = (None, w)"
  by (induction es) simp_all

lemma total_bundle:
  assumes "bo_OutputPath opts \<noteq> []" "bo_BinaryPath opts \<noteq> []" "bo_WorkerPath opts \<noteq> []" "bo_MatrixPath opts \<noteq> []"
    "bo_ProfilePath opts \<noteq> []"
  shows "succeeds n (on_host (CreateBundle sample_bundles opts)) (\<lambda>_. True)"
proof (rule succeeds_host)
  fix f :: journal
  have "\<exists>m es. bundleContents sample_bundles opts f = Inr (m, es)"
    by (simp add: bundleContents_def readCore_def readNamed_def Let_def)
  then show "\<exists>x f'. CreateBundle sample_bundles opts f = (Inr x, f') \<and> True"
    using assms by (auto simp: CreateBundle_def writeBundleTarGz_def sample_writes)
qed

lemma total_worker:
  assumes "requireFlag fs ''--worker'' = []"
  shows "succeeds n (resolveWorkerPath quiet_tools fs) (\<lambda>r. fst r \<noteq> [] \<and> (\<forall>s. calm n s \<longrightarrow> calm n (snd r s)))"
proof -
  let ?p = "filepath_Join [''/tmp/w'', ''jcs-offline-worker'']"
  have ne: "?p \<noteq> []" by code_simp
  have "succeeds n (buildWorkerBinary quiet_tools) (\<lambda>p. p = ?p)"
    by (rule succeedsI) (simp add: buildWorkerBinary_def io_bind_def io_wrap_def on_host_def quiet_host_def Let_def)
  then show ?thesis unfolding resolveWorkerPath_def Let_def if_not_P [OF assms [THEN not_not [THEN iffD2]]]
    using ne by (auto intro!: succeeds_bind succeeds_return)
qed

lemma total_summaries:
  assumes "opened n out"
  shows "succeeds n (writePrepareSummary out p mf) (\<lambda>_. True)" "succeeds n (writeRunSummary out p b) (\<lambda>_. True)"
    "succeeds n (writeReportHeader out b) (\<lambda>_. True)" "succeeds n (writeReportNodeBreakdown out b) (\<lambda>_. True)"
  unfolding writePrepareSummary_def writeRunSummary_def writeReportHeader_def writeReportNodeBreakdown_def
  using assms by (rule succeeds_writeLines)+

lemma total_prepare:
  assumes "requireFlag fs ''--matrix'' \<noteq> []" "requireFlag fs ''--profile'' \<noteq> []" "requireFlag fs ''--bundle'' \<noteq> []"
    "requireFlag fs ''--binary'' \<noteq> []" "requireFlag fs ''--worker'' = []" "opened n out"
  shows "succeeds n (cmdPrepare quiet_tools fs out) (\<lambda>_. True)"
proof -
  have f: "requirePrepareFlags fs
      = Inr (requireFlag fs ''--matrix'', requireFlag fs ''--profile'', requireFlag fs ''--bundle'', requireFlag fs ''--binary'')"
    using assms by (simp add: requirePrepareFlags_def)
  show ?thesis unfolding cmdPrepare_def f
    using assms
    by (auto intro!: succeeds_bind [OF total_loads(1)] succeeds_bind [OF total_loads(2)] succeeds_bind [OF total_worker] succeeds_finally
          succeeds_bind [OF succeeds_wrap [OF total_bundle]] total_summaries)
qed

lemma sample_verifies: "VerifyBundle sample_bundles p f = Inr (suite_manifest, zeros)"
proof -
  have z: "zeros \<noteq> []" by (simp add: digest_of_def)
  have "findManifest sample_bundles [tar_of (manifestEntry ''{}'')] = Inr suite_manifest"
    by (simp add: tar_of_def tarHeader_def manifestEntry_def)
  then have "ReadBundleManifest sample_bundles p f = Inr suite_manifest" by (simp add: ReadBundleManifest_def)
  then show ?thesis using z by (simp add: VerifyBundle_def suite_manifest_def sample_manifest_def mapString_def)
qed

lemma total_inputs: "succeeds n (loadRunInputs quiet_tools mp pp bp) (\<lambda>i. i =
    \<lparr>ri_matrix = sample_matrix, ri_profile = sample_profile [''s''], ri_manifest = suite_manifest, ri_bundleSHA = zeros,
     ri_matrixSHA = zeros, ri_profileSHA = zeros\<rparr>)"
  by (rule succeedsI)
    (simp add: loadRunInputs_def io_bind_def io_wrap_def io_return_def loadMatrix_def loadProfile_def sample_verifies)

lemma total_identity:
  assumes "requireFlag fs ''--source-git-commit'' = c" "requireFlag fs ''--source-git-tag'' = t" "c \<noteq> []" "t \<noteq> []"
  shows "succeeds n (resolveSourceIdentity quiet_tools fs) (\<lambda>r. r = (c, t))"
  using assms
  by (intro succeedsI) (simp add: resolveSourceIdentity_def identity_from_def io_bind_def ask_host_def io_return_def firstNonEmpty_def)

lemma quiet_replays:
  assumes "run_options_ok sample_matrix opts" "ro_GlobalEnv opts = fmempty"
  shows "succeeds n (on_host (RunMatrix sample_files (Some sample_matrix) (Some (sample_profile [''s''])) (Some (adapterFactory quiet_host)) opts))
    (\<lambda>_. True)"
proof (rule succeeds_host)
  fix f :: journal
  have t: "MkdirTemp sample_files f = (Inr ''/tmp/r'', f)" by (simp add: sample_files_def)
  have "schedule sample_matrix (sample_profile [''s'']) opts = schedule sample_matrix (sample_profile [''s'']) sample_options"
    by (simp add: schedule_def assms(2) sample_options_def)
  then obtain w2 where "collected sample_files (adapterFactory quiet_host) (ro_BundlePath opts) ''/tmp/r''
      (schedule sample_matrix (sample_profile [''s'']) opts) (map sample_lane (schedule sample_matrix (sample_profile [''s'']) opts)) f w2"
    "list_all2 (lane_evidence sample_ds) (schedule sample_matrix (sample_profile [''s'']) opts)
      (map sample_lane (schedule sample_matrix (sample_profile [''s'']) opts))"
    using sample_collected sample_lanes by metis
  from RunMatrix_collects [OF sample_valid(1-4) assms(1) t this(1) sample_digests this(2)]
  show "\<exists>x f'. RunMatrix sample_files (Some sample_matrix) (Some (sample_profile [''s''])) (Some (adapterFactory quiet_host)) opts f = (Inr x, f')
    \<and> True" by blast
qed

text \<open>The flags the suite passes on; their values have no spaces around them.\<close>

definition sample_flags :: "flag_map \<Rightarrow> bool" where
  "sample_flags fs \<longleftrightarrow> requireFlag fs ''--matrix'' \<noteq> [] \<and> requireFlag fs ''--profile'' \<noteq> [] \<and> requireFlag fs ''--evidence'' \<noteq> []"

lemma total_run:
  assumes "sample_flags fs" "requireFlag fs ''--bundle'' \<noteq> []" "requireFlag fs ''--timeout'' = ''1ns''"
    "requireFlag fs ''--source-git-commit'' = replicate 40 CHR ''0''" "requireFlag fs ''--source-git-tag'' = ''untagged''" "opened n out"
  shows "succeeds n (cmdRun quiet_tools fs out) (\<lambda>_. True)"
proof -
  have "parseTimeout quiet_tools fs = Inr 1" using assms(3) by (simp add: parseTimeout_def)
  moreover have "run_options_ok sample_matrix (runOptions bp \<lparr>ri_matrix = sample_matrix, ri_profile = sample_profile [''s''],
      ri_manifest = suite_manifest, ri_bundleSHA = zeros, ri_matrixSHA = zeros, ri_profileSHA = zeros\<rparr>
      (replicate 40 CHR ''0'') ''untagged'')" for bp
    using sample_valid(5) sample_hex sample_commit hex_token_replicate [of "CHR ''0''" 40]
    by (simp add: run_options_ok_def runOptions_def suite_manifest_def sourceCommit_def sourceTag_def)
  moreover have "ro_GlobalEnv (runOptions bp i c t) = fmempty" for bp i c t by (simp add: runOptions_def)
  moreover have id: "succeeds n (resolveSourceIdentity quiet_tools fs) (\<lambda>r. r = (replicate 40 CHR ''0'', ''untagged''))"
    by (rule total_identity [OF assms(4,5)]) simp_all
  ultimately show ?thesis unfolding cmdRun_def Let_def
    using assms(1,2,6) unfolding sample_flags_def
    by (auto simp: WriteEvidence_def intro!: succeeds_bind [OF succeeds_reject]
        succeeds_bind [OF succeeds_wrap [OF total_inputs]] succeeds_bind [OF id] succeeds_bind [OF succeeds_wrap [OF quiet_replays]]
        succeeds_bind [OF succeeds_wrap [OF succeeds_act]] total_summaries)
qed

lemma total_verify:
  assumes "sample_flags fs" "requireFlag fs ''--source-git-commit'' = []" "requireFlag fs ''--source-git-tag'' = []" "opened n out"
  shows "succeeds n (cmdVerifyEvidence quiet_tools fs out) (\<lambda>_. True)"
proof -
  have d: "loadVerificationDigests quiet_tools b c mp pp f = Inr (zeros, zeros, zeros, zeros)" for b c mp pp f
    by (simp add: loadVerificationDigests_def)
  have "TrimSpace [] = []" by code_simp
  then have i: "resolveExpectedSourceIdentity quiet_tools fs f = ([], [])" for f
    using assms(2,3) by (simp add: resolveExpectedSourceIdentity_def firstNonEmpty_def)
  have dig: "succeeds n (io_wrap msg (\<lambda>s. (loadVerificationDigests quiet_tools b c mp pp (sy_host s), s)))
      (\<lambda>ds. ds = (zeros, zeros, zeros, zeros))" for msg b c mp pp
    by (rule succeedsI) (simp add: io_wrap_def d)
  have idn: "succeeds n (ask_host (resolveExpectedSourceIdentity quiet_tools fs)) (\<lambda>x. x = ([], []))"
    by (rule succeeds_ask) (simp add: i)
  show ?thesis using assms(1,4) unfolding cmdVerifyEvidence_def Let_def sample_flags_def
    by (auto simp: audited_accepted split: prod.split intro!: succeeds_bind [OF succeeds_reject] succeeds_bind [OF total_loads(1)]
        succeeds_bind [OF total_loads(2)] succeeds_bind [OF total_loads(3)] succeeds_bind [OF dig] succeeds_bind [OF idn]
        succeeds_writeLine)
qed

lemma total_report: "requireFlag fs ''--evidence'' \<noteq> [] \<Longrightarrow> opened n out \<Longrightarrow> succeeds n (cmdReport quiet_tools fs out) (\<lambda>_. True)"
  unfolding cmdReport_def Let_def
  by (auto intro!: succeeds_bind [OF succeeds_reject] succeeds_bind [OF total_loads(3)] succeeds_bind [OF total_summaries(3)] total_summaries)

lemma total_captured:
  assumes "opened n out" "\<And>k w. n \<le> k \<Longrightarrow> opened k w \<Longrightarrow> succeeds k (fn w) (\<lambda>_. True)"
  shows "succeeds n (runLoggedStepCapture (sample_harness m e) path out fn) (\<lambda>_. True)"
  unfolding runLoggedStepCapture_def
proof (rule succeeds_open)
  fix h assume h: "n \<le> h"
  have "succeeds (Suc h) (runLoggedStep (sample_harness m e) path out (\<lambda>w. fn (MultiWriter [w, [h]]))) (\<lambda>_. True)"
  proof (rule total_logged)
    show "opened (Suc h) out" using assms(1) h by (auto intro: opened_Suc)
    show "succeeds k (fn (MultiWriter [w, [h]])) (\<lambda>_. True)" if "Suc h \<le> k" "opened k w" for k w
      using that h by (intro assms(2)) (simp_all add: opened_def [of _ "[h]"])
  qed
  then show "succeeds (Suc h) (io_bind (runLoggedStep (sample_harness m e) path out (\<lambda>w. fn (MultiWriter [w, [h]])))
      (\<lambda>_ s. (Inr (buffer_text [h] s), s))) (\<lambda>_. True)"
    by (rule succeeds_bind) (simp add: succeeds_def)
qed simp

lemma total_now: "succeeds n (ask_host q) (\<lambda>_. True)"
  by (rule succeeds_ask) simp

lemma total_audit_files: "succeeds n (writeAuditFiles quiet_tools dir summary markdown report) (\<lambda>_. True)"
  unfolding writeAuditFiles_def Let_def
  by (intro succeeds_seq total_dir succeeds_return succeeds_wrap total_file) (simp_all add: succeeds_def io_lift_def)

lemma total_audit:
  assumes "opened n out"
  shows "succeeds n (writeAuditOutputs quiet_tools mp pp ep dir report root_dir out) (\<lambda>_. True)"
  unfolding writeAuditOutputs_def Let_def
  by (intro succeeds_bind [OF total_loads(3)] succeeds_bind [OF total_now] succeeds_bind [OF total_audit_files]
      succeeds_bind [OF succeeds_writef [OF assms]] succeeds_bind [OF succeeds_writeLines [OF assms]] succeeds_return TrueI)

section \<open>The suite\<close>

text \<open>A suite with the matrix /m and the profile /p; its paths have no spaces around them.\<close>

definition sample_suite :: "string \<Rightarrow> int \<Rightarrow> string \<Rightarrow> runSuiteOptions" where
  "sample_suite dir timeout ver = \<lparr>so_MatrixPath = ''/m'', so_ProfilePath = ''/p'', so_OutputDir = dir, so_Timeout = timeout,
     so_Version = ver, so_SkipPreflight = True, so_SkipReleaseGate = True\<rparr>"

definition tidy :: "string \<Rightarrow> bool" where
  "tidy p \<longleftrightarrow> p \<noteq> [] \<and> graphic (hd p) \<and> graphic (last p)"

lemma tidy_trim: "tidy p \<Longrightarrow> TrimSpace p = p" "tidy p \<Longrightarrow> p \<noteq> []"
  by (simp_all add: tidy_def TrimSpace_graphic)

definition good_dir :: "string \<Rightarrow> bool" where
  "good_dir dir \<longleftrightarrow> is_abs dir \<and> path_Clean dir = dir \<and> tidy (filepath_Join [dir, ''bin'', ''jcs-canon''])
     \<and> tidy (filepath_Join [dir, ''offline-bundle.tgz'']) \<and> tidy (filepath_Join [dir, ''offline-evidence.json''])"

definition sample_artifacts :: "string \<Rightarrow> runSuiteArtifacts" where
  "sample_artifacts dir = suiteArtifacts (sample_suite dir 1 []) dir ''/m'' ''/p''"

lemma sample_trims [simp]:
  "TrimSpace ''/m'' = ''/m''" "TrimSpace ''/p'' = ''/p''" "TrimSpace ''1ns'' = ''1ns''" "TrimSpace ''untagged'' = ''untagged''"
  by (rule TrimSpace_graphic, code_simp)+

lemma total_steps:
  assumes "opened n out" "good_dir dir"
  shows "succeeds n (suiteSteps quiet_tools (sample_suite dir timeout ver) (sample_artifacts dir) (replicate 40 CHR ''0'') ''untagged'' r out)
    (\<lambda>_. True)"
proof -
  have "tidy (sa_CanonicalPath (sample_artifacts dir))" "tidy (sa_BundlePath (sample_artifacts dir))"
    "tidy (sa_EvidencePath (sample_artifacts dir))"
    using assms(2) by (simp_all add: sample_artifacts_def suiteArtifacts_def good_dir_def)
  note paths = this [THEN tidy_trim(1)] this [THEN tidy_trim(2)]
  show ?thesis unfolding suiteSteps_def suitePrepare_def suiteReplay_def suiteVerify_def suiteReports_def
    by (intro succeeds_seq total_logged [OF assms(1)] total_captured [OF assms(1)] total_prepare total_run total_verify total_report)
      (auto simp: requireFlag_def flags_of_def runFlags_def verifyFlags_def suiteInputs_def sample_suite_def sample_flags_def sample_commit paths
        intro!: total_logged [OF assms(1)] succeeds_writeLine total_audit)
qed

lemma sample_roots: "is_abs ''/m''" "is_abs ''/p''" "path_Clean ''/m'' = ''/m''" "path_Clean ''/p'' = ''/p''"
  by code_simp+

lemma total_dirs:
  assumes "good_dir dir"
  shows "succeeds n (suiteDirs quiet_tools (sample_suite dir timeout ver)) (\<lambda>a. a = sample_artifacts dir)"
proof -
  have "succeeds n (io_wrap msg (filepath_Abs quiet_tools (so_OutputDir (sample_suite dir timeout ver)))) (\<lambda>d. d = dir)"
    "succeeds n (io_wrap msg (filepath_Abs quiet_tools (so_MatrixPath (sample_suite dir timeout ver)))) (\<lambda>d. d = ''/m'')"
    "succeeds n (io_wrap msg (filepath_Abs quiet_tools (so_ProfilePath (sample_suite dir timeout ver)))) (\<lambda>d. d = ''/p'')" for msg
    using assms by (simp_all add: filepath_Abs_def sample_suite_def sample_roots good_dir_def total_intro)
  note paths = this
  show ?thesis unfolding suiteDirs_def
    by (rule succeeds_bind [OF paths(1)], intro succeeds_seq [OF total_dir], rule succeeds_bind [OF paths(2)],
        rule succeeds_bind [OF paths(3)]) (simp add: succeeds_return sample_artifacts_def suiteArtifacts_def sample_suite_def)
qed

lemma total_root: "succeeds n (resolveRepoRoot quiet_tools) (\<lambda>r. r = [])"
  unfolding resolveRepoRoot_def by (rule succeeds_bind [OF total_capture]) (simp add: succeeds_return)

lemma total_source: "succeeds n (resolveOfflineSourceIdentity quiet_tools) (\<lambda>r. r = (replicate 40 CHR ''0'', ''untagged''))"
proof -
  have tag: "succeeds n (gitTag quiet_tools) (\<lambda>t. t = [])"
    unfolding gitTag_def by (rule succeeds_bind [OF total_capture]) (simp add: succeeds_return)
  show ?thesis unfolding resolveOfflineSourceIdentity_def identity_from_def
    by (rule succeeds_bind [where R = "\<lambda>c. c = replicate 40 CHR ''0''", OF succeeds_ask], simp, simp,
        rule succeeds_bind [where R = "\<lambda>t. t = []", OF succeeds_ask], simp)
      (auto simp: firstNonEmpty_def intro!: succeeds_bind [OF tag] succeeds_return)
qed

lemma total_sums: "succeeds n (writeChecksumFile quiet_tools p q r) (\<lambda>_. True)" "succeeds n (writeRunIndex quiet_tools p a r) (\<lambda>_. True)"
proof -
  have "succeeds n (\<lambda>s. (offline_fileSHA256 quiet_tools q (sy_host s), s)) (\<lambda>_. True)"
    by (rule succeedsI) simp
  then show "succeeds n (writeChecksumFile quiet_tools p q r) (\<lambda>_. True)"
    unfolding writeChecksumFile_def by (intro succeeds_seq succeeds_wrap total_file)
  show "succeeds n (writeRunIndex quiet_tools p a r) (\<lambda>_. True)"
    unfolding writeRunIndex_def by (intro succeeds_wrap total_file)
qed

lemma total_before:
  assumes "opened n out" "so_SkipPreflight opts"
  shows "succeeds n (suiteBuild quiet_tools opts a out) (\<lambda>r. r = (replicate 40 CHR ''0'', ''untagged''))"
  unfolding suiteBuild_def
  by (rule succeeds_seq [OF succeeds_writeLines [OF assms(1)]], rule succeeds_bind [OF total_source], simp only: prod.case,
      intro succeeds_seq total_build [OF assms(1)] total_logged [OF assms(1)] succeeds_return)
    (auto simp: assms(2) intro: succeeds_writeLine)

lemma total_finish: "opened n out \<Longrightarrow> succeeds n (suiteFinish quiet_tools a r out) (\<lambda>_. True)"
  unfolding suiteFinish_def Let_def by (intro succeeds_seq total_sums succeeds_writeLines)

lemma total_suite:
  assumes out: "opened n out" and "good_dir dir" "0 < timeout" "tidy ver"
  shows "succeeds n (runSuite quiet_tools (sample_suite dir timeout ver) out) (\<lambda>a. a = sample_artifacts dir)"
proof -
  let ?o = "sample_suite dir timeout ver"
  have o: "suiteDefaults ?o = ?o" "so_SkipPreflight ?o"
    using assms(3,4) by (simp_all add: suiteDefaults_def sample_suite_def tidy_trim)
  show ?thesis unfolding runSuite_def Let_def o(1)
    by (rule succeeds_bind [OF total_root], rule succeeds_bind [OF total_dirs [OF assms(2)]],
        rule succeeds_bind [OF total_before [OF out o(2)]], simp only: prod.case)
      (intro succeeds_seq total_steps [OF out assms(2)] total_finish [OF out] succeeds_return, simp)
qed

lemma sample_dirs: "good_dir ''/o''" "good_dir ''/o/x86_64''" "good_dir ''/o/arm64''" "tidy ''v''"
  by code_simp+

lemma sample_suite_runs: "\<exists>s'. runSuite quiet_tools (sample_suite ''/o'' 1 ''v'') Discard \<lparr>sy_host = [], sy_writers = []\<rparr>
    = (Inr (sample_artifacts ''/o''), s')"
  using succeeds_run [OF total_suite [OF opened_Discard sample_dirs(1) zero_less_one sample_dirs(4)] calm_start] by blast

section \<open>Two architectures\<close>

definition cross_flags :: flag_map where
  "cross_flags = flags_of [(''--x86-matrix'', ''/m''), (''--arm64-matrix'', ''/m''), (''--x86-profile'', ''/p''), (''--arm64-profile'', ''/p''),
     (''--output-dir'', ''/o''), (''--skip-preflight'', ''true''), (''--skip-release-gate'', ''true'')]"

lemma cross_flag_values:
  "requireFlag cross_flags ''--x86-matrix'' = ''/m''" "requireFlag cross_flags ''--arm64-matrix'' = ''/m''"
  "requireFlag cross_flags ''--x86-profile'' = ''/p''" "requireFlag cross_flags ''--arm64-profile'' = ''/p''"
  "requireFlag cross_flags ''--output-dir'' = ''/o''" "requireFlag cross_flags ''--skip-preflight'' = ''true''"
  "requireFlag cross_flags ''--skip-release-gate'' = ''true''" "requireFlag cross_flags ''--timeout'' = []"
  "requireFlag cross_flags ''--version'' = []" "requireFlag cross_flags ''--local-no-rocky'' = []"
  "requireFlag cross_flags ''--run-official-vectors'' = []" "requireFlag cross_flags ''--run-official-es6-100m'' = []"
proof -
  have "TrimSpace ''/o'' = ''/o''" "TrimSpace ''true'' = ''true''" by (rule TrimSpace_graphic, code_simp)+
  then show "requireFlag cross_flags ''--x86-matrix'' = ''/m''" "requireFlag cross_flags ''--arm64-matrix'' = ''/m''"
    "requireFlag cross_flags ''--x86-profile'' = ''/p''" "requireFlag cross_flags ''--arm64-profile'' = ''/p''"
    "requireFlag cross_flags ''--output-dir'' = ''/o''" "requireFlag cross_flags ''--skip-preflight'' = ''true''"
    "requireFlag cross_flags ''--skip-release-gate'' = ''true''" "requireFlag cross_flags ''--timeout'' = []"
    "requireFlag cross_flags ''--version'' = []" "requireFlag cross_flags ''--local-no-rocky'' = []"
    "requireFlag cross_flags ''--run-official-vectors'' = []" "requireFlag cross_flags ''--run-official-es6-100m'' = []"
    by (simp_all add: requireFlag_def cross_flags_def flags_of_def)
qed

lemma cross_flags_parse: "parseCrossArchFlags cross_flags
    = Inr \<lparr>xf_skipPreflight = True, xf_skipReleaseGate = True, xf_localNoRocky = False, xf_officialVectors = False, xf_officialES6100M = False\<rparr>"
proof -
  have "parseBoolToken ''true'' = Inr True" by code_simp
  then show ?thesis by (simp add: parseCrossArchFlags_def parseBoolFlag_def cross_flag_values)
qed

lemma total_compare: "succeeds n (compareCrossArchEvidence quiet_tools xp ap j m r) (\<lambda>_. True)"
proof -
  have load: "succeeds n (io_wrap msg (\<lambda>s. (LoadEvidence quiet_tools p (sy_host s), s))) (\<lambda>e. e = audited)" for msg p
    by (rule succeedsI) (simp add: io_wrap_def)
  have enc: "succeeds n (io_wrap msg (io_lift (he_encodeReport quiet_tools report))) (\<lambda>_. True)" for msg report
    by (rule succeedsI) (simp add: io_wrap_def io_lift_def sample_harness_def)
  have pass: "cr_Result (buildCrossArchReport audited audited a b now) = resultPass" for a b now by (simp add: cross_result_iff)
  show ?thesis unfolding compareCrossArchEvidence_def Let_def writeCrossArchReport_def
    by (rule succeeds_bind [OF load], rule succeeds_bind [OF load])
      (auto simp: pass intro!: succeeds_seq [OF total_now] succeeds_seq [OF enc] succeeds_seq succeeds_wrap total_file succeeds_return succeeds_reject)
qed

lemma sample_cross_runs: "\<exists>s'. cmdCrossArch quiet_tools cross_flags Discard \<lparr>sy_host = [], sy_writers = []\<rparr> = (Inr (), s')"
proof -
  have d: "filepath_Join [''/o'', ''x86_64''] = ''/o/x86_64''" "filepath_Join [''/o'', ''arm64''] = ''/o/arm64''"
    and o: "is_abs ''/o''" "path_Clean ''/o'' = ''/o''" and v: "tidy defaultBuildVersion" "0 < defaultTimeout" by code_simp+
  have abs: "succeeds n (io_wrap msg (filepath_Abs quiet_tools ''/o'')) (\<lambda>d. d = ''/o'')" for n msg
    by (simp add: filepath_Abs_def o total_intro)
  have t: "parseTimeout quiet_tools cross_flags = Inr defaultTimeout" by (simp add: parseTimeout_def cross_flag_values)
  have vals: "defaultString cross_flags ''--x86-matrix'' x = ''/m''" "defaultString cross_flags ''--arm64-matrix'' x = ''/m''"
    "defaultString cross_flags ''--x86-profile'' x = ''/p''" "defaultString cross_flags ''--arm64-profile'' x = ''/p''"
    "defaultString cross_flags ''--version'' x = x" "firstNonEmpty (requireFlag cross_flags ''--output-dir'') x = ''/o''" for x
    by (simp_all add: defaultString_def cross_flag_values firstNonEmpty_def)
  let ?xf = "\<lparr>xf_skipPreflight = True, xf_skipReleaseGate = True, xf_localNoRocky = False, xf_officialVectors = False, xf_officialES6100M = False\<rparr>"
  have s: "x86Suite ?xf cross_flags defaultTimeout ''/o'' = sample_suite ''/o/x86_64'' defaultTimeout defaultBuildVersion"
    "armSuite ?xf cross_flags defaultTimeout ''/o'' = sample_suite ''/o/arm64'' defaultTimeout defaultBuildVersion"
    by (simp_all add: x86Suite_def armSuite_def crossSuite_def sample_suite_def vals d)
  have out: "succeeds n (ask_host (crossDir quiet_tools cross_flags)) (\<lambda>p. p = ''/o'')" for n
    by (rule succeeds_ask) (simp add: crossDir_def vals)
  have "succeeds 0 (cmdCrossArch quiet_tools cross_flags Discard) (\<lambda>_. True)"
    unfolding cmdCrossArch_def cross_flags_parse t bind_lift Let_def
    by (rule succeeds_bind [OF out], simp only:, rule succeeds_bind [OF abs])
      (auto simp: s intro!: succeeds_seq total_dir succeeds_writeLine succeeds_writeLines total_compare sample_dirs v
        succeeds_return succeeds_weaken [OF total_suite] succeeds_weaken [OF total_root])
  from succeeds_run [OF this calm_start] show ?thesis by auto
qed

end
