(* ===== verification/Offline_Claims.thy ===== *)
theory Offline_Claims
  imports Offline_Sample
begin

text \<open>
  The properties of jcs-offline-replay: the verdict of the audit, the suite, the comparison of the architectures, the
  preflight, and the exit code of a verification.
\<close>

section \<open>Evidence and audit\<close>

text \<open>
  C37: the audit agrees with the gate when the profile requires all nodes. For evidence the gate accepts, the summary
  says PASS and every set of digests it lists holds the aggregate of the bundle and nothing else.
\<close>

theorem audit_passes:
  assumes "ValidateMatrix (Some m) = None" "ValidateEvidenceBundle (Some e) (Some m) (Some p) opts = None"
    "pf_RequiredNodes p = []"
  shows "as_Result (buildAuditSummary e mp pp ep now) = resultPass
     \<and> map (\<lambda>d. digest_set d e) [re_CanonicalSHA256, re_VerifySHA256, re_FailureClassSHA256, re_ExitCodeSHA256]
       = map (\<lambda>x. [x]) (aggregates e)"
proof -
  have "evidence_ok e m p opts" using assms(1,2) evidence_iff by (simp add: ValidateMatrix_iff matrix_ok_def)
  from accepted_digest_sets [OF this assms(3)] accepted_audit [OF this assms(3)] show ?thesis
    by (simp add: audit_result_iff aggregates_def)
qed

theorem audit_passes_witness:
  "as_Result (buildAuditSummary audited ''m'' ''p'' ''e'' ''t'') = resultPass
   \<and> map (\<lambda>d. digest_set d audited) [re_CanonicalSHA256, re_VerifySHA256, re_FailureClassSHA256, re_ExitCodeSHA256]
     = map (\<lambda>x. [x]) (aggregates audited)"
  by (rule audit_passes [OF sample_matrix_valid audited_accepted]) (simp add: sample_profile_def)

text \<open>
  C40: with optional nodes the two disagree. Whenever the gate accepts a bundle, it also accepts the bundle with one more
  complete and passed run of a node that is not required, wherever in the list that run stands and whatever digests it has;
  but if one of its four digests differs from the aggregate, the audit of this bundle says FAIL.
\<close>

theorem optional_node_drift:
  assumes "ValidateMatrix (Some m) = None" "ValidateEvidenceBundle (Some e) (Some m) (Some p) opts = None"
    "eb_NodeReplays e = before @ after" "requiredNodeIDs m p = Inr required" "re_NodeID r \<notin> set required"
    "checkRun (matrixByID m) r = None" "run_digests r \<noteq> aggregates e"
  shows "let drifted = e\<lparr>eb_NodeReplays := before @ r # after\<rparr> in
     ValidateEvidenceBundle (Some drifted) (Some m) (Some p) opts = None
   \<and> as_Result (buildAuditSummary drifted mp pp ep now) = resultFail"
proof -
  let ?d = "e\<lparr>eb_NodeReplays := before @ r # after\<rparr>"
  have d: "distinct (map ns_ID (mx_Nodes m))" using assms(1) by (simp add: ValidateMatrix_iff matrix_ok_def)
  have e: "evidence_ok e m p opts" using assms(2) by (simp add: evidence_iff [OF d])
  have "required = sorted_list_of_set (required_set m p)" "required_set m p \<subseteq> ns_ID ` set (mx_Nodes m)"
    using assms(4) requiredNodeIDs_iff [OF d, of p required] by simp_all
  moreover from this(2) have "finite (required_set m p)" by (rule finite_subset) simp
  ultimately have r: "re_NodeID r \<notin> required_set m p" using assms(5) by simp
  then have same: "required_runs ?d m p = required_runs e m p" by (auto simp: required_runs_def assms(3))
  with e assms(6) have "evidence_ok ?d m p opts"
    by (auto simp: evidence_ok_def header_ok_def shaFields_def aggregates_def assms(3) checkRun_iff [OF d])
  moreover have "\<not> one_digest_each ?d"
  proof
    assume one: "one_digest_each ?d"
    obtain q where q: "q \<in> required_runs e m p" "run_digests q = aggregates e" using e by (auto simp: evidence_ok_def)
    then have qr: "q \<in> set (eb_NodeReplays ?d)" "r \<in> set (eb_NodeReplays ?d)" by (auto simp: required_runs_def assms(3))
    have ok: "run_ok m q" "run_ok m r" using e q(1) assms(6) by (auto simp: evidence_ok_def required_runs_def checkRun_iff [OF d])
    have "run_digests r = run_digests q" by (rule one_digest_each_agree [OF one qr(2,1) ok(2,1)])
    with q(2) assms(7) show False by simp
  qed
  then have "as_Result (buildAuditSummary ?d mp pp ep now) \<noteq> resultPass" by (simp add: audit_result_iff)
  then have "as_Result (buildAuditSummary ?d mp pp ep now) = resultFail" by (simp add: buildAuditSummary_def Let_def split: if_splits)
  ultimately show ?thesis by (simp add: Let_def evidence_iff [OF d])
qed

text \<open>A third, optional node, and a run of it with another digest.\<close>

definition optional_matrix :: Matrix where
  "optional_matrix = sample_matrix\<lparr>mx_Nodes := mx_Nodes sample_matrix @ [sample_node ''x1'' NodeModeVM]\<rparr>"

definition optional_profile :: Profile where
  "optional_profile = (sample_profile [''s''])\<lparr>pf_RequiredNodes := [''c1'', ''v1'']\<rparr>"

definition optional_run :: NodeRunEvidence where
  "optional_run = (sample_run ''x1'' NodeModeVM 1)\<lparr>re_CanonicalSHA256 := zeros\<rparr>"

lemma optional_sample:
  "ValidateMatrix (Some optional_matrix) = None"
  "requiredNodeIDs optional_matrix optional_profile = Inr [''c1'', ''v1'']"
  "ValidateEvidenceBundle (Some audited) (Some optional_matrix) (Some optional_profile) no_expectations = None"
  "checkRun (matrixByID optional_matrix) optional_run = None" "run_digests optional_run \<noteq> aggregates audited"
proof -
  note defs = optional_matrix_def optional_profile_def audited_def
  have d: "distinct (map ns_ID (mx_Nodes optional_matrix))" by (simp add: defs sample_defs)
  have x: "TrimSpace ''x86_64'' = ''x86_64''" by (rule TrimSpace_graphic) code_simp
  show "ValidateMatrix (Some optional_matrix) = None"
    by (simp add: ValidateMatrix_iff matrix_ok_def node_ok_def defs sample_defs NodeModeContainer_def NodeModeVM_def)
  have r: "required_set optional_matrix optional_profile = {''c1'', ''v1''}" by (auto simp: required_set_def defs sample_defs)
  have "sorted_list_of_set {''c1'', ''v1''} = [''c1'', ''v1'']" by code_simp
  then show "requiredNodeIDs optional_matrix optional_profile = Inr [''c1'', ''v1'']"
    by (simp add: requiredNodeIDs_iff [OF d] r) (simp add: defs sample_defs)
  have rr: "required_runs audited optional_matrix optional_profile = {sample_run ''c1'' NodeModeContainer 1, sample_run ''v1'' NodeModeVM 1}"
    unfolding required_runs_def r by (auto simp: defs sample_evidence_def sample_run_def)
  have h: "header_ok audited optional_matrix optional_profile no_expectations"
    using sample_header [of "[''s'']" "[''s'']"] sample_hex
    by (simp add: header_ok_def defs shaFields_def expectedArch_def sample_evidence_def sample_matrix_def sample_profile_def no_expectations_def)
  have "run_ok optional_matrix y" if "y \<in> set (eb_NodeReplays audited)" for y
    using that sample_hex by (auto simp: run_ok_def defs sample_defs run_digests_def)
  with h r rr have "evidence_ok audited optional_matrix optional_profile no_expectations"
    by (auto simp: evidence_ok_def aggregates_def run_digests_def defs sample_defs)
  with evidence_iff [OF d] show "ValidateEvidenceBundle (Some audited) (Some optional_matrix) (Some optional_profile) no_expectations = None"
    by simp
  show "checkRun (matrixByID optional_matrix) optional_run = None"
    unfolding checkRun_iff [OF d] using sample_hex by (auto simp: run_ok_def optional_run_def defs sample_defs run_digests_def)
  show "run_digests optional_run \<noteq> aggregates audited"
    by (simp add: optional_run_def run_digests_def aggregates_def audited_def sample_evidence_def digest_of_def)
qed

theorem optional_node_drift_witness:
  "let drifted = audited\<lparr>eb_NodeReplays := eb_NodeReplays audited @ [optional_run]\<rparr> in
     ValidateEvidenceBundle (Some drifted) (Some optional_matrix) (Some optional_profile) no_expectations = None
   \<and> as_Result (buildAuditSummary drifted ''m'' ''p'' ''e'' ''t'') = resultFail"
  by (rule optional_node_drift [OF optional_sample(1,3) _ optional_sample(2) _ optional_sample(4,5)])
    (simp_all add: optional_run_def sample_run_def)

section \<open>The suite\<close>

text \<open>
  C34: a suite that succeeds has verified its evidence. From its start in \<open>s\<close> to its end in \<open>s'\<close> the suite passed through
  a state in which a replay started and one in which it was over. In between, the matrix replay of the matrix and the profile
  with the bundle of the suite returned evidence, and this was written as offline-evidence.json into the output directory
  of the options. Then nothing but the log of the next step was opened, and in this world the file at the same
  path was loaded with the matrix and the profile and accepted by the gate for the digests the bundle, the program,
  the matrix and the profile then had. No option skips this step.
\<close>

theorem suite_success_verified:
  assumes "runSuite E opts out s = (Inr a, s')"
  shows "suite_verified E (suiteDefaults opts) out a s s'"
  by (rule runSuite_Inr [OF assms])

theorem suite_success_verified_witness:
  "\<exists>s'. suite_verified quiet_tools (suiteDefaults (sample_suite ''/o'' 1 ''v'')) Discard (sample_artifacts ''/o'')
     \<lparr>sy_host = [], sy_writers = []\<rparr> s'"
  using sample_suite_runs suite_success_verified by metis

text \<open>
  C35: verify-evidence exits with 0 only for evidence the gate accepts: with arguments that parse and do not ask for
  help, exit code 0 means that the matrix, the profile and the evidence were loaded and the gate accepted the evidence
  for the digests of the artifacts. When the output can be written this is all: such evidence gives exit code 0.
\<close>

theorem verify_evidence_exit_0:
  assumes "offline_parseKV (\<lambda>_. None) args = Inr fs" "\<not> helpRequested fs"
  shows "let code = fst (offline_run E (''verify-evidence'' # args) out err s);
      verified = evidence_verified E fs (requireFlag fs ''--matrix'') (requireFlag fs ''--profile'') (requireFlag fs ''--evidence'') (sy_host s)
    in (code = 0 \<longrightarrow> verified) \<and> (calm n s \<and> opened n out \<longrightarrow> (code = 0 \<longleftrightarrow> verified))"
proof -
  define code where "code = fst (offline_run E (''verify-evidence'' # args) out err s)"
  define verified where "verified \<longleftrightarrow> evidence_verified E fs (requireFlag fs ''--matrix'') (requireFlag fs ''--profile'')
    (requireFlag fs ''--evidence'') (sy_host s)"
  have run: "offline_run E (''verify-evidence'' # args) out err s = (case cmdVerifyEvidence E fs out s of
      (Inl e, s') \<Rightarrow> offline_writeErrorLine E err e s' | (Inr _, s') \<Rightarrow> (0, s'))"
    using assms(1,2) by (simp add: offline_run_def dispatchSubcommand_def io_bind_def io_return_def split: prod.split sum.split)
  have sound: "code = 0 \<longrightarrow> verified"
    using cmdVerifyEvidence_Inr [of E fs out s] run
    by (auto simp: code_def verified_def offline_writeErrorLine_def split: prod.splits sum.splits)
  have "code = 0" if "verified" "calm n s" "opened n out"
  proof -
    have "cmdVerifyEvidence E fs out s = offline_writeLine out ''ok'' s"
      using that(1) unfolding verified_def by (rule cmdVerifyEvidence_verified)
    with succeeds_run [OF succeeds_writeLine [OF that(3), of "''ok''"] that(2)] run show ?thesis by (auto simp: code_def)
  qed
  with sound show ?thesis unfolding Let_def code_def [symmetric] verified_def [symmetric] by blast
qed

definition sample_args :: "(string \<times> string) list" where
  "sample_args = [(''--matrix'', ''/m''), (''--profile'', ''/p''), (''--evidence'', ''/e'')]"

lemma sample_args_parse: "offline_parseKV (\<lambda>_. None) (map assign sample_args)
    = Inr [''--matrix'' \<mapsto> ''/m'', ''--profile'' \<mapsto> ''/p'', ''--evidence'' \<mapsto> ''/e'']"
  using parseKV_assigns [of sample_args "\<lambda>_. None"] by (simp add: sample_args_def flag_name_def HasPrefix_def)

theorem verify_evidence_exit_0_witness:
  "fst (offline_run quiet_tools (''verify-evidence'' # map assign sample_args) Discard Discard \<lparr>sy_host = [], sy_writers = []\<rparr>) = 0"
proof -
  let ?fs = "[''--matrix'' \<mapsto> ''/m'', ''--profile'' \<mapsto> ''/p'', ''--evidence'' \<mapsto> ''/e''] :: flag_map"
  let ?s = "\<lparr>sy_host = [], sy_writers = []\<rparr> :: journal sys"
  have t: "TrimSpace ''/e'' = ''/e''" "TrimSpace [] = []" by code_simp+
  have f: "requireFlag ?fs ''--matrix'' = ''/m''" "requireFlag ?fs ''--profile'' = ''/p''" "requireFlag ?fs ''--evidence'' = ''/e''"
    "requireFlag ?fs ''--source-git-commit'' = []" "requireFlag ?fs ''--source-git-tag'' = []" "\<not> helpRequested ?fs"
    by (simp_all add: requireFlag_def helpRequested_def t ToLower_def boolTrue_def)
  have "succeeds 0 (cmdVerifyEvidence quiet_tools ?fs Discard) (\<lambda>_. True)"
    by (rule total_verify) (simp_all add: sample_flags_def f)
  from succeeds_run [OF this calm_start [of "[]"]]
  obtain s' where "cmdVerifyEvidence quiet_tools ?fs Discard ?s = (Inr (), s')" by auto
  from cmdVerifyEvidence_Inr [OF this] verify_evidence_exit_0 [OF sample_args_parse f(6), of quiet_tools Discard Discard ?s 0]
  show ?thesis by (simp add: Let_def)
qed

section \<open>Two architectures\<close>

text \<open>
  C39: when cross-arch succeeds, then in the directory its flags name a suite with the options for x86_64 (its matrix, its
  profile, the subdirectory x86_64) ran to success, and after it, from the state it left, one with the options for arm64; both
  have verified their evidence (C34); and in the state after both, the evidence files of the two were loaded, the one of the
  x86_64 suite and the one of the arm64 suite, and have the same four aggregates. No flag skips the comparison.
\<close>

theorem cross_arch_success:
  assumes "cmdCrossArch E fs out s = (Inr u, s')"
  shows "cross_verified E fs out s"
  by (rule cmdCrossArch_Inr [OF assms])

theorem cross_arch_success_witness: "cross_verified quiet_tools cross_flags Discard \<lparr>sy_host = [], sy_writers = []\<rparr>"
  using sample_cross_runs cross_arch_success by blast

section \<open>Preflight\<close>

text \<open>
  C38: the preflight fails on a matrix with a container lane without an image or a machine without a domain, whatever
  the tools answer and whether or not it is strict.
\<close>

theorem preflight_rejects:
  assumes "\<forall>f. LoadMatrix (oe_matrices E f) path = Inr m" "n \<in> set (mx_Nodes m)" "\<not> lane_named n"
  shows "isl (fst (runPreflight E path strict out s))"
proof (rule ccontr)
  assume "\<not> isl (fst (runPreflight E path strict out s))"
  then obtain u s' where "runPreflight E path strict out s = (Inr u, s')"
    by (metis prod.collapse sum.collapse(2))
  from runPreflight_Inr [OF this] assms show False by auto
qed

theorem preflight_rejects_witness:
  "isl (fst (runPreflight quiet_tools ''/m'' False Discard \<lparr>sy_host = [], sy_writers = []\<rparr>))"
proof (rule preflight_rejects)
  show "\<forall>f. LoadMatrix (oe_matrices quiet_tools f) ''/m'' = Inr sample_matrix" by simp
  show "sample_node ''c1'' NodeModeContainer \<in> set (mx_Nodes sample_matrix)" by (simp add: sample_matrix_def)
  show "\<not> lane_named (sample_node ''c1'' NodeModeContainer)"
    by (simp add: lane_named_def sample_node_def containerImageFromNode_def)
qed

end
