(* ===== verification/Gate.thy ===== *)
theory Gate
  imports Offline_Io
begin

text \<open>
  The gate runner jcs-gate (src/cmd/jcs-gate/main.go): the required steps, run in order until one fails, and the exit
  code. A command is a parameter: it gets the name, the arguments and the two writers, and acts on the process state.
\<close>

record gateStep =
  gs_label :: string
  gs_args :: "string list"

type_synonym 'f commandRunner = "string \<Rightarrow> string list \<Rightarrow> io_writer \<Rightarrow> io_writer \<Rightarrow> 'f sys \<Rightarrow> go_err option \<times> 'f sys"

definition requiredGateSteps :: "gateStep list" where
  "requiredGateSteps =
     [\<lparr>gs_label = ''go vet'', gs_args = [''vet'', ''./...'']\<rparr>,
      \<lparr>gs_label = ''golangci-lint'',
       gs_args = [''run'', ''github.com/golangci/golangci-lint/cmd/golangci-lint@v1.64.8'', ''run'', ''--config=golangci.yml'']\<rparr>,
      \<lparr>gs_label = ''unit tests'', gs_args = [''test'', ''./...'', ''-count=1'', ''-timeout=20m'']\<rparr>,
      \<lparr>gs_label = ''race tests'', gs_args = [''test'', ''./...'', ''-race'', ''-count=1'', ''-timeout=25m'']\<rparr>,
      \<lparr>gs_label = ''conformance'', gs_args = [''test'', ''./conformance'', ''-count=1'', ''-timeout=10m'', ''-v'']\<rparr>,
      \<lparr>gs_label = ''offline evidence gate'',
       gs_args = [''test'', ''./offline/conformance'', ''-run'', ''TestOfflineReplayEvidenceReleaseGate'', ''-count=1'', ''-v'']\<rparr>]"

text \<open>The runner of the program: the outcome of the process, with the command in the error.\<close>

definition realRunner_Run :: "'f commandRunner \<Rightarrow> 'f commandRunner" where
  "realRunner_Run proc name args out err s = (case proc name args out err s of
     (Some e, s') \<Rightarrow> (Some (Errorw (Sprintf ''%s %v'' (map FText (name # args))) e), s') | (None, s') \<Rightarrow> (None, s'))"

definition gate_writeUsage :: "io_writer \<Rightarrow> ('f sys, unit) io" where
  "gate_writeUsage w = offline_writeLines w
     [''usage: go run ./cmd/jcs-gate [--help]'',
      ''runs: vet, golangci-lint, tests, race, conformance, offline evidence gate'',
      ''offline gate uses current JCS_OFFLINE_* env vars (and may skip if unset)'']"

definition stepLine :: "int \<Rightarrow> gateStep \<Rightarrow> string" where
  "stepLine i step = ''['' @ Itoa (i + 1) @ ''/'' @ Itoa (int (length requiredGateSteps)) @ ''] '' @ gs_label step"

text \<open>The loop over the steps from number \<open>i\<close> on; \<open>None\<close> is its normal end.\<close>

fun runSteps ::
  "(go_err \<Rightarrow> string) \<Rightarrow> 'f commandRunner \<Rightarrow> io_writer \<Rightarrow> io_writer \<Rightarrow> int \<Rightarrow> gateStep list \<Rightarrow> 'f sys \<Rightarrow> int option \<times> 'f sys" where
  "runSteps show R out err i [] s = (None, s)"
| "runSteps show R out err i (step # steps) s = (case offline_writeLine out (stepLine i step) s of
     (Inl _, s1) \<Rightarrow> (Some 1, s1)
   | (Inr _, s1) \<Rightarrow> (case R ''go'' (gs_args step) out err s1 of
       (Some e, s2) \<Rightarrow> (Some 1, snd (offline_writeLine err (''gate failed: '' @ gs_label step @ '': '' @ show e) s2))
     | (None, s2) \<Rightarrow> runSteps show R out err (i + 1) steps s2))"

definition gate_run ::
  "(go_err \<Rightarrow> string) \<Rightarrow> (string \<Rightarrow> string) \<Rightarrow> string list \<Rightarrow> io_writer \<Rightarrow> io_writer \<Rightarrow> 'f commandRunner \<Rightarrow> 'f sys \<Rightarrow> int \<times> 'f sys" where
  "gate_run show quote args out err R s = (case args of
     arg # _ \<Rightarrow>
       if arg = ''--help'' \<or> arg = ''-h''
       then (case gate_writeUsage out s of (Inl _, s') \<Rightarrow> (1, s') | (Inr _, s') \<Rightarrow> (0, s'))
       else (case io_bind (offline_writeLine err (''error: unknown argument '' @ quote arg)) (\<lambda>_. gate_writeUsage err) s of
         (Inl _, s') \<Rightarrow> (1, s') | (Inr _, s') \<Rightarrow> (2, s'))
   | [] \<Rightarrow> (case runSteps show R out err 0 requiredGateSteps s of
       (Some code, s') \<Rightarrow> (code, s')
     | (None, s') \<Rightarrow> (case offline_writeLine out ''all gates passed'' s' of (Inl _, s2) \<Rightarrow> (1, s2) | (Inr _, s2) \<Rightarrow> (0, s2))))"

section \<open>What the runner does\<close>

text \<open>
  A run of commands: each command starts in a world that the previous one left (writing lines does not change it)
  and ends with its own result.
\<close>

inductive commands :: "'f commandRunner \<Rightarrow> io_writer \<Rightarrow> io_writer \<Rightarrow> 'f \<Rightarrow> (string list \<times> go_err option) list \<Rightarrow> 'f \<Rightarrow> bool"
  for R out err where
  commands_Nil: "commands R out err f [] f"
| commands_Cons: "sy_host s = f \<Longrightarrow> R ''go'' args out err s = (r, s') \<Longrightarrow> commands R out err (sy_host s') rs f'
     \<Longrightarrow> commands R out err f ((args, r) # rs) f'"

inductive_cases commands_ConsE: "commands R out err f (x # xs) f'"
inductive_simps commands_Nil_iff: "commands R out err f [] f'"

lemma runSteps_None:
  "runSteps show R out err i steps s = (None, s') \<Longrightarrow> commands R out err (sy_host s) (map (\<lambda>st. (gs_args st, None)) steps) (sy_host s')"
proof (induction steps arbitrary: i s)
  case (Cons step steps)
  obtain x s1 where w: "offline_writeLine out (stepLine i step) s = (x, s1)" by fastforce
  have h: "sy_host s1 = sy_host s" using writeLine_host [OF w] .
  from Cons.prems w obtain s2 where "R ''go'' (gs_args step) out err s1 = (None, s2)" "runSteps show R out err (i + 1) steps s2 = (None, s')"
    by (auto split: sum.splits prod.splits option.splits)
  with Cons.IH h show ?case by (auto intro: commands_Cons)
qed (simp add: commands_Nil)

lemma runSteps_Some:
  "runSteps show R out err i steps s = (Some c, s') \<Longrightarrow> c = 1 \<and> (\<exists>done_steps.
     (\<exists>rest_steps. steps = done_steps @ rest_steps \<and> rest_steps \<noteq> []
       \<and> (commands R out err (sy_host s) (map (\<lambda>st. (gs_args st, None)) done_steps) (sy_host s')
         \<or> (\<exists>e. commands R out err (sy_host s)
              (map (\<lambda>st. (gs_args st, None)) done_steps @ [(gs_args (hd rest_steps), Some e)]) (sy_host s')))))"
proof (induction steps arbitrary: i s)
  case (Cons step steps)
  obtain x s1 where w: "offline_writeLine out (stepLine i step) s = (x, s1)" by fastforce
  have h: "sy_host s1 = sy_host s" using writeLine_host [OF w] .
  obtain r s2 where R: "R ''go'' (gs_args step) out err s1 = (r, s2)" by fastforce
  consider (line) a where "x = Inl a" | (fails) u e where "x = Inr u" "r = Some e" | (goes_on) u where "x = Inr u" "r = None"
    by (cases x; cases r) auto
  then show ?case
  proof cases
    case line
    with Cons.prems w have "c = 1" "s' = s1" by auto
    with h show ?thesis by (intro conjI exI [of _ "[]"] exI [of _ "step # steps"]) (auto simp: commands_Nil)
  next
    case fails
    with Cons.prems w R have c: "c = 1" "s' = snd (offline_writeLine err (''gate failed: '' @ gs_label step @ '': '' @ show e) s2)" by auto
    have "sy_host s' = sy_host s2" unfolding c(2) by (rule writeLine_host [of _ _ _ "fst _"]) (rule prod.collapse [symmetric])
    then have "commands R out err (sy_host s) [(gs_args step, Some e)] (sy_host s')"
      using R fails h by (auto intro!: commands_Cons [of s1] simp: commands_Nil)
    with c(1) show ?thesis by (intro conjI exI [of _ "[]"] exI [of _ "step # steps"]) auto
  next
    case goes_on
    with Cons.prems w R have n: "runSteps show R out err (i + 1) steps s2 = (Some c, s')" by auto
    from Cons.IH [OF n] obtain ds rs where d: "c = 1" "steps = ds @ rs" "rs \<noteq> []"
      "commands R out err (sy_host s2) (map (\<lambda>st. (gs_args st, None)) ds) (sy_host s')
       \<or> (\<exists>e. commands R out err (sy_host s2) (map (\<lambda>st. (gs_args st, None)) ds @ [(gs_args (hd rs), Some e)]) (sy_host s'))"
      by blast
    have step: "commands R out err (sy_host s2) xs f \<Longrightarrow> commands R out err (sy_host s) ((gs_args step, None) # xs) f" for xs f
      using R goes_on(2) h by (auto intro: commands_Cons [of s1])
    show ?thesis
      using d step by (intro conjI exI [of _ "step # ds"] exI [of _ rs]) auto
  qed
qed simp

text \<open>The result of a run without arguments.\<close>

definition gate_outcome :: "'f commandRunner \<Rightarrow> io_writer \<Rightarrow> io_writer \<Rightarrow> 'f \<Rightarrow> int \<Rightarrow> 'f \<Rightarrow> bool" where
  "gate_outcome R out err f code f' \<longleftrightarrow> (\<exists>rs. commands R out err f rs f' \<and>
     (if code = 0 then rs = map (\<lambda>st. (gs_args st, None)) requiredGateSteps
      else code = 1 \<and> (\<exists>n e. rs = map (\<lambda>st. (gs_args st, None)) (take n requiredGateSteps)
         \<or> n < length requiredGateSteps \<and>
           rs = map (\<lambda>st. (gs_args st, None)) (take n requiredGateSteps) @ [(gs_args (requiredGateSteps ! n), Some e)])))"

text \<open>
  C36: without arguments the gate exits with 0 only if all six commands have been run, in order, each in the world the
  one before it left, and all succeeded. Otherwise it exits with 1, after a first part of the commands has succeeded
  and at most one more has failed: no command is started after a failure.
\<close>

theorem gate_runs_in_order:
  "gate_outcome R out err (sy_host s) (fst (gate_run show quote [] out err R s)) (sy_host (snd (gate_run show quote [] out err R s)))"
proof -
  obtain c s1 where r: "runSteps show R out err 0 requiredGateSteps s = (c, s1)" by fastforce
  show ?thesis
  proof (cases c)
    case None
    have cmds: "commands R out err (sy_host s) (map (\<lambda>st. (gs_args st, None)) requiredGateSteps) (sy_host s1)"
      using runSteps_None r None by metis
    obtain x s2 where w: "offline_writeLine out ''all gates passed'' s1 = (x, s2)" by fastforce
    have h: "sy_host s2 = sy_host s1" using writeLine_host [OF w] .
    show ?thesis
    proof (cases x)
      case (Inl e)
      have g: "gate_run show quote [] out err R s = (1, s2)" using w r None Inl by (simp add: gate_run_def)
      show ?thesis unfolding gate_outcome_def g using cmds h
        by (intro exI [of _ "map (\<lambda>st. (gs_args st, None)) requiredGateSteps"])
          (auto intro!: exI [of _ "length requiredGateSteps"])
    next
      case (Inr u)
      then show ?thesis using cmds h w r None unfolding gate_outcome_def by (auto simp: gate_run_def)
    qed
  next
    case (Some code)
    from runSteps_Some [OF r [unfolded Some]] obtain ds rs where d: "code = 1" "requiredGateSteps = ds @ rs" "rs \<noteq> []"
      "commands R out err (sy_host s) (map (\<lambda>st. (gs_args st, None)) ds) (sy_host s1)
       \<or> (\<exists>e. commands R out err (sy_host s) (map (\<lambda>st. (gs_args st, None)) ds @ [(gs_args (hd rs), Some e)]) (sy_host s1))"
      by blast
    have n: "take (length ds) requiredGateSteps = ds" "length ds < length requiredGateSteps" "requiredGateSteps ! length ds = hd rs"
      unfolding d(2) using d(3) by (simp_all add: hd_conv_nth nth_append)
    have g: "gate_run show quote [] out err R s = (1, s1)" using r Some d(1) by (simp add: gate_run_def)
    show ?thesis unfolding gate_outcome_def g using d(4) n by (auto intro!: exI [of _ "length ds"])
  qed
qed

end
