(* ===== verification/Spec2Isabelle.thy ===== *)
theory Spec2Isabelle
  imports Jcs_Pipeline Cli_Spec Worker_Claims Offline_Claims Gate
begin

text \<open>
  Verification of json-canon, the Go implementation of the JSON Canonicalization Scheme (RFC 8785) with its command
  line and its offline replay tools. This theory holds no definitions: it imports the development and describes it.

  \<^bold>\<open>The program.\<close> Package jcstoken parses strict JSON within limits, jcs validates and serializes a value tree canonically,
  jcsfloat prints the numbers, jcserr classifies every failure. The command jcs-canon runs this pipeline on one input
  (\<^verbatim>\<open>canonicalize\<close>, \<^verbatim>\<open>verify\<close>). The offline tools produce evidence that jcs-canon behaves the same on many systems:
  jcs-offline-replay packs a bundle of program, worker, configuration and test vectors and replays it on every node of a
  matrix, through an adapter for containers or for virtual machines; on the node jcs-offline-worker unpacks and checks
  the bundle, runs all vectors and writes the evidence of one run; the controller collects the runs into an evidence
  bundle, and the gate accepts or rejects it. jcs-gate runs the checks a release needs.

  \<^bold>\<open>Theories and sources.\<close>

  \<^item> Prelude, Utf, Float64, Go_Strings, Go_Path, Cli_Io, Offline_Io: what the program uses of Go: bytes, unicode/utf8
    and utf16, doubles as their 64 bits with exact decimal parsing, strings, hex, sort, paths, errors, readers and
    writers, steps that may fail.
  \<^item> Jcserr: src/jcserr/errors.go.
  \<^item> Token_Types, Token_Scan, Token_Parse: src/jcstoken/token.go. The parser state is the record \<open>parser\<close>; each method
    takes it and returns it. The specification is the grammar in Token_Grammar; Token_Facts, Token_Strings,
    Token_Numbers, Token_Values and Token_Spec prove that the parser is the grammar, Token_Errors says how it fails.
  \<^item> Jcsfloat: src/jcsfloat/jcsfloat.go. Jcsfloat_Digits, Jcsfloat_Round, Jcsfloat_Generate, Jcsfloat_Text and
    Jcsfloat_Estimate prove that the digits are the shortest that round back and closest, and that the text is a number token.
  \<^item> Jcs_Order, Jcs_Serialize: src/jcs/serialize.go. Jcs_String, Jcs_Sort, Jcs_Validate, Jcs_Canon and Jcs_Pipeline: strings,
    the order of members, validation against a declarative predicate, the canonical form, the whole pipeline.
  \<^item> Cli: src/cmd/jcs-canon/main.go; Cli_Spec: its promises.
  \<^item> Replay_Config, Replay_Evidence, Replay_Run, Replay_Bundle: config.go, evidence.go, run.go and bundle.go of
    src/offline/replay; Runtime: src/offline/runtime (executil, container, libvirt) and the adapter factory. Replay_Evidence_Spec
    states what evidence must be and proves that the gate checks just that; Runtime_Spec and Replay_Run_Spec: the commands of a
    replay, its soundness and its success.
  \<^item> Worker: src/cmd/jcs-offline-worker/main.go; Worker_Spec and Worker_Claims: paths, digests, vectors, evidence.
  \<^item> Offline_Cmds, Harness_Data, Harness: src/cmd/jcs-offline-replay (main.go and offline_harness.go). Offline_Spec: verdicts of
    the audit and the preflight, and through which states a suite and a comparison pass to success; Offline_Total: rules for steps that succeed; Offline_Sample: an environment in which
    a whole suite succeeds; Offline_Claims: the properties.
  \<^item> Gate: src/cmd/jcs-gate/main.go.

  \<^bold>\<open>Correspondence.\<close> A Go struct is a record, an error a value of a sum or an option, a nil pointer \<open>None\<close>, a map a finite
  map or a function to an option. \<^verbatim>\<open>int\<close> is \<open>int\<close> or \<open>nat\<close> where the limits keep it small; bytes, UTF-16 units and doubles
  are words of their width. The value of a definition is that of the function of the same name; names that clash carry a
  prefix (\<open>container_\<close>, \<open>libvirt_\<close>, \<open>worker_\<close>, \<open>offline_\<close>, \<open>gate_\<close>). A loop is a recursive function, named after what it does.
  All recursions terminate; none of them uses fuel. The loop that fixes up the decimal exponent (\<open>applyLowFixup\<close>), which could
  run for ever, is a partial function into options, and \<open>FormatDouble_total\<close> proves that it ends.

  \<^bold>\<open>Parameters.\<close> Code outside the repository is an argument of the definitions: what \<^verbatim>\<open>fmt\<close> prints for an error or a quoted string;
  \<^verbatim>\<open>math.Log2\<close> and the rounding of \<open>estimateK\<close> (record \<open>fmath\<close>, assumed \<open>accurate\<close>: an error below 1/4 for the logarithm
  and 1/1000 for the arithmetic); the file system, processes and environment variables (state \<open>'w\<close> or \<open>'f\<close> with the calls in the records
  \<open>replay_env\<close>, \<open>bundle_env\<close>, \<open>worker_env\<close>, \<open>offline_env\<close>, \<open>harness_env\<close> and \<open>host\<close>); SHA-256, the JSON coders and the readers
  and writers of tar and gzip. Theorems that need more of them say so (\<open>file_laws\<close>, \<open>keeps_vectors\<close>, \<open>journals\<close>), and each has a
  witness in a concrete environment. \<^verbatim>\<open>sort.Slice\<close> is the result every sort by the comparison has when no two elements tie.

  \<^bold>\<open>Interfaces.\<close> \<open>prefix_code\<close> (a code whose words do not begin one another; both UTF encodings), \<open>sort_order\<close> (what a sort asks of its
  comparison; the members of an object), \<open>command_adapter\<close> (an adapter runs the configured commands; both runtimes) and
  \<open>preflight_check\<close> (a check only adds to the counters and reports a bad item; images and machines).

  \<^bold>\<open>What the theorems show.\<close> The parser accepts exactly the JSON texts within the limits and returns their value; its errors have a
  class of the input and an offset inside it. Canonicalization never fails after parsing, is idempotent, keeps the value,
  and gives two inputs the same bytes exactly when they denote the same value. Numbers have the shortest text that reads
  back. jcs-canon writes the canonical text or nothing, and verify accepts just the canonical inputs. A replay runs the scheduled
  commands, its evidence is what the lanes left and meets the specification, and the gate accepts just such evidence; the worker writes only below its directory
  and runs nothing unverified; a suite succeeds only after the evidence its own replay wrote was verified, cross-arch only after both suites did and their aggregates
  agree; the gate runner stops at the first failure.
  Several theorems record where the code does not do what one would expect: the depth limit of the serializer
  (\<open>depth_bounds_differ\<close>), suites with commas (\<open>comma_suites_accepted\<close>), profiles without the release gate
  (\<open>RunMatrix_needs_gate\<close>), optional nodes in the audit (\<open>optional_node_drift\<close>).

  \<^bold>\<open>Not modelled.\<close> The functions \<^verbatim>\<open>main\<close>, which pass arguments, streams and the exit code on; contexts and deadlines, which only
  reach child processes; what a failing writer does to a child process; deferred \<^verbatim>\<open>Close\<close> calls, whose errors the code drops; the clock (a parameter); the pool of scratch
  numbers of jcsfloat, which only avoids allocations; tests, fuzzers, benchmarks and the conformance harness.
\<close>

end
